(* ===== verification/Prelude.thy ===== *)
theory Prelude
  imports Main "HOL-Library.Word"
begin

text \<open>
  Vocabulary shared by every component of the development: the value of a fallible Rust
  function as a sum (\<open>Inl\<close> is \<open>Err\<close>, \<open>Inr\<close> is \<open>Ok\<close>), Rust's \<open>Ordering\<close>, ASCII case folding of
  byte strings, the iterator adaptors \<open>find_map\<close>, \<open>min_by_key\<close> and \<open>max_by_key\<close> with the tie
  breaking that Rust documents, saturating arithmetic on machine words, and the collections of
  simplification rules the component theories add to.
\<close>

named_theorems fold_case_simps \<open>facts on ASCII case folding\<close>
named_theorems getter_simps \<open>reads of updated configuration and message records\<close>

type_synonym ('a, 'e) result = "'e + 'a"

type_synonym u8 = "8 word"
type_synonym u16 = "16 word"
type_synonym u32 = "32 word"
type_synonym u64 = "64 word"
type_synonym usize = "64 word"

section \<open>Results and options\<close>

fun result_bind :: "('a, 'e) result \<Rightarrow> ('a \<Rightarrow> ('b, 'e) result) \<Rightarrow> ('b, 'e) result" where
  "result_bind (Inl e) f = Inl e"
| "result_bind (Inr a) f = f a"

fun is_ok :: "('a, 'e) result \<Rightarrow> bool" where
  "is_ok (Inl e) = False"
| "is_ok (Inr a) = True"

fun or_else :: "'a option \<Rightarrow> 'a option \<Rightarrow> 'a option" where
  "or_else (Some a) b = Some a"
| "or_else None b = b"

fun unwrap_or :: "'a option \<Rightarrow> 'a \<Rightarrow> 'a" where
  "unwrap_or (Some a) d = a"
| "unwrap_or None d = d"

fun option_filter :: "('a \<Rightarrow> bool) \<Rightarrow> 'a option \<Rightarrow> 'a option" where
  "option_filter P None = None"
| "option_filter P (Some a) = (if P a then Some a else None)"

lemma or_else_None_right [simp]: "or_else x None = x"
  by (cases x) simp_all

lemma or_else_Some_right [simp]: "or_else x (Some a) = Some (unwrap_or x a)"
  by (cases x) simp_all

lemma or_else_assoc: "or_else (or_else a b) c = or_else a (or_else b c)"
  by (cases a) simp_all

lemma or_else_eq_None [simp]: "or_else a b = None \<longleftrightarrow> a = None \<and> b = None"
  by (cases a) simp_all

lemma unwrap_or_or_else [simp]: "unwrap_or (or_else a b) d = unwrap_or a (unwrap_or b d)"
  by (cases a) simp_all

lemma option_filter_SomeD: "option_filter P x = Some a \<Longrightarrow> x = Some a \<and> P a"
  by (cases x) (auto split: if_splits)

lemma result_bind_Inr_iff:
  "result_bind r f = Inr b \<longleftrightarrow> (\<exists>a. r = Inr a \<and> f a = Inr b)"
  by (cases r) auto

section \<open>Iterators\<close>

fun find_map :: "('a \<Rightarrow> 'b option) \<Rightarrow> 'a list \<Rightarrow> 'b option" where
  "find_map f [] = None"
| "find_map f (x # xs) = (case f x of Some y \<Rightarrow> Some y | None \<Rightarrow> find_map f xs)"

lemma find_map_None_iff: "find_map f xs = None \<longleftrightarrow> (\<forall>x \<in> set xs. f x = None)"
  by (induction xs) (auto split: option.splits)

lemma find_map_SomeD: "find_map f xs = Some y \<Longrightarrow> \<exists>x \<in> set xs. f x = Some y"
  by (induction xs) (auto split: option.splits)

lemma find_map_append: "find_map f (xs @ ys) = or_else (find_map f xs) (find_map f ys)"
  by (induction xs) (auto split: option.splits)

text \<open>\<open>Iterator::min_by_key\<close> returns the first of several equally minimal elements,
  \<open>max_by_key\<close> the last of several equally maximal ones.\<close>

fun min_by_key :: "('a \<Rightarrow> 'k::linorder) \<Rightarrow> 'a list \<Rightarrow> 'a option" where
  "min_by_key f [] = None"
| "min_by_key f (x # xs) =
     (case min_by_key f xs of
        None \<Rightarrow> Some x
      | Some y \<Rightarrow> if f x \<le> f y then Some x else Some y)"

fun max_by_key :: "('a \<Rightarrow> 'k::linorder) \<Rightarrow> 'a list \<Rightarrow> 'a option" where
  "max_by_key f [] = None"
| "max_by_key f (x # xs) =
     (case max_by_key f xs of
        None \<Rightarrow> Some x
      | Some y \<Rightarrow> if f x \<le> f y then Some y else Some x)"

lemma min_by_key_None_iff [simp]: "min_by_key f xs = None \<longleftrightarrow> xs = []"
  by (cases xs) (auto split: option.splits)

lemma max_by_key_None_iff [simp]: "max_by_key f xs = None \<longleftrightarrow> xs = []"
  by (cases xs) (auto split: option.splits)

lemma min_by_key_least:
  "min_by_key f xs = Some x \<Longrightarrow> x \<in> set xs \<and> (\<forall>y \<in> set xs. f x \<le> f y)"
proof (induction xs arbitrary: x)
  case Nil
  then show ?case by simp
next
  case (Cons a xs)
  show ?case
  proof (cases "min_by_key f xs")
    case None
    then show ?thesis using Cons.prems by simp
  next
    case (Some y)
    then show ?thesis using Cons.IH [OF Some] Cons.prems by (fastforce split: if_splits)
  qed
qed

lemma max_by_key_greatest:
  "max_by_key f xs = Some x \<Longrightarrow> x \<in> set xs \<and> (\<forall>y \<in> set xs. f y \<le> f x)"
proof (induction xs arbitrary: x)
  case Nil
  then show ?case by simp
next
  case (Cons a xs)
  show ?case
  proof (cases "max_by_key f xs")
    case None
    then show ?thesis using Cons.prems by simp
  next
    case (Some y)
    then show ?thesis using Cons.IH [OF Some] Cons.prems by (fastforce split: if_splits)
  qed
qed

lemma filter_length_eq_iff: "length (filter P xs) = length xs \<longleftrightarrow> (\<forall>x \<in> set xs. P x)"
  by (metis filter_True length_filter_less order_less_irrefl)

section \<open>Orderings\<close>

datatype rs_ordering = OLess | OEqual | OGreater

definition rs_cmp :: "'a::linorder \<Rightarrow> 'a \<Rightarrow> rs_ordering" where
  "rs_cmp a b = (if a < b then OLess else if a = b then OEqual else OGreater)"

fun then_with :: "rs_ordering \<Rightarrow> rs_ordering \<Rightarrow> rs_ordering" where
  "then_with OEqual o2 = o2"
| "then_with OLess o2 = OLess"
| "then_with OGreater o2 = OGreater"

fun rs_reverse :: "rs_ordering \<Rightarrow> rs_ordering" where
  "rs_reverse OLess = OGreater"
| "rs_reverse OEqual = OEqual"
| "rs_reverse OGreater = OLess"

lemma rs_cmp_eq_iff [simp]: "rs_cmp a b = OEqual \<longleftrightarrow> a = b"
  by (simp add: rs_cmp_def)

lemma rs_cmp_less_iff [simp]: "rs_cmp a b = OLess \<longleftrightarrow> a < b"
  by (simp add: rs_cmp_def)

lemma rs_cmp_reverse: "rs_reverse (rs_cmp a b) = rs_cmp b a"
  by (auto simp: rs_cmp_def)

lemma then_with_eq_iff [simp]: "then_with a b = OEqual \<longleftrightarrow> a = OEqual \<and> b = OEqual"
  by (cases a) simp_all

lemma rs_reverse_then_with [simp]:
  "rs_reverse (then_with a b) = then_with (rs_reverse a) (rs_reverse b)"
  by (cases a) simp_all

section \<open>ASCII case folding\<close>

definition lower_char :: "char \<Rightarrow> char" where
  "lower_char c =
     (if 65 \<le> (of_char c :: nat) \<and> (of_char c :: nat) \<le> 90 then char_of ((of_char c :: nat) + 32)
      else c)"

definition lower_str :: "string \<Rightarrow> string" where
  "lower_str s = List.map lower_char s"

lemma of_lower_char:
  "(of_char (lower_char c) :: nat) =
     (if 65 \<le> (of_char c :: nat) \<and> (of_char c :: nat) \<le> 90 then of_char c + 32 else of_char c)"
  by (simp add: lower_char_def)

lemma lower_char_idem [fold_case_simps, simp]: "lower_char (lower_char c) = lower_char c"
proof -
  have "\<not> (65 \<le> (of_char (lower_char c) :: nat) \<and> (of_char (lower_char c) :: nat) \<le> 90)"
    by (auto simp: of_lower_char)
  then show ?thesis by (subst lower_char_def) (simp only: if_False)
qed

lemma lower_str_idem [fold_case_simps, simp]: "lower_str (lower_str s) = lower_str s"
  by (simp add: lower_str_def)

lemma length_lower_str [fold_case_simps, simp]: "length (lower_str s) = length s"
  by (simp add: lower_str_def)

lemma lower_str_Nil_iff [fold_case_simps, simp]: "lower_str s = [] \<longleftrightarrow> s = []"
  by (simp add: lower_str_def)

lemma map_lower_str_idem [fold_case_simps, simp]:
  "List.map lower_str (List.map lower_str ls) = List.map lower_str ls"
  by simp

section \<open>Machine words\<close>

definition sat_sub :: "'a::len word \<Rightarrow> 'a word \<Rightarrow> 'a word" where
  "sat_sub a b = (if b \<le> a then a - b else 0)"

definition sat_add :: "'a::len word \<Rightarrow> 'a word \<Rightarrow> 'a word" where
  "sat_add a b = (if unat a + unat b < 2 ^ LENGTH('a) then a + b else - 1)"

definition clamp :: "'a::linorder \<Rightarrow> 'a \<Rightarrow> 'a \<Rightarrow> 'a" where
  "clamp lo hi x = max lo (min hi x)"

lemma unat_sat_sub: "unat (sat_sub a b) = unat a - unat b"
  by (auto simp: sat_sub_def unat_sub word_le_nat_alt)

lemma unat_sat_add: "unat (sat_add (a :: 'a::len word) b) = min (2 ^ LENGTH('a) - 1) (unat a + unat b)"
proof (cases "unat a + unat b < 2 ^ LENGTH('a)")
  case True
  then have "unat a + unat b \<le> 2 ^ LENGTH('a) - 1" by simp
  with True show ?thesis by (simp add: sat_add_def unat_word_ariths)
next
  case False
  then show ?thesis by (simp add: sat_add_def unsigned_minus_1_eq_mask mask_eq_exp_minus_1)
qed

lemma unat_Suc_pred: "(w :: 'a::len word) \<noteq> 0 \<Longrightarrow> unat w = Suc (unat (w - 1))"
  using unat_minus_one [of w] unat_gt_0 [of w] by simp

lemma clamp_bounds: "lo \<le> hi \<Longrightarrow> lo \<le> clamp lo hi x \<and> clamp lo hi x \<le> hi"
  by (auto simp: clamp_def)

lemma clamp_id: "lo \<le> x \<Longrightarrow> x \<le> hi \<Longrightarrow> clamp lo hi x = x"
  by (auto simp: clamp_def)

end
