(* ===== verification/Net_Addr.thy ===== *)
theory Net_Addr
  imports Prelude
begin

unbundle bit_operations_syntax

text \<open>
  IP addresses as the Rust standard library has them: \<open>IpAddr\<close> is an IPv4 address of 32 bits or
  an IPv6 address of 128 bits. The theory holds the observations the server makes of them
  (octets, loopback, private ranges, the IPv4 address mapped into an IPv6 one) and the
  normalisation that \<open>dns_mw.rs\<close>, \<open>trusted_proxy.rs\<close> and \<open>server/limit.rs\<close> each declare.
\<close>

datatype ip_addr = IpV4 "32 word" | IpV6 "128 word"

instantiation ip_addr :: linorder
begin

fun less_eq_ip_addr :: "ip_addr \<Rightarrow> ip_addr \<Rightarrow> bool" where
  "less_eq_ip_addr (IpV4 a) (IpV4 b) = (a \<le> b)"
| "less_eq_ip_addr (IpV4 a) (IpV6 b) = True"
| "less_eq_ip_addr (IpV6 a) (IpV4 b) = False"
| "less_eq_ip_addr (IpV6 a) (IpV6 b) = (a \<le> b)"

definition less_ip_addr :: "ip_addr \<Rightarrow> ip_addr \<Rightarrow> bool" where
  "less_ip_addr a b = (a \<le> b \<and> \<not> b \<le> a)"

instance
proof
  fix x y z :: ip_addr
  show "(x < y) = (x \<le> y \<and> \<not> y \<le> x)" by (simp add: less_ip_addr_def)
  show "x \<le> x" by (cases x) simp_all
  show "x \<le> y \<Longrightarrow> y \<le> z \<Longrightarrow> x \<le> z" by (cases x; cases y; cases z) simp_all
  show "x \<le> y \<Longrightarrow> y \<le> x \<Longrightarrow> x = y" by (cases x; cases y) simp_all
  show "x \<le> y \<or> y \<le> x" by (cases x; cases y) auto
qed

end

section \<open>Octets and classes of addresses\<close>

definition octet :: "nat \<Rightarrow> 'a::len word \<Rightarrow> 8 word" where
  "octet i w = ucast (drop_bit (8 * i) w)"

definition octets4 :: "32 word \<Rightarrow> 8 word list" where
  "octets4 w = List.map (\<lambda>i. octet i w) [3, 2, 1, 0]"

definition octets6 :: "128 word \<Rightarrow> 8 word list" where
  "octets6 w =
     List.map (\<lambda>i. octet i w) [15, 14, 13, 12, 11, 10, 9, 8, 7, 6, 5, 4, 3, 2, 1, 0]"

definition from_octets4 :: "nat \<Rightarrow> nat \<Rightarrow> nat \<Rightarrow> nat \<Rightarrow> ip_addr" where
  "from_octets4 a b c d = IpV4 (of_nat (((a * 256 + b) * 256 + c) * 256 + d))"

definition is_mapped :: "128 word \<Rightarrow> bool" where
  "is_mapped w \<longleftrightarrow> drop_bit 32 w = 0xffff"

definition to_ipv4_mapped :: "128 word \<Rightarrow> 32 word option" where
  "to_ipv4_mapped w = (if is_mapped w then Some (ucast w) else None)"

definition map_v4 :: "32 word \<Rightarrow> 128 word" where
  "map_v4 a = push_bit 32 (mask 16) + ucast a"

fun is_loopback :: "ip_addr \<Rightarrow> bool" where
  "is_loopback (IpV4 a) = (drop_bit 24 a = 127)"
| "is_loopback (IpV6 w) = (w = 1)"

fun is_v4 :: "ip_addr \<Rightarrow> bool" where
  "is_v4 (IpV4 a) = True"
| "is_v4 (IpV6 w) = False"

section \<open>The normalisation of a client's address\<close>

fun normalize_ip :: "ip_addr \<Rightarrow> ip_addr" where
  "normalize_ip (IpV6 w) = (case to_ipv4_mapped w of Some a \<Rightarrow> IpV4 a | None \<Rightarrow> IpV6 w)"
| "normalize_ip (IpV4 a) = IpV4 a"

lemma normalize_ip_idem [simp]: "normalize_ip (normalize_ip a) = normalize_ip a"
  by (cases a) (auto simp: to_ipv4_mapped_def)

lemma normalize_ip_cases:
  "normalize_ip a = IpV6 w \<Longrightarrow> a = IpV6 w \<and> \<not> is_mapped w"
  by (cases a) (auto simp: to_ipv4_mapped_def split: if_splits)

lemma map_v4_bits: "bit (map_v4 a) n \<longleftrightarrow> (if n < 32 then bit a n else n < 48)"
proof -
  have "push_bit 32 (mask 16 :: 128 word) AND ucast a = 0"
    by (rule bit_word_eqI) (auto simp: bit_simps dest: bit_imp_le_length)
  then have "map_v4 a = push_bit 32 (mask 16) OR ucast a"
    unfolding map_v4_def by (rule disjunctive_add_eq_or)
  then show ?thesis by (auto simp: bit_simps dest: bit_imp_le_length)
qed

lemma map_v4_is_mapped: "is_mapped (map_v4 a)"
proof -
  have "drop_bit 32 (map_v4 a) = mask 16"
    by (rule bit_word_eqI) (auto simp: bit_simps map_v4_bits)
  then show ?thesis by (simp add: is_mapped_def mask_eq_exp_minus_1)
qed

lemma ucast_map_v4: "(ucast (map_v4 a) :: 32 word) = a"
  by (rule bit_word_eqI) (auto simp: bit_simps map_v4_bits)

lemma normalize_ip_map_v4 [simp]: "normalize_ip (IpV6 (map_v4 a)) = IpV4 a"
  by (simp add: to_ipv4_mapped_def map_v4_is_mapped ucast_map_v4)

lemma octet_bit: "bit (octet i w) n \<longleftrightarrow> n < 8 \<and> bit w (8 * i + n)"
  by (simp add: octet_def bit_ucast_iff bit_drop_bit_eq)

lemma octet_eq_iff: "octet i v = octet i w \<longleftrightarrow> (\<forall>n < 8. bit v (8 * i + n) = bit w (8 * i + n))"
  by (auto simp: bit_eq_iff octet_bit)

lemma octets6_prefix_eq_iff:
  "take 8 (octets6 v) = take 8 (octets6 w) \<longleftrightarrow> drop_bit 64 v = drop_bit 64 w"
proof -
  have "take 8 (octets6 v) = take 8 (octets6 w) \<longleftrightarrow> (\<forall>i \<in> {8..<16}. octet i v = octet i w)"
    by (auto simp: octets6_def atLeastLessThan_nat_numeral)
  also have "\<dots> \<longleftrightarrow> (\<forall>m. 64 \<le> m \<and> m < 128 \<longrightarrow> bit v m = bit w m)"
  proof
    assume o: "\<forall>i \<in> {8..<16}. octet i v = octet i w"
    have "bit v m = bit w m" if "64 \<le> m" "m < 128" for m
    proof -
      from that have "m div 8 \<in> {8..<16}" by auto
      with o have "octet (m div 8) v = octet (m div 8) w" by blast
      moreover have "m mod 8 < 8" by simp
      ultimately have "bit v (8 * (m div 8) + m mod 8) = bit w (8 * (m div 8) + m mod 8)"
        unfolding octet_eq_iff by blast
      then show ?thesis by simp
    qed
    then show "\<forall>m. 64 \<le> m \<and> m < 128 \<longrightarrow> bit v m = bit w m" by blast
  qed (auto simp: octet_eq_iff)
  also have "\<dots> \<longleftrightarrow> drop_bit 64 v = drop_bit 64 w"
  proof
    assume h: "\<forall>m. 64 \<le> m \<and> m < 128 \<longrightarrow> bit v m = bit w m"
    show "drop_bit 64 v = drop_bit 64 w"
    proof (rule bit_word_eqI)
      fix n
      show "bit (drop_bit 64 v) n = bit (drop_bit 64 w) n"
        using h [rule_format, of "64 + n"] by (cases "64 + n < 128") (auto simp: bit_drop_bit_eq dest: bit_imp_le_length)
    qed
  next
    assume d: "drop_bit 64 v = drop_bit 64 w"
    show "\<forall>m. 64 \<le> m \<and> m < 128 \<longrightarrow> bit v m = bit w m"
    proof (rule allI, rule impI)
      fix m :: nat assume m: "64 \<le> m \<and> m < 128"
      have "bit (drop_bit 64 v) (m - 64) = bit (drop_bit 64 w) (m - 64)" by (simp only: d)
      then show "bit v m = bit w m" using m by (simp add: bit_drop_bit_eq)
    qed
  qed
  finally show ?thesis .
qed

end
