(* ===== verification/Trusted_Proxy.thy ===== *)
theory Trusted_Proxy
  imports Net_Addr
begin

text \<open>
  The client address behind a trusted reverse proxy (\<open>trusted_proxy.rs\<close>). Membership of an
  address in a network is code of the crate \<open>ipnet\<close> (\<open>net_contains\<close> below), and turning
  one item of the header into an address is the parser of the standard library (\<open>parse_ip\<close> for
  \<open>IpAddr\<close>, \<open>parse_sock\<close> for the address of a \<open>SocketAddr\<close>): all three are parameters, on which
  the theorems put no condition. Splitting the header, trimming its items and the scan are here.
\<close>

datatype client_ip_source = Peer | Forwarded

definition is_forwarded :: "client_ip_source \<Rightarrow> bool" where
  "is_forwarded s = (case s of Forwarded \<Rightarrow> True | Peer \<Rightarrow> False)"

record 'n trusted_proxies =
  tp_nets :: "'n list"

definition tp_contains :: "('n \<Rightarrow> ip_addr \<Rightarrow> bool) \<Rightarrow> 'n trusted_proxies \<Rightarrow> ip_addr \<Rightarrow> bool" where
  "tp_contains net_contains t ip = list_ex (\<lambda>net. net_contains net ip) (tp_nets t)"

definition tp_is_empty :: "'n trusted_proxies \<Rightarrow> bool" where
  "tp_is_empty t = (tp_nets t = [])"

fun split_on :: "char \<Rightarrow> string \<Rightarrow> string list" where
  "split_on c [] = [[]]"
| "split_on c (x # xs) =
     (if x = c then [] # split_on c xs
      else (case split_on c xs of [] \<Rightarrow> [[x]] | (p # ps) \<Rightarrow> (x # p) # ps))"

definition is_space :: "char \<Rightarrow> bool" where
  "is_space c = (let n = (of_char c :: nat) in n = 32 \<or> (9 \<le> n \<and> n \<le> 13))"

definition trim :: "string \<Rightarrow> string" where
  "trim s = rev (dropWhile is_space (rev (dropWhile is_space s)))"

definition parse_item ::
    "(string \<Rightarrow> ip_addr option) \<Rightarrow> (string \<Rightarrow> ip_addr option) \<Rightarrow> string \<Rightarrow> ip_addr option" where
  "parse_item parse_ip parse_sock item =
     (let i = trim item in or_else (parse_ip i) (parse_sock i))"

fun scan_items ::
    "(ip_addr \<Rightarrow> bool) \<Rightarrow> (string \<Rightarrow> ip_addr option) \<Rightarrow> string list \<Rightarrow> ip_addr option" where
  "scan_items trusted parse [] = None"
| "scan_items trusted parse (item # items) =
     (case parse item of
        None \<Rightarrow> scan_items trusted parse items
      | Some candidate \<Rightarrow>
          (let candidate = normalize_ip candidate in
           if trusted candidate then scan_items trusted parse items
           else Some candidate))"

definition resolve_client_ip ::
    "('n \<Rightarrow> ip_addr \<Rightarrow> bool) \<Rightarrow> (string \<Rightarrow> ip_addr option) \<Rightarrow> (string \<Rightarrow> ip_addr option) \<Rightarrow>
     ip_addr \<Rightarrow> string option \<Rightarrow> 'n trusted_proxies \<Rightarrow> ip_addr \<times> client_ip_source" where
  "resolve_client_ip net_contains parse_ip parse_sock peer0 forwarded_for t =
     (let peer = normalize_ip peer0 in
      if \<not> tp_contains net_contains t peer then (peer, Peer)
      else (case forwarded_for of
              None \<Rightarrow> (peer, Peer)
            | Some raw \<Rightarrow>
                (case scan_items (tp_contains net_contains t) (parse_item parse_ip parse_sock)
                        (rev (split_on (CHR '','') raw)) of
                   Some candidate \<Rightarrow> (candidate, Forwarded)
                 | None \<Rightarrow> (peer, Peer))))"

section \<open>Splitting and scanning\<close>

lemma split_on_not_Nil [simp]: "split_on c s \<noteq> []"
  by (cases s) (auto split: list.splits)

lemma split_on_append: "split_on c (xs @ c # ys) = split_on c xs @ split_on c ys"
  by (induction xs) (auto split: list.splits)

lemma scan_items_append:
  "scan_items t p (xs @ ys) = or_else (scan_items t p xs) (scan_items t p ys)"
  by (induction xs) (auto split: option.splits simp: Let_def)

lemma scan_items_Some_iff:
  "scan_items t p xs = Some a \<longleftrightarrow>
     (\<exists>pre item post b. xs = pre @ item # post \<and> p item = Some b \<and> a = normalize_ip b \<and> \<not> t a \<and>
        (\<forall>x \<in> set pre. \<forall>c. p x = Some c \<longrightarrow> t (normalize_ip c)))"
  (is "_ \<longleftrightarrow> ?R xs")
proof (induction xs)
  case Nil
  then show ?case by simp
next
  case (Cons x xs)
  show ?case
  proof (cases "\<exists>b. p x = Some b \<and> \<not> t (normalize_ip b)")
    case True
    then obtain b where b: "p x = Some b" "\<not> t (normalize_ip b)" by blast
    have "?R (x # xs) \<longleftrightarrow> a = normalize_ip b"
    proof
      assume "a = normalize_ip b"
      then show "?R (x # xs)"
        using b by (intro exI [of _ "[]"] exI [of _ x] exI [of _ xs] exI [of _ b]) simp
    qed (use b in \<open>auto simp: Cons_eq_append_conv\<close>)
    then show ?thesis using b by (auto simp: Let_def)
  next
    case False
    then have skip: "\<forall>c. p x = Some c \<longrightarrow> t (normalize_ip c)" by blast
    then have "scan_items t p (x # xs) = scan_items t p xs"
      by (auto simp: Let_def split: option.splits)
    moreover have "?R (x # xs) \<longleftrightarrow> ?R xs"
    proof
      assume "?R (x # xs)"
      then obtain pre item post b where w: "x # xs = pre @ item # post" "p item = Some b"
        "a = normalize_ip b" "\<not> t a" "\<forall>x \<in> set pre. \<forall>c. p x = Some c \<longrightarrow> t (normalize_ip c)"
        by blast
      with False have "pre \<noteq> []" by (cases pre) auto
      with w obtain pre' where "pre = x # pre'" by (cases pre) auto
      with w show "?R xs" by (intro exI [of _ pre'] exI [of _ item] exI [of _ post] exI [of _ b]) auto
    next
      assume "?R xs"
      then show "?R (x # xs)" using skip by (metis append_Cons set_ConsD)
    qed
    ultimately show ?thesis using Cons.IH by simp
  qed
qed

lemma scan_items_rev_Some_iff:
  "scan_items t p (rev ys) = Some a \<longleftrightarrow>
     (\<exists>left item right b. ys = left @ item # right \<and> p item = Some b \<and> a = normalize_ip b \<and>
        \<not> t a \<and> (\<forall>x \<in> set right. \<forall>c. p x = Some c \<longrightarrow> t (normalize_ip c)))"
  (is "?L \<longleftrightarrow> ?R")
proof
  assume ?L
  then obtain pre item post b where w: "rev ys = pre @ item # post" "p item = Some b"
      "a = normalize_ip b" "\<not> t a" "\<forall>x \<in> set pre. \<forall>c. p x = Some c \<longrightarrow> t (normalize_ip c)"
    unfolding scan_items_Some_iff by blast
  from w(1) have "ys = rev post @ item # rev pre" by (metis append_Cons append_assoc append_Nil
        rev.simps(2) rev_append rev_rev_ident)
  with w show ?R
    by (intro exI [of _ "rev post"] exI [of _ item] exI [of _ "rev pre"] exI [of _ b]) simp
next
  assume ?R
  then obtain left item right b where w: "ys = left @ item # right" "p item = Some b"
      "a = normalize_ip b" "\<not> t a" "\<forall>x \<in> set right. \<forall>c. p x = Some c \<longrightarrow> t (normalize_ip c)"
    by blast
  then show ?L unfolding scan_items_Some_iff
    by (intro exI [of _ "rev right"] exI [of _ item] exI [of _ "rev left"] exI [of _ b]) simp
qed

lemma resolve_forwarded_iff:
  "resolve_client_ip net_contains parse_ip parse_sock peer header t = (a, Forwarded) \<longleftrightarrow>
     tp_contains net_contains t (normalize_ip peer) \<and>
     (\<exists>raw. header = Some raw \<and>
        scan_items (tp_contains net_contains t) (parse_item parse_ip parse_sock)
          (rev (split_on (CHR '','') raw)) = Some a)"
  by (auto simp: resolve_client_ip_def Let_def split: option.splits)

section \<open>Properties\<close>

text \<open>A peer outside the trusted list can put anything into \<open>X-Forwarded-For\<close>: the result is
  the (normalised) peer address itself, marked as not forwarded.\<close>

theorem untrusted_peer_ignores_header:
  assumes "\<not> tp_contains net_contains t (normalize_ip peer)"
  shows "resolve_client_ip net_contains parse_ip parse_sock peer header t = (normalize_ip peer, Peer)"
  using assms by (simp add: resolve_client_ip_def)

definition exact_net :: "ip_addr \<Rightarrow> ip_addr \<Rightarrow> bool" where
  "exact_net n ip \<longleftrightarrow> n = ip"

definition demo_parse :: "string \<Rightarrow> ip_addr option" where
  "demo_parse s = (if s = ''9'' then Some (IpV4 9) else if s = ''1'' then Some (IpV4 1) else None)"

theorem untrusted_peer_ignores_header_witness:
  "resolve_client_ip exact_net demo_parse demo_parse (IpV4 7) (Some ''9'') \<lparr>tp_nets = [IpV4 1]\<rparr>
     = (IpV4 7, Peer)"
  using untrusted_peer_ignores_header [of exact_net "\<lparr>tp_nets = [IpV4 1]\<rparr>" "IpV4 7" demo_parse
      demo_parse "Some ''9''"]
  by (simp add: tp_contains_def exact_net_def)

text \<open>C29: exactly when a client can influence the result by what it writes to the left of the part the proxies
  appended: if that part names a client, an address that is not trusted, the prefix changes nothing, whatever it
  holds; if all that part holds is trusted addresses and items that are none, because the client itself is in
  a trusted network, the result is that of the prefix alone.\<close>

theorem forged_prefix_is_harmless:
  "resolve_client_ip net_contains parse_ip parse_sock peer (Some (forged @ CHR '','' # genuine)) t =
     (case resolve_client_ip net_contains parse_ip parse_sock peer (Some genuine) t of
        (a, Forwarded) \<Rightarrow> (a, Forwarded)
      | (_, Peer) \<Rightarrow> resolve_client_ip net_contains parse_ip parse_sock peer (Some forged) t)"
proof -
  let ?trusted = "tp_contains net_contains t" and ?parse = "parse_item parse_ip parse_sock"
  have "scan_items ?trusted ?parse (rev (split_on (CHR '','') (forged @ CHR '','' # genuine))) =
      or_else (scan_items ?trusted ?parse (rev (split_on (CHR '','') genuine)))
        (scan_items ?trusted ?parse (rev (split_on (CHR '','') forged)))"
    by (simp add: split_on_append scan_items_append)
  then show ?thesis by (simp add: resolve_client_ip_def Let_def split: option.split)
qed

theorem forged_prefix_is_harmless_witness:
  "resolve_client_ip exact_net demo_parse demo_parse (IpV4 1)
     (Some (''5, 6'' @ CHR '','' # '' 9 , 1'')) \<lparr>tp_nets = [IpV4 1]\<rparr> = (IpV4 9, Forwarded)"
  unfolding forged_prefix_is_harmless by code_simp

text \<open>C37: a forwarded address is exactly the rightmost item of the header that parses and is not
  itself a trusted proxy; it is in normalised form, and it is only used when the peer is trusted.\<close>

theorem forwarded_is_rightmost_untrusted:
  "resolve_client_ip net_contains parse_ip parse_sock peer header t = (a, Forwarded) \<longleftrightarrow>
     tp_contains net_contains t (normalize_ip peer) \<and>
     (\<exists>raw left item right b. header = Some raw \<and>
        split_on (CHR '','') raw = left @ item # right \<and>
        parse_item parse_ip parse_sock item = Some b \<and> a = normalize_ip b \<and>
        \<not> tp_contains net_contains t a \<and>
        (\<forall>x \<in> set right. \<forall>c. parse_item parse_ip parse_sock x = Some c \<longrightarrow>
           tp_contains net_contains t (normalize_ip c)))"
  unfolding resolve_forwarded_iff scan_items_rev_Some_iff by blast

theorem forwarded_is_rightmost_untrusted_witness:
  "\<exists>raw left item right b. Some ''5, 9 , 1'' = Some raw \<and> split_on (CHR '','') raw = left @ item # right \<and>
     parse_item demo_parse demo_parse item = Some b \<and> IpV4 9 = normalize_ip b"
proof -
  have "resolve_client_ip exact_net demo_parse demo_parse (IpV4 1) (Some ''5, 9 , 1'')
      \<lparr>tp_nets = [IpV4 1]\<rparr> = (IpV4 9, Forwarded)"
    by code_simp
  then show ?thesis unfolding forwarded_is_rightmost_untrusted by blast
qed

end
