(* ===== verification/Limits.thy ===== *)
theory Limits
  imports Net_Addr "HOL-Library.Multiset"
begin

text \<open>
  Admission control (\<open>server/limit.rs\<close>): the connection limiter with its total and its
  per-source budget, the guard that returns a slot when a connection ends, the automatic limits
  computed from the memory of the machine, and the limiter of concurrent queries. Counters are
  machine words (\<open>usize\<close>, 64 bits) and wrap as the atomics do; the theorems show that no
  interleaving makes them wrap. Taking a slot is one step, since the code checks and counts under
  one lock; giving it back is two steps, since \<open>Drop\<close> decrements the total before it takes the
  lock of the per-source map.
\<close>

section \<open>Source keys\<close>

datatype source_key = SrcV4 "32 word" | SrcV6 "8 word list"

definition from_ip :: "ip_addr \<Rightarrow> source_key" where
  "from_ip ip = (case normalize_ip ip of
       IpV4 v4 \<Rightarrow> SrcV4 v4
     | IpV6 v6 \<Rightarrow> SrcV6 (take 8 (octets6 v6)))"

section \<open>The connection limiter\<close>

record limiter =
  cl_max_connections :: usize
  cl_max_per_source :: usize
  cl_current :: usize
  cl_rejected :: usize
  cl_per_source :: "source_key \<Rightarrow> usize option"

record conn_guard =
  cg_key :: source_key
  cg_counted :: bool

definition auto_max_connections :: "u64 \<Rightarrow> usize" where
  "auto_max_connections total_mem =
     clamp 512 16384 (clamp (16 * 1024 * 1024) (512 * 1024 * 1024) (total_mem div 8) div (32 * 1024))"

definition auto_max_per_source :: "usize \<Rightarrow> usize" where
  "auto_max_per_source m = clamp 64 2048 (m div 8)"

definition configured_or :: "usize option \<Rightarrow> usize \<Rightarrow> usize" where
  "configured_or c d = (case c of Some n \<Rightarrow> if n > 0 then n else d | None \<Rightarrow> d)"

definition new_limiter :: "u64 \<Rightarrow> usize option \<Rightarrow> usize option \<Rightarrow> limiter" where
  "new_limiter total_memory configured_max configured_per_source =
     (let m = configured_or configured_max (auto_max_connections total_memory);
          p = configured_or configured_per_source (auto_max_per_source m)
      in \<lparr>cl_max_connections = m, cl_max_per_source = p, cl_current = 0, cl_rejected = 0,
          cl_per_source = (\<lambda>_. None)\<rparr>)"

definition acquire :: "limiter \<Rightarrow> ip_addr \<Rightarrow> limiter \<times> conn_guard option" where
  "acquire l addr =
     (if is_loopback (normalize_ip addr) then
        (l, Some \<lparr>cg_key = from_ip addr, cg_counted = False\<rparr>)
      else
        (let key = from_ip addr;
             entry = unwrap_or (cl_per_source l key) 0
         in if entry \<ge> cl_max_per_source l \<or> cl_current l \<ge> cl_max_connections l then
              (l\<lparr>cl_per_source := (cl_per_source l)(key \<mapsto> entry),
                 cl_rejected := cl_rejected l + 1\<rparr>, None)
            else
              (l\<lparr>cl_per_source := (cl_per_source l)(key \<mapsto> entry + 1),
                 cl_current := cl_current l + 1\<rparr>,
               Some \<lparr>cg_key = key, cg_counted = True\<rparr>)))"

definition drop_current :: "limiter \<Rightarrow> limiter" where
  "drop_current l = l\<lparr>cl_current := cl_current l - 1\<rparr>"

definition drop_entry :: "source_key \<Rightarrow> limiter \<Rightarrow> limiter" where
  "drop_entry k l =
     (case cl_per_source l k of
        None \<Rightarrow> l
      | Some n \<Rightarrow>
          (let n = n - 1 in
           if n = 0 then l\<lparr>cl_per_source := (cl_per_source l)(k := None)\<rparr>
           else l\<lparr>cl_per_source := (cl_per_source l)(k \<mapsto> n)\<rparr>))"

definition drop_guard :: "conn_guard \<Rightarrow> limiter \<Rightarrow> limiter" where
  "drop_guard g l = (if \<not> cg_counted g then l else drop_entry (cg_key g) (drop_current l))"

definition stats :: "limiter \<Rightarrow> usize \<times> usize \<times> usize" where
  "stats l = (cl_current l, cl_rejected l, cl_max_connections l)"

section \<open>Interleavings of connections\<close>

record conn_world =
  cw_lim :: limiter
  cw_live :: "conn_guard multiset"
  cw_closing :: "source_key multiset"

definition conn_start :: "limiter \<Rightarrow> conn_world" where
  "conn_start l = \<lparr>cw_lim = l, cw_live = {#}, cw_closing = {#}\<rparr>"

inductive conn_step :: "conn_world \<Rightarrow> conn_world \<Rightarrow> bool" where
  accept: "acquire (cw_lim w) ip = (l', Some g) \<Longrightarrow>
    conn_step w (w\<lparr>cw_lim := l', cw_live := add_mset g (cw_live w)\<rparr>)"
| refuse: "acquire (cw_lim w) ip = (l', None) \<Longrightarrow> conn_step w (w\<lparr>cw_lim := l'\<rparr>)"
| drop_uncounted: "g \<in># cw_live w \<Longrightarrow> \<not> cg_counted g \<Longrightarrow>
    conn_step w (w\<lparr>cw_live := cw_live w - {#g#}\<rparr>)"
| drop_first: "g \<in># cw_live w \<Longrightarrow> cg_counted g \<Longrightarrow>
    conn_step w (w\<lparr>cw_lim := drop_current (cw_lim w), cw_live := cw_live w - {#g#},
                   cw_closing := add_mset (cg_key g) (cw_closing w)\<rparr>)"
| drop_second: "k \<in># cw_closing w \<Longrightarrow>
    conn_step w (w\<lparr>cw_lim := drop_entry k (cw_lim w), cw_closing := cw_closing w - {#k#}\<rparr>)"

inductive conn_reach :: "limiter \<Rightarrow> conn_world \<Rightarrow> bool" for l where
  start: "conn_reach l (conn_start l)"
| step: "conn_reach l w \<Longrightarrow> conn_step w w' \<Longrightarrow> conn_reach l w'"

definition counted_keys :: "conn_world \<Rightarrow> source_key multiset" where
  "counted_keys w = image_mset cg_key (filter_mset cg_counted (cw_live w))"

definition held_by :: "limiter \<Rightarrow> source_key \<Rightarrow> nat" where
  "held_by l k = (case cl_per_source l k of Some n \<Rightarrow> unat n | None \<Rightarrow> 0)"

definition limiter_inv :: "conn_world \<Rightarrow> bool" where
  "limiter_inv w \<longleftrightarrow>
     unat (cl_current (cw_lim w)) = size (counted_keys w) \<and>
     cl_current (cw_lim w) \<le> cl_max_connections (cw_lim w) \<and>
     (\<forall>k. held_by (cw_lim w) k = count (counted_keys w) k + count (cw_closing w) k \<and>
          count (counted_keys w) k + count (cw_closing w) k \<le> unat (cl_max_per_source (cw_lim w)))"

section \<open>Lemmas\<close>

lemma counted_keys_simps [simp]:
  "counted_keys (w\<lparr>cw_lim := l\<rparr>) = counted_keys w"
  "counted_keys (w\<lparr>cw_closing := c\<rparr>) = counted_keys w"
  "counted_keys (w\<lparr>cw_lim := l, cw_live := m\<rparr>) = counted_keys (w\<lparr>cw_live := m\<rparr>)"
  "counted_keys (w\<lparr>cw_live := add_mset g m\<rparr>) =
     (if cg_counted g then add_mset (cg_key g) (counted_keys (w\<lparr>cw_live := m\<rparr>))
      else counted_keys (w\<lparr>cw_live := m\<rparr>))"
  by (simp_all add: counted_keys_def)

lemma counted_keys_live_id [simp]: "counted_keys (w\<lparr>cw_live := cw_live w\<rparr>) = counted_keys w"
  by (simp add: counted_keys_def)

lemma counted_keys_remove:
  assumes "g \<in># cw_live w"
  shows "counted_keys w =
    (if cg_counted g then add_mset (cg_key g) (counted_keys (w\<lparr>cw_live := cw_live w - {#g#}\<rparr>))
     else counted_keys (w\<lparr>cw_live := cw_live w - {#g#}\<rparr>))"
proof -
  obtain m where "cw_live w = add_mset g m" using assms by (metis multi_member_split)
  then show ?thesis by (simp add: counted_keys_def)
qed

lemma unat_plus_one: "x < y \<Longrightarrow> unat (x + 1 :: usize) = unat x + 1"
proof -
  assume "x < y"
  then have "unat x + 1 < 2 ^ LENGTH(64)"
    using unsigned_less [of y, where 'a = nat] by (simp add: word_less_nat_alt)
  then show ?thesis by (simp add: unat_word_ariths)
qed

lemma unat_minus_one: "unat x \<noteq> 0 \<Longrightarrow> unat (x - 1 :: usize) = unat x - 1"
  by (metis One_nat_def Suc_leI gr0I unat_1 unat_sub word_le_nat_alt)

lemma held_by_upd:
  "held_by (l\<lparr>cl_per_source := (cl_per_source l)(k \<mapsto> n)\<rparr>) j = (if j = k then unat n else held_by l j)"
  by (simp add: held_by_def)

lemma held_by_other [simp]:
  "held_by (l\<lparr>cl_current := c\<rparr>) j = held_by l j"
  "held_by (l\<lparr>cl_rejected := c\<rparr>) j = held_by l j"
  by (simp_all add: held_by_def)

lemma held_by_drop_entry:
  assumes "held_by l k \<noteq> 0"
  shows "held_by (drop_entry k l) j = (if j = k then held_by l k - 1 else held_by l j)"
proof -
  obtain n where n: "cl_per_source l k = Some n" "unat n \<noteq> 0"
    using assms by (auto simp: held_by_def split: option.splits)
  have m: "unat (n - 1) = unat n - 1" using n(2) by (rule unat_minus_one)
  show ?thesis
  proof (cases "n - 1 = 0")
    case True
    then have "unat n - 1 = 0" using m by simp
    with True n show ?thesis by (simp add: drop_entry_def held_by_def)
  next
    case False
    with n m show ?thesis by (simp add: drop_entry_def held_by_def)
  qed
qed

lemma drop_entry_limits [simp]:
  "cl_current (drop_entry k l) = cl_current l"
  "cl_max_connections (drop_entry k l) = cl_max_connections l"
  "cl_max_per_source (drop_entry k l) = cl_max_per_source l"
  by (simp_all add: drop_entry_def Let_def split: option.splits)

lemma acquire_counted:
  assumes "acquire l ip = (l', Some g)" "cg_counted g"
  shows "cl_current l < cl_max_connections l"
    "held_by l (cg_key g) < unat (cl_max_per_source l)"
    "cl_current l' = cl_current l + 1"
    "held_by l' j = (if j = cg_key g then held_by l j + 1 else held_by l j)"
    "cl_max_connections l' = cl_max_connections l" "cl_max_per_source l' = cl_max_per_source l"
proof -
  let ?e = "unwrap_or (cl_per_source l (from_ip ip)) 0"
  have nl: "\<not> is_loopback (normalize_ip ip)"
    and lt: "?e < cl_max_per_source l" "cl_current l < cl_max_connections l"
    and g: "cg_key g = from_ip ip"
    and l': "l' = l\<lparr>cl_per_source := (cl_per_source l)(from_ip ip \<mapsto> ?e + 1),
                    cl_current := cl_current l + 1\<rparr>"
    using assms by (auto simp: acquire_def Let_def not_le split: if_splits)
  have h: "held_by l (from_ip ip) = unat ?e"
    by (cases "cl_per_source l (from_ip ip)") (simp_all add: held_by_def)
  show "cl_current l < cl_max_connections l" by (rule lt)
  show "held_by l (cg_key g) < unat (cl_max_per_source l)"
    using lt(1) h g by (simp add: word_less_nat_alt)
  show "held_by l' j = (if j = cg_key g then held_by l j + 1 else held_by l j)"
    using h g unat_plus_one [OF lt(1)] by (simp add: l' held_by_def)
qed (use assms in \<open>auto simp: acquire_def Let_def split: if_splits\<close>)

lemma acquire_uncounted:
  "acquire l ip = (l', Some g) \<Longrightarrow> \<not> cg_counted g \<Longrightarrow> l' = l"
  by (auto simp: acquire_def Let_def split: if_splits)

lemma acquire_refused:
  assumes "acquire l ip = (l', None)"
  shows "cl_current l' = cl_current l" "held_by l' j = held_by l j"
    "cl_max_connections l' = cl_max_connections l" "cl_max_per_source l' = cl_max_per_source l"
  using assms
  by (auto simp: acquire_def Let_def held_by_def split: if_splits option.splits)

lemma limiter_inv_step:
  assumes "conn_step w w'" "limiter_inv w"
  shows "limiter_inv w'"
  using assms
proof (cases rule: conn_step.cases)
  case (accept ip l' g)
  show ?thesis
  proof (cases "cg_counted g")
    case True
    note a = acquire_counted [OF accept(2) True]
    have "unat (cl_current (cw_lim w) + 1) = unat (cl_current (cw_lim w)) + 1"
      using a(1) by (rule unat_plus_one)
    with assms(2) a accept(1) True show ?thesis
      by (auto simp: limiter_inv_def word_le_nat_alt word_less_nat_alt Suc_le_eq)
  next
    case False
    with acquire_uncounted [OF accept(2)] assms(2) accept(1) show ?thesis
      by (simp add: limiter_inv_def)
  qed
next
  case (refuse ip l')
  with acquire_refused [OF refuse(2)] assms(2) show ?thesis by (simp add: limiter_inv_def)
next
  case (drop_uncounted g)
  with counted_keys_remove [of g w] assms(2) show ?thesis by (simp add: limiter_inv_def)
next
  case (drop_first g)
  have ck: "counted_keys w = add_mset (cg_key g) (counted_keys (w\<lparr>cw_live := cw_live w - {#g#}\<rparr>))"
    using counted_keys_remove [of g w] drop_first by simp
  then have nz: "unat (cl_current (cw_lim w)) \<noteq> 0" using assms(2) by (simp add: limiter_inv_def)
  have "unat (cl_current (cw_lim w) - 1) = unat (cl_current (cw_lim w)) - 1"
    using nz by (rule unat_minus_one)
  moreover have h: "held_by (cw_lim w) k = count (counted_keys w) k + count (cw_closing w) k"
      "count (counted_keys w) k + count (cw_closing w) k \<le> unat (cl_max_per_source (cw_lim w))" for k
    using assms(2) by (simp_all add: limiter_inv_def)
  moreover have "count (counted_keys w) k + count (cw_closing w) k
      = count (counted_keys w') k + count (cw_closing w') k" for k
    using ck drop_first by simp
  ultimately show ?thesis
    using drop_first ck assms(2) h
    by (auto simp: limiter_inv_def drop_current_def word_le_nat_alt simp del: count_add_mset)
next
  case (drop_second k)
  have "count (cw_closing w) k > 0" using drop_second by simp
  then have nz: "held_by (cw_lim w) k \<noteq> 0" using assms(2) by (simp add: limiter_inv_def)
  have "count (counted_keys w) k + count (cw_closing w) k \<le> unat (cl_max_per_source (cw_lim w))"
    using assms(2) by (simp add: limiter_inv_def)
  with drop_second assms(2) \<open>count (cw_closing w) k > 0\<close> nz show ?thesis
    by (auto simp: limiter_inv_def held_by_drop_entry) (meson diff_le_self order_trans)
qed

lemma conn_reach_inv: "conn_reach (new_limiter m c p) w \<Longrightarrow> limiter_inv w"
proof (induction rule: conn_reach.induct)
  case start
  then show ?case
    by (simp add: limiter_inv_def conn_start_def new_limiter_def Let_def counted_keys_def held_by_def)
next
  case (step w w')
  then show ?case using limiter_inv_step by blast
qed

lemma conn_step_limits:
  "conn_step w w' \<Longrightarrow> cl_max_connections (cw_lim w') = cl_max_connections (cw_lim w) \<and>
     cl_max_per_source (cw_lim w') = cl_max_per_source (cw_lim w)"
  by (induction rule: conn_step.induct)
    (auto simp: acquire_def drop_current_def Let_def split: if_splits)

lemma conn_reach_limits:
  "conn_reach l w \<Longrightarrow> cl_max_connections (cw_lim w) = cl_max_connections l \<and>
     cl_max_per_source (cw_lim w) = cl_max_per_source l"
proof (induction rule: conn_reach.induct)
  case start
  then show ?case by (simp add: conn_start_def)
next
  case (step w w')
  then show ?case using conn_step_limits by fastforce
qed

lemma count_image_filter: "count (image_mset f M) x = size (filter_mset (\<lambda>y. f y = x) M)"
  by (induction M) simp_all

lemma count_counted_keys:
  "count (counted_keys w) k = size (filter_mset (\<lambda>g. cg_key g = k \<and> cg_counted g) (cw_live w))"
  by (simp add: counted_keys_def count_image_filter filter_filter_mset conj_commute)

lemma refused_fresh_entry:
  assumes "\<not> is_loopback (normalize_ip ip)" "cl_max_connections l \<le> cl_current l"
    "cl_per_source l (from_ip ip) = None"
  shows "fst (acquire l ip) = l\<lparr>cl_per_source := (cl_per_source l)(from_ip ip \<mapsto> 0),
      cl_rejected := cl_rejected l + 1\<rparr>"
  using assms by (simp add: acquire_def Let_def)

section \<open>The query limiter\<close>

record query_limiter =
  ql_in_flight :: usize
  ql_last_warn :: u64

definition warn_once_in_window :: "u64 \<Rightarrow> query_limiter \<Rightarrow> query_limiter" where
  "warn_once_in_window now l =
     (if sat_sub now (ql_last_warn l) < 120 then l else l\<lparr>ql_last_warn := now\<rparr>)"

definition fetch_add_one :: "query_limiter \<Rightarrow> query_limiter" where
  "fetch_add_one l = l\<lparr>ql_in_flight := ql_in_flight l + 1\<rparr>"

definition fetch_sub_one :: "query_limiter \<Rightarrow> query_limiter" where
  "fetch_sub_one l = l\<lparr>ql_in_flight := ql_in_flight l - 1\<rparr>"

datatype query_admission = Allowed | Refused

definition admit :: "query_limiter \<Rightarrow> usize \<Rightarrow> bool \<Rightarrow> u64 \<Rightarrow> query_limiter \<times> query_admission" where
  "admit l limit is_background now =
     (if is_background \<or> limit = 0 then (fetch_add_one l, Allowed)
      else
        (let l1 = fetch_add_one l in
         if ql_in_flight l1 > limit then (warn_once_in_window now (fetch_sub_one l1), Refused)
         else (l1, Allowed)))"

text \<open>Interleavings: the two atomic operations of a refused query are separate steps, so other
  queries can run between them. A query is an object in memory, so fewer than \<open>2 ^ 64\<close> of them
  are in the pipeline at any time.\<close>

record query_world =
  qw_in_flight :: usize
  qw_clients :: nat
  qw_background :: nat
  qw_refusing :: nat

definition qw_total :: "query_world \<Rightarrow> nat" where
  "qw_total w = qw_clients w + qw_background w + qw_refusing w"

inductive query_step :: "usize \<Rightarrow> query_world \<Rightarrow> query_world \<Rightarrow> bool" for limit where
  enter_background: "qw_total w + 1 < 2 ^ 64 \<Longrightarrow>
    query_step limit w (w\<lparr>qw_in_flight := qw_in_flight w + 1, qw_background := qw_background w + 1\<rparr>)"
| enter_allowed: "qw_total w + 1 < 2 ^ 64 \<Longrightarrow> limit = 0 \<or> \<not> qw_in_flight w + 1 > limit \<Longrightarrow>
    query_step limit w (w\<lparr>qw_in_flight := qw_in_flight w + 1, qw_clients := qw_clients w + 1\<rparr>)"
| enter_refused: "qw_total w + 1 < 2 ^ 64 \<Longrightarrow> limit \<noteq> 0 \<Longrightarrow> qw_in_flight w + 1 > limit \<Longrightarrow>
    query_step limit w (w\<lparr>qw_in_flight := qw_in_flight w + 1, qw_refusing := qw_refusing w + 1\<rparr>)"
| refused_gives_back: "qw_refusing w > 0 \<Longrightarrow>
    query_step limit w (w\<lparr>qw_in_flight := qw_in_flight w - 1, qw_refusing := qw_refusing w - 1\<rparr>)"
| client_done: "qw_clients w > 0 \<Longrightarrow>
    query_step limit w (w\<lparr>qw_in_flight := qw_in_flight w - 1, qw_clients := qw_clients w - 1\<rparr>)"
| background_done: "qw_background w > 0 \<Longrightarrow>
    query_step limit w (w\<lparr>qw_in_flight := qw_in_flight w - 1, qw_background := qw_background w - 1\<rparr>)"

inductive query_reach :: "usize \<Rightarrow> query_world \<Rightarrow> bool" for limit where
  start: "query_reach limit \<lparr>qw_in_flight = 0, qw_clients = 0, qw_background = 0, qw_refusing = 0\<rparr>"
| step: "query_reach limit w \<Longrightarrow> query_step limit w w' \<Longrightarrow> query_reach limit w'"

definition query_inv :: "usize \<Rightarrow> query_world \<Rightarrow> bool" where
  "query_inv limit w \<longleftrightarrow>
     unat (qw_in_flight w) = qw_total w \<and> (limit \<noteq> 0 \<longrightarrow> qw_clients w \<le> unat limit)"

lemma unat_succ: "unat (x :: usize) + 1 < 2 ^ 64 \<Longrightarrow> unat (x + 1) = unat x + 1"
  by (simp add: unat_word_ariths)

lemma query_inv_step: "query_step limit w w' \<Longrightarrow> query_inv limit w \<Longrightarrow> query_inv limit w'"
proof (induction rule: query_step.induct)
  case (enter_allowed w)
  then have "unat (qw_in_flight w + 1) = unat (qw_in_flight w) + 1"
    by (intro unat_succ) (simp add: query_inv_def)
  with enter_allowed show ?case
    by (auto simp: query_inv_def qw_total_def word_less_nat_alt)
qed (auto simp: query_inv_def qw_total_def unat_succ unat_minus_one)

lemma query_reach_inv: "query_reach limit w \<Longrightarrow> query_inv limit w"
proof (induction rule: query_reach.induct)
  case start
  then show ?case by (simp add: query_inv_def qw_total_def)
next
  case (step w w')
  then show ?case using query_inv_step by blast
qed

section \<open>Properties\<close>

text \<open>C2: in every interleaving of accepted, refused and closing connections, the number of
  connections that hold a slot never exceeds the total limit, a single source (an IPv4 address, or
  an IPv6 /64) never holds more than the per-source limit, and the counter of the limiter is exactly
  the number of slots held, so it neither drifts nor wraps around.\<close>

theorem connection_budget_respected:
  assumes "conn_reach (new_limiter total_memory c p) w"
  shows "size (filter_mset cg_counted (cw_live w))
           \<le> unat (cl_max_connections (new_limiter total_memory c p)) \<and>
         size (filter_mset (\<lambda>g. cg_key g = k \<and> cg_counted g) (cw_live w))
           \<le> unat (cl_max_per_source (new_limiter total_memory c p)) \<and>
         unat (cl_current (cw_lim w)) = size (filter_mset cg_counted (cw_live w))"
proof -
  have i: "limiter_inv w" using assms by (rule conn_reach_inv)
  have sz: "size (counted_keys w) = size (filter_mset cg_counted (cw_live w))"
    by (simp add: counted_keys_def)
  have k: "count (counted_keys w) k \<le> unat (cl_max_per_source (cw_lim w))"
    using i unfolding limiter_inv_def by (meson add_leE)
  show ?thesis
    using i k sz conn_reach_limits [OF assms]
    by (simp add: limiter_inv_def count_counted_keys word_le_nat_alt)
qed

text \<open>A limit of two, one for each source: a first connection is accepted, a second one of the same source
  refused, and one of another source accepted, which fills the total.\<close>

theorem connection_budget_respected_witness:
  "\<exists>w. conn_reach (new_limiter 0 (Some 2) (Some 1)) w \<and> size (filter_mset cg_counted (cw_live w)) = 2 \<and>
     unat (cl_current (cw_lim w)) = 2 \<and> cl_rejected (cw_lim w) = 1"
proof -
  let ?l = "new_limiter 0 (Some 2) (Some 1)" and ?a = "IpV4 9" and ?b = "IpV4 10"
  let ?l1 = "fst (acquire ?l ?a)" let ?l2 = "fst (acquire ?l1 ?a)" let ?l3 = "fst (acquire ?l2 ?b)"
  have s: "snd (acquire ?l ?a) = Some \<lparr>cg_key = from_ip ?a, cg_counted = True\<rparr>" "snd (acquire ?l1 ?a) = None"
    "snd (acquire ?l2 ?b) = Some \<lparr>cg_key = from_ip ?b, cg_counted = True\<rparr>" "cl_rejected ?l3 = 1"
    by code_simp+
  then have g: "acquire ?l ?a = (?l1, Some \<lparr>cg_key = from_ip ?a, cg_counted = True\<rparr>)"
    "acquire ?l1 ?a = (?l2, None)" "acquire ?l2 ?b = (?l3, Some \<lparr>cg_key = from_ip ?b, cg_counted = True\<rparr>)"
    by (simp_all add: prod_eq_iff)
  let ?w1 = "(conn_start ?l)\<lparr>cw_lim := ?l1, cw_live := add_mset \<lparr>cg_key = from_ip ?a, cg_counted = True\<rparr> {#}\<rparr>"
  let ?w3 = "?w1\<lparr>cw_lim := ?l3, cw_live := add_mset \<lparr>cg_key = from_ip ?b, cg_counted = True\<rparr> (cw_live ?w1)\<rparr>"
  have "conn_reach ?l ?w1"
    using conn_step.accept [of "conn_start ?l" ?a] g(1) conn_reach.step [OF conn_reach.start] by (simp add: conn_start_def)
  then have "conn_reach ?l (?w1\<lparr>cw_lim := ?l2\<rparr>)" using conn_step.refuse [of ?w1 ?a] g(2) conn_reach.step by fastforce
  then have r: "conn_reach ?l ?w3"
    using conn_step.accept [of "?w1\<lparr>cw_lim := ?l2\<rparr>" ?b] g(3) conn_reach.step by fastforce
  then show ?thesis using connection_budget_respected [OF r] s(4) by (intro exI [of _ ?w3]) simp
qed

text \<open>A connection of the machine itself is always accepted and takes no slot; any other
  connection is accepted exactly when both its source and the total are below their limits, whatever
  form the address has (an IPv4 address mapped into IPv6 counts as the IPv4 address, and two IPv6
  addresses share a budget exactly when they agree on the first 64 bits).\<close>

theorem acquire_decision:
  "(snd (acquire l ip) = None \<longleftrightarrow>
      \<not> is_loopback (normalize_ip ip) \<and>
      (unat (cl_max_per_source l) \<le> held_by l (from_ip ip) \<or> cl_max_connections l \<le> cl_current l)) \<and>
   (is_loopback (normalize_ip ip) \<longrightarrow> fst (acquire l ip) = l) \<and>
   from_ip (IpV6 (map_v4 a)) = from_ip (IpV4 a) \<and>
   (\<not> is_mapped v6 \<and> \<not> is_mapped w6 \<longrightarrow>
      (from_ip (IpV6 v6) = from_ip (IpV6 w6) \<longleftrightarrow> drop_bit 64 v6 = drop_bit 64 w6))"
proof (intro conjI)
  show "snd (acquire l ip) = None \<longleftrightarrow>
      \<not> is_loopback (normalize_ip ip) \<and>
      (unat (cl_max_per_source l) \<le> held_by l (from_ip ip) \<or> cl_max_connections l \<le> cl_current l)"
    by (cases "cl_per_source l (from_ip ip)")
      (auto simp: acquire_def held_by_def Let_def word_le_nat_alt)
qed (simp_all add: acquire_def from_ip_def to_ipv4_mapped_def octets6_prefix_eq_iff map_v4_is_mapped ucast_map_v4)

theorem acquire_decision_witness:
  "fst (acquire (new_limiter 0 None None) (IpV4 0x7f000001)) = new_limiter 0 None None \<and>
   from_ip (IpV6 (2 ^ 125 + 1)) = from_ip (IpV6 (2 ^ 125 + 2 ^ 63))"
  using acquire_decision [of "new_limiter 0 None None" "IpV4 0x7f000001" 0 "2 ^ 125 + 1" "2 ^ 125 + 2 ^ 63"]
  by (simp add: is_mapped_def)

text \<open>A refused connection leaves an entry with count zero behind, and only the end of a
  connection of the same source removes an entry. While the total limit is reached, every new source
  that is refused therefore adds an entry to the per-source map: \<open>n\<close> refused sources make the map
  grow by \<open>n\<close> entries.\<close>

theorem refused_sources_accumulate:
  assumes "cl_max_connections l \<le> cl_current l" "distinct (List.map from_ip ips)"
    "\<forall>ip \<in> set ips. \<not> is_loopback (normalize_ip ip) \<and> cl_per_source l (from_ip ip) = None"
    "finite (dom (cl_per_source l))"
  shows "card (dom (cl_per_source (foldl (\<lambda>s ip. fst (acquire s ip)) l ips)))
           = card (dom (cl_per_source l)) + length ips"
  using assms
proof (induction ips arbitrary: l)
  case Nil
  then show ?case by simp
next
  case (Cons ip ips)
  let ?l = "fst (acquire l ip)"
  have e: "?l = l\<lparr>cl_per_source := (cl_per_source l)(from_ip ip \<mapsto> 0),
      cl_rejected := cl_rejected l + 1\<rparr>"
    using Cons.prems by (intro refused_fresh_entry) auto
  have "card (dom (cl_per_source (foldl (\<lambda>s ip. fst (acquire s ip)) ?l ips)))
      = card (dom (cl_per_source ?l)) + length ips"
  proof (rule Cons.IH)
    have "from_ip x \<noteq> from_ip ip" if "x \<in> set ips" for x
      using Cons.prems(2) that by (metis distinct.simps(2) image_eqI list.set_map list.simps(9))
    then show "\<forall>x \<in> set ips. \<not> is_loopback (normalize_ip x) \<and> cl_per_source ?l (from_ip x) = None"
      using Cons.prems(3) by (simp add: e)
    show "finite (dom (cl_per_source ?l))" using Cons.prems(4) by (simp add: e fun_upd_def [symmetric])
  qed (use Cons.prems in \<open>simp_all add: e\<close>)
  moreover have "card (dom (cl_per_source ?l)) = card (dom (cl_per_source l)) + 1"
    using Cons.prems by (simp add: e domIff)
  ultimately show ?case by simp
qed

definition full_limiter :: limiter where
  "full_limiter = \<lparr>cl_max_connections = 1, cl_max_per_source = 1, cl_current = 1, cl_rejected = 0,
     cl_per_source = (\<lambda>_. None)\<rparr>"

theorem refused_sources_accumulate_witness:
  "card (dom (cl_per_source (foldl (\<lambda>s ip. fst (acquire s ip)) full_limiter
     [IpV4 0x08080808, IpV4 0x01010101]))) = 2"
  using refused_sources_accumulate [of full_limiter "[IpV4 0x08080808, IpV4 0x01010101]"]
  by (simp add: full_limiter_def from_ip_def)

text \<open>C3: with \<open>max-query-limit\<close> set, no interleaving of the atomic operations lets more
  client queries run at once than the limit, and the counter is always exactly the number of queries
  that entered and have not given their count back.\<close>

theorem query_limit_respected:
  assumes "query_reach limit w"
  shows "(limit = 0 \<or> qw_clients w \<le> unat limit) \<and> unat (qw_in_flight w) = qw_total w"
  using query_reach_inv [OF assms] by (auto simp: query_inv_def)

theorem query_limit_respected_witness:
  "qw_clients \<lparr>qw_in_flight = 1, qw_clients = 1, qw_background = 0, qw_refusing = 0\<rparr> \<le> unat (1 :: usize)"
proof -
  have "query_reach 1 \<lparr>qw_in_flight = 1, qw_clients = 1, qw_background = 0, qw_refusing = 0\<rparr>"
    using query_reach.step [OF query_reach.start, OF query_step.enter_allowed, of 1]
    by (simp add: qw_total_def)
  from query_limit_respected [OF this] show ?thesis by simp
qed

text \<open>Background queries are never refused, but they do take up the budget of the clients:
  once as many background queries are in flight as the limit allows, the next client query is
  refused although no client query is being processed.\<close>

theorem background_occupies_budget:
  assumes "limit \<noteq> 0" "unat limit + 1 < 2 ^ 64" "ql_in_flight l = 0"
  shows "snd (admit l limit True now) = Allowed \<and>
         snd (admit (foldl (\<lambda>s _. fst (admit s limit True now)) l [0..<unat limit]) limit False now)
           = Refused"
proof -
  have f: "ql_in_flight (foldl (\<lambda>s _. fst (admit s limit True now)) l xs)
      = ql_in_flight l + of_nat (length xs)" for xs :: "nat list"
    by (induction xs arbitrary: l) (simp_all add: admit_def fetch_add_one_def)
  have "limit < limit + 1"
    using assms(2) unat_succ [of limit] by (simp add: word_less_nat_alt)
  then show ?thesis using assms f [of "[0..<unat limit]"]
    by (simp add: admit_def fetch_add_one_def Let_def)
qed

theorem background_occupies_budget_witness:
  "snd (admit (foldl (\<lambda>s _. fst (admit s 2 True 0)) \<lparr>ql_in_flight = 0, ql_last_warn = 0\<rparr>
     [0..<unat (2 :: usize)]) 2 False 0) = Refused"
  using background_occupies_budget [of 2 "\<lparr>ql_in_flight = 0, ql_last_warn = 0\<rparr>" 0] by simp

end
