(* ===== verification/Dns_Types.thy ===== *)
theory Dns_Types
  imports Prelude
begin

text \<open>
  Record types, response codes, operation codes and the message header of the vendored DNS
  library (\<open>hickory-dns/crates/proto/src/rr/record_type.rs\<close>, \<open>op/response_code.rs\<close>,
  \<open>op/op_code.rs\<close>, \<open>op/header.rs\<close>), with their conversions to and from machine words and the
  twelve octets of a header on the wire.
\<close>

unbundle bit_operations_syntax

section \<open>Record types\<close>

datatype rtype =
    RT_A
  | RT_AAAA
  | RT_ANAME
  | RT_ANY
  | RT_AXFR
  | RT_CAA
  | RT_CDS
  | RT_CDNSKEY
  | RT_CERT
  | RT_CNAME
  | RT_CSYNC
  | RT_DNSKEY
  | RT_DS
  | RT_HINFO
  | RT_HTTPS
  | RT_IXFR
  | RT_KEY
  | RT_MX
  | RT_NAPTR
  | RT_NS
  | RT_NSEC
  | RT_NSEC3
  | RT_NSEC3PARAM
  | RT_NULL
  | RT_OPENPGPKEY
  | RT_OPT
  | RT_PTR
  | RT_RRSIG
  | RT_SIG
  | RT_SOA
  | RT_SRV
  | RT_SSHFP
  | RT_SVCB
  | RT_TLSA
  | RT_TSIG
  | RT_TXT
  | RT_Unknown u16
  | RT_ZERO

definition rt_of_u16 :: "u16 \<Rightarrow> rtype" where
  "rt_of_u16 v =
     (if v = 1 then RT_A
      else if v = 28 then RT_AAAA
      else if v = 65280 then RT_ANAME
      else if v = 255 then RT_ANY
      else if v = 251 then RT_IXFR
      else if v = 252 then RT_AXFR
      else if v = 257 then RT_CAA
      else if v = 59 then RT_CDS
      else if v = 60 then RT_CDNSKEY
      else if v = 37 then RT_CERT
      else if v = 5 then RT_CNAME
      else if v = 62 then RT_CSYNC
      else if v = 48 then RT_DNSKEY
      else if v = 43 then RT_DS
      else if v = 13 then RT_HINFO
      else if v = 65 then RT_HTTPS
      else if v = 25 then RT_KEY
      else if v = 15 then RT_MX
      else if v = 35 then RT_NAPTR
      else if v = 2 then RT_NS
      else if v = 47 then RT_NSEC
      else if v = 50 then RT_NSEC3
      else if v = 51 then RT_NSEC3PARAM
      else if v = 10 then RT_NULL
      else if v = 61 then RT_OPENPGPKEY
      else if v = 41 then RT_OPT
      else if v = 12 then RT_PTR
      else if v = 46 then RT_RRSIG
      else if v = 24 then RT_SIG
      else if v = 6 then RT_SOA
      else if v = 33 then RT_SRV
      else if v = 44 then RT_SSHFP
      else if v = 64 then RT_SVCB
      else if v = 52 then RT_TLSA
      else if v = 250 then RT_TSIG
      else if v = 16 then RT_TXT
      else if v = 0 then RT_ZERO
      else RT_Unknown v)"

fun rt_to_u16 :: "rtype \<Rightarrow> u16" where
  "rt_to_u16 RT_A = 1"
| "rt_to_u16 RT_AAAA = 28"
| "rt_to_u16 RT_ANAME = 65280"
| "rt_to_u16 RT_ANY = 255"
| "rt_to_u16 RT_AXFR = 252"
| "rt_to_u16 RT_CAA = 257"
| "rt_to_u16 RT_CDNSKEY = 60"
| "rt_to_u16 RT_CERT = 37"
| "rt_to_u16 RT_CDS = 59"
| "rt_to_u16 RT_CNAME = 5"
| "rt_to_u16 RT_CSYNC = 62"
| "rt_to_u16 RT_DNSKEY = 48"
| "rt_to_u16 RT_DS = 43"
| "rt_to_u16 RT_HINFO = 13"
| "rt_to_u16 RT_HTTPS = 65"
| "rt_to_u16 RT_KEY = 25"
| "rt_to_u16 RT_IXFR = 251"
| "rt_to_u16 RT_MX = 15"
| "rt_to_u16 RT_NAPTR = 35"
| "rt_to_u16 RT_NS = 2"
| "rt_to_u16 RT_NSEC = 47"
| "rt_to_u16 RT_NSEC3 = 50"
| "rt_to_u16 RT_NSEC3PARAM = 51"
| "rt_to_u16 RT_NULL = 10"
| "rt_to_u16 RT_OPENPGPKEY = 61"
| "rt_to_u16 RT_OPT = 41"
| "rt_to_u16 RT_PTR = 12"
| "rt_to_u16 RT_RRSIG = 46"
| "rt_to_u16 RT_SIG = 24"
| "rt_to_u16 RT_SOA = 6"
| "rt_to_u16 RT_SRV = 33"
| "rt_to_u16 RT_SSHFP = 44"
| "rt_to_u16 RT_SVCB = 64"
| "rt_to_u16 RT_TLSA = 52"
| "rt_to_u16 RT_TSIG = 250"
| "rt_to_u16 RT_TXT = 16"
| "rt_to_u16 RT_ZERO = 0"
| "rt_to_u16 (RT_Unknown v) = v"

definition is_ip_addr :: "rtype \<Rightarrow> bool" where
  "is_ip_addr t = (t = RT_A \<or> t = RT_AAAA)"

definition is_dnssec_type :: "rtype \<Rightarrow> bool" where
  "is_dnssec_type t \<longleftrightarrow>
     t \<in> {RT_DNSKEY, RT_CDNSKEY, RT_CDS, RT_DS, RT_KEY, RT_NSEC, RT_NSEC3, RT_NSEC3PARAM, RT_RRSIG,
         RT_SIG, RT_TSIG}"

section \<open>Response codes and operation codes\<close>

datatype rcode =
    RC_NoError
  | RC_FormErr
  | RC_ServFail
  | RC_NXDomain
  | RC_NotImp
  | RC_Refused
  | RC_YXDomain
  | RC_YXRRSet
  | RC_NXRRSet
  | RC_NotAuth
  | RC_NotZone
  | RC_BADVERS
  | RC_BADSIG
  | RC_BADKEY
  | RC_BADTIME
  | RC_BADMODE
  | RC_BADNAME
  | RC_BADALG
  | RC_BADTRUNC
  | RC_BADCOOKIE
  | RC_Unknown u16

fun rc_to_u16 :: "rcode \<Rightarrow> u16" where
  "rc_to_u16 RC_NoError = 0"
| "rc_to_u16 RC_FormErr = 1"
| "rc_to_u16 RC_ServFail = 2"
| "rc_to_u16 RC_NXDomain = 3"
| "rc_to_u16 RC_NotImp = 4"
| "rc_to_u16 RC_Refused = 5"
| "rc_to_u16 RC_YXDomain = 6"
| "rc_to_u16 RC_YXRRSet = 7"
| "rc_to_u16 RC_NXRRSet = 8"
| "rc_to_u16 RC_NotAuth = 9"
| "rc_to_u16 RC_NotZone = 10"
| "rc_to_u16 RC_BADVERS = 16"
| "rc_to_u16 RC_BADSIG = 16"
| "rc_to_u16 RC_BADKEY = 17"
| "rc_to_u16 RC_BADTIME = 18"
| "rc_to_u16 RC_BADMODE = 19"
| "rc_to_u16 RC_BADNAME = 20"
| "rc_to_u16 RC_BADALG = 21"
| "rc_to_u16 RC_BADTRUNC = 22"
| "rc_to_u16 RC_BADCOOKIE = 23"
| "rc_to_u16 (RC_Unknown v) = v"

definition rc_of_u16 :: "u16 \<Rightarrow> rcode" where
  "rc_of_u16 v =
     (if v = 0 then RC_NoError
      else if v = 1 then RC_FormErr
      else if v = 2 then RC_ServFail
      else if v = 3 then RC_NXDomain
      else if v = 4 then RC_NotImp
      else if v = 5 then RC_Refused
      else if v = 6 then RC_YXDomain
      else if v = 7 then RC_YXRRSet
      else if v = 8 then RC_NXRRSet
      else if v = 9 then RC_NotAuth
      else if v = 10 then RC_NotZone
      else if v = 16 then RC_BADSIG
      else if v = 17 then RC_BADKEY
      else if v = 18 then RC_BADTIME
      else if v = 19 then RC_BADMODE
      else if v = 20 then RC_BADNAME
      else if v = 21 then RC_BADALG
      else if v = 22 then RC_BADTRUNC
      else if v = 23 then RC_BADCOOKIE
      else RC_Unknown v)"

definition rc_low :: "rcode \<Rightarrow> u8" where
  "rc_low rc = ucast (rc_to_u16 rc AND 0x000F)"

definition rc_from_low :: "u8 \<Rightarrow> rcode" where
  "rc_from_low low = rc_of_u16 (ucast low AND 0x000F)"

datatype op_code = OpQuery | OpStatus | OpNotify | OpUpdate | OpUnknown u8

fun op_to_u8 :: "op_code \<Rightarrow> u8" where
  "op_to_u8 OpQuery = 0"
| "op_to_u8 OpStatus = 2"
| "op_to_u8 OpNotify = 4"
| "op_to_u8 OpUpdate = 5"
| "op_to_u8 (OpUnknown v) = v"

definition op_from_u8 :: "u8 \<Rightarrow> op_code" where
  "op_from_u8 v =
     (if v = 0 then OpQuery
      else if v = 2 then OpStatus
      else if v = 4 then OpNotify
      else if v = 5 then OpUpdate
      else OpUnknown v)"

section \<open>The header\<close>

datatype message_type = MQuery | MResponse

record header =
  h_id :: u16
  h_message_type :: message_type
  h_op_code :: op_code
  h_authoritative :: bool
  h_truncation :: bool
  h_recursion_desired :: bool
  h_recursion_available :: bool
  h_authentic_data :: bool
  h_checking_disabled :: bool
  h_response_code :: rcode
  h_query_count :: u16
  h_answer_count :: u16
  h_authority_count :: u16
  h_additional_count :: u16

definition header_new :: "u16 \<Rightarrow> message_type \<Rightarrow> op_code \<Rightarrow> header" where
  "header_new i mt op =
     \<lparr>h_id = i, h_message_type = mt, h_op_code = op, h_authoritative = False, h_truncation = False,
      h_recursion_desired = False, h_recursion_available = False, h_authentic_data = False,
      h_checking_disabled = False, h_response_code = RC_NoError, h_query_count = 0,
      h_answer_count = 0, h_authority_count = 0, h_additional_count = 0\<rparr>"

definition response_from_request :: "header \<Rightarrow> header" where
  "response_from_request h =
     \<lparr>h_id = h_id h, h_message_type = MResponse, h_op_code = h_op_code h, h_authoritative = False,
      h_truncation = False, h_recursion_desired = h_recursion_desired h,
      h_recursion_available = False, h_authentic_data = False,
      h_checking_disabled = h_checking_disabled h, h_response_code = RC_NoError, h_query_count = 0,
      h_answer_count = 0, h_authority_count = 0, h_additional_count = 0\<rparr>"

section \<open>The octets of a header\<close>

definition emit_u16 :: "u16 \<Rightarrow> u8 list" where
  "emit_u16 w = [ucast (drop_bit 8 w), ucast w]"

fun read_u16 :: "u8 list \<Rightarrow> (u16 \<times> u8 list) option" where
  "read_u16 (a # b # rest) = Some (push_bit 8 (ucast a) OR ucast b, rest)"
| "read_u16 _ = None"

fun read_u8 :: "u8 list \<Rightarrow> (u8 \<times> u8 list) option" where
  "read_u8 (a # rest) = Some (a, rest)"
| "read_u8 [] = None"

definition flag :: "u8 \<Rightarrow> bool \<Rightarrow> u8" where
  "flag m b = (if b then m else 0)"

definition has_flag :: "u8 \<Rightarrow> u8 \<Rightarrow> bool" where
  "has_flag m v \<longleftrightarrow> m AND v = m"

definition emit_flags1 :: "message_type \<Rightarrow> op_code \<Rightarrow> bool \<Rightarrow> bool \<Rightarrow> bool \<Rightarrow> u8" where
  "emit_flags1 mt op aa tc rd =
     flag 0x80 (mt = MResponse) OR push_bit 3 (op_to_u8 op) OR flag 4 aa OR flag 2 tc OR flag 1 rd"

definition emit_flags2 :: "bool \<Rightarrow> bool \<Rightarrow> bool \<Rightarrow> rcode \<Rightarrow> u8" where
  "emit_flags2 ra ad cd rc = flag 0x80 ra OR flag 0x20 ad OR flag 0x10 cd OR rc_low rc"

definition emit_header :: "header \<Rightarrow> u8 list" where
  "emit_header h =
     emit_u16 (h_id h) @
     [emit_flags1 (h_message_type h) (h_op_code h) (h_authoritative h) (h_truncation h)
        (h_recursion_desired h),
      emit_flags2 (h_recursion_available h) (h_authentic_data h) (h_checking_disabled h)
        (h_response_code h)] @
     emit_u16 (h_query_count h) @ emit_u16 (h_answer_count h) @ emit_u16 (h_authority_count h) @
     emit_u16 (h_additional_count h)"

definition flags1_op :: "u8 \<Rightarrow> op_code" where
  "flags1_op v = op_from_u8 (drop_bit 3 (0x78 AND v))"

definition flags1_type :: "u8 \<Rightarrow> message_type" where
  "flags1_type v = (if has_flag 0x80 v then MResponse else MQuery)"

definition read_header :: "u8 list \<Rightarrow> (header \<times> u8 list) option" where
  "read_header bs =
     (case read_u16 bs of None \<Rightarrow> None | Some (i, bs) \<Rightarrow>
     (case read_u8 bs of None \<Rightarrow> None | Some (f1, bs) \<Rightarrow>
     (case read_u8 bs of None \<Rightarrow> None | Some (f2, bs) \<Rightarrow>
     (case read_u16 bs of None \<Rightarrow> None | Some (qc, bs) \<Rightarrow>
     (case read_u16 bs of None \<Rightarrow> None | Some (an, bs) \<Rightarrow>
     (case read_u16 bs of None \<Rightarrow> None | Some (ns, bs) \<Rightarrow>
     (case read_u16 bs of None \<Rightarrow> None | Some (ar, bs) \<Rightarrow>
        Some (\<lparr>h_id = i, h_message_type = flags1_type f1, h_op_code = flags1_op f1,
               h_authoritative = has_flag 4 f1, h_truncation = has_flag 2 f1,
               h_recursion_desired = has_flag 1 f1, h_recursion_available = has_flag 0x80 f2,
               h_authentic_data = has_flag 0x20 f2, h_checking_disabled = has_flag 0x10 f2,
               h_response_code = rc_from_low (0x0F AND f2), h_query_count = qc,
               h_answer_count = an, h_authority_count = ns, h_additional_count = ar\<rparr>, bs))))))))"

section \<open>Lemmas\<close>

lemma rt_to_of_u16: "rt_to_u16 (rt_of_u16 v) = v"
  by (simp add: rt_of_u16_def)

lemma op_to_from_u8: "op_to_u8 (op_from_u8 v) = v"
  by (simp add: op_from_u8_def)

lemma rc_to_of_u16: "rc_to_u16 (rc_of_u16 v) = v"
  by (simp add: rc_of_u16_def)

lemma read_emit_u16 [simp]: "read_u16 (emit_u16 w @ rest) = Some (w, rest)"
proof -
  have "push_bit 8 (ucast (ucast (drop_bit 8 w) :: u8)) OR ucast (ucast w :: u8) = w"
    by (rule bit_word_eqI) (auto simp: bit_simps)
  then show ?thesis by (simp add: emit_u16_def)
qed

text \<open>The operation codes that fit into the four bits of the header, and the response codes that
  fit into its low nibble, in the form the reader produces.\<close>

definition canonical_op :: "op_code \<Rightarrow> bool" where
  "canonical_op op \<longleftrightarrow> op_to_u8 op < 16 \<and> op_from_u8 (op_to_u8 op) = op"

definition canonical_rc :: "rcode \<Rightarrow> bool" where
  "canonical_rc rc \<longleftrightarrow> rc_to_u16 rc < 16 \<and> rc_of_u16 (rc_to_u16 rc) = rc"

lemma has_flag_bit: "has_flag (2 ^ n) v \<longleftrightarrow> bit v n" if "n < 8"
proof -
  have "2 ^ n AND v = (if bit v n then 2 ^ n else 0)"
    by (rule bit_word_eqI) (auto simp: bit_simps)
  then show ?thesis using that by (simp add: has_flag_def)
qed

lemma bit_flag: "bit (flag (2 ^ n) b) m \<longleftrightarrow> b \<and> m = n \<and> n < 8"
  by (auto simp: flag_def bit_simps)

lemmas has_flag_bits = has_flag_bit [of 7, simplified] has_flag_bit [of 5, simplified]
  has_flag_bit [of 4, simplified] has_flag_bit [of 2, simplified] has_flag_bit [of 1, simplified]
  has_flag_bit [of 0, simplified]

lemmas bit_flags = bit_flag [of 7, simplified] bit_flag [of 5, simplified] bit_flag [of 4, simplified]
  bit_flag [of 2, simplified] bit_flag [of 1, simplified] bit_flag [of 0, simplified]

lemma small_bits: "(w :: 'a::len word) < 2 ^ k \<Longrightarrow> k \<le> n \<Longrightarrow> \<not> bit w n"
  by (metis bit_take_bit_iff leD less_mask_eq take_bit_eq_mask)

lemma flags1_op_emit:
  assumes "canonical_op op"
  shows "flags1_op (emit_flags1 mt op aa tc rd) = op"
proof -
  have m: "(0x78 :: u8) = push_bit 3 (mask 4)" by (simp add: mask_eq_exp_minus_1 push_bit_eq_mult)
  have hi: "n < 4" if "bit (op_to_u8 op) n" for n
    using assms small_bits [of "op_to_u8 op" 4 n] that by (force simp: canonical_op_def not_le [symmetric])
  have hi5: "n < 5" if "bit (op_to_u8 op) n" for n
    using hi [OF that] by simp
  have "drop_bit 3 (0x78 AND emit_flags1 mt op aa tc rd) = op_to_u8 op"
    unfolding m
    by (rule bit_word_eqI)
      (auto simp: bit_simps bit_flags emit_flags1_def intro: hi hi5)
  then show ?thesis using assms by (simp add: flags1_op_def canonical_op_def)
qed

lemma flags1_flags_emit:
  assumes "canonical_op op"
  shows "has_flag 0x80 (emit_flags1 mt op aa tc rd) = (mt = MResponse)"
    "has_flag 4 (emit_flags1 mt op aa tc rd) = aa"
    "has_flag 2 (emit_flags1 mt op aa tc rd) = tc"
    "has_flag 1 (emit_flags1 mt op aa tc rd) = rd"
proof -
  have hi: "\<not> bit (op_to_u8 op) 4"
    using assms small_bits [of "op_to_u8 op" 4 4] by (simp add: canonical_op_def)
  show "has_flag 0x80 (emit_flags1 mt op aa tc rd) = (mt = MResponse)"
    "has_flag 4 (emit_flags1 mt op aa tc rd) = aa"
    "has_flag 2 (emit_flags1 mt op aa tc rd) = tc"
    "has_flag 1 (emit_flags1 mt op aa tc rd) = rd"
    using hi by (simp_all add: has_flag_bits emit_flags1_def bit_or_iff bit_push_bit_iff bit_flags)
qed

lemma rc_low_bits: "4 \<le> n \<Longrightarrow> \<not> bit (rc_low rc) n"
proof -
  assume n: "4 \<le> n"
  have m: "(0x000F :: u16) = mask 4" by (simp add: mask_eq_exp_minus_1)
  show ?thesis using n unfolding rc_low_def m by (simp add: bit_simps)
qed

lemma rc_low_bit_less: "bit (rc_low rc) n \<Longrightarrow> n < 4"
  using rc_low_bits [of n rc] by (cases "4 \<le> n") auto

lemma flags2_emit:
  shows "has_flag 0x80 (emit_flags2 ra ad cd rc) = ra"
    "has_flag 0x20 (emit_flags2 ra ad cd rc) = ad"
    "has_flag 0x10 (emit_flags2 ra ad cd rc) = cd"
    "0x0F AND emit_flags2 ra ad cd rc = rc_low rc"
proof -
  show "has_flag 0x80 (emit_flags2 ra ad cd rc) = ra"
    "has_flag 0x20 (emit_flags2 ra ad cd rc) = ad"
    "has_flag 0x10 (emit_flags2 ra ad cd rc) = cd"
    by (simp_all add: has_flag_bits emit_flags2_def bit_or_iff bit_flags rc_low_bits)
  have m: "(0x0F :: u8) = mask 4" by (simp add: mask_eq_exp_minus_1)
  show "0x0F AND emit_flags2 ra ad cd rc = rc_low rc"
    unfolding m
    by (rule bit_word_eqI)
      (auto simp: bit_and_iff bit_or_iff bit_mask_iff bit_flags emit_flags2_def
        intro: rc_low_bit_less)
qed

lemma rc_from_low_low:
  assumes "canonical_rc rc"
  shows "rc_from_low (rc_low rc) = rc"
proof -
  have hi: "\<not> bit (rc_to_u16 rc) n" if "4 \<le> n" for n
    using assms small_bits [of "rc_to_u16 rc" 4 n] that by (simp add: canonical_rc_def)
  have m: "(0x000F :: u16) = mask 4" by (simp add: mask_eq_exp_minus_1)
  have "ucast (rc_low rc) AND 0x000F = rc_to_u16 rc"
    unfolding rc_low_def m
    by (rule bit_word_eqI) (use hi in \<open>auto simp: bit_simps dest: bit_imp_le_length intro: ccontr\<close>)
  then show ?thesis using assms by (simp add: rc_from_low_def canonical_rc_def)
qed

lemma read_header_back:
  assumes "canonical_op (h_op_code h)"
  shows "read_header (emit_header h @ rest) = Some (h\<lparr>h_response_code := rc_from_low (rc_low (h_response_code h))\<rparr>, rest)"
proof -
  have "flags1_type (emit_flags1 (h_message_type h) (h_op_code h) aa tc rd) = h_message_type h" for aa tc rd
    using flags1_flags_emit(1) [OF assms] by (cases "h_message_type h") (simp_all add: flags1_type_def)
  then show ?thesis
    by (simp add: read_header_def emit_header_def flags1_op_emit [OF assms] flags1_flags_emit [OF assms] flags2_emit)
qed

section \<open>Properties\<close>

text \<open>A header survives the wire: reading the twelve octets that were written for a header
  with a four-bit operation code and a response code of the basic range gives back the header and the
  rest of the input; every record type code survives the conversion to \<open>RecordType\<close> and back.\<close>

theorem header_roundtrip:
  assumes "canonical_op (h_op_code h)" "canonical_rc (h_response_code h)"
  shows "read_header (emit_header h @ rest) = Some (h, rest) \<and>
         length (emit_header h) = 12 \<and> rt_to_u16 (rt_of_u16 v) = v"
  using read_header_back [OF assms(1)] rc_from_low_low [OF assms(2)]
  by (simp add: emit_header_def emit_u16_def rt_to_of_u16)

theorem header_roundtrip_witness:
  "read_header (emit_header (header_new 7 MResponse OpUpdate) @ [1]) = Some (header_new 7 MResponse OpUpdate, [1])"
  using header_roundtrip [of "header_new 7 MResponse OpUpdate" "[1]"]
  by (simp add: header_new_def canonical_op_def canonical_rc_def op_from_u8_def rc_of_u16_def)

end
