(* ===== verification/Domain_Name.thy ===== *)
theory Domain_Name
  imports Prelude "HOL-Library.Char_ord"
begin

text \<open>
  Domain names of the vendored DNS library (\<open>hickory-dns/crates/proto/src/rr/domain\<close>): labels as
  byte strings, a name as its labels (the code keeps them in one buffer with end offsets, read
  through an iterator) and the flag that says whether it is fully qualified. The theory has the
  constructors with their length errors, the operations the server uses, the comparisons, and the
  well-formedness invariant (labels of 1 to 63 octets, 255 octets on the wire) that every
  constructor keeps. The wire format of names is in Name_Wire and their text form in
  Name_Text; the hash of a name and the IDNA conversion are not modelled.
\<close>

type_synonym label = string

record dname =
  n_labels :: "label list"
  n_fqdn :: bool

datatype proto_error =
    LabelEmpty
  | LabelBytesTooLong nat
  | DomainNameTooLong nat
  | LabelErrors "proto_error list"

section \<open>Construction\<close>

definition max_name_length :: nat where
  "max_name_length = 255"

definition name_new :: dname where
  "name_new = \<lparr>n_labels = [], n_fqdn = False\<rparr>"

definition name_root :: dname where
  "name_root = name_new\<lparr>n_fqdn := True\<rparr>"

definition is_root :: "dname \<Rightarrow> bool" where
  "is_root n \<longleftrightarrow> n_labels n = [] \<and> n_fqdn n"

definition set_fqdn :: "bool \<Rightarrow> dname \<Rightarrow> dname" where
  "set_fqdn b n = n\<lparr>n_fqdn := b\<rparr>"

definition label_from_raw_bytes :: "string \<Rightarrow> (label, proto_error) result" where
  "label_from_raw_bytes bytes =
     (if bytes = [] then Inl LabelEmpty
      else if length bytes > 63 then Inl (LabelBytesTooLong (length bytes))
      else Inr bytes)"

definition data_len :: "dname \<Rightarrow> nat" where
  "data_len n = sum_list (List.map length (n_labels n))"

definition encoded_len :: "dname \<Rightarrow> nat" where
  "encoded_len n = length (n_labels n) + data_len n + 1"

definition extend_name :: "label \<Rightarrow> dname \<Rightarrow> (dname, proto_error) result" where
  "extend_name l n =
     (let new_len = encoded_len n + length l + 1 in
      if new_len > max_name_length then Inl (DomainNameTooLong new_len)
      else Inr (n\<lparr>n_labels := n_labels n @ [l]\<rparr>))"

definition append_label :: "label \<Rightarrow> dname \<Rightarrow> (dname, proto_error) result" where
  "append_label l n = result_bind (label_from_raw_bytes l) (\<lambda>l. extend_name l n)"

fun append_labels :: "label list \<Rightarrow> dname \<Rightarrow> (dname, proto_error) result" where
  "append_labels [] n = Inr n"
| "append_labels (l # ls) n = result_bind (append_label l n) (append_labels ls)"

fun errors_of :: "('a, 'e) result list \<Rightarrow> 'e list" where
  "errors_of [] = []"
| "errors_of (Inl e # rs) = e # errors_of rs"
| "errors_of (Inr a # rs) = errors_of rs"

fun oks_of :: "('a, 'e) result list \<Rightarrow> 'a list" where
  "oks_of [] = []"
| "oks_of (Inl e # rs) = oks_of rs"
| "oks_of (Inr a # rs) = a # oks_of rs"

definition from_labels :: "string list \<Rightarrow> (dname, proto_error) result" where
  "from_labels ls =
     (let rs = List.map label_from_raw_bytes ls;
          labels = oks_of rs;
          errors = errors_of rs
      in if length labels > 255 then Inl (DomainNameTooLong (length labels))
         else if errors \<noteq> [] then Inl (LabelErrors errors)
         else append_labels labels (name_new\<lparr>n_fqdn := True\<rparr>))"

fun extend_labels :: "label list \<Rightarrow> dname \<Rightarrow> (dname, proto_error) result" where
  "extend_labels [] n = Inr n"
| "extend_labels (l # ls) n = result_bind (extend_name l n) (extend_labels ls)"

definition append_name :: "dname \<Rightarrow> dname \<Rightarrow> (dname, proto_error) result" where
  "append_name n other =
     result_bind (extend_labels (n_labels other) n) (\<lambda>m. Inr (m\<lparr>n_fqdn := n_fqdn other\<rparr>))"

definition append_domain :: "dname \<Rightarrow> dname \<Rightarrow> (dname, proto_error) result" where
  "append_domain n domain = result_bind (append_name n domain) (\<lambda>m. Inr (set_fqdn True m))"

section \<open>Observation and derived names\<close>

definition to_lowercase :: "dname \<Rightarrow> dname" where
  "to_lowercase n = n\<lparr>n_labels := List.map lower_str (n_labels n)\<rparr>"

text \<open>\<open>trim_to\<close> rebuilds the name with \<open>from_labels\<close> and unwraps the result; lemma
  \<open>trim_to_from_labels\<close> shows that this never fails on a well-formed name.\<close>

definition trim_to :: "nat \<Rightarrow> dname \<Rightarrow> dname" where
  "trim_to k n =
     (if k > length (n_labels n) then n
      else \<lparr>n_labels = drop (length (n_labels n) - k) (n_labels n), n_fqdn = True\<rparr>)"

definition base_name :: "dname \<Rightarrow> dname" where
  "base_name n =
     (let len = length (n_labels n) in if len > 0 then trim_to (len - 1) n else n)"

definition is_wildcard :: "dname \<Rightarrow> bool" where
  "is_wildcard n = (case n_labels n of [] \<Rightarrow> False | l # _ \<Rightarrow> l = ''*'')"

definition zone_of_case :: "dname \<Rightarrow> dname \<Rightarrow> bool" where
  "zone_of_case z n =
     (let self_len = length (n_labels z); name_len = length (n_labels n) in
      if self_len = 0 then True
      else if name_len = 0 then False
      else if self_len > name_len then False
      else list_all (\<lambda>(a, b). a = b) (zip (rev (n_labels z)) (rev (n_labels n))))"

definition zone_of :: "dname \<Rightarrow> dname \<Rightarrow> bool" where
  "zone_of z n = zone_of_case (to_lowercase z) (to_lowercase n)"

section \<open>Comparison\<close>

fun cmp_zip :: "('a \<Rightarrow> 'a \<Rightarrow> rs_ordering) \<Rightarrow> 'a list \<Rightarrow> 'a list \<Rightarrow> rs_ordering" where
  "cmp_zip c (a # as) (b # bs) = then_with (c a b) (cmp_zip c as bs)"
| "cmp_zip c as bs = rs_cmp (length as) (length bs)"

definition cmp_u8 :: "(char \<Rightarrow> char) \<Rightarrow> char \<Rightarrow> char \<Rightarrow> rs_ordering" where
  "cmp_u8 f l r = rs_cmp (of_char (f l) :: nat) (of_char (f r))"

definition label_cmp :: "(char \<Rightarrow> char) \<Rightarrow> label \<Rightarrow> label \<Rightarrow> rs_ordering" where
  "label_cmp f l r = cmp_zip (cmp_u8 f) l r"

definition cmp_labels :: "(char \<Rightarrow> char) \<Rightarrow> dname \<Rightarrow> dname \<Rightarrow> rs_ordering" where
  "cmp_labels f a b = cmp_zip (label_cmp f) (rev (n_labels a)) (rev (n_labels b))"

definition name_cmp_with :: "(char \<Rightarrow> char) \<Rightarrow> dname \<Rightarrow> dname \<Rightarrow> rs_ordering" where
  "name_cmp_with f a b =
     (if \<not> n_fqdn a \<and> n_fqdn b then OLess
      else if n_fqdn a \<and> \<not> n_fqdn b then OGreater
      else cmp_labels f a b)"

definition name_cmp :: "dname \<Rightarrow> dname \<Rightarrow> rs_ordering" where
  "name_cmp = name_cmp_with lower_char"

definition name_eq :: "dname \<Rightarrow> dname \<Rightarrow> bool" where
  "name_eq a b = (if n_fqdn a = n_fqdn b then name_cmp a b = OEqual else False)"

definition eq_ignore_root_case :: "dname \<Rightarrow> dname \<Rightarrow> bool" where
  "eq_ignore_root_case a b = (cmp_labels (\<lambda>c. c) a b = OEqual)"

section \<open>Well-formed names\<close>

definition wf_label :: "label \<Rightarrow> bool" where
  "wf_label l \<longleftrightarrow> l \<noteq> [] \<and> length l \<le> 63"

definition wf_name :: "dname \<Rightarrow> bool" where
  "wf_name n \<longleftrightarrow> list_all wf_label (n_labels n) \<and> encoded_len n \<le> max_name_length"

lemma encoded_len_snoc:
  "encoded_len (n\<lparr>n_labels := n_labels n @ [l]\<rparr>) = encoded_len n + length l + 1"
  by (simp add: encoded_len_def data_len_def)

lemma label_from_raw_bytes_Inr [simp]: "label_from_raw_bytes b = Inr l \<longleftrightarrow> l = b \<and> wf_label b"
  by (auto simp: label_from_raw_bytes_def wf_label_def)

lemma extend_name_Inr:
  "extend_name l n = Inr m \<longleftrightarrow>
     m = n\<lparr>n_labels := n_labels n @ [l]\<rparr> \<and> encoded_len m \<le> max_name_length"
  by (auto simp: extend_name_def Let_def encoded_len_snoc)

lemma append_label_Inr:
  "append_label l n = Inr m \<longleftrightarrow>
     wf_label l \<and> m = n\<lparr>n_labels := n_labels n @ [l]\<rparr> \<and> encoded_len m \<le> max_name_length"
  by (auto simp: append_label_def result_bind_Inr_iff extend_name_Inr)

lemma encoded_len_prefix:
  "encoded_len (n\<lparr>n_labels := xs\<rparr>) \<le> encoded_len (n\<lparr>n_labels := xs @ ys\<rparr>)"
  by (simp add: encoded_len_def data_len_def)

lemma append_labels_Inr:
  "append_labels ls n = Inr m \<longleftrightarrow>
     list_all wf_label ls \<and> m = n\<lparr>n_labels := n_labels n @ ls\<rparr> \<and>
     (ls = [] \<or> encoded_len m \<le> max_name_length)"
proof (induction ls arbitrary: n)
  case Nil
  then show ?case by auto
next
  case (Cons l ls)
  have "encoded_len (n\<lparr>n_labels := n_labels n @ [l]\<rparr>)
      \<le> encoded_len (n\<lparr>n_labels := n_labels n @ l # ls\<rparr>)"
    using encoded_len_prefix [where n = n and xs = "n_labels n @ [l]" and ys = ls] by simp
  then show ?case
    by (auto simp: result_bind_Inr_iff append_label_Inr Cons.IH)
qed

lemma extend_labels_Inr:
  "extend_labels ls n = Inr m \<longleftrightarrow>
     m = n\<lparr>n_labels := n_labels n @ ls\<rparr> \<and> (ls = [] \<or> encoded_len m \<le> max_name_length)"
proof (induction ls arbitrary: n)
  case Nil
  then show ?case by auto
next
  case (Cons l ls)
  have "encoded_len (n\<lparr>n_labels := n_labels n @ [l]\<rparr>)
      \<le> encoded_len (n\<lparr>n_labels := n_labels n @ l # ls\<rparr>)"
    using encoded_len_prefix [where n = n and xs = "n_labels n @ [l]" and ys = ls] by simp
  then show ?case
    by (auto simp: result_bind_Inr_iff extend_name_Inr Cons.IH)
qed

lemma errors_of_Nil_iff: "errors_of (List.map label_from_raw_bytes ls) = [] \<longleftrightarrow> list_all wf_label ls"
  by (induction ls) (auto simp: label_from_raw_bytes_def wf_label_def)

lemma oks_of_wf:
  "list_all wf_label ls \<Longrightarrow> oks_of (List.map label_from_raw_bytes ls) = ls"
  by (induction ls) (auto simp: label_from_raw_bytes_def wf_label_def)

lemma length_le_encoded_len: "length (n_labels n) < encoded_len n"
  by (simp add: encoded_len_def)

lemma from_labels_Inr:
  "from_labels ls = Inr m \<longleftrightarrow> m = \<lparr>n_labels = ls, n_fqdn = True\<rparr> \<and> wf_name m"
proof
  assume "from_labels ls = Inr m"
  then show "m = \<lparr>n_labels = ls, n_fqdn = True\<rparr> \<and> wf_name m"
    by (auto simp: from_labels_def Let_def errors_of_Nil_iff oks_of_wf append_labels_Inr name_new_def
        wf_name_def encoded_len_def data_len_def max_name_length_def split: if_splits)
next
  assume "m = \<lparr>n_labels = ls, n_fqdn = True\<rparr> \<and> wf_name m"
  moreover from this have "length ls \<le> 255"
    using length_le_encoded_len [of m] by (auto simp: wf_name_def max_name_length_def)
  ultimately show "from_labels ls = Inr m"
    by (auto simp: from_labels_def Let_def errors_of_Nil_iff oks_of_wf append_labels_Inr name_new_def
        wf_name_def)
qed

lemma wf_name_drop:
  assumes "wf_name n" shows "wf_name \<lparr>n_labels = drop k (n_labels n), n_fqdn = b\<rparr>"
proof -
  have "n_labels n = take k (n_labels n) @ drop k (n_labels n)" by simp
  then have "sum_list (List.map length (n_labels n))
      = sum_list (List.map length (take k (n_labels n))) + sum_list (List.map length (drop k (n_labels n)))"
    by (metis map_append sum_list_append)
  then show ?thesis using assms
    by (auto simp: wf_name_def encoded_len_def data_len_def list_all_iff dest: in_set_dropD)
qed

lemma trim_to_from_labels:
  assumes "wf_name n" "k \<le> length (n_labels n)"
  shows "from_labels (drop (length (n_labels n) - k) (n_labels n)) = Inr (trim_to k n)"
  using wf_name_drop [OF assms(1)] assms(2) by (simp add: from_labels_Inr trim_to_def)

lemma wf_name_trim_to: "wf_name n \<Longrightarrow> wf_name (trim_to k n)"
  using wf_name_drop by (auto simp: trim_to_def)

lemma wf_name_base_name: "wf_name n \<Longrightarrow> wf_name (base_name n)"
  by (simp add: base_name_def Let_def wf_name_trim_to)

lemma wf_name_to_lowercase: "wf_name (to_lowercase n) = wf_name n"
  by (simp add: wf_name_def to_lowercase_def encoded_len_def data_len_def list_all_iff wf_label_def
      comp_def)

lemma wf_name_append_name:
  assumes "wf_name n" "wf_name m" "append_name n m = Inr r"
  shows "wf_name r"
  using assms
  by (auto simp: append_name_def result_bind_Inr_iff extend_labels_Inr wf_name_def list_all_iff
      encoded_len_def data_len_def)

section \<open>Laws of the operations\<close>

lemma n_labels_simps [getter_simps, simp]:
  "n_labels (to_lowercase n) = List.map lower_str (n_labels n)"
  "n_fqdn (to_lowercase n) = n_fqdn n"
  "n_labels (set_fqdn b n) = n_labels n"
  "n_fqdn (set_fqdn b n) = b"
  by (simp_all add: to_lowercase_def set_fqdn_def)

lemma base_name_simps [simp]:
  "n_labels (base_name n) = tl (n_labels n)"
  "n_fqdn (base_name n) = (if n_labels n = [] then n_fqdn n else True)"
  by (cases "n_labels n"; simp add: base_name_def Let_def trim_to_def)+

lemma to_lowercase_idem [simp]: "to_lowercase (to_lowercase n) = to_lowercase n"
  by (simp add: to_lowercase_def)

lemma dname_eqI: "n_labels a = n_labels b \<Longrightarrow> n_fqdn a = n_fqdn b \<Longrightarrow> (a :: dname) = b"
  by simp

lemma base_name_lower: "base_name (to_lowercase n) = to_lowercase (base_name n)"
  by (rule dname_eqI) (simp_all add: map_tl)

lemma set_fqdn_lower: "to_lowercase (set_fqdn b n) = set_fqdn b (to_lowercase n)"
  by (rule dname_eqI) simp_all

lemma list_all_zip_eq_take: "length xs \<le> length ys \<Longrightarrow> list_all (\<lambda>(a, b). a = b) (zip xs ys) \<longleftrightarrow> xs = take (length xs) ys"
  by (induction xs ys rule: list_induct2') auto

lemma zone_of_case_iff:
  "zone_of_case z n \<longleftrightarrow> (\<exists>p. n_labels n = p @ n_labels z)"
proof -
  have "rev (n_labels z) = take (length (n_labels z)) (rev (n_labels n)) \<longleftrightarrow>
      n_labels z = drop (length (n_labels n) - length (n_labels z)) (n_labels n)"
    if "length (n_labels z) \<le> length (n_labels n)"
    using that by (metis rev_rev_ident take_rev)
  then show ?thesis
    by (auto simp: zone_of_case_def Let_def list_all_zip_eq_take)
      (metis append_take_drop_id)+
qed

lemma zone_of_iff:
  "zone_of z n \<longleftrightarrow> (\<exists>p. List.map lower_str (n_labels n) = p @ List.map lower_str (n_labels z))"
  by (simp add: zone_of_def zone_of_case_iff)

lemma cmp_zip_eq_iff:
  "cmp_zip c xs ys = OEqual \<longleftrightarrow> list_all2 (\<lambda>a b. c a b = OEqual) xs ys"
  by (induction c xs ys rule: cmp_zip.induct) auto

lemma cmp_zip_reverse:
  "(\<And>a b. rs_reverse (c a b) = c b a) \<Longrightarrow> rs_reverse (cmp_zip c xs ys) = cmp_zip c ys xs"
  by (induction c xs ys rule: cmp_zip.induct) (simp_all add: rs_cmp_reverse)

lemma list_all2_map_eq: "list_all2 (\<lambda>a b. f a = f b) xs ys \<longleftrightarrow> List.map f xs = List.map f ys"
  by (simp add: list_all2_conv_all_nth list_eq_iff_nth_eq) auto

lemma of_char_inject: "(of_char a :: nat) = of_char b \<longleftrightarrow> a = b"
  by simp

lemma label_cmp_eq_iff: "label_cmp f l r = OEqual \<longleftrightarrow> List.map f l = List.map f r"
  by (simp add: label_cmp_def cmp_zip_eq_iff cmp_u8_def list_all2_map_eq)

lemma cmp_labels_eq_iff:
  "cmp_labels f a b = OEqual \<longleftrightarrow> List.map (List.map f) (n_labels a) = List.map (List.map f) (n_labels b)"
  by (simp add: cmp_labels_def cmp_zip_eq_iff label_cmp_eq_iff list_all2_map_eq rev_map [symmetric])

lemma map_id_eq: "List.map (\<lambda>c. c) l = l"
  by simp

lemma name_eq_iff: "name_eq a b \<longleftrightarrow> to_lowercase a = to_lowercase b"
proof -
  have "lower_str = List.map lower_char" by (simp add: fun_eq_iff lower_str_def)
  then show ?thesis
    by (cases a; cases b) (auto simp: name_eq_def name_cmp_def name_cmp_with_def cmp_labels_eq_iff to_lowercase_def)
qed

lemma eq_ignore_root_case_iff: "eq_ignore_root_case a b \<longleftrightarrow> n_labels a = n_labels b"
  by (simp add: eq_ignore_root_case_def cmp_labels_eq_iff)

lemma name_cmp_reverse: "rs_reverse (name_cmp a b) = name_cmp b a"
proof -
  have "rs_reverse (label_cmp lower_char l r) = label_cmp lower_char r l" for l r
    unfolding label_cmp_def by (rule cmp_zip_reverse) (simp add: cmp_u8_def rs_cmp_reverse)
  then have "rs_reverse (cmp_labels lower_char a b) = cmp_labels lower_char b a"
    unfolding cmp_labels_def by (rule cmp_zip_reverse)
  then show ?thesis by (simp add: name_cmp_def name_cmp_with_def)
qed

end
