(* ===== verification/Dns_Message.thy ===== *)
theory Dns_Message
  imports Dns_Types Domain_Name Net_Addr
begin

text \<open>
  Records, queries and messages of the vendored DNS library (\<open>rr/resource.rs\<close>, \<open>op/query.rs\<close>,
  \<open>op/message.rs\<close>), the server's response type \<open>DnsResponse\<close> (\<open>dns.rs\<close>) and its lookup errors
  (\<open>dns_error.rs\<close>). Instants are integers of nanoseconds on a monotonic clock whose reading is an
  argument (\<open>now\<close>); a random message id is an argument (\<open>rid\<close>). Record data the server never
  looks into is \<open>RD_Other\<close> with its type and octets. The cryptographic signature of a message is
  not modelled.
\<close>

section \<open>Records\<close>

datatype dns_class = DC_IN | DC_CH | DC_HS | DC_NONE | DC_ANY | DC_OPT u16 | DC_Unknown u16

record soa =
  soa_mname :: dname
  soa_rname :: dname
  soa_serial :: u32
  soa_refresh :: u32
  soa_retry :: u32
  soa_expire :: u32
  soa_minimum :: u32

record srv =
  srv_priority :: u16
  srv_weight :: u16
  srv_port :: u16
  srv_target :: dname

datatype svc_param =
    SvcIpv4Hint "32 word list"
  | SvcIpv6Hint "128 word list"
  | SvcParam u16 "u8 list"

record svcb =
  svc_priority :: u16
  svc_target_name :: dname
  svc_params :: "svc_param list"

record naptr =
  nap_order :: u16
  nap_preference :: u16
  nap_flags :: "u8 list"
  nap_services :: "u8 list"
  nap_regexp :: "u8 list"
  nap_replacement :: dname

record client_subnet =
  cs_address :: ip_addr
  cs_source_prefix :: u8
  cs_scope_prefix :: u8

datatype edns_option =
    EO_Subnet client_subnet
  | EO_NSID "u8 list"
  | EO_Unknown u16 "u8 list"

text \<open>\<open>RD_Other\<close> is the data of the types whose fields the server never looks into and that hold no
  name (\<open>CAA\<close>, \<open>CERT\<close>, \<open>CSYNC\<close>, \<open>HINFO\<close>, \<open>NULL\<close>, \<open>OPENPGPKEY\<close>, \<open>SSHFP\<close>, \<open>TLSA\<close> and the unknown ones).\<close>

datatype rdata =
    RD_A "32 word"
  | RD_AAAA "128 word"
  | RD_ANAME dname
  | RD_CNAME dname
  | RD_HTTPS svcb
  | RD_MX u16 dname
  | RD_NAPTR naptr
  | RD_NS dname
  | RD_OPT "edns_option list"
  | RD_PTR dname
  | RD_SOA soa
  | RD_SRV srv
  | RD_SVCB svcb
  | RD_TXT "string list"
  | RD_Other rtype "u8 list"
  | RD_Update0 rtype
  | RD_ZERO

fun rd_type :: "rdata \<Rightarrow> rtype" where
  "rd_type (RD_A a) = RT_A"
| "rd_type (RD_AAAA a) = RT_AAAA"
| "rd_type (RD_ANAME n) = RT_ANAME"
| "rd_type (RD_CNAME n) = RT_CNAME"
| "rd_type (RD_HTTPS s) = RT_HTTPS"
| "rd_type (RD_MX p n) = RT_MX"
| "rd_type (RD_NAPTR n) = RT_NAPTR"
| "rd_type (RD_NS n) = RT_NS"
| "rd_type (RD_OPT opts) = RT_OPT"
| "rd_type (RD_PTR n) = RT_PTR"
| "rd_type (RD_SOA s) = RT_SOA"
| "rd_type (RD_SRV s) = RT_SRV"
| "rd_type (RD_SVCB s) = RT_SVCB"
| "rd_type (RD_TXT s) = RT_TXT"
| "rd_type (RD_Other t bs) = t"
| "rd_type (RD_Update0 t) = t"
| "rd_type RD_ZERO = RT_ZERO"

fun rd_ip_addr :: "rdata \<Rightarrow> ip_addr option" where
  "rd_ip_addr (RD_A a) = Some (IpV4 a)"
| "rd_ip_addr (RD_AAAA a) = Some (IpV6 a)"
| "rd_ip_addr _ = None"

record rr =
  rr_name :: dname
  rr_class :: dns_class
  rr_ttl :: u32
  rr_data :: rdata
  rr_cache_flush :: bool

definition from_rdata :: "dname \<Rightarrow> u32 \<Rightarrow> rdata \<Rightarrow> rr" where
  "from_rdata n ttl d = \<lparr>rr_name = n, rr_class = DC_IN, rr_ttl = ttl, rr_data = d, rr_cache_flush = False\<rparr>"

definition rr_type :: "rr \<Rightarrow> rtype" where
  "rr_type r = rd_type (rr_data r)"

definition rr_set_ttl :: "u32 \<Rightarrow> rr \<Rightarrow> rr" where
  "rr_set_ttl t r = r\<lparr>rr_ttl := t\<rparr>"

definition rr_set_max_ttl :: "u32 \<Rightarrow> rr \<Rightarrow> rr" where
  "rr_set_max_ttl t r = (if rr_ttl r > t then rr_set_ttl t r else r)"

definition rr_set_min_ttl :: "u32 \<Rightarrow> rr \<Rightarrow> rr" where
  "rr_set_min_ttl t r = (if rr_ttl r < t then rr_set_ttl t r else r)"

section \<open>Queries and messages\<close>

record query =
  q_name :: dname
  q_type :: rtype
  q_class :: dns_class
  q_unicast_response :: bool

definition query_query :: "dname \<Rightarrow> rtype \<Rightarrow> query" where
  "query_query n t = \<lparr>q_name = n, q_type = t, q_class = DC_IN, q_unicast_response = False\<rparr>"

definition query_default :: query where
  "query_default = \<lparr>q_name = name_root, q_type = RT_A, q_class = DC_IN, q_unicast_response = False\<rparr>"

record edns =
  ed_rcode_high :: u8
  ed_version :: u8
  ed_dnssec_ok :: bool
  ed_z :: u16
  ed_max_payload :: u16
  ed_options :: "edns_option list"

definition edns_new :: edns where
  "edns_new = \<lparr>ed_rcode_high = 0, ed_version = 0, ed_dnssec_ok = False, ed_z = 0, ed_max_payload = 512,
     ed_options = []\<rparr>"

fun option_code :: "edns_option \<Rightarrow> u16" where
  "option_code (EO_Subnet s) = 8"
| "option_code (EO_NSID d) = 3"
| "option_code (EO_Unknown c d) = c"

definition ed_option :: "u16 \<Rightarrow> edns \<Rightarrow> edns_option option" where
  "ed_option code e = List.find (\<lambda>opt. option_code opt = code) (ed_options e)"

definition ed_insert :: "edns_option \<Rightarrow> edns \<Rightarrow> edns" where
  "ed_insert opt e = e\<lparr>ed_options := ed_options e @ [opt]\<rparr>"

text \<open>The client subnet of an EDNS record, as the server reads it, and the keepalive option, which it
  only writes.\<close>

definition ed_subnet :: "edns \<Rightarrow> client_subnet option" where
  "ed_subnet e = (case ed_option 8 e of Some (EO_Subnet s) \<Rightarrow> Some s | _ \<Rightarrow> None)"

definition ed_keepalive :: "edns \<Rightarrow> u8 list option" where
  "ed_keepalive e = (case ed_option 11 e of Some (EO_Unknown c d) \<Rightarrow> Some d | _ \<Rightarrow> None)"

record message =
  m_header :: header
  m_queries :: "query list"
  m_answers :: "rr list"
  m_authorities :: "rr list"
  m_additionals :: "rr list"
  m_edns :: "edns option"

definition message_new :: "u16 \<Rightarrow> message_type \<Rightarrow> op_code \<Rightarrow> message" where
  "message_new i mt op =
     \<lparr>m_header = header_new i mt op, m_queries = [], m_answers = [], m_authorities = [],
      m_additionals = [], m_edns = None\<rparr>"

definition message_query :: "u16 \<Rightarrow> message" where
  "message_query rid = message_new rid MQuery OpQuery"

definition message_response :: "u16 \<Rightarrow> op_code \<Rightarrow> message" where
  "message_response i op = message_new i MResponse op"

definition m_set_response_code :: "rcode \<Rightarrow> message \<Rightarrow> message" where
  "m_set_response_code rc m = m\<lparr>m_header := (m_header m)\<lparr>h_response_code := rc\<rparr>\<rparr>"

definition error_msg :: "u16 \<Rightarrow> op_code \<Rightarrow> rcode \<Rightarrow> message" where
  "error_msg i op rc = m_set_response_code rc (message_response i op)"

definition m_response_code :: "message \<Rightarrow> rcode" where
  "m_response_code m = h_response_code (m_header m)"

definition m_to_response :: "message \<Rightarrow> message" where
  "m_to_response m = m\<lparr>m_header := (m_header m)\<lparr>h_message_type := MResponse\<rparr>\<rparr>"

definition m_add_query :: "query \<Rightarrow> message \<Rightarrow> message" where
  "m_add_query q m = m\<lparr>m_queries := m_queries m @ [q]\<rparr>"

definition m_add_answers :: "rr list \<Rightarrow> message \<Rightarrow> message" where
  "m_add_answers rs m = m\<lparr>m_answers := m_answers m @ rs\<rparr>"

definition m_add_authority :: "rr \<Rightarrow> message \<Rightarrow> message" where
  "m_add_authority r m = m\<lparr>m_authorities := m_authorities m @ [r]\<rparr>"

definition m_add_additional :: "rr \<Rightarrow> message \<Rightarrow> message" where
  "m_add_additional r m = m\<lparr>m_additionals := m_additionals m @ [r]\<rparr>"

definition m_max_payload :: "message \<Rightarrow> u16" where
  "m_max_payload m =
     (let max_size = (case m_edns m of None \<Rightarrow> 512 | Some e \<Rightarrow> ed_max_payload e)
      in if max_size < 512 then 512 else max_size)"

record header_counts =
  hc_query :: nat
  hc_answer :: nat
  hc_authority :: nat
  hc_additional :: nat

text \<open>\<open>update_header_counts\<close> asserts that every count fits into 16 bits; a message that does not
  satisfy \<open>counts_fit\<close> makes the code panic.\<close>

definition counts_fit :: "header_counts \<Rightarrow> bool" where
  "counts_fit c \<longleftrightarrow>
     hc_query c \<le> 65535 \<and> hc_answer c \<le> 65535 \<and> hc_authority c \<le> 65535 \<and> hc_additional c \<le> 65535"

definition update_header_counts :: "header \<Rightarrow> bool \<Rightarrow> header_counts \<Rightarrow> header" where
  "update_header_counts h is_truncated c =
     h\<lparr>h_query_count := of_nat (hc_query c), h_answer_count := of_nat (hc_answer c),
       h_authority_count := of_nat (hc_authority c), h_additional_count := of_nat (hc_additional c),
       h_truncation := is_truncated\<rparr>"

definition m_counts :: "message \<Rightarrow> header_counts" where
  "m_counts m = \<lparr>hc_query = length (m_queries m), hc_answer = length (m_answers m),
     hc_authority = length (m_authorities m), hc_additional = length (m_additionals m)\<rparr>"

section \<open>The server's response\<close>

definition MAX_TTL :: u32 where
  "MAX_TTL = 86400"

definition secs :: "nat \<Rightarrow> int" where
  "secs n = int n * 1000000000"

record dns_response =
  r_message :: message
  r_valid_until :: int
  r_name_server_group :: "string option"
  r_aaaa_suppressed :: bool

definition r_sync_header_counts :: "dns_response \<Rightarrow> dns_response" where
  "r_sync_header_counts r =
     (let m = r_message r in
      r\<lparr>r_message := m\<lparr>m_header :=
          update_header_counts (m_header m) (h_truncation (m_header m)) (m_counts m)\<rparr>\<rparr>)"

definition new_with_deadline :: "u16 \<Rightarrow> query \<Rightarrow> rr list \<Rightarrow> int \<Rightarrow> dns_response" where
  "new_with_deadline rid q records valid_until =
     r_sync_header_counts
       \<lparr>r_message = m_add_answers records (m_add_query q (m_to_response (message_query rid))),
        r_valid_until = valid_until, r_name_server_group = None, r_aaaa_suppressed = False\<rparr>"

definition new_with_max_ttl :: "u16 \<Rightarrow> int \<Rightarrow> query \<Rightarrow> rr list \<Rightarrow> dns_response" where
  "new_with_max_ttl rid now q records =
     new_with_deadline rid q records (now + secs (unat MAX_TTL))"

definition response_empty :: "u16 \<Rightarrow> int \<Rightarrow> dns_response" where
  "response_empty rid now =
     \<lparr>r_message = message_query rid, r_valid_until = now, r_name_server_group = None,
      r_aaaa_suppressed = False\<rparr>"

definition response_from_rdata :: "u16 \<Rightarrow> int \<Rightarrow> query \<Rightarrow> rdata \<Rightarrow> dns_response" where
  "response_from_rdata rid now q d =
     new_with_max_ttl rid now q [from_rdata (q_name q) MAX_TTL d]"

definition r_query :: "dns_response \<Rightarrow> query" where
  "r_query r = (case m_queries (r_message r) of [] \<Rightarrow> query_default | q # _ \<Rightarrow> q)"

definition r_answers :: "dns_response \<Rightarrow> rr list" where
  "r_answers r = m_answers (r_message r)"

definition r_ip_addrs :: "dns_response \<Rightarrow> ip_addr list" where
  "r_ip_addrs r = List.map_filter (\<lambda>x. rd_ip_addr (rr_data x)) (r_answers r)"

definition r_set_valid_until :: "int \<Rightarrow> u32 \<Rightarrow> dns_response \<Rightarrow> dns_response" where
  "r_set_valid_until now ttl r = r\<lparr>r_valid_until := now + secs (unat ttl)\<rparr>"

definition into_message :: "header option \<Rightarrow> dns_response \<Rightarrow> message" where
  "into_message h r =
     (let m = r_message r;
          base = unwrap_or h (m_header m)
      in m\<lparr>m_header := update_header_counts base (h_truncation (m_header m)) (m_counts m)\<rparr>)"

definition r_add_authority :: "rr \<Rightarrow> dns_response \<Rightarrow> dns_response" where
  "r_add_authority x r =
     r_sync_header_counts (r\<lparr>r_message := m_add_authority x (r_message r)\<rparr>)"

definition r_add_additional :: "rr \<Rightarrow> dns_response \<Rightarrow> dns_response" where
  "r_add_additional x r =
     r_sync_header_counts (r\<lparr>r_message := m_add_additional x (r_message r)\<rparr>)"

definition r_add_query :: "query \<Rightarrow> dns_response \<Rightarrow> dns_response" where
  "r_add_query q r = r\<lparr>r_message := m_add_query q (r_message r)\<rparr>"

definition r_set_response_code :: "rcode \<Rightarrow> dns_response \<Rightarrow> dns_response" where
  "r_set_response_code rc r = r\<lparr>r_message := m_set_response_code rc (r_message r)\<rparr>"

definition min_list_opt :: "u32 list \<Rightarrow> u32 option" where
  "min_list_opt xs = min_by_key id xs"

definition max_list_opt :: "u32 list \<Rightarrow> u32 option" where
  "max_list_opt xs = max_by_key id xs"

definition response_of_message :: "int \<Rightarrow> message \<Rightarrow> dns_response" where
  "response_of_message now m =
     \<lparr>r_message = m,
      r_valid_until = now + secs (unat (unwrap_or (min_list_opt (List.map rr_ttl (m_answers m))) MAX_TTL)),
      r_name_server_group = None, r_aaaa_suppressed = False\<rparr>"

definition section_ttls :: "dns_response \<Rightarrow> u32 list list" where
  "section_ttls r =
     (let m = r_message r in
      [List.map rr_ttl (m_answers m), List.map rr_ttl (m_authorities m),
       List.map rr_ttl (m_additionals m)])"

definition r_max_ttl :: "dns_response \<Rightarrow> u32 option" where
  "r_max_ttl r = max_list_opt (List.map_filter max_list_opt (section_ttls r))"

definition r_min_ttl :: "dns_response \<Rightarrow> u32 option" where
  "r_min_ttl r = min_list_opt (List.map_filter min_list_opt (section_ttls r))"

definition map_records :: "(rr \<Rightarrow> rr) \<Rightarrow> dns_response \<Rightarrow> dns_response" where
  "map_records f r =
     (let m = r_message r in
      r\<lparr>r_message := m\<lparr>m_answers := List.map f (m_answers m),
                      m_authorities := List.map f (m_authorities m),
                      m_additionals := List.map f (m_additionals m)\<rparr>\<rparr>)"

definition r_set_new_ttl :: "u32 \<Rightarrow> dns_response \<Rightarrow> dns_response" where
  "r_set_new_ttl t = map_records (rr_set_ttl t)"

definition r_set_max_ttl :: "u32 \<Rightarrow> dns_response \<Rightarrow> dns_response" where
  "r_set_max_ttl t = map_records (rr_set_max_ttl t)"

definition r_set_min_ttl :: "u32 \<Rightarrow> dns_response \<Rightarrow> dns_response" where
  "r_set_min_ttl t = map_records (rr_set_min_ttl t)"

definition all_records :: "dns_response \<Rightarrow> rr list" where
  "all_records r = m_answers (r_message r) @ m_authorities (r_message r) @ m_additionals (r_message r)"

section \<open>Synthetic SOA records\<close>

text \<open>The serial of a synthetic SOA is the build date of the binary in seconds, capped to 32 bits.\<close>

definition synthetic_soa_serial :: "int \<Rightarrow> u32" where
  "synthetic_soa_serial build_secs =
     (if 0 \<le> build_secs \<and> build_secs < 2 ^ 32 then word_of_int build_secs else - 1)"

definition pqdn :: "string list \<Rightarrow> dname" where
  "pqdn ls = \<lparr>n_labels = ls, n_fqdn = False\<rparr>"

definition fqdn :: "string list \<Rightarrow> dname" where
  "fqdn ls = \<lparr>n_labels = ls, n_fqdn = True\<rparr>"

definition default_soa :: "int \<Rightarrow> soa" where
  "default_soa build_secs =
     \<lparr>soa_mname = pqdn [''a'', ''gtld-servers'', ''net''],
      soa_rname = pqdn [''nstld'', ''verisign-grs'', ''com''],
      soa_serial = synthetic_soa_serial build_secs, soa_refresh = 1800, soa_retry = 900,
      soa_expire = 604800, soa_minimum = 86400\<rparr>"

definition forge_soa_record :: "int \<Rightarrow> dname \<Rightarrow> u32 \<Rightarrow> rr" where
  "forge_soa_record build_secs n ttl =
     from_rdata n ttl (RD_SOA
       \<lparr>soa_mname = fqdn [''a'', ''root-servers'', ''net''],
        soa_rname = fqdn [''admin'', ''smartdns'', ''local''],
        soa_serial = synthetic_soa_serial build_secs, soa_refresh = 1800, soa_retry = 900,
        soa_expire = 259200, soa_minimum = ttl\<rparr>)"

section \<open>Lookup errors\<close>

record no_records =
  nr_query :: query
  nr_soa :: "rr option"
  nr_response_code :: rcode

datatype proto_kind = NoRecordsFound no_records | ProtoOther string

datatype lookup_error =
    LE_NameExists
  | LE_ResponseCode rcode
  | LE_Proto proto_kind
  | LE_Io string

definition no_connections :: lookup_error where
  "no_connections = LE_Proto (ProtoOther ''no connections available'')"

definition request_timeout :: lookup_error where
  "request_timeout = LE_Proto (ProtoOther ''request timed out'')"

fun is_nx_domain :: "lookup_error \<Rightarrow> bool" where
  "is_nx_domain (LE_ResponseCode rc) = (rc = RC_NXDomain)"
| "is_nx_domain (LE_Proto (NoRecordsFound nr)) = (nr_response_code nr = RC_NXDomain)"
| "is_nx_domain _ = False"

fun is_soa_error :: "lookup_error \<Rightarrow> bool" where
  "is_soa_error (LE_Proto (NoRecordsFound nr)) = (nr_soa nr \<noteq> None)"
| "is_soa_error _ = False"

fun explicit_response_code :: "lookup_error \<Rightarrow> rcode option" where
  "explicit_response_code (LE_ResponseCode rc) = Some rc"
| "explicit_response_code _ = None"

fun is_no_records_found :: "lookup_error \<Rightarrow> bool" where
  "is_no_records_found (LE_Proto (NoRecordsFound nr)) = True"
| "is_no_records_found _ = False"

fun as_soa :: "u16 \<Rightarrow> int \<Rightarrow> query \<Rightarrow> lookup_error \<Rightarrow> dns_response option" where
  "as_soa rid now q (LE_Proto (NoRecordsFound nr)) =
     (case nr_soa nr of
        Some soa_rr \<Rightarrow>
          if nr_response_code nr = RC_NoError \<or> nr_response_code nr = RC_NXDomain then
            Some (r_set_response_code (nr_response_code nr)
                   (r_add_authority soa_rr (new_with_max_ttl rid now q [])))
          else None
      | None \<Rightarrow> None)"
| "as_soa rid now q _ = None"

definition no_records_found :: "int \<Rightarrow> query \<Rightarrow> u32 \<Rightarrow> lookup_error" where
  "no_records_found build_secs q ttl =
     LE_Proto (NoRecordsFound
       \<lparr>nr_query = q, nr_soa = Some (from_rdata (q_name q) ttl (RD_SOA (default_soa build_secs))),
        nr_response_code = RC_NoError\<rparr>)"

section \<open>Lemmas\<close>

lemma rr_ttl_set [getter_simps, simp]:
  "rr_ttl (rr_set_ttl t r) = t"
  "rr_ttl (rr_set_max_ttl t r) = min (rr_ttl r) t"
  "rr_ttl (rr_set_min_ttl t r) = max (rr_ttl r) t"
  by (auto simp: rr_set_ttl_def rr_set_max_ttl_def rr_set_min_ttl_def min_def max_def)

lemma rr_set_same [getter_simps, simp]:
  "rr_name (rr_set_ttl t r) = rr_name r" "rr_data (rr_set_ttl t r) = rr_data r"
  "rr_class (rr_set_ttl t r) = rr_class r"
  "rr_name (rr_set_max_ttl t r) = rr_name r" "rr_data (rr_set_max_ttl t r) = rr_data r"
  "rr_class (rr_set_max_ttl t r) = rr_class r"
  "rr_name (rr_set_min_ttl t r) = rr_name r" "rr_data (rr_set_min_ttl t r) = rr_data r"
  "rr_class (rr_set_min_ttl t r) = rr_class r"
  by (simp_all add: rr_set_ttl_def rr_set_max_ttl_def rr_set_min_ttl_def)

lemma all_records_map [simp]: "all_records (map_records f r) = List.map f (all_records r)"
  by (simp add: all_records_def map_records_def Let_def)

lemma max_list_opt_Some:
  "max_list_opt xs = Some x \<Longrightarrow> x \<in> set xs \<and> (\<forall>y \<in> set xs. y \<le> x)"
  unfolding max_list_opt_def by (drule max_by_key_greatest) simp

lemma min_list_opt_Some:
  "min_list_opt xs = Some x \<Longrightarrow> x \<in> set xs \<and> (\<forall>y \<in> set xs. x \<le> y)"
  unfolding min_list_opt_def by (drule min_by_key_least) simp

lemma list_opt_None [simp]: "max_list_opt xs = None \<longleftrightarrow> xs = []" "min_list_opt xs = None \<longleftrightarrow> xs = []"
  by (simp_all add: max_list_opt_def min_list_opt_def)

lemma set_map_filter: "set (List.map_filter f xs) = {y. \<exists>x \<in> set xs. f x = Some y}"
  by (auto simp: List.map_filter_def image_iff) force

lemma concat_section_ttls: "concat (section_ttls r) = List.map rr_ttl (all_records r)"
  by (simp add: section_ttls_def all_records_def Let_def)

lemma max_of_sections:
  assumes "max_list_opt (List.map_filter max_list_opt xss) = Some x"
  shows "x \<in> set (concat xss) \<and> (\<forall>y \<in> set (concat xss). y \<le> x)"
proof -
  note m = max_list_opt_Some [OF assms]
  have "y \<le> x" if ys: "ys \<in> set xss" and y: "y \<in> set ys" for y ys
  proof -
    obtain z where z: "max_list_opt ys = Some z" using y by (cases "max_list_opt ys") auto
    then have "z \<in> set (List.map_filter max_list_opt xss)" using ys by (auto simp: set_map_filter)
    then show ?thesis using m max_list_opt_Some [OF z] y by (meson order_trans)
  qed
  then show ?thesis using m max_list_opt_Some by (fastforce simp: set_map_filter)
qed

lemma r_max_ttl_Some:
  "r_max_ttl r = Some t \<Longrightarrow> t \<in> rr_ttl ` set (all_records r) \<and> (\<forall>x \<in> set (all_records r). rr_ttl x \<le> t)"
  unfolding r_max_ttl_def by (drule max_of_sections) (simp add: concat_section_ttls)

lemma r_counts_sync:
  "counts_fit (m_counts (r_message r)) \<Longrightarrow>
     (let h = m_header (r_message (r_sync_header_counts r)); m = r_message r
      in unat (h_query_count h) = length (m_queries m) \<and> unat (h_answer_count h) = length (m_answers m) \<and>
         unat (h_authority_count h) = length (m_authorities m) \<and>
         unat (h_additional_count h) = length (m_additionals m))"
  by (simp add: r_sync_header_counts_def update_header_counts_def counts_fit_def m_counts_def Let_def
      unsigned_of_nat take_bit_nat_eq_self)

section \<open>Properties\<close>

text \<open>Limiting the lifetime of a response to \<open>t\<close> lowers the TTL of every record of every section
  that exceeds \<open>t\<close>, leaves every other TTL, and changes nothing else of any record; the largest TTL
  reported afterwards is at most \<open>t\<close>.\<close>

theorem set_max_ttl_limits:
  "all_records (r_set_max_ttl t r) = List.map (\<lambda>x. x\<lparr>rr_ttl := min (rr_ttl x) t\<rparr>) (all_records r) \<and>
   (case r_max_ttl (r_set_max_ttl t r) of None \<Rightarrow> all_records r = [] | Some m \<Rightarrow> m \<le> t)"
proof -
  have e: "rr_set_max_ttl t x = x\<lparr>rr_ttl := min (rr_ttl x) t\<rparr>" for x :: rr
    by (simp add: rr_set_max_ttl_def rr_set_ttl_def min_def)
  have "all_records r = []" if "r_max_ttl r = None" for r
  proof -
    have "List.map_filter max_list_opt (section_ttls r) = []" using that by (simp add: r_max_ttl_def)
    then have "\<forall>ts \<in> set (section_ttls r). ts = []"
      by (auto simp: List.map_filter_def filter_empty_conv)
    then have "List.map rr_ttl (all_records r) = []" unfolding concat_section_ttls [symmetric] by simp
    then show ?thesis by simp
  qed
  from this [of "r_set_max_ttl t r"] r_max_ttl_Some [of "r_set_max_ttl t r"] show ?thesis
    by (auto simp: r_set_max_ttl_def e split: option.splits)
qed

text \<open>An error becomes a negative answer exactly when the upstream said NOERROR or NXDOMAIN and
  sent an SOA; the answer then carries that code, no answer records, this SOA as its only authority
  record, and header counts that agree with its sections. Every other error stays an error.\<close>

theorem as_soa_negative_answer:
  "(as_soa rid now q e = Some r \<longrightarrow>
      (\<exists>nr soa_rr. e = LE_Proto (NoRecordsFound nr) \<and> nr_soa nr = Some soa_rr \<and>
         nr_response_code nr \<in> {RC_NoError, RC_NXDomain} \<and>
         m_response_code (r_message r) = nr_response_code nr \<and> r_answers r = [] \<and>
         m_authorities (r_message r) = [soa_rr] \<and> m_queries (r_message r) = [q] \<and>
         h_authority_count (m_header (r_message r)) = 1 \<and> h_answer_count (m_header (r_message r)) = 0 \<and>
         h_query_count (m_header (r_message r)) = 1)) \<and>
   (as_soa rid now q e = None \<longleftrightarrow>
      \<not> is_soa_error e \<or>
      (\<exists>nr. e = LE_Proto (NoRecordsFound nr) \<and> nr_response_code nr \<notin> {RC_NoError, RC_NXDomain}))"
proof (cases e)
  case (LE_Proto k)
  then show ?thesis
    by (cases k)
      (auto simp: r_set_response_code_def m_set_response_code_def m_response_code_def r_answers_def
        r_add_authority_def m_add_authority_def r_sync_header_counts_def new_with_max_ttl_def
        new_with_deadline_def update_header_counts_def m_counts_def Let_def m_add_answers_def
        m_add_query_def m_to_response_def message_query_def message_new_def
        split: option.splits if_splits)
qed simp_all

theorem as_soa_negative_answer_witness:
  "\<exists>soa_rr. nr_soa \<lparr>nr_query = query_default, nr_soa = Some (forge_soa_record 5 name_root 30),
      nr_response_code = RC_NXDomain\<rparr> = Some soa_rr \<and>
    m_authorities (r_message (the (as_soa 1 0 query_default (LE_Proto (NoRecordsFound
      \<lparr>nr_query = query_default, nr_soa = Some (forge_soa_record 5 name_root 30),
      nr_response_code = RC_NXDomain\<rparr>))))) = [soa_rr]"
  using conjunct1 [OF as_soa_negative_answer [of 1 0 query_default "LE_Proto (NoRecordsFound
      \<lparr>nr_query = query_default, nr_soa = Some (forge_soa_record 5 name_root 30),
      nr_response_code = RC_NXDomain\<rparr>)" "the (as_soa 1 0 query_default (LE_Proto (NoRecordsFound
      \<lparr>nr_query = query_default, nr_soa = Some (forge_soa_record 5 name_root 30),
      nr_response_code = RC_NXDomain\<rparr>)))"]]
  by (auto simp: Let_def)

end
