(* ===== verification/Config.thy ===== *)
theory Config
  imports Dns_Message
begin

text \<open>
  Configuration data of the server: the options of a listener and the part of them that is in the
  cache key (\<open>config/server_opts.rs\<close>), the parameters of a rule group (\<open>config/rule_group.rs\<close>),
  speed-check modes (\<open>config/speed_mode.rs\<close>), response modes, address rules and the rule of a
  domain with its merging (\<open>config/mod.rs\<close>, \<open>config/domain_rule.rs\<close>).
\<close>

section \<open>Sanitised numbers\<close>

definition TTL_MAX :: u64 where
  "TTL_MAX = 0x7FFFFFFF"

definition sanitize_ttl :: "u64 \<Rightarrow> u64" where
  "sanitize_ttl v = (if v > TTL_MAX then TTL_MAX else v)"

definition sanitize_max_reply_ip_num :: "u8 \<Rightarrow> u8" where
  "sanitize_max_reply_ip_num v = clamp 1 16 v"

section \<open>Speed-check and response modes\<close>

datatype speed_mode = SM_None | SM_Ping | SM_Tcp u16 | SM_Https u16

datatype ping_addr = PA_Icmp ip_addr | PA_Tcp ip_addr u16 | PA_Https ip_addr u16

fun to_ping_addr :: "speed_mode \<Rightarrow> ip_addr \<Rightarrow> ping_addr option" where
  "to_ping_addr SM_None ip = None"
| "to_ping_addr SM_Ping ip = Some (PA_Icmp ip)"
| "to_ping_addr (SM_Tcp p) ip = Some (PA_Tcp ip p)"
| "to_ping_addr (SM_Https p) ip = Some (PA_Https ip p)"

definition to_ping_addrs :: "speed_mode \<Rightarrow> ip_addr list \<Rightarrow> ping_addr list" where
  "to_ping_addrs m ips = List.map_filter (to_ping_addr m) ips"

definition speed_push :: "speed_mode list \<Rightarrow> speed_mode \<Rightarrow> speed_mode list" where
  "speed_push ms m = (if m \<in> set ms then ms else ms @ [m])"

definition speed_push_all :: "speed_mode list \<Rightarrow> speed_mode list \<Rightarrow> speed_mode list" where
  "speed_push_all ms xs = foldl speed_push ms xs"

definition speed_from_vec :: "speed_mode list \<Rightarrow> speed_mode list" where
  "speed_from_vec xs = speed_push_all [] xs"

definition speed_default :: "speed_mode list" where
  "speed_default = [SM_Ping, SM_Tcp 443]"

definition resolve_speed_check_mode ::
    "speed_mode list option \<Rightarrow> speed_mode list option \<Rightarrow> speed_mode list" where
  "resolve_speed_check_mode domain_rule global = unwrap_or (or_else domain_rule global) speed_default"

definition resolve_dualstack_selection ::
    "bool option option \<Rightarrow> bool option \<Rightarrow> bool option \<Rightarrow> bool" where
  "resolve_dualstack_selection domain_rule grp global =
     unwrap_or (or_else (or_else (unwrap_or domain_rule None) grp) global) True"

datatype response_mode = FirstPing | FastestIp | FastestResponse

section \<open>Rules\<close>

record ip_net =
  net_addr :: ip_addr
  net_prefix :: nat

datatype 'a for_ip = ForV4 'a | ForV6 'a | ForNone

record ipset_config =
  is_name :: string

record nft_config =
  nft_family :: string
  nft_table :: string
  nft_name :: string

datatype address_rule =
    AR_SOA
  | AR_SOAv4
  | AR_SOAv6
  | AR_IGN
  | AR_IGNv4
  | AR_IGNv6
  | AR_Addr "32 word list option" "128 word list option"

definition push_new :: "'a list \<Rightarrow> 'a \<Rightarrow> 'a list" where
  "push_new xs x = (if x \<in> set xs then xs else xs @ [x])"

definition merge_list :: "'a list option \<Rightarrow> 'a list option \<Rightarrow> 'a list option" where
  "merge_list l r = (case r of None \<Rightarrow> l | Some rs \<Rightarrow> Some (foldl push_new (unwrap_or l []) rs))"

fun merge_address :: "address_rule \<Rightarrow> address_rule \<Rightarrow> address_rule" where
  "merge_address (AR_Addr l4 l6) (AR_Addr r4 r6) = AR_Addr (merge_list l4 r4) (merge_list l6 r6)"
| "merge_address lhs rhs = rhs"

datatype 'a ignorable = Ignore | Value 'a

datatype https_rule = HR_SOA | HR_Ignore | HR_Filter bool bool | HR_RecordData svcb

record domain_rule =
  dr_nameserver :: "string option"
  dr_address :: "address_rule option"
  dr_cname :: "dname ignorable option"
  dr_srv :: "srv option"
  dr_https :: "https_rule option"
  dr_speed_check_mode :: "speed_mode list option"
  dr_dualstack_ip_selection :: "bool option"
  dr_response_mode :: "response_mode option"
  dr_no_cache :: "bool option"
  dr_no_serve_expired :: "bool option"
  dr_nftset :: "nft_config for_ip list option"
  dr_ipset :: "ipset_config for_ip list option"
  dr_rr_ttl :: "u64 option"
  dr_rr_ttl_min :: "u64 option"
  dr_rr_ttl_max :: "u64 option"
  dr_subnet :: "client_subnet option"

definition domain_rule_default :: domain_rule where
  "domain_rule_default =
     \<lparr>dr_nameserver = None, dr_address = None, dr_cname = None, dr_srv = None, dr_https = None,
      dr_speed_check_mode = None, dr_dualstack_ip_selection = None, dr_response_mode = None,
      dr_no_cache = None, dr_no_serve_expired = None, dr_nftset = None, dr_ipset = None,
      dr_rr_ttl = None, dr_rr_ttl_min = None, dr_rr_ttl_max = None, dr_subnet = None\<rparr>"

definition replace_by :: "'a option \<Rightarrow> 'a option \<Rightarrow> 'a option" where
  "replace_by self rhs = or_else rhs self"

definition append_to :: "'a list option \<Rightarrow> 'a list option \<Rightarrow> 'a list option" where
  "append_to self rhs =
     (case rhs of
        None \<Rightarrow> self
      | Some xs \<Rightarrow> (case self of None \<Rightarrow> Some xs | Some ys \<Rightarrow> Some (ys @ xs)))"

definition dr_add_assign :: "domain_rule \<Rightarrow> domain_rule \<Rightarrow> domain_rule" where
  "dr_add_assign self rhs =
     \<lparr>dr_nameserver = replace_by (dr_nameserver self) (dr_nameserver rhs),
      dr_address = (case dr_address rhs of
          None \<Rightarrow> dr_address self
        | Some r \<Rightarrow> (case dr_address self of None \<Rightarrow> Some r | Some l \<Rightarrow> Some (merge_address l r))),
      dr_cname = replace_by (dr_cname self) (dr_cname rhs),
      dr_srv = replace_by (dr_srv self) (dr_srv rhs),
      dr_https = replace_by (dr_https self) (dr_https rhs),
      dr_speed_check_mode = (case dr_speed_check_mode rhs of
          None \<Rightarrow> dr_speed_check_mode self
        | Some ms \<Rightarrow> (case dr_speed_check_mode self of
              None \<Rightarrow> Some ms | Some l \<Rightarrow> Some (speed_push_all l ms))),
      dr_dualstack_ip_selection =
        replace_by (dr_dualstack_ip_selection self) (dr_dualstack_ip_selection rhs),
      dr_response_mode = replace_by (dr_response_mode self) (dr_response_mode rhs),
      dr_no_cache = replace_by (dr_no_cache self) (dr_no_cache rhs),
      dr_no_serve_expired = replace_by (dr_no_serve_expired self) (dr_no_serve_expired rhs),
      dr_nftset = append_to (dr_nftset self) (dr_nftset rhs),
      dr_ipset = append_to (dr_ipset self) (dr_ipset rhs),
      dr_rr_ttl = replace_by (dr_rr_ttl self) (dr_rr_ttl rhs),
      dr_rr_ttl_min = replace_by (dr_rr_ttl_min self) (dr_rr_ttl_min rhs),
      dr_rr_ttl_max = replace_by (dr_rr_ttl_max self) (dr_rr_ttl_max rhs),
      dr_subnet = replace_by (dr_subnet self) (dr_subnet rhs)\<rparr>"

section \<open>Options of a listener and the cache key\<close>

record server_opts =
  so_group :: "string option"
  so_rule_group :: "string option"
  so_no_rule_addr :: "bool option"
  so_no_rule_nameserver :: "bool option"
  so_no_rule_ipset :: "bool option"
  so_nftset :: "nft_config for_ip list option"
  so_ipset :: "ipset_config for_ip list option"
  so_no_speed_check :: "bool option"
  so_no_cache :: "bool option"
  so_no_rule_soa :: "bool option"
  so_no_api :: "bool option"
  so_acl :: "bool option"
  so_max_connections :: "usize option"
  so_max_connections_per_ip :: "usize option"
  so_no_dualstack_selection :: "bool option"
  so_force_aaaa_soa :: "bool option"
  so_force_no_cname :: "bool option"
  so_force_https_soa :: "bool option"
  so_no_serve_expired :: "bool option"
  so_is_background :: bool

definition server_opts_default :: server_opts where
  "server_opts_default =
     \<lparr>so_group = None, so_rule_group = None, so_no_rule_addr = None,
      so_no_rule_nameserver = None, so_no_rule_ipset = None, so_nftset = None, so_ipset = None,
      so_no_speed_check = None, so_no_cache = None, so_no_rule_soa = None, so_no_api = None,
      so_acl = None, so_max_connections = None, so_max_connections_per_ip = None,
      so_no_dualstack_selection = None, so_force_aaaa_soa = None, so_force_no_cname = None,
      so_force_https_soa = None, so_no_serve_expired = None, so_is_background = False\<rparr>"

definition extend_sets :: "'a list option \<Rightarrow> 'a list option \<Rightarrow> 'a list option" where
  "extend_sets self other =
     (case other of None \<Rightarrow> self | Some xs \<Rightarrow> Some (unwrap_or self [] @ xs))"

definition so_apply :: "server_opts \<Rightarrow> server_opts \<Rightarrow> server_opts" where
  "so_apply self other =
     self\<lparr>so_nftset := extend_sets (so_nftset self) (so_nftset other),
       so_ipset := extend_sets (so_ipset self) (so_ipset other),
       so_group := or_else (so_group self) (so_group other),
       so_rule_group := or_else (so_rule_group self) (so_rule_group other),
       so_no_rule_addr := or_else (so_no_rule_addr self) (so_no_rule_addr other),
       so_no_rule_nameserver := or_else (so_no_rule_nameserver self) (so_no_rule_nameserver other),
       so_no_rule_ipset := or_else (so_no_rule_ipset self) (so_no_rule_ipset other),
       so_no_speed_check := or_else (so_no_speed_check self) (so_no_speed_check other),
       so_no_cache := or_else (so_no_cache self) (so_no_cache other),
       so_no_rule_soa := or_else (so_no_rule_soa self) (so_no_rule_soa other),
       so_no_dualstack_selection := or_else (so_no_dualstack_selection self) (so_no_dualstack_selection other),
       so_force_aaaa_soa := or_else (so_force_aaaa_soa self) (so_force_aaaa_soa other),
       so_force_no_cname := or_else (so_force_no_cname self) (so_force_no_cname other),
       so_force_https_soa := or_else (so_force_https_soa self) (so_force_https_soa other),
       so_no_serve_expired := or_else (so_no_serve_expired self) (so_no_serve_expired other)\<rparr>"

record answer_opts =
  ao_rule_group :: "string option"
  ao_no_speed_check :: bool
  ao_no_dualstack_selection :: bool
  ao_force_aaaa_soa :: bool
  ao_force_no_cname :: bool
  ao_force_https_soa :: bool
  ao_no_rule_addr :: bool
  ao_no_rule_nameserver :: bool
  ao_no_rule_soa :: bool

definition from_server_opts :: "server_opts \<Rightarrow> answer_opts" where
  "from_server_opts opts =
     \<lparr>ao_rule_group = so_rule_group opts,
      ao_no_speed_check = unwrap_or (so_no_speed_check opts) False,
      ao_no_dualstack_selection = unwrap_or (so_no_dualstack_selection opts) False,
      ao_force_aaaa_soa = unwrap_or (so_force_aaaa_soa opts) False,
      ao_force_no_cname = so_force_no_cname opts \<noteq> None,
      ao_force_https_soa = unwrap_or (so_force_https_soa opts) False,
      ao_no_rule_addr = unwrap_or (so_no_rule_addr opts) False,
      ao_no_rule_nameserver = unwrap_or (so_no_rule_nameserver opts) False,
      ao_no_rule_soa = unwrap_or (so_no_rule_soa opts) False\<rparr>"

definition to_server_opts :: "answer_opts \<Rightarrow> string \<Rightarrow> server_opts" where
  "to_server_opts k grp =
     server_opts_default\<lparr>so_is_background := True,
       so_group := Some grp,
       so_rule_group := ao_rule_group k,
       so_no_speed_check := Some (ao_no_speed_check k),
       so_no_dualstack_selection := Some (ao_no_dualstack_selection k),
       so_force_aaaa_soa := Some (ao_force_aaaa_soa k),
       so_force_no_cname := (if ao_force_no_cname k then Some True else None),
       so_force_https_soa := Some (ao_force_https_soa k),
       so_no_rule_addr := Some (ao_no_rule_addr k),
       so_no_rule_nameserver := Some (ao_no_rule_nameserver k),
       so_no_rule_soa := Some (ao_no_rule_soa k)\<rparr>"

section \<open>Parameters of a rule group\<close>

record group_params =
  gp_force_no_cname :: "bool option"
  gp_force_aaaa_soa :: "bool option"
  gp_ipset_timeout :: "bool option"
  gp_nftset_timeout :: "bool option"
  gp_rr_ttl_min :: "u64 option"
  gp_rr_ttl_max :: "u64 option"
  gp_rr_ttl_reply_max :: "u64 option"
  gp_local_ttl :: "u64 option"
  gp_dualstack_ip_allow_force_aaaa :: "bool option"
  gp_dualstack_ip_selection_threshold :: "u64 option"
  gp_max_reply_ip_num :: "u8 option"
  gp_rr_ttl :: "u64 option"
  gp_response_mode :: "response_mode option"
  gp_speed_check_mode :: "speed_mode list option"
  gp_serve_expired :: "bool option"
  gp_serve_expired_reply_ttl :: "u64 option"
  gp_prefetch_domain :: "bool option"
  gp_dns64_prefix :: "ip_net option"
  gp_edns_client_subnet :: "ip_net option"
  gp_dualstack_ip_selection :: "bool option"

definition group_params_default :: group_params where
  "group_params_default =
     \<lparr>gp_force_no_cname = None, gp_force_aaaa_soa = None, gp_ipset_timeout = None,
      gp_nftset_timeout = None, gp_rr_ttl_min = None, gp_rr_ttl_max = None,
      gp_rr_ttl_reply_max = None, gp_local_ttl = None, gp_dualstack_ip_allow_force_aaaa = None,
      gp_dualstack_ip_selection_threshold = None, gp_max_reply_ip_num = None, gp_rr_ttl = None,
      gp_response_mode = None, gp_speed_check_mode = None, gp_serve_expired = None,
      gp_serve_expired_reply_ttl = None, gp_prefetch_domain = None, gp_dns64_prefix = None,
      gp_edns_client_subnet = None, gp_dualstack_ip_selection = None\<rparr>"

definition inherit_from :: "group_params \<Rightarrow> group_params \<Rightarrow> group_params" where
  "inherit_from self other =
     \<lparr>gp_force_no_cname = or_else (gp_force_no_cname self) (gp_force_no_cname other),
      gp_force_aaaa_soa = or_else (gp_force_aaaa_soa self) (gp_force_aaaa_soa other),
      gp_ipset_timeout = or_else (gp_ipset_timeout self) (gp_ipset_timeout other),
      gp_nftset_timeout = or_else (gp_nftset_timeout self) (gp_nftset_timeout other),
      gp_rr_ttl_min = or_else (gp_rr_ttl_min self) (gp_rr_ttl_min other),
      gp_rr_ttl_max = or_else (gp_rr_ttl_max self) (gp_rr_ttl_max other),
      gp_rr_ttl_reply_max = or_else (gp_rr_ttl_reply_max self) (gp_rr_ttl_reply_max other),
      gp_local_ttl = or_else (gp_local_ttl self) (gp_local_ttl other),
      gp_dualstack_ip_allow_force_aaaa = or_else (gp_dualstack_ip_allow_force_aaaa self) (gp_dualstack_ip_allow_force_aaaa other),
      gp_dualstack_ip_selection_threshold = or_else (gp_dualstack_ip_selection_threshold self) (gp_dualstack_ip_selection_threshold other),
      gp_max_reply_ip_num = or_else (gp_max_reply_ip_num self) (gp_max_reply_ip_num other),
      gp_rr_ttl = or_else (gp_rr_ttl self) (gp_rr_ttl other),
      gp_response_mode = or_else (gp_response_mode self) (gp_response_mode other),
      gp_speed_check_mode = or_else (gp_speed_check_mode self) (gp_speed_check_mode other),
      gp_serve_expired = or_else (gp_serve_expired self) (gp_serve_expired other),
      gp_serve_expired_reply_ttl = or_else (gp_serve_expired_reply_ttl self) (gp_serve_expired_reply_ttl other),
      gp_prefetch_domain = or_else (gp_prefetch_domain self) (gp_prefetch_domain other),
      gp_dns64_prefix = or_else (gp_dns64_prefix self) (gp_dns64_prefix other),
      gp_edns_client_subnet = or_else (gp_edns_client_subnet self) (gp_edns_client_subnet other),
      gp_dualstack_ip_selection = or_else (gp_dualstack_ip_selection self) (gp_dualstack_ip_selection other)\<rparr>"

section \<open>Lemmas\<close>

lemma speed_push_distinct: "distinct ms \<Longrightarrow> distinct (speed_push ms m)"
  by (simp add: speed_push_def)

lemma speed_push_all_distinct: "distinct ms \<Longrightarrow> distinct (speed_push_all ms xs)"
  unfolding speed_push_all_def
  by (induction xs arbitrary: ms) (auto intro: speed_push_distinct)

lemma speed_push_all_set: "set (speed_push_all ms xs) = set ms \<union> set xs"
  unfolding speed_push_all_def
  by (induction xs arbitrary: ms) (auto simp: speed_push_def)

lemma push_all_new_set: "set (foldl push_new xs ys) = set xs \<union> set ys"
  by (induction ys arbitrary: xs) (auto simp: push_new_def)

lemma push_all_new_distinct: "distinct xs \<Longrightarrow> distinct (foldl push_new xs ys)"
  by (induction ys arbitrary: xs) (auto simp: push_new_def)

lemma push_all_new_absorb: "set ys \<subseteq> set xs \<Longrightarrow> foldl push_new xs ys = xs"
  by (induction ys arbitrary: xs) (auto simp: push_new_def)

lemma from_to_server_opts: "from_server_opts (to_server_opts k g) = k"
  by (cases k) (auto simp: from_server_opts_def to_server_opts_def server_opts_default_def)

lemma extend_sets_assoc: "extend_sets (extend_sets a b) c = extend_sets a (extend_sets b c)"
  by (simp add: extend_sets_def split: option.splits)

lemma so_apply_assoc: "so_apply (so_apply a b) c = so_apply a (so_apply b c)"
  by (simp add: so_apply_def or_else_assoc extend_sets_assoc)

lemma inherit_from_assoc: "inherit_from (inherit_from a b) c = inherit_from a (inherit_from b c)"
  by (simp add: inherit_from_def or_else_assoc)

lemma inherit_from_default: "inherit_from p group_params_default = p"
  by (simp add: inherit_from_def group_params_default_def)

end
