(* ===== verification/Domain_Map.thy ===== *)
theory Domain_Map
  imports Domain_Name "HOL-Library.AList"
begin

text \<open>
  Domain patterns (\<open>config/domain.rs\<close>) and the map from patterns to values that all domain
  rules are looked up in (\<open>collections.rs\<close>, \<open>DomainMap\<close>). A Rust \<open>HashMap\<close> whose key type compares
  names without case is an association list on the lower-case form of its keys. The matcher of
  the crate \<open>wildcard\<close> is the parameter \<open>glob\<close> (pattern, input). The main theorems relate the walk up
  the labels in \<open>find\<close> to the meaning of the patterns.
\<close>

section \<open>Patterns\<close>

datatype wname =
    WDefault dname
  | WSuffix dname
  | WSub string dname
  | WFull dname

definition wildcard_is_match :: "(string \<Rightarrow> string \<Rightarrow> bool) \<Rightarrow> string \<Rightarrow> string \<Rightarrow> bool" where
  "wildcard_is_match glob w input = (if w = [] then True else glob w input)"

fun w_deref :: "wname \<Rightarrow> dname" where
  "w_deref (WDefault n) = n"
| "w_deref (WSuffix n) = n"
| "w_deref (WSub w n) = n"
| "w_deref (WFull n) = n"

fun w_map :: "(dname \<Rightarrow> dname) \<Rightarrow> wname \<Rightarrow> wname" where
  "w_map f (WDefault n) = WDefault (f n)"
| "w_map f (WSuffix n) = WSuffix (f n)"
| "w_map f (WSub w n) = WSub w (f n)"
| "w_map f (WFull n) = WFull (f n)"

fun w_is_match :: "(string \<Rightarrow> string \<Rightarrow> bool) \<Rightarrow> wname \<Rightarrow> dname \<Rightarrow> bool" where
  "w_is_match glob (WDefault n) name = zone_of n name"
| "w_is_match glob (WSuffix n) name = (\<not> eq_ignore_root_case n name \<and> zone_of n name)"
| "w_is_match glob (WSub w n) name =
     (eq_ignore_root_case n (base_name name) \<and>
      (case n_labels name of [] \<Rightarrow> True | x # _ \<Rightarrow> wildcard_is_match glob w x))"
| "w_is_match glob (WFull n) name = eq_ignore_root_case n name"

fun is_sub :: "wname \<Rightarrow> bool" where
  "is_sub (WSub w n) = True"
| "is_sub _ = False"

fun w_rank :: "wname \<Rightarrow> nat" where
  "w_rank (WDefault n) = 3"
| "w_rank (WSuffix n) = 2"
| "w_rank (WSub w n) = 1"
| "w_rank (WFull n) = 0"

definition cmp_bytes :: "string \<Rightarrow> string \<Rightarrow> rs_ordering" where
  "cmp_bytes = cmp_zip (cmp_u8 (\<lambda>c. c))"

definition w_cmp :: "wname \<Rightarrow> wname \<Rightarrow> rs_ordering" where
  "w_cmp a b =
     (case name_cmp (w_deref a) (w_deref b) of
        OLess \<Rightarrow> OLess
      | OGreater \<Rightarrow> OGreater
      | OEqual \<Rightarrow>
          (case rs_cmp (w_rank a) (w_rank b) of
             OEqual \<Rightarrow>
               (case (a, b) of
                  (WSub w1 _, WSub w2 _) \<Rightarrow> cmp_bytes w1 w2
                | _ \<Rightarrow> OEqual)
           | other \<Rightarrow> other))"

definition w_set_fqdn :: "wname \<Rightarrow> wname" where
  "w_set_fqdn = w_map (set_fqdn True)"

definition w_of_name :: "dname \<Rightarrow> wname" where
  "w_of_name n = (if is_wildcard n then WSub [] (base_name n) else WDefault n)"

text \<open>The derived equality of patterns: the constructor, the bytes of the wildcard, and the name
  without case.\<close>

definition w_canon :: "wname \<Rightarrow> wname" where
  "w_canon = w_map to_lowercase"

fun w_eq :: "wname \<Rightarrow> wname \<Rightarrow> bool" where
  "w_eq (WDefault a) (WDefault b) = name_eq a b"
| "w_eq (WSuffix a) (WSuffix b) = name_eq a b"
| "w_eq (WSub v a) (WSub w b) = (v = w \<and> name_eq a b)"
| "w_eq (WFull a) (WFull b) = name_eq a b"
| "w_eq _ _ = False"

lemma w_eq_iff_canon: "w_eq a b \<longleftrightarrow> w_canon a = w_canon b"
  by (cases a; cases b) (auto simp: w_canon_def name_eq_iff)

section \<open>The map\<close>

record 'v dmap =
  dm_map :: "(wname \<times> 'v) list"
  dm_wildcards :: "(dname \<times> wname list) list"

definition dm_empty :: "'v dmap" where
  "dm_empty = \<lparr>dm_map = [], dm_wildcards = []\<rparr>"

definition dm_get :: "'v dmap \<Rightarrow> wname \<Rightarrow> 'v option" where
  "dm_get m k = map_of (dm_map m) (w_canon k)"

definition dm_subs :: "'v dmap \<Rightarrow> dname \<Rightarrow> wname list" where
  "dm_subs m n = unwrap_or (map_of (dm_wildcards m) (to_lowercase n)) []"

text \<open>One turn of the loop of \<open>find\<close>: the four lookups at a level, in their order.\<close>

definition find_level ::
    "(string \<Rightarrow> string \<Rightarrow> bool) \<Rightarrow> 'v dmap \<Rightarrow> nat \<Rightarrow> dname \<Rightarrow> dname \<Rightarrow> 'v option" where
  "find_level glob m lvl last0 name =
     or_else (if lvl = 0 then dm_get m (WFull name) else None)
     (or_else (if lvl = 1
               then find_map (\<lambda>w. if w_is_match glob w last0 then dm_get m w else None) (dm_subs m name)
               else None)
     (or_else (if lvl \<ge> 1 then dm_get m (WSuffix name) else None)
       (dm_get m (WDefault name))))"

function find_from ::
    "(string \<Rightarrow> string \<Rightarrow> bool) \<Rightarrow> 'v dmap \<Rightarrow> nat \<Rightarrow> dname \<Rightarrow> dname \<Rightarrow> 'v option" where
  "find_from glob m lvl last0 name =
     (case find_level glob m lvl last0 name of
        Some v \<Rightarrow> Some v
      | None \<Rightarrow>
          if \<not> n_fqdn name then find_from glob m lvl last0 (set_fqdn True name)
          else if is_root name then None
          else find_from glob m (lvl + 1) name (base_name name))"
  by pat_completeness auto
termination
  by (relation "measure (\<lambda>(glob, m, lvl, last0, name).
        2 * length (n_labels name) + (if n_fqdn name then 0 else 1))")
    (auto simp: is_root_def)

declare find_from.simps [simp del]

definition dm_find :: "(string \<Rightarrow> string \<Rightarrow> bool) \<Rightarrow> 'v dmap \<Rightarrow> dname \<Rightarrow> 'v option" where
  "dm_find glob m name0 =
     (if dm_map m = [] then None
      else (let name = (if is_wildcard name0 then base_name name0 else name0)
            in find_from glob m 0 name name))"

definition dm_contains :: "(string \<Rightarrow> string \<Rightarrow> bool) \<Rightarrow> 'v dmap \<Rightarrow> dname \<Rightarrow> bool" where
  "dm_contains glob m d = (dm_find glob m d \<noteq> None)"

definition dm_len :: "'v dmap \<Rightarrow> nat" where
  "dm_len m = length (dm_map m)"

definition push_wildcard :: "wname \<Rightarrow> (dname \<times> wname list) list \<Rightarrow> (dname \<times> wname list) list" where
  "push_wildcard w ws =
     (let k = to_lowercase (w_deref w) in AList.update k (unwrap_or (map_of ws k) [] @ [w]) ws)"

definition dm_insert :: "wname \<Rightarrow> 'v \<Rightarrow> 'v dmap \<Rightarrow> 'v dmap \<times> 'v option" where
  "dm_insert name0 v m =
     (let name = w_set_fqdn name0;
          m1 = (if is_sub name then m\<lparr>dm_wildcards := push_wildcard name (dm_wildcards m)\<rparr> else m)
      in (m1\<lparr>dm_map := AList.update (w_canon name) v (dm_map m1)\<rparr>, dm_get m1 name))"

definition dm_remove :: "wname \<Rightarrow> 'v dmap \<Rightarrow> 'v dmap \<times> 'v option" where
  "dm_remove name m =
     (let k = to_lowercase (w_deref name);
          m1 = (if is_sub name
                then m\<lparr>dm_wildcards := AList.update k
                         (List.filter (\<lambda>n. \<not> w_eq n name) (unwrap_or (map_of (dm_wildcards m) k) []))
                         (dm_wildcards m)\<rparr>
                else m)
      in (m1\<lparr>dm_map := AList.delete (w_canon name) (dm_map m1)\<rparr>, dm_get m1 name))"

fun dm_from_iter :: "(wname \<times> 'v) list \<Rightarrow> 'v dmap \<Rightarrow> 'v dmap" where
  "dm_from_iter [] m = m"
| "dm_from_iter ((n, v) # rest) m =
     (let m1 = (if is_sub n then m\<lparr>dm_wildcards := push_wildcard n (dm_wildcards m)\<rparr> else m)
      in dm_from_iter rest (m1\<lparr>dm_map := AList.update (w_canon n) v (dm_map m1)\<rparr>))"

section \<open>The invariant of a map built by insertion\<close>

definition lower_name :: "dname \<Rightarrow> bool" where
  "lower_name n \<longleftrightarrow> to_lowercase n = n"

definition map_keys :: "'v dmap \<Rightarrow> wname set" where
  "map_keys m = set (List.map fst (dm_map m))"

definition dm_inv :: "'v dmap \<Rightarrow> bool" where
  "dm_inv m \<longleftrightarrow>
     distinct (List.map fst (dm_map m)) \<and>
     (\<forall>k \<in> map_keys m. w_canon k = k \<and> n_fqdn (w_deref k)) \<and>
     (\<forall>k \<in> map_keys m. is_sub k \<longrightarrow> k \<in> set (dm_subs m (w_deref k))) \<and>
     (\<forall>n. \<forall>w \<in> set (dm_subs m n). is_sub w \<and> w_canon w = w)"

lemma w_deref_map [simp]: "w_deref (w_map f w) = f (w_deref w)"
  by (cases w) simp_all

lemma is_sub_map [simp]: "is_sub (w_map f w) = is_sub w"
  by (cases w) simp_all

lemma w_canon_simps [simp]:
  "w_canon (WDefault n) = WDefault (to_lowercase n)"
  "w_canon (WSuffix n) = WSuffix (to_lowercase n)"
  "w_canon (WSub w n) = WSub w (to_lowercase n)"
  "w_canon (WFull n) = WFull (to_lowercase n)"
  by (simp_all add: w_canon_def)

lemma w_canon_idem [simp]: "w_canon (w_canon w) = w_canon w"
  by (cases w) simp_all

lemma w_canon_deref [simp]: "w_deref (w_canon w) = to_lowercase (w_deref w)"
  by (simp add: w_canon_def)

lemma is_sub_canon [simp]: "is_sub (w_canon w) = is_sub w"
  by (simp add: w_canon_def)

lemma w_set_fqdn_simps [simp]:
  "w_deref (w_set_fqdn w) = set_fqdn True (w_deref w)"
  "is_sub (w_set_fqdn w) = is_sub w"
  by (simp_all add: w_set_fqdn_def)

lemma w_canon_set_fqdn: "w_canon (w_set_fqdn w) = w_set_fqdn (w_canon w)"
  by (cases w) (simp_all add: w_set_fqdn_def set_fqdn_lower)

lemma dm_subs_push:
  "dm_subs (m\<lparr>dm_wildcards := push_wildcard w (dm_wildcards m)\<rparr>) n =
     (if to_lowercase n = to_lowercase (w_deref w) then dm_subs m n @ [w] else dm_subs m n)"
  by (auto simp: dm_subs_def push_wildcard_def Let_def update_conv')

lemma dm_subs_map_upd [simp]: "dm_subs (m\<lparr>dm_map := x\<rparr>) n = dm_subs m n"
  by (simp add: dm_subs_def)

lemma dm_get_subs_upd [simp]: "dm_get (m\<lparr>dm_wildcards := x\<rparr>) k = dm_get m k"
  by (simp add: dm_get_def)

lemma dm_get_insert:
  "dm_get (fst (dm_insert k v m)) j = (if w_eq j (w_set_fqdn k) then Some v else dm_get m j)"
  by (auto simp: dm_insert_def Let_def dm_get_def update_conv' w_eq_iff_canon)

lemma dm_inv_empty: "dm_inv dm_empty"
  by (simp add: dm_inv_def dm_empty_def dm_subs_def map_keys_def)

lemma dm_inv_insert:
  assumes "dm_inv m" "lower_name (w_deref k)"
  shows "dm_inv (fst (dm_insert k v m))"
proof -
  let ?k = "w_set_fqdn k"
  have c: "w_canon ?k = ?k"
    using assms(2) by (cases k) (simp_all add: w_set_fqdn_def lower_name_def set_fqdn_lower)
  have low: "to_lowercase (w_deref ?k) = w_deref ?k"
    by (metis c w_canon_deref)
  have fq: "n_fqdn (w_deref ?k)" by simp
  define m1 where "m1 = (if is_sub ?k then m\<lparr>dm_wildcards := push_wildcard ?k (dm_wildcards m)\<rparr> else m)"
  have map1: "dm_map m1 = dm_map m" by (simp add: m1_def)
  have subs1: "set (dm_subs m1 n) = set (dm_subs m n) \<union>
      (if is_sub ?k \<and> to_lowercase n = w_deref ?k then {?k} else {})" for n
    unfolding m1_def using low by (auto simp: dm_subs_push simp del: w_set_fqdn_simps)
  have res: "fst (dm_insert k v m) = m1\<lparr>dm_map := AList.update ?k v (dm_map m)\<rparr>"
    unfolding dm_insert_def Let_def m1_def [symmetric] by (simp add: c map1)
  have keys: "map_keys (m1\<lparr>dm_map := AList.update ?k v (dm_map m)\<rparr>) = insert ?k (map_keys m)"
    by (simp add: dom_update map_keys_def image_set [symmetric] del: image_set)
  show ?thesis
    unfolding res dm_inv_def keys
  proof (intro conjI)
    show "distinct (List.map fst (dm_map (m1\<lparr>dm_map := AList.update ?k v (dm_map m)\<rparr>)))"
      using assms(1) by (simp add: dm_inv_def distinct_update)
    show "\<forall>j \<in> insert ?k (map_keys m). w_canon j = j \<and> n_fqdn (w_deref j)"
      using assms(1) c fq unfolding dm_inv_def by simp
    show "\<forall>j \<in> insert ?k (map_keys m).
        is_sub j \<longrightarrow> j \<in> set (dm_subs (m1\<lparr>dm_map := AList.update ?k v (dm_map m)\<rparr>) (w_deref j))"
      using assms(1) low unfolding dm_inv_def
      by (auto simp: subs1 simp del: w_set_fqdn_simps)
    show "\<forall>n. \<forall>w \<in> set (dm_subs (m1\<lparr>dm_map := AList.update ?k v (dm_map m)\<rparr>) n).
        is_sub w \<and> w_canon w = w"
      using assms(1) c unfolding dm_inv_def by (auto simp: subs1 split: if_splits)
  qed
qed

section \<open>What \<open>find\<close> returns\<close>

definition key_len :: "wname \<Rightarrow> nat" where
  "key_len k = length (n_labels (w_deref k))"

definition matching :: "(string \<Rightarrow> string \<Rightarrow> bool) \<Rightarrow> 'v dmap \<Rightarrow> dname \<Rightarrow> wname \<Rightarrow> bool" where
  "matching glob m q k \<longleftrightarrow> k \<in> map_keys m \<and> w_is_match glob k q"

definition precedes :: "wname \<Rightarrow> wname \<Rightarrow> bool" where
  "precedes k k' \<longleftrightarrow> key_len k' < key_len k \<or> (key_len k' = key_len k \<and> w_rank k \<le> w_rank k')"

definition best_upto ::
    "(string \<Rightarrow> string \<Rightarrow> bool) \<Rightarrow> 'v dmap \<Rightarrow> dname \<Rightarrow> nat \<Rightarrow> 'v option \<Rightarrow> bool" where
  "best_upto glob m q n r \<longleftrightarrow>
     (case r of
        Some v \<Rightarrow> (\<exists>k. matching glob m q k \<and> dm_get m k = Some v \<and> key_len k \<le> n \<and>
                     (\<forall>k'. matching glob m q k' \<and> key_len k' \<le> n \<longrightarrow> precedes k k'))
      | None \<Rightarrow> (\<forall>k. matching glob m q k \<longrightarrow> key_len k > n))"

lemma map_keys_canon: "dm_inv m \<Longrightarrow> k \<in> map_keys m \<Longrightarrow> w_canon k = k \<and> n_fqdn (w_deref k)"
  by (simp add: dm_inv_def)

lemma dm_get_keys: "dm_get m k = Some v \<Longrightarrow> w_canon k \<in> map_keys m"
  unfolding dm_get_def map_keys_def by (metis map_of_SomeD image_eqI fst_conv list.set_map)

lemma dm_get_None_keys: "dm_inv m \<Longrightarrow> dm_get m k = None \<Longrightarrow> w_canon k = k \<Longrightarrow> k \<notin> map_keys m"
  by (simp add: dm_get_def map_keys_def map_of_eq_None_iff image_set [symmetric])

lemma keys_dm_get: "dm_inv m \<Longrightarrow> k \<in> map_keys m \<Longrightarrow> \<exists>v. dm_get m k = Some v"
  by (metis dm_get_None_keys map_keys_canon not_None_eq)

lemma lower_labels: "lower_name n \<Longrightarrow> List.map lower_str (n_labels n) = n_labels n"
  unfolding lower_name_def by (metis n_labels_simps(1))

lemma lower_key: "w_canon k = k \<Longrightarrow> lower_name (w_deref k)"
  unfolding lower_name_def by (metis w_canon_deref)

text \<open>A key that matches \<open>q\<close> and whose name is as long as a suffix \<open>name\<close> of \<open>q\<close> has this name,
  and its constructor says how far above \<open>q\<close> it can stand.\<close>

lemma matching_key_at:
  assumes inv: "dm_inv m" and q: "lower_name q" "n_labels q \<noteq> []"
    and s: "n_labels q = p @ n_labels name" "n_fqdn name" "lower_name name"
    and k: "matching glob m q k" "key_len k = length (n_labels name)"
  shows "(k = WFull name \<and> p = []) \<or> (\<exists>w. k = WSub w name \<and> length p = 1) \<or>
         (k = WSuffix name \<and> p \<noteq> []) \<or> k = WDefault name"
proof -
  have kk: "k \<in> map_keys m" and mt: "w_is_match glob k q" using k(1) by (auto simp: matching_def)
  note c = map_keys_canon [OF inv kk]
  have low: "lower_name (w_deref k)" using c lower_key by blast
  have nm: "w_deref k = name" if "\<exists>p'. n_labels q = p' @ n_labels (w_deref k)"
  proof (rule dname_eqI)
    from that obtain p' where "n_labels q = p' @ n_labels (w_deref k)" by blast
    with s(1) have "p' @ n_labels (w_deref k) = p @ n_labels name" by simp
    with k(2) show "n_labels (w_deref k) = n_labels name" by (simp add: key_len_def)
    show "n_fqdn (w_deref k) = n_fqdn name" using c s(2) by simp
  qed
  have z: "zone_of (w_deref k) q \<longleftrightarrow> (\<exists>p'. n_labels q = p' @ n_labels (w_deref k))"
    by (simp add: zone_of_iff lower_labels [OF low] lower_labels [OF q(1)])
  show ?thesis
  proof (cases k)
    case (WDefault n)
    then show ?thesis using mt z nm by simp
  next
    case (WSuffix n)
    with mt have "zone_of (w_deref k) q" and ne: "n_labels n \<noteq> n_labels q"
      by (simp_all add: eq_ignore_root_case_iff)
    with z nm have "w_deref k = name" by blast
    then have n: "n = name" using WSuffix by simp
    have "p \<noteq> []" using ne s(1) n by auto
    then show ?thesis using WSuffix n by simp
  next
    case (WSub w n)
    with mt have t: "n_labels n = tl (n_labels q)" by (simp add: eq_ignore_root_case_iff)
    then have "n_labels q = [hd (n_labels q)] @ n_labels (w_deref k)" using q(2) WSub by simp
    with nm have "w_deref k = name" by blast
    then have n: "n = name" using WSub by simp
    have "length (n_labels q) = length p + length (n_labels name)" using s(1) by simp
    moreover have "length (tl (n_labels q)) = length (n_labels name)" using t n by simp
    moreover have "length (n_labels q) \<noteq> 0" "length (tl (n_labels q)) = length (n_labels q) - 1"
      using q(2) by simp_all
    ultimately have "length p = 1" by linarith
    then show ?thesis using WSub n by simp
  next
    case (WFull n)
    with mt have "n_labels n = n_labels q" by (simp add: eq_ignore_root_case_iff)
    then have "n_labels q = [] @ n_labels (w_deref k)" using WFull by simp
    with nm have "w_deref k = name" by blast
    then have "n = name" using WFull by simp
    with \<open>n_labels n = n_labels q\<close> show ?thesis using WFull s(1) by simp
  qed
qed

lemma best_upto_hit:
  assumes "matching glob m q k" "dm_get m k = Some v" "key_len k = n"
    "\<And>k'. matching glob m q k' \<Longrightarrow> key_len k' = n \<Longrightarrow> w_rank k \<le> w_rank k'"
  shows "best_upto glob m q n (Some v)"
proof -
  have "precedes k k'" if "matching glob m q k'" "key_len k' \<le> n" for k'
    using assms(3) assms(4) [OF that(1)] that(2) by (auto simp: precedes_def)
  with assms show ?thesis unfolding best_upto_def by auto
qed

lemma best_upto_Suc:
  assumes "best_upto glob m q n r" "\<And>k. matching glob m q k \<Longrightarrow> key_len k \<noteq> Suc n"
  shows "best_upto glob m q (Suc n) r"
proof -
  have "key_len k \<le> n" if "matching glob m q k" "key_len k \<le> Suc n" for k
    using assms(2) [OF that(1)] that(2) by simp
  note le = this
  show ?thesis
  proof (cases r)
    case None
    then show ?thesis using assms(1) le unfolding best_upto_def
      by (simp add: not_le [symmetric]) blast
  next
    case (Some v)
    then obtain k where "matching glob m q k" "dm_get m k = Some v" "key_len k \<le> n"
        "\<forall>k'. matching glob m q k' \<and> key_len k' \<le> n \<longrightarrow> precedes k k'"
      using assms(1) unfolding best_upto_def by auto
    then show ?thesis using Some le unfolding best_upto_def by (auto intro!: exI [of _ k])
  qed
qed

lemma find_level_None:
  assumes inv: "dm_inv m" and q: "lower_name q" "n_labels q \<noteq> []"
    and s: "n_labels q = p @ n_labels name" "length p = lvl" "n_fqdn name" "lower_name name"
    and l: "lvl = 1 \<longrightarrow> last0 = q"
    and f: "find_level glob m lvl last0 name = None" and k: "matching glob m q k"
  shows "key_len k \<noteq> length (n_labels name)"
proof
  assume kl: "key_len k = length (n_labels name)"
  have kk: "k \<in> map_keys m" and mt: "w_is_match glob k q" using k by (auto simp: matching_def)
  then obtain v where v: "dm_get m k = Some v" using keys_dm_get [OF inv] by blast
  have "\<exists>w. k = WSub w name \<and> length p = 1"
    using matching_key_at [OF inv q s(1) s(3,4) k kl] f v s(2)
    by (auto simp: find_level_def split: if_splits)
  then obtain w where w: "k = WSub w name" "lvl = 1" using s(2) by auto
  then have "k \<in> set (dm_subs m name)"
    using inv kk unfolding dm_inv_def by (metis is_sub.simps(1) w_deref.simps(3))
  moreover have "\<forall>w \<in> set (dm_subs m name). \<not> w_is_match glob w q \<or> dm_get m w = None"
    using f w(2) l by (auto simp: find_level_def find_map_None_iff split: if_splits)
  ultimately show False using mt v by auto
qed

lemma find_level_Some:
  assumes inv: "dm_inv m" and q: "lower_name q" "n_labels q \<noteq> []"
    and s: "n_labels q = p @ n_labels name" "length p = lvl" "n_fqdn name" "lower_name name"
    and l: "lvl = 1 \<longrightarrow> last0 = q"
    and f: "find_level glob m lvl last0 name = Some v"
  shows "best_upto glob m q (length (n_labels name)) (Some v)"
proof -
  note at = matching_key_at [OF inv q s(1) s(3,4)]
  have canon: "w_canon k = k" if "w_deref k = name" for k
    using that s(4) by (cases k) (simp_all add: lower_name_def)
  have key: "k \<in> map_keys m" if "dm_get m k = Some v" "w_deref k = name" for k
    using dm_get_keys [OF that(1)] canon [OF that(2)] by simp
  have kl: "key_len k = length (n_labels name)" if "w_deref k = name" for k
    using that by (simp add: key_len_def)
  have zn: "zone_of name q" using s(1) by (auto simp: zone_of_iff)
  have hit: "best_upto glob m q (length (n_labels name)) (Some v)"
    if "dm_get m k = Some v" "w_deref k = name" "w_is_match glob k q"
      "\<And>k'. matching glob m q k' \<Longrightarrow> key_len k' = length (n_labels name) \<Longrightarrow> w_rank k \<le> w_rank k'"
    for k
    using that key kl by (intro best_upto_hit [of _ _ _ k]) (auto simp: matching_def)
  consider (full) "lvl = 0" "dm_get m (WFull name) = Some v"
    | (sub) "lvl = 1" "find_map (\<lambda>w. if w_is_match glob w last0 then dm_get m w else None) (dm_subs m name) = Some v"
    | (suffix) "lvl \<ge> 1" "dm_get m (WSuffix name) = Some v"
        "lvl = 1 \<longrightarrow> find_map (\<lambda>w. if w_is_match glob w last0 then dm_get m w else None) (dm_subs m name) = None"
    | (dflt) "dm_get m (WDefault name) = Some v" "find_level glob m lvl last0 name = Some v"
        "lvl = 0 \<longrightarrow> dm_get m (WFull name) = None" "lvl \<ge> 1 \<longrightarrow> dm_get m (WSuffix name) = None"
        "lvl = 1 \<longrightarrow> find_map (\<lambda>w. if w_is_match glob w last0 then dm_get m w else None) (dm_subs m name) = None"
    using f unfolding find_level_def
    by (cases "dm_get m (WFull name)"; cases "dm_get m (WSuffix name)";
        cases "find_map (\<lambda>w. if w_is_match glob w last0 then dm_get m w else None) (dm_subs m name)")
      (auto split: if_splits)
  then show ?thesis
  proof cases
    case full
    show ?thesis using full(1) s(1,2) by (intro hit [OF full(2)]) (auto simp: eq_ignore_root_case_iff)
  next
    case sub
    then obtain w where w: "w \<in> set (dm_subs m name)" "w_is_match glob w q" "dm_get m w = Some v"
      using l by (auto dest!: find_map_SomeD split: if_splits)
    have wc: "is_sub w" "w_canon w = w" using inv w(1) by (auto simp: dm_inv_def)
    then obtain x n where x: "w = WSub x n" by (cases w) auto
    have "w \<in> map_keys m" using dm_get_keys [OF w(3)] wc by simp
    then have mt: "matching glob m q w" using w(2) by (simp add: matching_def)
    have "length (n_labels n) = length (n_labels name)"
      using w(2) x s(1,2) sub(1) by (cases p) (auto simp: eq_ignore_root_case_iff)
    then have "w_deref w = name"
      using at [OF mt] x by (auto simp: key_len_def)
    then show ?thesis
    proof (intro hit [OF w(3)])
      fix k' assume "matching glob m q k'" "key_len k' = length (n_labels name)"
      then show "w_rank w \<le> w_rank k'" using at [of glob k'] s(2) sub(1) x by auto
    qed (use w in simp_all)
  next
    case suffix
    have ns: "\<not> (matching glob m q (WSub x name) \<and> lvl = 1)" for x
    proof
      assume a: "matching glob m q (WSub x name) \<and> lvl = 1"
      then have "WSub x name \<in> map_keys m" by (simp add: matching_def)
      with inv have "WSub x name \<in> set (dm_subs m name)"
        unfolding dm_inv_def by (metis is_sub.simps(1) w_deref.simps(3))
      with suffix(3) a l keys_dm_get [OF inv] show False
        by (fastforce simp: find_map_None_iff matching_def split: if_splits)
    qed
    have ne: "n_labels name \<noteq> n_labels q" using s(1,2) suffix(1) by auto
    show ?thesis
    proof (rule hit [OF suffix(2)])
      fix k' assume "matching glob m q k'" "key_len k' = length (n_labels name)"
      then show "w_rank (WSuffix name) \<le> w_rank k'" using at [of glob k'] s(2) suffix(1) ns by auto
    qed (use ne zn in \<open>simp_all add: eq_ignore_root_case_iff\<close>)
  next
    case dflt
    have no: "k \<in> map_keys m \<Longrightarrow> dm_get m k \<noteq> None" for k using keys_dm_get [OF inv] by auto
    show ?thesis
    proof (rule hit [OF dflt(1)])
      fix k' assume a: "matching glob m q k'" "key_len k' = length (n_labels name)"
      then have kk: "k' \<in> map_keys m" "w_is_match glob k' q" by (auto simp: matching_def)
      show "w_rank (WDefault name) \<le> w_rank k'"
      proof (cases "\<exists>x. k' = WSub x name \<and> length p = 1")
        case True
        then have "k' \<in> set (dm_subs m name)"
          using inv kk(1) unfolding dm_inv_def by (metis is_sub.simps(1) w_deref.simps(3))
        with True dflt(5) s(2) l kk no [OF kk(1)] show ?thesis
          by (auto simp: find_map_None_iff split: if_splits)
      next
        case False
        then show ?thesis using at [OF a] no [OF kk(1)] dflt(3,4) s(2) by (cases p) auto
      qed
    qed (use zn in simp_all)
  qed
qed

lemma find_from_correct:
  assumes inv: "dm_inv m" and q: "lower_name q" "n_labels q \<noteq> []"
    and s: "n_labels q = p @ n_labels name" "length p = lvl" "n_fqdn name" "lower_name name"
    and l: "lvl = 1 \<longrightarrow> last0 = q" "lvl = 0 \<longrightarrow> name = q"
  shows "best_upto glob m q (length (n_labels name)) (find_from glob m lvl last0 name)"
  using s l
proof (induction "length (n_labels name)" arbitrary: p name lvl last0)
  case 0
  then have "is_root name" by (simp add: is_root_def)
  then show ?case
    using find_level_None [OF inv q 0(2-6), of glob] find_level_Some [OF inv q 0(2-6), of glob] 0(1,4)
    by (subst find_from.simps) (auto split: option.splits simp: best_upto_def)
next
  case (Suc n)
  note none = find_level_None [OF inv q Suc.prems(1-5), of glob]
  note some = find_level_Some [OF inv q Suc.prems(1-5), of glob]
  have nr: "\<not> is_root name" using Suc.hyps(2) by (auto simp: is_root_def)
  obtain x xs where x: "n_labels name = x # xs" using Suc.hyps(2) by (cases "n_labels name") auto
  show ?case
  proof (cases "find_level glob m lvl last0 name")
    case (Some v)
    then show ?thesis using some by (subst find_from.simps) simp
  next
    case None
    have "lower_name (base_name name)"
      using Suc.prems(4) by (simp add: lower_name_def base_name_lower [symmetric])
    then have "best_upto glob m q n (find_from glob m (lvl + 1) name (base_name name))"
      using Suc.hyps(1) [of "base_name name" "p @ [x]" "lvl + 1" name] Suc.hyps(2) Suc.prems x by simp
    then have "best_upto glob m q (Suc n) (find_from glob m (lvl + 1) name (base_name name))"
      using none [OF None] Suc.hyps(2) by (intro best_upto_Suc) auto
    then show ?thesis using None nr Suc.prems(3) Suc.hyps(2)
      by (subst find_from.simps) simp
  qed
qed

lemma matching_key_len:
  assumes "dm_inv m" "lower_name q" "n_labels q \<noteq> []" "matching glob m q k"
  shows "key_len k \<le> length (n_labels q)"
proof -
  have "length (n_labels n) \<le> length (n_labels q)" if "zone_of n q" for n
    using that by (auto simp: zone_of_iff dest: arg_cong [of _ _ length])
  then show ?thesis
    using assms(4) by (cases k) (auto simp: matching_def key_len_def eq_ignore_root_case_iff)
qed

fun dm_build :: "(wname \<times> 'v) list \<Rightarrow> 'v dmap \<Rightarrow> 'v dmap" where
  "dm_build [] m = m"
| "dm_build ((k, v) # kvs) m = dm_build kvs (fst (dm_insert k v m))"

lemma dm_inv_build:
  "dm_inv m \<Longrightarrow> \<forall>(k, v) \<in> set kvs. lower_name (w_deref k) \<Longrightarrow> dm_inv (dm_build kvs m)"
  by (induction kvs m rule: dm_build.induct) (auto intro: dm_inv_insert)

lemma dm_find_best_upto:
  assumes "dm_inv m" "lower_name q" "n_fqdn q" "n_labels q \<noteq> []" "\<not> is_wildcard q"
  shows "best_upto glob m q (length (n_labels q)) (dm_find glob m q)"
proof (cases "dm_map m = []")
  case True
  then show ?thesis by (simp add: dm_find_def best_upto_def matching_def map_keys_def)
next
  case False
  then show ?thesis
    using find_from_correct [OF assms(1,2,4), of "[]" q 0 q glob] assms
    by (simp add: dm_find_def)
qed

section \<open>Properties\<close>

text \<open>C1: in a map built by insertions of lower-case patterns, the lookup of a query name
  returns a value exactly when some pattern matches the name in the sense of
  \<open>WildcardName::is_match\<close>, and the value is that of the best matching pattern: the one with
  the longest name, and among patterns on one name the full-name pattern before the one-level wildcard,
  the suffix pattern and the default pattern.\<close>

theorem find_returns_best_match:
  assumes "\<forall>(k, v) \<in> set kvs. lower_name (w_deref k)"
    and "lower_name q" "n_fqdn q" "n_labels q \<noteq> []" "\<not> is_wildcard q"
  defines "m \<equiv> dm_build kvs dm_empty"
  shows "(dm_find glob m q = None \<longleftrightarrow> (\<forall>k. \<not> matching glob m q k)) \<and>
         (\<forall>v. dm_find glob m q = Some v \<longrightarrow>
            (\<exists>k. matching glob m q k \<and> dm_get m k = Some v \<and>
               (\<forall>k'. matching glob m q k' \<longrightarrow> precedes k k')))"
proof -
  have inv: "dm_inv m" unfolding m_def by (rule dm_inv_build [OF dm_inv_empty assms(1)])
  note b = dm_find_best_upto [OF inv assms(2-5), of glob]
  have le: "key_len k \<le> length (n_labels q)" if "matching glob m q k" for k
    using matching_key_len [OF inv assms(2,4) that] .
  show ?thesis
  proof (cases "dm_find glob m q")
    case None
    then have "\<not> matching glob m q k" for k
      using b le [of k] by (auto simp: best_upto_def)
    then show ?thesis using None by simp
  next
    case (Some v)
    then show ?thesis using b le by (auto simp: best_upto_def)
  qed
qed

definition demo_name :: "string list \<Rightarrow> dname" where
  "demo_name ls = \<lparr>n_labels = ls, n_fqdn = True\<rparr>"

definition demo_rules :: "(wname \<times> nat) list" where
  "demo_rules = [(WSuffix (demo_name [''com'']), 1), (WSub [] (demo_name [''example'', ''com'']), 2)]"

theorem find_returns_best_match_witness:
  "\<exists>k. matching (\<lambda>_ _. False) (dm_build demo_rules dm_empty) (demo_name [''a'', ''example'', ''com'']) k"
proof -
  have h: "\<forall>(k, v) \<in> set demo_rules. lower_name (w_deref k)"
    "lower_name (demo_name [''a'', ''example'', ''com''])" "n_fqdn (demo_name [''a'', ''example'', ''com''])"
    "n_labels (demo_name [''a'', ''example'', ''com'']) \<noteq> []"
    "\<not> is_wildcard (demo_name [''a'', ''example'', ''com''])"
    by code_simp+
  have "dm_find (\<lambda>_ _. False) (dm_build demo_rules dm_empty) (demo_name [''a'', ''example'', ''com'']) = Some 2"
    by code_simp
  with find_returns_best_match [OF h, of "\<lambda>_ _. False"] show ?thesis by blast
qed

end
