(* ===== verification/Domain_Rules.thy ===== *)
theory Domain_Rules
  imports Config Domain_Map "HOL-Library.Product_Lexorder" "HOL-Library.List_Lexorder" "HOL-Library.Multiset"
begin

text \<open>
  The table of domain rules (\<open>dns_rule.rs\<close>): the rules of every kind are collected per pattern,
  the patterns are sorted so that a parent domain comes before its subdomains, and each becomes a
  node that points to the node of its enclosing zone. Reading a setting walks from the node of a
  query name up these zones. The iteration order of the intermediate \<open>HashMap\<close> is arbitrary in the
  code; here it is the order of the list given to \<open>build_nodes\<close>, and a theorem shows that it
  does not matter. The interning of equal rules behind shared pointers is the identity on values.
\<close>

section \<open>Collecting the rules of a pattern\<close>

datatype domain = DomName wname | DomSet string

type_synonym 'a for_domain = "domain \<times> 'a"
type_synonym domain_sets = "string \<Rightarrow> wname list option"
type_synonym name_rules = "(wname \<times> domain_rule) list"

definition expand_domain :: "domain_sets \<Rightarrow> domain \<Rightarrow> wname list" where
  "expand_domain sets d = (case d of DomName n \<Rightarrow> [n] | DomSet s \<Rightarrow> unwrap_or (sets s) [])"

text \<open>\<open>*entry(name).or_default()\<close> followed by an update in place.\<close>

fun entry_upd :: "wname \<Rightarrow> (domain_rule \<Rightarrow> domain_rule) \<Rightarrow> name_rules \<Rightarrow> name_rules" where
  "entry_upd k f [] = [(k, f domain_rule_default)]"
| "entry_upd k f ((n, r) # rest) = (if w_eq n k then (n, f r) # rest else (n, r) # entry_upd k f rest)"

definition add_rules ::
    "domain_sets \<Rightarrow> ('a \<Rightarrow> domain_rule \<Rightarrow> domain_rule) \<Rightarrow> 'a for_domain list \<Rightarrow> name_rules \<Rightarrow> name_rules" where
  "add_rules sets f rules m =
     foldl (\<lambda>m (d, c). foldl (\<lambda>m n. entry_upd n (f c) m) m (expand_domain sets d)) m rules"

definition set_address :: "address_rule \<Rightarrow> domain_rule \<Rightarrow> domain_rule" where
  "set_address a r = r\<lparr>dr_address :=
     (case dr_address r of Some l \<Rightarrow> Some (merge_address l a) | None \<Rightarrow> Some a)\<rparr>"

definition set_nameserver :: "string \<Rightarrow> domain_rule \<Rightarrow> domain_rule" where
  "set_nameserver g r = r\<lparr>dr_nameserver := Some g\<rparr>"

definition set_cname :: "dname ignorable \<Rightarrow> domain_rule \<Rightarrow> domain_rule" where
  "set_cname c r = r\<lparr>dr_cname := Some c\<rparr>"

definition set_srv :: "srv \<Rightarrow> domain_rule \<Rightarrow> domain_rule" where
  "set_srv s r = r\<lparr>dr_srv := Some s\<rparr>"

definition set_https :: "https_rule \<Rightarrow> domain_rule \<Rightarrow> domain_rule" where
  "set_https h r = r\<lparr>dr_https := Some h\<rparr>"

definition extend_nftset :: "nft_config for_ip list \<Rightarrow> domain_rule \<Rightarrow> domain_rule" where
  "extend_nftset xs r = r\<lparr>dr_nftset := Some (unwrap_or (dr_nftset r) [] @ xs)\<rparr>"

definition extend_ipset :: "ipset_config for_ip list \<Rightarrow> domain_rule \<Rightarrow> domain_rule" where
  "extend_ipset xs r = r\<lparr>dr_ipset := Some (unwrap_or (dr_ipset r) [] @ xs)\<rparr>"

record rule_sources =
  rs_domain_rules :: "domain_rule for_domain list"
  rs_address_rules :: "address_rule for_domain list"
  rs_forward_rules :: "string for_domain list"
  rs_cnames :: "(dname ignorable) for_domain list"
  rs_srv_records :: "srv for_domain list"
  rs_https_records :: "https_rule for_domain list"
  rs_nftsets :: "(nft_config for_ip list) for_domain list"
  rs_ipsets :: "(ipset_config for_ip list) for_domain list"

definition collect_rules :: "domain_sets \<Rightarrow> rule_sources \<Rightarrow> name_rules" where
  "collect_rules sets s =
     (let m = add_rules sets (\<lambda>c r. dr_add_assign r c) (rs_domain_rules s) [];
          m = add_rules sets set_address (rs_address_rules s) m;
          m = add_rules sets set_nameserver (rs_forward_rules s) m;
          m = add_rules sets set_cname (rs_cnames s) m;
          m = add_rules sets set_srv (rs_srv_records s) m;
          m = add_rules sets set_https (rs_https_records s) m;
          m = add_rules sets extend_nftset (rs_nftsets s) m
      in add_rules sets extend_ipset (rs_ipsets s) m)"

section \<open>The tree of nodes\<close>

datatype dnode = DNode (dn_name: wname) (dn_rule: domain_rule) (dn_zone: "dnode option")

fun insert_by :: "('a \<Rightarrow> 'a \<Rightarrow> rs_ordering) \<Rightarrow> 'a \<Rightarrow> 'a list \<Rightarrow> 'a list" where
  "insert_by c x [] = [x]"
| "insert_by c x (y # ys) = (if c x y = OGreater then y # insert_by c x ys else x # y # ys)"

fun sort_by :: "('a \<Rightarrow> 'a \<Rightarrow> rs_ordering) \<Rightarrow> 'a list \<Rightarrow> 'a list" where
  "sort_by c [] = []"
| "sort_by c (x # xs) = insert_by c x (sort_by c xs)"

definition add_node ::
    "(string \<Rightarrow> string \<Rightarrow> bool) \<Rightarrow> dnode dmap \<Rightarrow> wname \<times> domain_rule \<Rightarrow> dnode dmap" where
  "add_node glob rules = (\<lambda>(name, rule).
     let zone = dm_find glob rules (base_name (w_deref name));
         node = DNode name rule zone
     in fst (dm_insert name node rules))"

definition build_nodes :: "(string \<Rightarrow> string \<Rightarrow> bool) \<Rightarrow> name_rules \<Rightarrow> dnode dmap" where
  "build_nodes glob items =
     foldl (add_node glob) dm_empty (sort_by (\<lambda>a b. w_cmp (fst a) (fst b)) items)"

definition drm_create ::
    "(string \<Rightarrow> string \<Rightarrow> bool) \<Rightarrow> domain_sets \<Rightarrow> rule_sources \<Rightarrow> dnode dmap" where
  "drm_create glob sets s = build_nodes glob (collect_rules sets s)"

fun dn_get :: "(dnode \<Rightarrow> 'a option) \<Rightarrow> dnode \<Rightarrow> 'a option" where
  "dn_get f (DNode n r z) =
     (case f (DNode n r z) of
        Some v \<Rightarrow> Some v
      | None \<Rightarrow> (case z of None \<Rightarrow> None | Some p \<Rightarrow> dn_get f p))"

definition opt_get :: "(dnode \<Rightarrow> 'a option) \<Rightarrow> dnode option \<Rightarrow> 'a option" where
  "opt_get f n = (case n of None \<Rightarrow> None | Some d \<Rightarrow> dn_get f d)"

section \<open>The order of patterns\<close>

definition codes :: "string \<Rightarrow> nat list" where
  "codes s = List.map of_char s"

definition w_key :: "wname \<Rightarrow> bool \<times> nat list list \<times> nat \<times> nat list" where
  "w_key w = (n_fqdn (w_deref w), rev (List.map (\<lambda>l. codes (lower_str l)) (n_labels (w_deref w))),
     w_rank w, (case w of WSub p _ \<Rightarrow> codes p | _ \<Rightarrow> []))"

lemma then_with_assoc: "then_with (then_with a b) c = then_with a (then_with b c)"
  by (cases a) simp_all

lemma rs_cmp_Cons:
  "rs_cmp (a # as) (b # bs) = then_with (rs_cmp a b) (rs_cmp as (bs :: 'a::linorder list))"
  by (auto simp: rs_cmp_def)

lemma rs_cmp_Pair:
  "rs_cmp (a, x) (b, y) = then_with (rs_cmp a b) (rs_cmp x (y :: 'b::linorder))"
  for a b :: "'a::linorder"
  by (auto simp: rs_cmp_def less_prod_def)

lemma cmp_zip_lex:
  assumes "\<And>a b. c a b = rs_cmp (f a) (f b :: 'k::linorder)"
  shows "cmp_zip c xs ys = rs_cmp (List.map f xs) (List.map f ys)"
proof (induction xs arbitrary: ys)
  case Nil
  then show ?case by (cases ys) (auto simp: rs_cmp_def)
next
  case (Cons x xs)
  then show ?case using assms
    by (cases ys) (simp_all add: rs_cmp_Cons, simp add: rs_cmp_def)
qed

lemma w_cmp_key: "w_cmp a b = rs_cmp (w_key a) (w_key b)"
proof -
  have l: "label_cmp lower_char l r = rs_cmp (codes (lower_str l)) (codes (lower_str r))" for l r
  proof -
    have "label_cmp lower_char l r
        = rs_cmp (List.map (\<lambda>c. of_char (lower_char c) :: nat) l) (List.map (\<lambda>c. of_char (lower_char c)) r)"
      unfolding label_cmp_def by (rule cmp_zip_lex) (simp add: cmp_u8_def)
    then show ?thesis by (simp add: codes_def lower_str_def comp_def)
  qed
  have n: "name_cmp m n = then_with (rs_cmp (n_fqdn m) (n_fqdn n))
      (rs_cmp (rev (List.map (\<lambda>l. codes (lower_str l)) (n_labels m)))
              (rev (List.map (\<lambda>l. codes (lower_str l)) (n_labels n))))" for m n
    using cmp_zip_lex [where c = "label_cmp lower_char", OF l, of "rev (n_labels m)" "rev (n_labels n)"]
    by (auto simp: name_cmp_def name_cmp_with_def cmp_labels_def rev_map rs_cmp_def)
  have p: "cmp_bytes v w = rs_cmp (codes v) (codes w)" for v w
    unfolding cmp_bytes_def codes_def by (rule cmp_zip_lex) (simp add: cmp_u8_def)
  have same: "w_rank a \<noteq> w_rank b \<or>
      (case (a, b) of (WSub w1 _, WSub w2 _) \<Rightarrow> True | _ \<Rightarrow> \<not> is_sub a \<and> \<not> is_sub b)"
    by (cases a; cases b) auto
  have "w_cmp a b = then_with (name_cmp (w_deref a) (w_deref b)) (then_with (rs_cmp (w_rank a) (w_rank b))
      (rs_cmp (case a of WSub p _ \<Rightarrow> codes p | _ \<Rightarrow> []) (case b of WSub p _ \<Rightarrow> codes p | _ \<Rightarrow> [])))"
    unfolding w_cmp_def using same
    by (auto simp: p rs_cmp_def split: rs_ordering.splits wname.splits)
  then show ?thesis
    by (simp add: w_key_def rs_cmp_Pair n then_with_assoc)
qed

lemma codes_inject: "codes a = codes b \<Longrightarrow> a = b"
  unfolding codes_def by (rule map_injective) (auto simp: inj_def)

lemma w_key_inject: "w_key a = w_key b \<longleftrightarrow> w_eq a b"
proof -
  have "List.map (\<lambda>l. codes (lower_str l)) xs = List.map (\<lambda>l. codes (lower_str l)) ys \<longleftrightarrow>
      List.map lower_str xs = List.map lower_str ys" for xs ys
    by (induction xs arbitrary: ys) (auto simp: Cons_eq_map_conv map_eq_Cons_conv dest: codes_inject)
  then have "to_lowercase m = to_lowercase n \<longleftrightarrow> n_fqdn m = n_fqdn n \<and>
      List.map (\<lambda>l. codes (lower_str l)) (n_labels m) = List.map (\<lambda>l. codes (lower_str l)) (n_labels n)"
    for m n by (cases m; cases n) (auto simp: to_lowercase_def)
  then show ?thesis
    by (cases a; cases b) (auto simp: w_key_def name_eq_iff dest: codes_inject)
qed

lemma insert_by_key:
  "(\<And>a b. c a b = rs_cmp (f a) (f b :: 'k::linorder)) \<Longrightarrow> insert_by c x ys = insort_key f x ys"
  by (induction ys) (auto simp: rs_cmp_def)

lemma sort_by_key:
  assumes "\<And>a b. c a b = rs_cmp (f a) (f b :: 'k::linorder)"
  shows "sort_by c xs = sort_key f xs"
  by (induction xs) (simp_all add: insert_by_key [OF assms])

lemma build_nodes_sorted:
  "build_nodes glob items = foldl (add_node glob) dm_empty (sort_key (\<lambda>x. w_key (fst x)) items)"
  unfolding build_nodes_def by (subst sort_by_key [where f = "\<lambda>x. w_key (fst x)"]) (simp_all add: w_cmp_key)

lemma sort_key_perm_unique:
  assumes "mset xs = mset ys" "distinct (List.map f xs)"
  shows "sort_key f xs = sort_key f ys"
proof -
  have "inj_on f (set xs)" using assms(2) by (simp add: distinct_map)
  then show ?thesis
    by (intro sort_key_eq_sort_key) (use assms in \<open>auto simp: distinct_map dest: mset_eq_setD\<close>)
qed

section \<open>Zones\<close>

definition lower_labels_of :: "dname \<Rightarrow> string list" where
  "lower_labels_of n = List.map lower_str (n_labels n)"

definition in_zone :: "dname \<Rightarrow> dname \<Rightarrow> bool" where
  "in_zone z n \<longleftrightarrow> (\<exists>p. lower_labels_of n = p @ lower_labels_of z)"

definition subs_keyed :: "'v dmap \<Rightarrow> bool" where
  "subs_keyed m \<longleftrightarrow> (\<forall>n. \<forall>w \<in> set (dm_subs m n). to_lowercase (w_deref w) = to_lowercase n)"

lemma dm_subs_insert:
  "dm_subs (fst (dm_insert k v m)) n =
     (if is_sub k \<and> to_lowercase n = to_lowercase (w_deref (w_set_fqdn k))
      then dm_subs m n @ [w_set_fqdn k] else dm_subs m n)"
  by (auto simp: dm_insert_def Let_def dm_subs_push)

lemma subs_keyed_insert: "subs_keyed m \<Longrightarrow> subs_keyed (fst (dm_insert k v m))"
  by (auto simp: subs_keyed_def dm_subs_insert simp del: w_set_fqdn_simps split: if_splits)

lemma lower_labels_eq: "to_lowercase a = to_lowercase b \<Longrightarrow> lower_labels_of a = lower_labels_of b"
  unfolding lower_labels_of_def by (metis n_labels_simps(1))

lemma w_eq_lower_labels: "w_eq a b \<Longrightarrow> lower_labels_of (w_deref a) = lower_labels_of (w_deref b)"
  by (metis lower_labels_eq w_canon_deref w_eq_iff_canon)

lemma lower_labels_simps [simp]:
  "lower_labels_of (set_fqdn b n) = lower_labels_of n"
  "lower_labels_of (base_name n) = tl (lower_labels_of n)"
  by (simp_all add: lower_labels_of_def map_tl)

lemma in_zone_base: "in_zone z (base_name n) \<Longrightarrow> in_zone z n"
proof -
  assume "in_zone z (base_name n)"
  then obtain p where p: "tl (lower_labels_of n) = p @ lower_labels_of z" by (auto simp: in_zone_def)
  show ?thesis
  proof (cases "lower_labels_of n")
    case Nil
    then show ?thesis using p by (auto simp: in_zone_def)
  next
    case (Cons a list)
    then have "lower_labels_of n = (a # p) @ lower_labels_of z" using p by simp
    then show ?thesis unfolding in_zone_def by blast
  qed
qed

lemma in_zone_self: "lower_labels_of z = lower_labels_of n \<Longrightarrow> in_zone z n"
  unfolding in_zone_def by (metis append_Nil)

lemma dm_get_insert_other:
  "lower_labels_of (w_deref j) \<noteq> lower_labels_of (w_deref k) \<Longrightarrow>
     dm_get (fst (dm_insert k v m)) j = dm_get m j"
  using w_eq_lower_labels [of j "w_set_fqdn k"] by (auto simp: dm_get_insert)

lemma find_level_insert_other:
  assumes "subs_keyed m" "lower_labels_of name \<noteq> lower_labels_of (w_deref k)"
  shows "find_level glob (fst (dm_insert k v m)) lvl last0 name = find_level glob m lvl last0 name"
proof -
  have subs: "dm_subs (fst (dm_insert k v m)) name = dm_subs m name"
    using assms(2) lower_labels_eq [of name "w_deref (w_set_fqdn k)"] by (auto simp: dm_subs_insert)
  have "dm_get (fst (dm_insert k v m)) w = dm_get m w" if "w \<in> set (dm_subs m name)" for w
    using assms that lower_labels_eq [of "w_deref w" name]
    by (intro dm_get_insert_other) (auto simp: subs_keyed_def)
  then have "find_map (\<lambda>w. if w_is_match glob w last0 then dm_get (fst (dm_insert k v m)) w else None) xs
      = find_map (\<lambda>w. if w_is_match glob w last0 then dm_get m w else None) xs"
    if "set xs \<subseteq> set (dm_subs m name)" for xs
    using that by (induction xs) (auto split: option.splits)
  then show ?thesis
    unfolding find_level_def subs using assms(2) by (simp add: dm_get_insert_other)
qed

lemma find_from_insert_other:
  assumes "subs_keyed m"
  shows "\<not> in_zone (w_deref k) name \<Longrightarrow>
    find_from glob (fst (dm_insert k v m)) lvl last0 name = find_from glob m lvl last0 name"
proof (induction "2 * length (n_labels name) + (if n_fqdn name then 0 else 1)"
    arbitrary: name lvl last0 rule: less_induct)
  case less
  have ne: "lower_labels_of name \<noteq> lower_labels_of (w_deref k)"
    using less.prems in_zone_self by metis
  note lv = find_level_insert_other [OF assms ne]
  show ?case
  proof (cases "find_level glob m lvl last0 name")
    case (Some a)
    then show ?thesis using lv by (simp add: find_from.simps [of _ _ _ _ name])
  next
    case None
    consider (pq) "\<not> n_fqdn name" | (root) "n_fqdn name" "is_root name"
      | (up) "n_fqdn name" "\<not> is_root name" by blast
    then show ?thesis
    proof cases
      case pq
      have "\<not> in_zone (w_deref k) (set_fqdn True name)"
        using less.prems by (simp add: in_zone_def)
      then show ?thesis using less.hyps [of "set_fqdn True name"] pq lv None
        by (simp add: find_from.simps [of _ _ _ _ name])
    next
      case root
      then show ?thesis using lv None by (simp add: find_from.simps [of _ _ _ _ name])
    next
      case up
      then have "n_labels name \<noteq> []" by (simp add: is_root_def)
      moreover have "\<not> in_zone (w_deref k) (base_name name)" using less.prems in_zone_base by blast
      ultimately show ?thesis using less.hyps [of "base_name name"] up lv None
        by (simp add: find_from.simps [of _ _ _ _ name])
    qed
  qed
qed

lemma find_from_empty: "dm_map m = [] \<Longrightarrow> find_from glob m lvl last0 name = None"
proof (induction glob m lvl last0 name rule: find_from.induct)
  case (1 glob m lvl last0 name)
  have "dm_get m k = None" for k using 1 by (simp add: dm_get_def)
  then have "find_level glob m lvl last0 name = None"
    by (simp add: find_level_def find_map_None_iff)
  with 1 show ?case by (subst find_from.simps) simp
qed

lemma dm_find_find_from:
  "dm_find glob m q = (let n = (if is_wildcard q then base_name q else q) in find_from glob m 0 n n)"
  by (simp add: dm_find_def find_from_empty Let_def)

lemma dm_find_insert_other:
  assumes "subs_keyed m" "\<not> in_zone (w_deref k) q"
  shows "dm_find glob (fst (dm_insert k v m)) q = dm_find glob m q"
proof -
  have "\<not> in_zone (w_deref k) (base_name q)" using assms(2) in_zone_base by blast
  then show ?thesis
    using assms by (simp add: dm_find_find_from Let_def find_from_insert_other)
qed

lemma subs_keyed_add_node: "subs_keyed m \<Longrightarrow> subs_keyed (add_node glob m x)"
  by (simp add: add_node_def Let_def subs_keyed_insert split: prod.splits)

lemma add_nodes_find_other:
  "subs_keyed m \<Longrightarrow> \<forall>x \<in> set xs. \<not> in_zone (w_deref (fst x)) q \<Longrightarrow>
     dm_find glob (foldl (add_node glob) m xs) q = dm_find glob m q"
proof (induction xs arbitrary: m)
  case (Cons x xs)
  have "dm_find glob (add_node glob m x) q = dm_find glob m q"
    using Cons.prems by (cases x) (simp add: add_node_def Let_def dm_find_insert_other)
  then show ?case using Cons by (simp add: subs_keyed_add_node)
qed simp

lemma add_nodes_get_other:
  "\<forall>x \<in> set xs. \<not> w_eq j (w_set_fqdn (fst x)) \<Longrightarrow>
     dm_get (foldl (add_node glob) m xs) j = dm_get m j"
proof (induction xs arbitrary: m)
  case (Cons x xs)
  have "dm_get (add_node glob m x) j = dm_get m j"
    using Cons.prems by (cases x) (simp add: add_node_def Let_def dm_get_insert)
  then show ?case using Cons by simp
qed simp

lemma subs_keyed_add_nodes: "subs_keyed m \<Longrightarrow> subs_keyed (foldl (add_node glob) m xs)"
  by (induction xs arbitrary: m) (simp_all add: subs_keyed_add_node)

lemma subs_keyed_empty: "subs_keyed dm_empty"
  by (simp add: subs_keyed_def dm_subs_def dm_empty_def)

lemma prefix_less: "t \<noteq> [] \<Longrightarrow> (xs :: 'a::linorder list) < xs @ t"
  unfolding list_less_def by (cases t) (auto intro: lexord_append_rightI)

lemma zone_key_less:
  assumes "in_zone (w_deref z) (base_name (w_deref n))" "n_labels (w_deref n) \<noteq> []"
    "n_fqdn (w_deref z) = n_fqdn (w_deref n)"
  shows "w_key z < w_key n"
proof -
  obtain p where p: "tl (lower_labels_of (w_deref n)) = p @ lower_labels_of (w_deref z)"
    using assms(1) by (auto simp: in_zone_def)
  obtain a where "lower_labels_of (w_deref n) = a # p @ lower_labels_of (w_deref z)"
    using assms(2) p by (cases "lower_labels_of (w_deref n)") (auto simp: lower_labels_of_def)
  then have "rev (List.map codes (lower_labels_of (w_deref n)))
      = rev (List.map codes (lower_labels_of (w_deref z))) @ rev (List.map codes (a # p))"
    by simp
  then have "rev (List.map codes (lower_labels_of (w_deref z)))
      < rev (List.map codes (lower_labels_of (w_deref n)))"
    by (metis prefix_less map_is_Nil_conv rev_is_Nil_conv list.distinct(1))
  then show ?thesis
    using assms(3) by (simp add: w_key_def less_prod_def lower_labels_of_def comp_def)
qed

lemma node_after_build:
  assumes d: "distinct (List.map (\<lambda>x. w_canon (fst x)) xs)" and b: "\<forall>x \<in> set xs. n_fqdn (w_deref (fst x)) = b"
    and so: "sorted (List.map (\<lambda>x. w_key (fst x)) xs)"
    and n: "(n, r) \<in> set xs" "n_labels (w_deref n) \<noteq> []"
  shows "dm_get (foldl (add_node glob) dm_empty xs) (w_set_fqdn n) =
    Some (DNode n r (dm_find glob (foldl (add_node glob) dm_empty xs) (base_name (w_deref n))))"
proof -
  obtain ys zs where xs: "xs = ys @ (n, r) # zs" using n(1) by (meson split_list)
  define m1 where "m1 = foldl (add_node glob) dm_empty ys"
  define m where "m = foldl (add_node glob) dm_empty xs"
  define q where "q = base_name (w_deref n)"
  have m: "m = foldl (add_node glob) (add_node glob m1 (n, r)) zs" by (simp add: m_def m1_def xs)
  have k: "subs_keyed m1" unfolding m1_def by (rule subs_keyed_add_nodes [OF subs_keyed_empty])
  have nz: "\<not> in_zone (w_deref (fst z)) q" if "z \<in> set ((n, r) # zs)" for z
  proof
    assume "in_zone (w_deref (fst z)) q"
    then have "w_key (fst z) < w_key n"
      using n(2) b that by (intro zone_key_less) (auto simp: q_def xs)
    moreover have "w_key n \<le> w_key (fst z)" using so that by (auto simp: xs sorted_append)
    ultimately show False by simp
  qed
  have "dm_find glob m q = dm_find glob m1 q"
    using add_nodes_find_other [OF k, of "(n, r) # zs" q glob] nz by (simp add: m)
  moreover have "\<not> w_eq (w_set_fqdn n) (w_set_fqdn (fst z))" if "z \<in> set zs" for z
  proof
    assume "w_eq (w_set_fqdn n) (w_set_fqdn (fst z))"
    then have "w_canon (w_set_fqdn n) = w_canon (w_set_fqdn (fst z))" by (simp add: w_eq_iff_canon)
    moreover have "n_fqdn (w_deref n) = n_fqdn (w_deref (fst z))" using b that by (auto simp: xs)
    ultimately have "w_canon n = w_canon (fst z)"
      by (cases n; cases "fst z")
        (auto simp: w_set_fqdn_def set_fqdn_def to_lowercase_def intro!: dname_eqI dest: arg_cong [of _ _ n_labels])
    then show False using d that by (force simp: xs)
  qed
  then have "dm_get m (w_set_fqdn n) = dm_get (add_node glob m1 (n, r)) (w_set_fqdn n)"
    unfolding m by (intro add_nodes_get_other) blast
  moreover have "dm_get (add_node glob m1 (n, r)) (w_set_fqdn n) = Some (DNode n r (dm_find glob m1 q))"
    by (simp add: add_node_def Let_def dm_get_insert q_def w_eq_iff_canon)
  ultimately show ?thesis by (simp add: m_def q_def)
qed

section \<open>Properties\<close>

text \<open>C35: the table that is built from the collected rules does not depend on the iteration order
  of the \<open>HashMap\<close> they come from: the sort by the order of patterns makes every permutation of the
  entries give the same table.\<close>

theorem build_order_independent:
  assumes "mset items' = mset items" "distinct (List.map (\<lambda>x. w_canon (fst x)) items)"
  shows "build_nodes glob items' = build_nodes glob items"
proof -
  have "distinct (List.map (\<lambda>x. w_key (fst x)) items)"
    using assms(2) by (auto simp: distinct_map inj_on_def w_key_inject w_eq_iff_canon)
  then have "sort_key (\<lambda>x. w_key (fst x)) items = sort_key (\<lambda>x. w_key (fst x)) items'"
    using assms(1) by (intro sort_key_perm_unique) simp_all
  then show ?thesis by (simp add: build_nodes_sorted)
qed

definition demo_rule :: "string \<Rightarrow> domain_rule" where
  "demo_rule g = set_nameserver g domain_rule_default"

definition demo_items :: name_rules where
  "demo_items = [(WDefault (pqdn [''a'', ''x'']), demo_rule ''one''), (WSuffix (pqdn [''x'']), demo_rule ''two'')]"

theorem build_order_independent_witness:
  "build_nodes (\<lambda>_ _. False) (rev demo_items) = build_nodes (\<lambda>_ _. False) demo_items"
  by (rule build_order_independent) (simp, code_simp)

text \<open>The node of a pattern holds the rule collected for it and points to exactly the node that
  a lookup of its parent name in the finished table returns, although it was linked while the table was
  still being built: the sort guarantees that every enclosing zone is inserted before its subdomains.\<close>

theorem zone_is_enclosing_lookup:
  assumes "distinct (List.map (\<lambda>x. w_canon (fst x)) items)"
    "\<forall>x \<in> set items. n_fqdn (w_deref (fst x)) = b"
    "(n, r) \<in> set items" "n_labels (w_deref n) \<noteq> []"
  shows "dm_get (build_nodes glob items) (w_set_fqdn n)
           = Some (DNode n r (dm_find glob (build_nodes glob items) (base_name (w_deref n))))"
  unfolding build_nodes_sorted
  by (rule node_after_build [where b = b])
    (use assms in \<open>auto simp: distinct_map sorted_sort_key\<close>)

theorem zone_is_enclosing_lookup_witness:
  "dm_get (build_nodes (\<lambda>_ _. False) demo_items) (WDefault (fqdn [''a'', ''x'']))
     = Some (DNode (WDefault (pqdn [''a'', ''x''])) (demo_rule ''one'')
         (dm_find (\<lambda>_ _. False) (build_nodes (\<lambda>_ _. False) demo_items) (fqdn [''x''])))"
proof -
  have "dm_get (build_nodes (\<lambda>_ _. False) demo_items) (w_set_fqdn (WDefault (pqdn [''a'', ''x''])))
     = Some (DNode (WDefault (pqdn [''a'', ''x''])) (demo_rule ''one'')
         (dm_find (\<lambda>_ _. False) (build_nodes (\<lambda>_ _. False) demo_items)
           (base_name (w_deref (WDefault (pqdn [''a'', ''x'']))))))"
    by (rule zone_is_enclosing_lookup [where b = False]) (code_simp | simp add: demo_items_def pqdn_def)+
  then show ?thesis by (simp add: w_set_fqdn_def set_fqdn_def pqdn_def fqdn_def base_name_def trim_to_def)
qed

text \<open>Two rules for one domain, one written without and one with the trailing dot, are two
  entries of the collection but one key of the table: the entry with the dot sorts later and replaces
  the other, whose settings are lost instead of being merged.\<close>

theorem trailing_dot_rule_lost:
  assumes "\<not> n_fqdn (w_deref n)"
  shows "build_nodes glob [(n, r1), (w_set_fqdn n, r2)] = build_nodes glob [(w_set_fqdn n, r2), (n, r1)] \<and>
         dn_rule (the (dm_get (build_nodes glob [(n, r1), (w_set_fqdn n, r2)]) (w_set_fqdn n))) = r2"
proof -
  have lt: "w_key n < w_key (w_set_fqdn n)"
    using assms by (simp add: w_key_def less_prod_def)
  have idem: "w_set_fqdn (w_set_fqdn n) = w_set_fqdn n"
    by (cases n) (simp_all add: w_set_fqdn_def set_fqdn_def)
  show ?thesis
    using lt by (auto simp: build_nodes_sorted add_node_def Let_def dm_get_insert idem w_eq_iff_canon)
qed

theorem trailing_dot_rule_lost_witness:
  "dn_rule (the (dm_get (build_nodes (\<lambda>_ _. False)
     [(WDefault (pqdn [''x'']), demo_rule ''one''), (WDefault (fqdn [''x'']), demo_rule ''two'')])
     (WDefault (fqdn [''x''])))) = demo_rule ''two''"
  using conjunct2 [OF trailing_dot_rule_lost [of "WDefault (pqdn [''x''])" "\<lambda>_ _. False" "demo_rule ''one''" "demo_rule ''two''"]]
  by (simp add: pqdn_def fqdn_def w_set_fqdn_def set_fqdn_def)

end
