(* ===== verification/Runtime_Config.thy ===== *)
theory Runtime_Config
  imports Domain_Rules Limits
begin

text \<open>
  The configuration a query runs under (\<open>dns_conf.rs\<close>): the global settings with their defaults,
  the settings of a rule group, the cascade between them, and the context of one query
  (\<open>dns.rs\<close>, \<open>DnsContext\<close>) whose getters add the options of the listener and the domain rule.
  Parsing and loading of the files is not modelled: the record \<open>rt_config\<close> is what the loader
  leaves, with the hash maps from group names as association lists. Membership of an address in a
  network is the parameter \<open>net_contains\<close> (crate \<open>ipnet\<close>), the wildcard matcher is \<open>glob\<close>.
\<close>

section \<open>Client rules\<close>

datatype client = C_Mac string | C_IpAddr ip_net

record client_rule =
  cr_client :: client
  cr_group :: string

definition is_hexdigit :: "char \<Rightarrow> bool" where
  "is_hexdigit c =
     (let n = (of_char c :: nat)
      in (48 \<le> n \<and> n \<le> 57) \<or> (65 \<le> n \<and> n \<le> 70) \<or> (97 \<le> n \<and> n \<le> 102))"

definition normalize_mac :: "string \<Rightarrow> string option" where
  "normalize_mac s =
     (if list_all (\<lambda>c. is_hexdigit c \<or> c \<in> {CHR '':'', CHR ''-'', CHR ''.''}) s then
        (let hex = List.filter is_hexdigit s in if length hex = 12 then Some (lower_str hex) else None)
      else None)"

definition mac_matches :: "string \<Rightarrow> string \<Rightarrow> bool" where
  "mac_matches rule actual =
     (case (normalize_mac rule, normalize_mac actual) of
        (Some r, Some a) \<Rightarrow> r = a
      | _ \<Rightarrow> lower_str rule = lower_str actual)"

definition match_ip :: "(ip_net \<Rightarrow> ip_addr \<Rightarrow> bool) \<Rightarrow> client_rule \<Rightarrow> ip_addr \<Rightarrow> bool" where
  "match_ip net_contains r ip =
     (case cr_client r of C_Mac m \<Rightarrow> False | C_IpAddr net \<Rightarrow> net_contains net ip)"

definition match_mac :: "client_rule \<Rightarrow> string \<Rightarrow> bool" where
  "match_mac r mac = (case cr_client r of C_Mac rule \<Rightarrow> mac_matches rule mac | C_IpAddr net \<Rightarrow> False)"

section \<open>Sets and maps of addresses\<close>

text \<open>\<open>IpSet\<close> and \<open>IpMap\<close> of \<open>infra/ipset.rs\<close>: the maps of ranges they wrap (crate \<open>rangemap\<close>)
  answer with the value that was inserted last for a network around the address. The value of the
  alias map is a shared list of addresses: the number stands for the allocation.\<close>

type_synonym 'v ip_map = "(ip_net \<times> 'v) list"

definition im_insert :: "ip_net \<Rightarrow> 'v \<Rightarrow> 'v ip_map \<Rightarrow> 'v ip_map" where
  "im_insert net v m = (net, v) # m"

definition im_from_iter :: "(ip_net \<times> 'v) list \<Rightarrow> 'v ip_map" where
  "im_from_iter xs = foldl (\<lambda>m (net, v). im_insert net v m) [] xs"

definition im_is_empty :: "'v ip_map \<Rightarrow> bool" where
  "im_is_empty m \<longleftrightarrow> m = []"

definition im_get :: "(ip_net \<Rightarrow> ip_addr \<Rightarrow> bool) \<Rightarrow> 'v ip_map \<Rightarrow> ip_addr \<Rightarrow> 'v option" where
  "im_get net_contains m ip = map_option snd (List.find (\<lambda>(net, _). net_contains net ip) m)"

definition im_contains :: "(ip_net \<Rightarrow> ip_addr \<Rightarrow> bool) \<Rightarrow> 'v ip_map \<Rightarrow> ip_addr \<Rightarrow> bool" where
  "im_contains net_contains m ip \<longleftrightarrow> im_get net_contains m ip \<noteq> None"

section \<open>Rule groups and the configuration\<close>

record rule_group =
  rg_sources :: rule_sources
  rg_params :: group_params

definition rule_sources_empty :: rule_sources where
  "rule_sources_empty =
     \<lparr>rs_domain_rules = [], rs_address_rules = [], rs_forward_rules = [], rs_cnames = [],
      rs_srv_records = [], rs_https_records = [], rs_nftsets = [], rs_ipsets = []\<rparr>"

definition rule_group_empty :: rule_group where
  "rule_group_empty = \<lparr>rg_sources = rule_sources_empty, rg_params = group_params_default\<rparr>"

definition rule_group_merge :: "rule_group \<Rightarrow> rule_group \<Rightarrow> rule_group" where
  "rule_group_merge self other =
     (let s = rg_sources self; t = rg_sources other in
      \<lparr>rg_sources = s\<lparr>rs_forward_rules := rs_forward_rules s @ rs_forward_rules t,
                      rs_address_rules := rs_address_rules s @ rs_address_rules t,
                      rs_domain_rules := rs_domain_rules s @ rs_domain_rules t,
                      rs_cnames := rs_cnames s @ rs_cnames t,
                      rs_srv_records := rs_srv_records s @ rs_srv_records t,
                      rs_https_records := rs_https_records s @ rs_https_records t\<rparr>,
       rg_params = inherit_from (rg_params self) (rg_params other)\<rparr>)"

record rt_config =
  cf_cache_size :: "usize option"
  cf_cache_prefetch_domain :: "bool option"
  cf_serve_expired :: "bool option"
  cf_serve_expired_ttl :: "u64 option"
  cf_serve_expired_reply_ttl :: "u64 option"
  cf_serve_expired_prefetch_time :: "u64 option"
  cf_speed_check_mode :: "speed_mode list option"
  cf_force_aaaa_soa :: "bool option"
  cf_force_https_soa :: "bool option"
  cf_force_no_cname :: "bool option"
  cf_force_qtype_soa :: "rtype list"
  cf_dualstack_ip_selection :: "bool option"
  cf_dualstack_ip_selection_threshold :: "u64 option"
  cf_dualstack_ip_allow_force_aaaa :: "bool option"
  cf_dns64_prefix :: "ip_net option"
  cf_rr_ttl :: "u64 option"
  cf_rr_ttl_min :: "u64 option"
  cf_rr_ttl_max :: "u64 option"
  cf_rr_ttl_reply_max :: "u64 option"
  cf_local_ttl :: "u64 option"
  cf_max_reply_ip_num :: "u8 option"
  cf_response_mode :: "response_mode option"
  cf_ipset_timeout :: "bool option"
  cf_nftset_timeout :: "bool option"
  cf_acl_enable :: "bool option"
  cf_max_query_limit :: "usize option"
  cf_client_rules :: "client_rule list"
  cf_rule_groups :: "(string \<times> rule_group) list"
  cf_domain_rule_groups :: "(string \<times> dnode dmap) list"
  cf_server_groups :: "string list list"
  cf_mdns_lookup :: "bool option"
  cf_local_domains :: "string list"
  cf_ignore_ip :: "unit ip_map"
  cf_blacklist_ip :: "unit ip_map"
  cf_whitelist_ip :: "unit ip_map"
  cf_ip_alias :: "(nat \<times> ip_addr list) ip_map"

definition rt_config_default :: rt_config where
  "rt_config_default =
     \<lparr>cf_cache_size = None, cf_cache_prefetch_domain = None, cf_serve_expired = None,
      cf_serve_expired_ttl = None, cf_serve_expired_reply_ttl = None,
      cf_serve_expired_prefetch_time = None, cf_speed_check_mode = None,
      cf_force_aaaa_soa = None, cf_force_https_soa = None, cf_force_no_cname = None,
      cf_force_qtype_soa = [], cf_dualstack_ip_selection = None,
      cf_dualstack_ip_selection_threshold = None, cf_dualstack_ip_allow_force_aaaa = None,
      cf_dns64_prefix = None, cf_rr_ttl = None, cf_rr_ttl_min = None, cf_rr_ttl_max = None,
      cf_rr_ttl_reply_max = None, cf_local_ttl = None, cf_max_reply_ip_num = None,
      cf_response_mode = None, cf_ipset_timeout = None, cf_nftset_timeout = None,
      cf_acl_enable = None, cf_max_query_limit = None, cf_client_rules = [], cf_rule_groups = [],
      cf_domain_rule_groups = [], cf_server_groups = [],
      cf_mdns_lookup = None, cf_local_domains = [], cf_ignore_ip = [], cf_blacklist_ip = [],
      cf_whitelist_ip = [], cf_ip_alias = []\<rparr>"

definition default_group :: string where
  "default_group = ''default''"

definition normalize_rule_group_name :: "string \<Rightarrow> string" where
  "normalize_rule_group_name g = (if g = [] then default_group else g)"

definition the_rule_group :: "rt_config \<Rightarrow> string \<Rightarrow> rule_group" where
  "the_rule_group c name = unwrap_or (map_of (cf_rule_groups c) name) rule_group_empty"

definition group_params :: "rt_config \<Rightarrow> string \<Rightarrow> group_params" where
  "group_params c g = rg_params (the_rule_group c (normalize_rule_group_name g))"

definition has_rule_group :: "rt_config \<Rightarrow> string \<Rightarrow> bool" where
  "has_rule_group c name \<longleftrightarrow>
     name = [] \<or> name = default_group \<or> map_of (cf_rule_groups c) name \<noteq> None"

definition has_server_group :: "rt_config \<Rightarrow> string \<Rightarrow> bool" where
  "has_server_group c name \<longleftrightarrow>
     name = [] \<or> lower_str name = lower_str default_group \<or>
     list_ex (\<lambda>gs. list_ex (\<lambda>g. g = name) gs) (cf_server_groups c)"

definition domain_rule_group :: "rt_config \<Rightarrow> string \<Rightarrow> dnode dmap" where
  "domain_rule_group c name =
     unwrap_or (map_of (cf_domain_rule_groups c) (if name = [] then default_group else name)) dm_empty"

definition find_domain_rule ::
    "(string \<Rightarrow> string \<Rightarrow> bool) \<Rightarrow> rt_config \<Rightarrow> dname \<Rightarrow> string \<Rightarrow> dnode option" where
  "find_domain_rule glob c d grp =
     or_else (dm_find glob (domain_rule_group c grp) d)
             (dm_find glob (domain_rule_group c default_group) d)"

section \<open>Global settings and their defaults\<close>

definition g_cache_size :: "rt_config \<Rightarrow> usize" where
  "g_cache_size c = unwrap_or (cf_cache_size c) 512"

definition g_prefetch_domain :: "rt_config \<Rightarrow> bool" where
  "g_prefetch_domain c = unwrap_or (cf_cache_prefetch_domain c) False"

definition g_serve_expired :: "rt_config \<Rightarrow> bool" where
  "g_serve_expired c = unwrap_or (cf_serve_expired c) True"

definition g_serve_expired_ttl :: "rt_config \<Rightarrow> u64" where
  "g_serve_expired_ttl c = unwrap_or (cf_serve_expired_ttl c) 86400"

definition g_serve_expired_reply_ttl :: "rt_config \<Rightarrow> u64" where
  "g_serve_expired_reply_ttl c = unwrap_or (cf_serve_expired_reply_ttl c) 5"

definition g_serve_expired_prefetch_time :: "rt_config \<Rightarrow> u64" where
  "g_serve_expired_prefetch_time c = unwrap_or (cf_serve_expired_prefetch_time c) 21600"

definition g_force_aaaa_soa :: "rt_config \<Rightarrow> bool" where
  "g_force_aaaa_soa c = unwrap_or (cf_force_aaaa_soa c) False"

definition g_force_https_soa :: "rt_config \<Rightarrow> bool" where
  "g_force_https_soa c = unwrap_or (cf_force_https_soa c) False"

definition g_force_no_cname :: "rt_config \<Rightarrow> bool" where
  "g_force_no_cname c = unwrap_or (cf_force_no_cname c) False"

definition g_dualstack_ip_selection :: "rt_config \<Rightarrow> bool" where
  "g_dualstack_ip_selection c = unwrap_or (cf_dualstack_ip_selection c) True"

definition g_dualstack_ip_selection_threshold :: "rt_config \<Rightarrow> u64" where
  "g_dualstack_ip_selection_threshold c = unwrap_or (cf_dualstack_ip_selection_threshold c) 10"

definition g_dualstack_ip_allow_force_aaaa :: "rt_config \<Rightarrow> bool" where
  "g_dualstack_ip_allow_force_aaaa c = unwrap_or (cf_dualstack_ip_allow_force_aaaa c) False"

definition g_rr_ttl_min :: "rt_config \<Rightarrow> u64 option" where
  "g_rr_ttl_min c = or_else (cf_rr_ttl_min c) (cf_rr_ttl c)"

definition g_rr_ttl_max :: "rt_config \<Rightarrow> u64 option" where
  "g_rr_ttl_max c = or_else (cf_rr_ttl_max c) (cf_rr_ttl c)"

definition g_local_ttl :: "rt_config \<Rightarrow> u64" where
  "g_local_ttl c = unwrap_or (or_else (cf_local_ttl c) (g_rr_ttl_min c)) 60"

definition g_response_mode :: "rt_config \<Rightarrow> response_mode" where
  "g_response_mode c = unwrap_or (cf_response_mode c) FirstPing"

definition g_ipset_timeout :: "rt_config \<Rightarrow> bool" where
  "g_ipset_timeout c = unwrap_or (cf_ipset_timeout c) False"

definition g_nftset_timeout :: "rt_config \<Rightarrow> bool" where
  "g_nftset_timeout c = unwrap_or (cf_nftset_timeout c) False"

definition g_acl_enable :: "rt_config \<Rightarrow> bool" where
  "g_acl_enable c = unwrap_or (cf_acl_enable c) False"

definition g_max_query_limit :: "rt_config \<Rightarrow> usize" where
  "g_max_query_limit c = unwrap_or (cf_max_query_limit c) 65535"

section \<open>Settings of a group\<close>

definition force_no_cname_in_group :: "rt_config \<Rightarrow> string \<Rightarrow> bool" where
  "force_no_cname_in_group c g =
     unwrap_or (gp_force_no_cname (group_params c g)) (g_force_no_cname c)"

definition force_aaaa_soa_in_group :: "rt_config \<Rightarrow> string \<Rightarrow> bool" where
  "force_aaaa_soa_in_group c g =
     unwrap_or (gp_force_aaaa_soa (group_params c g)) (g_force_aaaa_soa c)"

definition ipset_timeout_in_group :: "rt_config \<Rightarrow> string \<Rightarrow> bool" where
  "ipset_timeout_in_group c g =
     unwrap_or (gp_ipset_timeout (group_params c g)) (g_ipset_timeout c)"

definition nftset_timeout_in_group :: "rt_config \<Rightarrow> string \<Rightarrow> bool" where
  "nftset_timeout_in_group c g =
     unwrap_or (gp_nftset_timeout (group_params c g)) (g_nftset_timeout c)"

definition response_mode_in_group :: "rt_config \<Rightarrow> string \<Rightarrow> response_mode" where
  "response_mode_in_group c g =
     unwrap_or (gp_response_mode (group_params c g)) (g_response_mode c)"

definition serve_expired_in_group :: "rt_config \<Rightarrow> string \<Rightarrow> bool" where
  "serve_expired_in_group c g =
     unwrap_or (gp_serve_expired (group_params c g)) (g_serve_expired c)"

definition serve_expired_reply_ttl_in_group :: "rt_config \<Rightarrow> string \<Rightarrow> u64" where
  "serve_expired_reply_ttl_in_group c g =
     unwrap_or (gp_serve_expired_reply_ttl (group_params c g)) (g_serve_expired_reply_ttl c)"

definition prefetch_domain_in_group :: "rt_config \<Rightarrow> string \<Rightarrow> bool" where
  "prefetch_domain_in_group c g =
     unwrap_or (gp_prefetch_domain (group_params c g)) (g_prefetch_domain c)"

definition dualstack_ip_selection_in_group :: "rt_config \<Rightarrow> string \<Rightarrow> bool" where
  "dualstack_ip_selection_in_group c g =
     unwrap_or (gp_dualstack_ip_selection (group_params c g)) (g_dualstack_ip_selection c)"

definition local_ttl_in_group :: "rt_config \<Rightarrow> string \<Rightarrow> u64" where
  "local_ttl_in_group c g =
     unwrap_or (gp_local_ttl (group_params c g)) (g_local_ttl c)"

definition dualstack_ip_allow_force_aaaa_in_group :: "rt_config \<Rightarrow> string \<Rightarrow> bool" where
  "dualstack_ip_allow_force_aaaa_in_group c g =
     unwrap_or (gp_dualstack_ip_allow_force_aaaa (group_params c g)) (g_dualstack_ip_allow_force_aaaa c)"

definition dualstack_ip_selection_threshold_in_group :: "rt_config \<Rightarrow> string \<Rightarrow> u64" where
  "dualstack_ip_selection_threshold_in_group c g =
     unwrap_or (gp_dualstack_ip_selection_threshold (group_params c g)) (g_dualstack_ip_selection_threshold c)"

definition rr_ttl_in_group :: "rt_config \<Rightarrow> string \<Rightarrow> u64 option" where
  "rr_ttl_in_group c g =
     or_else (gp_rr_ttl (group_params c g)) (cf_rr_ttl c)"

definition speed_check_mode_in_group :: "rt_config \<Rightarrow> string \<Rightarrow> speed_mode list option" where
  "speed_check_mode_in_group c g =
     or_else (gp_speed_check_mode (group_params c g)) (cf_speed_check_mode c)"

definition dns64_prefix_in_group :: "rt_config \<Rightarrow> string \<Rightarrow> ip_net option" where
  "dns64_prefix_in_group c g =
     or_else (gp_dns64_prefix (group_params c g)) (cf_dns64_prefix c)"

definition rr_ttl_reply_max_in_group :: "rt_config \<Rightarrow> string \<Rightarrow> u64 option" where
  "rr_ttl_reply_max_in_group c g =
     or_else (gp_rr_ttl_reply_max (group_params c g)) (cf_rr_ttl_reply_max c)"

definition max_reply_ip_num_in_group :: "rt_config \<Rightarrow> string \<Rightarrow> u8 option" where
  "max_reply_ip_num_in_group c g =
     or_else (gp_max_reply_ip_num (group_params c g)) (cf_max_reply_ip_num c)"

definition rr_ttl_min_in_group :: "rt_config \<Rightarrow> string \<Rightarrow> u64 option" where
  "rr_ttl_min_in_group c g =
     (case gp_rr_ttl (group_params c g) of
        Some v \<Rightarrow> Some v
      | None \<Rightarrow> or_else (gp_rr_ttl_min (group_params c g)) (g_rr_ttl_min c))"

definition rr_ttl_max_in_group :: "rt_config \<Rightarrow> string \<Rightarrow> u64 option" where
  "rr_ttl_max_in_group c g =
     (case gp_rr_ttl (group_params c g) of
        Some v \<Rightarrow> Some v
      | None \<Rightarrow> or_else (gp_rr_ttl_max (group_params c g)) (g_rr_ttl_max c))"

definition edns_client_subnet_in_group :: "rt_config \<Rightarrow> string \<Rightarrow> ip_net option" where
  "edns_client_subnet_in_group c g = gp_edns_client_subnet (group_params c g)"

section \<open>The context of a query\<close>

datatype lookup_from = LF_None | LF_Cache | LF_Static | LF_Zone string | LF_Server string

record dns_context =
  cx_cfg :: rt_config
  cx_server_opts :: server_opts
  cx_domain_rule :: "dnode option"
  cx_fastest_speed :: nat
  cx_source :: lookup_from
  cx_no_cache :: bool
  cx_extra_cache_records :: "(query \<times> dns_response) list"

definition context_new ::
    "(string \<Rightarrow> string \<Rightarrow> bool) \<Rightarrow> dname \<Rightarrow> rt_config \<Rightarrow> server_opts \<Rightarrow> dns_context" where
  "context_new glob n c opts =
     (let group_name = unwrap_or (so_rule_group opts) [];
          rule = find_domain_rule glob c n group_name
      in \<lparr>cx_cfg = c, cx_server_opts = opts, cx_domain_rule = rule, cx_fastest_speed = 0,
          cx_source = LF_None,
          cx_no_cache = unwrap_or (opt_get (\<lambda>d. dr_no_cache (dn_rule d)) rule) False,
          cx_extra_cache_records = []\<rparr>)"

definition effective_rule_group :: "dns_context \<Rightarrow> string" where
  "effective_rule_group x = unwrap_or (so_rule_group (cx_server_opts x)) []"

definition cx_force_no_cname :: "dns_context \<Rightarrow> bool" where
  "cx_force_no_cname x =
     unwrap_or (so_force_no_cname (cx_server_opts x))
       (force_no_cname_in_group (cx_cfg x) (effective_rule_group x))"

definition cx_force_aaaa_soa :: "dns_context \<Rightarrow> bool" where
  "cx_force_aaaa_soa x =
     unwrap_or (so_force_aaaa_soa (cx_server_opts x))
       (force_aaaa_soa_in_group (cx_cfg x) (effective_rule_group x))"

definition cx_ipset_timeout :: "dns_context \<Rightarrow> bool" where
  "cx_ipset_timeout x = ipset_timeout_in_group (cx_cfg x) (effective_rule_group x)"

definition cx_nftset_timeout :: "dns_context \<Rightarrow> bool" where
  "cx_nftset_timeout x = nftset_timeout_in_group (cx_cfg x) (effective_rule_group x)"

definition cx_rr_ttl_min :: "dns_context \<Rightarrow> u64 option" where
  "cx_rr_ttl_min x = rr_ttl_min_in_group (cx_cfg x) (effective_rule_group x)"

definition cx_rr_ttl_max :: "dns_context \<Rightarrow> u64 option" where
  "cx_rr_ttl_max x = rr_ttl_max_in_group (cx_cfg x) (effective_rule_group x)"

definition cx_rr_ttl_reply_max :: "dns_context \<Rightarrow> u64 option" where
  "cx_rr_ttl_reply_max x = rr_ttl_reply_max_in_group (cx_cfg x) (effective_rule_group x)"

definition cx_local_ttl :: "dns_context \<Rightarrow> u64" where
  "cx_local_ttl x = local_ttl_in_group (cx_cfg x) (effective_rule_group x)"

definition cx_dualstack_ip_allow_force_aaaa :: "dns_context \<Rightarrow> bool" where
  "cx_dualstack_ip_allow_force_aaaa x = dualstack_ip_allow_force_aaaa_in_group (cx_cfg x) (effective_rule_group x)"

definition cx_dualstack_ip_selection_threshold :: "dns_context \<Rightarrow> u64" where
  "cx_dualstack_ip_selection_threshold x = dualstack_ip_selection_threshold_in_group (cx_cfg x) (effective_rule_group x)"

definition cx_max_reply_ip_num :: "dns_context \<Rightarrow> u8 option" where
  "cx_max_reply_ip_num x = max_reply_ip_num_in_group (cx_cfg x) (effective_rule_group x)"

definition cx_rr_ttl :: "dns_context \<Rightarrow> u64 option" where
  "cx_rr_ttl x = rr_ttl_in_group (cx_cfg x) (effective_rule_group x)"

definition cx_response_mode :: "dns_context \<Rightarrow> response_mode" where
  "cx_response_mode x = response_mode_in_group (cx_cfg x) (effective_rule_group x)"

definition cx_speed_check_mode :: "dns_context \<Rightarrow> speed_mode list option" where
  "cx_speed_check_mode x = speed_check_mode_in_group (cx_cfg x) (effective_rule_group x)"

definition cx_serve_expired :: "dns_context \<Rightarrow> bool" where
  "cx_serve_expired x = serve_expired_in_group (cx_cfg x) (effective_rule_group x)"

definition cx_serve_expired_reply_ttl :: "dns_context \<Rightarrow> u64" where
  "cx_serve_expired_reply_ttl x = serve_expired_reply_ttl_in_group (cx_cfg x) (effective_rule_group x)"

definition cx_prefetch_domain :: "dns_context \<Rightarrow> bool" where
  "cx_prefetch_domain x = prefetch_domain_in_group (cx_cfg x) (effective_rule_group x)"

definition cx_dns64_prefix :: "dns_context \<Rightarrow> ip_net option" where
  "cx_dns64_prefix x = dns64_prefix_in_group (cx_cfg x) (effective_rule_group x)"

definition cx_edns_client_subnet :: "dns_context \<Rightarrow> ip_net option" where
  "cx_edns_client_subnet x = edns_client_subnet_in_group (cx_cfg x) (effective_rule_group x)"

definition server_group_name :: "dns_context \<Rightarrow> string" where
  "server_group_name x =
     (case so_group (cx_server_opts x) of
        Some n \<Rightarrow> n
      | None \<Rightarrow> unwrap_or (opt_get (\<lambda>d. dr_nameserver (dn_rule d)) (cx_domain_rule x)) ''default'')"

definition rule_get :: "(domain_rule \<Rightarrow> 'a option) \<Rightarrow> dns_context \<Rightarrow> 'a option" where
  "rule_get f x = opt_get (\<lambda>d. f (dn_rule d)) (cx_domain_rule x)"

section \<open>Properties\<close>

text \<open>Within a group \<open>rr-ttl\<close> overrides \<open>rr-ttl-min\<close> and \<open>rr-ttl-max\<close>, while globally the bounds
  override \<open>rr-ttl\<close>: the same three settings mean different limits in a group and at the top level.
  Without \<open>rr-ttl\<close> in the group its own bound comes first, and then the global chain.\<close>

theorem ttl_bounds_cascade:
  "(gp_rr_ttl (group_params c g) = Some a \<longrightarrow>
      rr_ttl_min_in_group c g = Some a \<and> rr_ttl_max_in_group c g = Some a) \<and>
   (cf_rr_ttl c = Some a \<longrightarrow>
      g_rr_ttl_min c = Some (unwrap_or (cf_rr_ttl_min c) a) \<and>
      g_rr_ttl_max c = Some (unwrap_or (cf_rr_ttl_max c) a)) \<and>
   (gp_rr_ttl (group_params c g) = None \<longrightarrow>
      rr_ttl_min_in_group c g = or_else (gp_rr_ttl_min (group_params c g)) (or_else (cf_rr_ttl_min c) (cf_rr_ttl c)) \<and>
      rr_ttl_max_in_group c g = or_else (gp_rr_ttl_max (group_params c g)) (or_else (cf_rr_ttl_max c) (cf_rr_ttl c)))"
  by (auto simp: rr_ttl_min_in_group_def rr_ttl_max_in_group_def g_rr_ttl_min_def g_rr_ttl_max_def)

definition both_levels :: rt_config where
  "both_levels = rt_config_default\<lparr>cf_rr_ttl := Some 600, cf_rr_ttl_min := Some 60,
     cf_rule_groups := [(''g'', rule_group_empty\<lparr>rg_params :=
        group_params_default\<lparr>gp_rr_ttl := Some 600, gp_rr_ttl_min := Some 60\<rparr>\<rparr>)]\<rparr>"

theorem ttl_bounds_cascade_witness:
  "rr_ttl_min_in_group both_levels ''g'' = Some 600 \<and> g_rr_ttl_min both_levels = Some 60"
proof -
  have h: "gp_rr_ttl (group_params both_levels ''g'') = Some 600" "cf_rr_ttl both_levels = Some 600"
    "cf_rr_ttl_min both_levels = Some 60"
    by code_simp+
  show ?thesis using ttl_bounds_cascade [of both_levels "''g''" 600] h by simp
qed

end
