(* ===== verification/Middleware.thy ===== *)
theory Middleware
  imports Runtime_Config
begin

text \<open>
  The request of a client (\<open>dns.rs\<close>, \<open>DnsRequest\<close>) and the chain of middlewares it runs through
  (\<open>infra/middleware.rs\<close>). A handler takes the context, the request and the rest of the server's
  state (the type variable \<open>'w\<close>: caches, connections, everything a lookup may change) and returns
  the result with the context and state it leaves. A middleware turns the handler of the rest of the
  chain (the code's \<open>next\<close>) into a handler. What a handler reads from the outside (the clock, a
  random message id, the build date) is in the record \<open>env\<close>.
\<close>

record env =
  ev_now :: int
  ev_rid :: u16
  ev_build :: int

datatype protocol = P_Udp | P_Tcp | P_Tls | P_Https | P_Quic | P_H3

record request =
  rq_id :: u16
  rq_query :: query
  rq_message :: message
  rq_src :: "ip_addr \<times> u16"
  rq_protocol :: protocol
  rq_forwarded_client :: "ip_addr option"

definition request_new :: "message \<Rightarrow> ip_addr \<times> u16 \<Rightarrow> protocol \<Rightarrow> request" where
  "request_new m src p =
     \<lparr>rq_id = h_id (m_header m),
      rq_query = (case m_queries m of [] \<Rightarrow> query_default | q # _ \<Rightarrow> q),
      rq_message = m, rq_src = src, rq_protocol = p, rq_forwarded_client = None\<rparr>"

definition request_of_query :: "u16 \<Rightarrow> query \<Rightarrow> request" where
  "request_of_query rid q =
     (let m = m_add_query q (message_query rid) in
      \<lparr>rq_id = rid, rq_query = q, rq_message = m, rq_src = (IpV4 0x7f000001, 53),
       rq_protocol = P_Udp, rq_forwarded_client = None\<rparr>)"

definition with_forwarded_client :: "ip_addr option \<Rightarrow> request \<Rightarrow> request" where
  "with_forwarded_client ip r = r\<lparr>rq_forwarded_client := ip\<rparr>"

definition with_cname :: "dname \<Rightarrow> request \<Rightarrow> request" where
  "with_cname n r = r\<lparr>rq_query := query_query n (q_type (rq_query r))\<rparr>"

definition rq_set_query_type :: "rtype \<Rightarrow> request \<Rightarrow> request" where
  "rq_set_query_type t r = r\<lparr>rq_query := (rq_query r)\<lparr>q_type := t\<rparr>\<rparr>"

definition rq_is_dnssec :: "request \<Rightarrow> bool" where
  "rq_is_dnssec r =
     (case m_edns (rq_message r) of
        Some e \<Rightarrow> ed_dnssec_ok e
      | None \<Rightarrow> is_dnssec_type (q_type (rq_query r)))"

definition rq_lower_name :: "request \<Rightarrow> dname" where
  "rq_lower_name r = to_lowercase (q_name (rq_query r))"

section \<open>Chains\<close>

type_synonym 'w handler =
  "dns_context \<Rightarrow> request \<Rightarrow> 'w \<Rightarrow> (dns_response, lookup_error) result \<times> dns_context \<times> 'w"

type_synonym 'w middleware = "'w handler \<Rightarrow> 'w handler"

fun run_chain :: "'w handler \<Rightarrow> 'w middleware list \<Rightarrow> 'w handler" where
  "run_chain dflt [] ctx req w = dflt ctx req w"
| "run_chain dflt (current # rest) ctx req w = current (run_chain dflt rest) ctx req w"

definition host_execute :: "'w handler \<Rightarrow> 'w middleware list \<Rightarrow> 'w handler" where
  "host_execute dflt stack ctx req w = run_chain dflt stack ctx req w"

lemma run_chain_append:
  "run_chain d (xs @ ys) = run_chain (run_chain d ys) xs"
proof (induction xs)
  case Nil
  show ?case by (intro ext) simp
next
  case (Cons a xs)
  show ?case by (intro ext) (simp add: Cons.IH)
qed

text \<open>The handler at the end of the chain answers with a negative result whose TTL is the fixed
  record TTL of the group (\<open>DnsDefaultHandler\<close> in \<open>dns_mw.rs\<close>).\<close>

definition default_handler :: "env \<Rightarrow> 'w handler" where
  "default_handler ev ctx req w =
     (Inl (no_records_found (ev_build ev) (rq_query req) (ucast (unwrap_or (cx_rr_ttl ctx) 0))),
      ctx, w)"

text \<open>A middleware that edits the answer of the rest of the chain maps it.\<close>

fun map_ok ::
    "('a \<Rightarrow> 'a) \<Rightarrow> ('a, 'e) result \<times> 'c \<times> 'w \<Rightarrow> ('a, 'e) result \<times> 'c \<times> 'w" where
  "map_ok f (Inr a, c, w) = (Inr (f a), c, w)"
| "map_ok f (Inl e, c, w) = (Inl e, c, w)"

lemma fst_map_ok: "fst (map_ok f x) = (case fst x of Inr a \<Rightarrow> Inr (f a) | Inl e \<Rightarrow> Inl e)"
  by (cases x rule: prod.exhaust [case_product sum.exhaust]) (auto split: sum.splits)

lemma snd_map_ok [simp]: "snd (map_ok f x) = snd x"
  by (cases x rule: prod_cases3) (metis map_ok.simps snd_conv sum.exhaust)

lemma map_ok_Inr: "fst (map_ok f x) = Inr b \<Longrightarrow> \<exists>a. fst x = Inr a \<and> b = f a"
  by (auto simp: fst_map_ok split: sum.splits)

end
