(* ===== verification/Mw_Address.thy ===== *)
theory Mw_Address
  imports Middleware
begin

text \<open>
  The address middleware (\<open>dns_mw_addr.rs\<close>): the decision whether a query is answered from the
  configuration (forced SOA, address rules walked from the domain of the query to its enclosing
  zones), the reply built from it, and the last edits of a forwarded reply, the limit on the number
  of addresses and the cap on every TTL the client sees.
\<close>

section \<open>The rule that answers\<close>

definition opt_flag :: "bool option \<Rightarrow> bool" where
  "opt_flag b = unwrap_or b False"

fun rule_walk :: "int \<Rightarrow> bool \<Rightarrow> rtype \<Rightarrow> dnode \<Rightarrow> rdata list option" where
  "rule_walk build no_rule_soa t (DNode n r z) =
     (let soa = Some [RD_SOA (default_soa build)];
          up = (case z of None \<Rightarrow> None | Some p \<Rightarrow> rule_walk build no_rule_soa t p)
      in case dr_address r of
           None \<Rightarrow> up
         | Some (AR_Addr v4 v6) \<Rightarrow>
             (if t = RT_A then
                (case v4 of
                   Some l \<Rightarrow> Some (List.map RD_A l)
                 | None \<Rightarrow> if \<not> no_rule_soa then soa else up)
              else if t = RT_AAAA then
                (case v6 of
                   Some l \<Rightarrow> Some (List.map RD_AAAA l)
                 | None \<Rightarrow>
                     (case v4 of
                        Some l \<Rightarrow> Some (List.map (\<lambda>ip. RD_AAAA (map_v4 ip)) l)
                      | None \<Rightarrow> if \<not> no_rule_soa then soa else up))
              else None)
         | Some AR_SOA \<Rightarrow> if \<not> no_rule_soa then soa else up
         | Some AR_SOAv4 \<Rightarrow> if \<not> no_rule_soa \<and> t = RT_A then soa else up
         | Some AR_SOAv6 \<Rightarrow> if \<not> no_rule_soa \<and> t = RT_AAAA then soa else up
         | Some AR_IGN \<Rightarrow> None
         | Some AR_IGNv4 \<Rightarrow> if t = RT_A then None else up
         | Some AR_IGNv6 \<Rightarrow> if t = RT_AAAA then None else up)"

definition handle_rule_addr :: "int \<Rightarrow> rtype \<Rightarrow> dns_context \<Rightarrow> rdata list option" where
  "handle_rule_addr build t ctx =
     (let opts = cx_server_opts ctx;
          cfg = cx_cfg ctx;
          no_rule_soa = opt_flag (so_no_rule_soa opts)
      in if \<not> no_rule_soa \<and> t = RT_AAAA \<and> cx_force_aaaa_soa ctx then Some [RD_SOA (default_soa build)]
         else if \<not> no_rule_soa \<and> t = RT_HTTPS \<and>
                 (opt_flag (so_force_https_soa opts) \<or> g_force_https_soa cfg)
              then Some [RD_SOA (default_soa build)]
         else if \<not> no_rule_soa \<and> t \<in> set (cf_force_qtype_soa cfg) then Some [RD_SOA (default_soa build)]
         else if opt_flag (so_no_rule_addr opts) \<or> \<not> is_ip_addr t then None
         else (case cx_domain_rule ctx of None \<Rightarrow> None | Some d \<Rightarrow> rule_walk build no_rule_soa t d))"

section \<open>The reply\<close>

definition clamp_reply_ttl :: "u32 \<Rightarrow> dns_response \<Rightarrow> dns_response" where
  "clamp_reply_ttl reply_max r =
     (let cap = (\<lambda>x. if rr_ttl x > reply_max then rr_set_ttl reply_max x else x);
          m = r_message r
      in r\<lparr>r_message := m\<lparr>m_answers := List.map cap (m_answers m),
                         m_authorities := List.map cap (m_authorities m),
                         m_additionals := List.map cap (m_additionals m)\<rparr>\<rparr>)"

definition clamp_opt :: "u64 option \<Rightarrow> dns_response \<Rightarrow> dns_response" where
  "clamp_opt lim r = (case lim of None \<Rightarrow> r | Some v \<Rightarrow> clamp_reply_ttl (ucast v) r)"

fun is_soa_data :: "rdata \<Rightarrow> bool" where
  "is_soa_data (RD_SOA s) = True"
| "is_soa_data _ = False"

definition intercept_soa_ttl :: "dns_context \<Rightarrow> u32" where
  "intercept_soa_ttl ctx =
     (let fixed = or_else (map_option ucast (rule_get dr_rr_ttl ctx)) (map_option ucast (cx_rr_ttl ctx));
          least = (case rule_get dr_rr_ttl_min ctx of
                     Some v \<Rightarrow> ucast v
                   | None \<Rightarrow> ucast (unwrap_or (cx_rr_ttl_min ctx) 300))
      in unwrap_or fixed least)"

definition set_aaaa_suppressed :: "bool \<Rightarrow> dns_response \<Rightarrow> dns_response" where
  "set_aaaa_suppressed b r = r\<lparr>r_aaaa_suppressed := b\<rparr>"

definition rule_reply :: "env \<Rightarrow> dns_context \<Rightarrow> request \<Rightarrow> rdata list \<Rightarrow> dns_response" where
  "rule_reply ev ctx req rdatas =
     (let local_ttl = (ucast (cx_local_ttl ctx) :: u32);
          q = rq_query req;
          answers = List.map (from_rdata (q_name q) local_ttl) (List.filter (\<lambda>d. \<not> is_soa_data d) rdatas);
          authorities = List.map (\<lambda>d. forge_soa_record (ev_build ev) (q_name q) (intercept_soa_ttl ctx))
                          (List.filter is_soa_data rdatas);
          suppressed = (q_type q = RT_AAAA \<and> authorities \<noteq> [] \<and> answers = []);
          base = new_with_deadline (ev_rid ev) q answers (ev_now ev + secs (unat local_ttl));
          full = foldl (\<lambda>r a. r_add_authority a r) base authorities;
          marked = (if suppressed then set_aaaa_suppressed True full else full)
      in clamp_opt (cx_rr_ttl_reply_max ctx) marked)"

definition is_addr_record :: "rr \<Rightarrow> bool" where
  "is_addr_record x = (rd_ip_addr (rr_data x) \<noteq> None)"

fun cut_point :: "u8 \<Rightarrow> nat \<Rightarrow> rr list \<Rightarrow> nat option" where
  "cut_point left i [] = None"
| "cut_point left i (x # xs) =
     (if is_addr_record x then
        (if left - 1 = 0 then Some (i + 1) else cut_point (left - 1) (i + 1) xs)
      else cut_point left (i + 1) xs)"

definition limit_addresses :: "rtype \<Rightarrow> u8 option \<Rightarrow> dns_response \<Rightarrow> dns_response" where
  "limit_addresses t max_num r =
     (case max_num of
        None \<Rightarrow> r
      | Some n \<Rightarrow>
          if is_ip_addr t \<and> n > 0 then
            (case cut_point n 0 (r_answers r) of
               None \<Rightarrow> r
             | Some k \<Rightarrow>
                 if length (r_answers r) > k then
                   r_sync_header_counts
                     (r\<lparr>r_message := (r_message r)\<lparr>m_answers := take k (r_answers r)\<rparr>\<rparr>)
                 else r)
          else r)"

definition address_mw :: "env \<Rightarrow> 'w middleware" where
  "address_mw ev run_next ctx req w =
     (let t = q_type (rq_query req) in
      case handle_rule_addr (ev_build ev) t ctx of
        Some rdatas \<Rightarrow> (Inr (rule_reply ev ctx req rdatas), ctx\<lparr>cx_source := LF_Static\<rparr>, w)
      | None \<Rightarrow>
          (case run_next ctx req w of
             (Inr r, ctx', w') \<Rightarrow>
               (Inr (clamp_opt (cx_rr_ttl_reply_max ctx') (limit_addresses t (cx_max_reply_ip_num ctx') r)),
                ctx', w')
           | (Inl e, ctx', w') \<Rightarrow> (Inl e, ctx', w')))"

section \<open>Lemmas\<close>

fun dn_chain :: "dnode \<Rightarrow> dnode list" where
  "dn_chain (DNode n r z) = DNode n r z # (case z of None \<Rightarrow> [] | Some p \<Rightarrow> dn_chain p)"

lemma dn_chain_ne [simp]: "dn_chain d \<noteq> []"
  by (cases d) simp

definition addr_count :: "rr list \<Rightarrow> nat" where
  "addr_count xs = length (List.filter is_addr_record xs)"

lemma addr_count_simps [simp]:
  "addr_count [] = 0"
  "addr_count (x # xs) = (if is_addr_record x then Suc (addr_count xs) else addr_count xs)"
  by (simp_all add: addr_count_def)

lemma addr_count_map_ttl:
  "(\<And>x. rr_data (f x) = rr_data x) \<Longrightarrow> addr_count (List.map f xs) = addr_count xs"
  by (induction xs) (simp_all add: is_addr_record_def)

lemma cut_point_None:
  "left \<noteq> 0 \<Longrightarrow> cut_point left i xs = None \<Longrightarrow> addr_count xs < unat left"
proof (induction left i xs rule: cut_point.induct)
  case (1 left i)
  then show ?case by (simp add: unat_gt_0)
next
  case (2 left i x xs)
  have "unat left = Suc (unat (left - 1))" using "2.prems"(1) by (rule unat_Suc_pred)
  with 2 show ?case by (auto split: if_splits)
qed

lemma cut_point_Some:
  "left \<noteq> 0 \<Longrightarrow> cut_point left i xs = Some k \<Longrightarrow>
     i < k \<and> k \<le> i + length xs \<and> addr_count (take (k - i) xs) = unat left"
proof (induction left i xs rule: cut_point.induct)
  case (1 left i)
  then show ?case by simp
next
  case (2 left i x xs)
  have u: "unat left = Suc (unat (left - 1))" using "2.prems"(1) by (rule unat_Suc_pred)
  show ?case
  proof (cases "is_addr_record x \<and> left - 1 = 0")
    case True
    then show ?thesis using 2 u by auto
  next
    case False
    then have "Suc i < k \<and> k \<le> Suc i + length xs \<and>
      addr_count (take (k - Suc i) xs) = (if is_addr_record x then unat (left - 1) else unat left)"
      using 2 by (auto split: if_splits)
    moreover from this have "k - i = Suc (k - Suc i)" by arith
    ultimately show ?thesis using u by (auto split: if_splits)
  qed
qed

lemma clamp_reply_ttl_eq: "clamp_reply_ttl t r = r_set_max_ttl t r"
  by (simp add: clamp_reply_ttl_def r_set_max_ttl_def map_records_def rr_set_max_ttl_def [abs_def] Let_def)

lemma clamp_opt_ttl:
  "lim = Some v \<Longrightarrow> x \<in> set (all_records (clamp_opt lim r)) \<Longrightarrow> rr_ttl x \<le> ucast v"
  by (auto simp: clamp_opt_def clamp_reply_ttl_eq r_set_max_ttl_def)

definition ttl_cap :: "u64 option \<Rightarrow> rr \<Rightarrow> rr" where
  "ttl_cap lim x = (case lim of None \<Rightarrow> x | Some v \<Rightarrow> rr_set_max_ttl (ucast v) x)"

lemma ttl_cap_data [simp]: "rr_data (ttl_cap lim x) = rr_data x" "rr_name (ttl_cap lim x) = rr_name x"
  by (simp_all add: ttl_cap_def split: option.splits)

lemma clamp_opt_sections [simp]:
  "r_answers (clamp_opt lim r) = List.map (ttl_cap lim) (r_answers r)"
  "m_authorities (r_message (clamp_opt lim r)) = List.map (ttl_cap lim) (m_authorities (r_message r))"
  "m_additionals (r_message (clamp_opt lim r)) = List.map (ttl_cap lim) (m_additionals (r_message r))"
  "m_header (r_message (clamp_opt lim r)) = m_header (r_message r)"
  "m_edns (r_message (clamp_opt lim r)) = m_edns (r_message r)"
  "m_queries (r_message (clamp_opt lim r)) = m_queries (r_message r)"
  "m_response_code (r_message (clamp_opt lim r)) = m_response_code (r_message r)"
  "r_aaaa_suppressed (clamp_opt lim r) = r_aaaa_suppressed r"
  by (simp_all add: clamp_opt_def clamp_reply_ttl_eq r_set_max_ttl_def map_records_def r_answers_def
      m_response_code_def ttl_cap_def [abs_def] Let_def split: option.splits)

lemma sync_sections [simp]:
  "r_answers (r_sync_header_counts r) = r_answers r"
  "m_authorities (r_message (r_sync_header_counts r)) = m_authorities (r_message r)"
  "m_additionals (r_message (r_sync_header_counts r)) = m_additionals (r_message r)"
  "m_edns (r_message (r_sync_header_counts r)) = m_edns (r_message r)"
  "m_queries (r_message (r_sync_header_counts r)) = m_queries (r_message r)"
  "m_response_code (r_message (r_sync_header_counts r)) = m_response_code (r_message r)"
  "r_aaaa_suppressed (r_sync_header_counts r) = r_aaaa_suppressed r"
  by (simp_all add: r_sync_header_counts_def r_answers_def m_response_code_def update_header_counts_def Let_def)

lemma limit_addresses_sections [simp]:
  "m_authorities (r_message (limit_addresses t n r)) = m_authorities (r_message r)"
  "m_additionals (r_message (limit_addresses t n r)) = m_additionals (r_message r)"
  "m_edns (r_message (limit_addresses t n r)) = m_edns (r_message r)"
  "m_queries (r_message (limit_addresses t n r)) = m_queries (r_message r)"
  "m_response_code (r_message (limit_addresses t n r)) = m_response_code (r_message r)"
  by (auto simp: limit_addresses_def m_response_code_def r_sync_header_counts_def update_header_counts_def
      Let_def split: option.splits)

lemma limit_addresses_answers:
  "\<exists>k. r_answers (limit_addresses t n r) = take k (r_answers r) \<and>
     (case n of
        None \<Rightarrow> k = length (r_answers r)
      | Some v \<Rightarrow>
          if is_ip_addr t \<and> 0 < v
          then addr_count (take k (r_answers r)) = min (unat v) (addr_count (r_answers r)) \<and>
               (addr_count (r_answers r) < unat v \<longrightarrow> k = length (r_answers r))
          else k = length (r_answers r))"
proof (cases "\<exists>v. n = Some v \<and> is_ip_addr t \<and> 0 < v")
  case False
  then show ?thesis
    by (intro exI [of _ "length (r_answers r)"]) (auto simp: limit_addresses_def split: option.splits)
next
  case True
  then obtain v where v: "n = Some v" "is_ip_addr t" "0 < v" by blast
  then have v0: "v \<noteq> 0" by auto
  show ?thesis
  proof (cases "cut_point v 0 (r_answers r)")
    case None
    then show ?thesis using v cut_point_None [OF v0 None]
      by (intro exI [of _ "length (r_answers r)"]) (simp add: limit_addresses_def)
  next
    case (Some k)
    note c = cut_point_Some [OF v0 Some]
    have "addr_count (r_answers r) = addr_count (take k (r_answers r)) + addr_count (drop k (r_answers r))"
      by (simp add: addr_count_def flip: length_append filter_append)
    then have le: "unat v \<le> addr_count (r_answers r)" using c by simp
    have "r_answers (limit_addresses t n r) = take k (r_answers r)"
      using v Some c by (auto simp: limit_addresses_def)
        (simp add: r_answers_def)
    then show ?thesis using v c le by (intro exI [of _ k]) auto
  qed
qed

lemma add_authority_sections [simp]:
  "r_answers (r_add_authority a r) = r_answers r"
  "m_authorities (r_message (r_add_authority a r)) = m_authorities (r_message r) @ [a]"
  "m_queries (r_message (r_add_authority a r)) = m_queries (r_message r)"
  "m_response_code (r_message (r_add_authority a r)) = m_response_code (r_message r)"
  "r_aaaa_suppressed (r_add_authority a r) = r_aaaa_suppressed r"
  by (auto simp: r_add_authority_def m_add_authority_def r_answers_def m_response_code_def
      r_sync_header_counts_def update_header_counts_def Let_def)

lemma foldl_add_authority:
  "r_answers (foldl (\<lambda>r a. r_add_authority a r) r as) = r_answers r"
  "m_authorities (r_message (foldl (\<lambda>r a. r_add_authority a r) r as)) = m_authorities (r_message r) @ as"
  "m_queries (r_message (foldl (\<lambda>r a. r_add_authority a r) r as)) = m_queries (r_message r)"
  "m_response_code (r_message (foldl (\<lambda>r a. r_add_authority a r) r as)) = m_response_code (r_message r)"
  "r_aaaa_suppressed (foldl (\<lambda>r a. r_add_authority a r) r as) = r_aaaa_suppressed r"
  by (induction as arbitrary: r) auto

lemma new_with_deadline_sections [simp]:
  "r_answers (new_with_deadline rid q rs v) = rs"
  "m_authorities (r_message (new_with_deadline rid q rs v)) = []"
  "m_additionals (r_message (new_with_deadline rid q rs v)) = []"
  "m_queries (r_message (new_with_deadline rid q rs v)) = [q]"
  "m_response_code (r_message (new_with_deadline rid q rs v)) = RC_NoError"
  "r_aaaa_suppressed (new_with_deadline rid q rs v) = False"
  by (simp_all add: new_with_deadline_def m_add_answers_def m_add_query_def m_to_response_def
      message_query_def message_new_def header_new_def r_answers_def m_response_code_def
      r_sync_header_counts_def update_header_counts_def Let_def)

lemma set_aaaa_suppressed_sections [simp]:
  "r_message (set_aaaa_suppressed b r) = r_message r"
  "r_answers (set_aaaa_suppressed b r) = r_answers r"
  "r_aaaa_suppressed (set_aaaa_suppressed b r) = b"
  by (simp_all add: set_aaaa_suppressed_def r_answers_def)

lemma rule_walk_sound:
  "rule_walk build no_soa t d = Some rds \<Longrightarrow> is_ip_addr t \<Longrightarrow>
     (\<exists>s. rds = [RD_SOA s] \<and> \<not> no_soa) \<or>
     (\<exists>node \<in> set (dn_chain d). \<exists>v4 v6. dr_address (dn_rule node) = Some (AR_Addr v4 v6) \<and>
        (if t = RT_A then \<exists>l. v4 = Some l \<and> rds = List.map RD_A l
         else (\<exists>l. v6 = Some l \<and> rds = List.map RD_AAAA l) \<or>
              (v6 = None \<and> (\<exists>l. v4 = Some l \<and> rds = List.map (\<lambda>ip. RD_AAAA (map_v4 ip)) l))))"
proof (induction build no_soa t d rule: rule_walk.induct)
  case (1 build no_soa t n r z)
  show ?case
  proof (cases "(case z of None \<Rightarrow> None | Some p \<Rightarrow> rule_walk build no_soa t p) = Some rds")
    case True
    then obtain p where z: "z = Some p" "rule_walk build no_soa t p = Some rds" by (cases z) auto
    from "1.IH" [OF refl z(1) z(2) "1.prems"(2)] z(1) show ?thesis by fastforce
  next
    case False
    then show ?thesis
      using "1.prems" by (auto simp: is_ip_addr_def Let_def split: option.splits address_rule.splits if_splits)
  qed
qed

section \<open>Properties\<close>

text \<open>A reply that came from the rest of the chain keeps its authority and additional records,
  its EDNS and its response code; its answers are a prefix of the original ones. For an address query
  with the limit \<open>n\<close> on reply addresses that prefix has exactly \<open>n\<close> addresses, or is the whole
  section when there are fewer. Every kept record only has its TTL capped.\<close>

theorem forwarded_reply_limits:
  assumes "handle_rule_addr (ev_build ev) (q_type (rq_query req)) ctx = None"
    "run_next ctx req w = (Inr r, ctx', w')"
  shows "\<exists>r' k. address_mw ev run_next ctx req w = (Inr r', ctx', w') \<and>
     r_answers r' = List.map (ttl_cap (cx_rr_ttl_reply_max ctx')) (take k (r_answers r)) \<and>
     m_authorities (r_message r') = List.map (ttl_cap (cx_rr_ttl_reply_max ctx')) (m_authorities (r_message r)) \<and>
     m_additionals (r_message r') = List.map (ttl_cap (cx_rr_ttl_reply_max ctx')) (m_additionals (r_message r)) \<and>
     m_edns (r_message r') = m_edns (r_message r) \<and>
     m_response_code (r_message r') = m_response_code (r_message r) \<and>
     (case cx_max_reply_ip_num ctx' of
        Some n \<Rightarrow> if is_ip_addr (q_type (rq_query req)) \<and> 0 < n
                  then addr_count (r_answers r') = min (unat n) (addr_count (r_answers r)) \<and>
                       (addr_count (r_answers r) < unat n \<longrightarrow> k = length (r_answers r))
                  else k = length (r_answers r)
      | None \<Rightarrow> k = length (r_answers r))"
proof -
  obtain k where k: "r_answers (limit_addresses (q_type (rq_query req)) (cx_max_reply_ip_num ctx') r)
      = take k (r_answers r)"
    and kk: "case cx_max_reply_ip_num ctx' of None \<Rightarrow> k = length (r_answers r)
      | Some v \<Rightarrow> if is_ip_addr (q_type (rq_query req)) \<and> 0 < v
          then addr_count (take k (r_answers r)) = min (unat v) (addr_count (r_answers r)) \<and>
               (addr_count (r_answers r) < unat v \<longrightarrow> k = length (r_answers r))
          else k = length (r_answers r)"
    using limit_addresses_answers [of "q_type (rq_query req)" "cx_max_reply_ip_num ctx'" r] by blast
  define r' where "r' = clamp_opt (cx_rr_ttl_reply_max ctx')
    (limit_addresses (q_type (rq_query req)) (cx_max_reply_ip_num ctx') r)"
  have ans: "r_answers r' = List.map (ttl_cap (cx_rr_ttl_reply_max ctx')) (take k (r_answers r))"
    by (simp add: r'_def k)
  then have "addr_count (r_answers r') = addr_count (take k (r_answers r))"
    by (simp add: addr_count_map_ttl)
  moreover have "address_mw ev run_next ctx req w = (Inr r', ctx', w')"
    by (simp add: address_mw_def assms r'_def)
  ultimately show ?thesis
    using ans kk by (intro exI [of _ r'] exI [of _ k]) (simp add: r'_def split: option.splits)
qed

definition demo_response :: "rdata list \<Rightarrow> u32 \<Rightarrow> dns_response" where
  "demo_response ds ttl =
     new_with_deadline 7 query_default (List.map (from_rdata name_root ttl) ds) 0"

definition demo_context :: "rt_config \<Rightarrow> dns_context" where
  "demo_context c = context_new (\<lambda>_ _. False) name_root c server_opts_default"

definition demo_request :: "rtype \<Rightarrow> request" where
  "demo_request t = request_of_query 7 (query_query name_root t)"

definition demo_env :: env where
  "demo_env = \<lparr>ev_now = 0, ev_rid = 7, ev_build = 100\<rparr>"

definition limited_config :: rt_config where
  "limited_config = rt_config_default\<lparr>cf_max_reply_ip_num := Some 1, cf_rr_ttl_reply_max := Some 60\<rparr>"

theorem forwarded_reply_limits_witness:
  "\<exists>r' k. address_mw demo_env (\<lambda>c q w. (Inr (demo_response [RD_A 1, RD_A 2] 600), c, w))
      (demo_context limited_config) (demo_request RT_A) () = (Inr r', demo_context limited_config, ()) \<and>
     r_answers r' = List.map (ttl_cap (cx_rr_ttl_reply_max (demo_context limited_config)))
       (take k (r_answers (demo_response [RD_A 1, RD_A 2] 600)))"
proof -
  have h: "handle_rule_addr (ev_build demo_env) (q_type (rq_query (demo_request RT_A)))
      (demo_context limited_config) = None"
    by code_simp
  show ?thesis
    using forwarded_reply_limits [OF h, of "\<lambda>c q w. (Inr (demo_response [RD_A 1, RD_A 2] 600), c, w)" "()"
      "demo_response [RD_A 1, RD_A 2] 600" "demo_context limited_config" "()"]
    by fast
qed

text \<open>Whichever branch produced the reply, no record of any section reaches the client with a TTL
  above \<open>rr-ttl-reply-max\<close>.\<close>

theorem reply_ttl_capped:
  assumes "address_mw ev run_next ctx req w = (Inr r, ctx', w')" "cx_rr_ttl_reply_max ctx' = Some v"
    "x \<in> set (all_records r)"
  shows "rr_ttl x \<le> ucast v"
proof -
  have "cx_rr_ttl_reply_max (ctx\<lparr>cx_source := LF_Static\<rparr>) = cx_rr_ttl_reply_max ctx"
    by (simp add: cx_rr_ttl_reply_max_def effective_rule_group_def)
  moreover have "\<exists>y. r = clamp_opt (cx_rr_ttl_reply_max ctx') y" if "handle_rule_addr (ev_build ev) (q_type (rq_query req)) ctx = None"
    using assms(1) that by (auto simp: address_mw_def split: prod.splits sum.splits)
  ultimately have "\<exists>y. r = clamp_opt (cx_rr_ttl_reply_max ctx') y"
    using assms(1)
    by (cases "handle_rule_addr (ev_build ev) (q_type (rq_query req)) ctx")
      (auto simp: address_mw_def rule_reply_def Let_def)
  then show ?thesis using assms(2, 3) clamp_opt_ttl by blast
qed

theorem reply_ttl_capped_witness:
  "rr_ttl (from_rdata name_root 60 (RD_A 1)) \<le> ucast (60 :: u64)"
  by (rule reply_ttl_capped [of demo_env "\<lambda>c q w. (Inr (demo_response [RD_A 1, RD_A 2] 600), c, w)"
      "demo_context limited_config" "demo_request RT_A" "()"
      "demo_response [RD_A 1] 60" "demo_context limited_config" "()"])
    code_simp+

lemma handle_rule_addr_sound:
  assumes "handle_rule_addr build t ctx = Some rds"
  shows "(rds = [RD_SOA (default_soa build)] \<or> (\<exists>s. rds = [RD_SOA s])) \<and> \<not> opt_flag (so_no_rule_soa (cx_server_opts ctx)) \<or>
     is_ip_addr t \<and> (\<exists>d. cx_domain_rule ctx = Some d \<and>
       rule_walk build (opt_flag (so_no_rule_soa (cx_server_opts ctx))) t d = Some rds)"
  using assms by (auto simp: handle_rule_addr_def Let_def split: if_splits option.splits)

text \<open>A query answered from the configuration never reaches the rest of the chain and leaves the
  server's state alone. Its answers are the addresses of an address rule of the domain or of one of
  its enclosing zones, of the type asked for, under the name asked for. A forced SOA is the only record
  of its reply and stands in the authority section; it is produced only without \<open>no-rule-soa\<close>, and it
  marks the reply as a deliberate refusal of AAAA exactly when AAAA was asked for.\<close>

theorem local_rule_reply:
  assumes "handle_rule_addr (ev_build ev) (q_type (rq_query req)) ctx = Some rds"
  shows "\<exists>r. address_mw ev run_next ctx req w = (Inr r, ctx\<lparr>cx_source := LF_Static\<rparr>, w) \<and>
     m_queries (r_message r) = [rq_query req] \<and> m_response_code (r_message r) = RC_NoError \<and>
     ((\<not> opt_flag (so_no_rule_soa (cx_server_opts ctx)) \<and> r_answers r = [] \<and>
         (\<exists>soa. List.map rr_data (m_authorities (r_message r)) = [RD_SOA soa] \<and>
            List.map rr_name (m_authorities (r_message r)) = [q_name (rq_query req)]) \<and>
         (r_aaaa_suppressed r \<longleftrightarrow> q_type (rq_query req) = RT_AAAA)) \<or>
      (m_authorities (r_message r) = [] \<and> \<not> r_aaaa_suppressed r \<and>
         (\<forall>x \<in> set (r_answers r). rr_name x = q_name (rq_query req) \<and> rr_type x = q_type (rq_query req)) \<and>
         (\<exists>d node v4 v6. cx_domain_rule ctx = Some d \<and> node \<in> set (dn_chain d) \<and>
            dr_address (dn_rule node) = Some (AR_Addr v4 v6) \<and>
            List.map rr_data (r_answers r) =
              (if q_type (rq_query req) = RT_A then List.map RD_A (unwrap_or v4 [])
               else case v6 of
                      Some l \<Rightarrow> List.map RD_AAAA l
                    | None \<Rightarrow> List.map (\<lambda>ip. RD_AAAA (map_v4 ip)) (unwrap_or v4 [])))))"
proof -
  define no_soa where "no_soa = opt_flag (so_no_rule_soa (cx_server_opts ctx))"
  define r where "r = rule_reply ev ctx req rds"
  have mw: "address_mw ev run_next ctx req w = (Inr r, ctx\<lparr>cx_source := LF_Static\<rparr>, w)"
    by (simp add: address_mw_def assms r_def)
  consider (soa) s where "rds = [RD_SOA s]" "\<not> no_soa"
    | (addr) d node v4 v6 where "is_ip_addr (q_type (rq_query req))" "cx_domain_rule ctx = Some d"
        "node \<in> set (dn_chain d)" "dr_address (dn_rule node) = Some (AR_Addr v4 v6)"
        "if q_type (rq_query req) = RT_A then \<exists>l. v4 = Some l \<and> rds = List.map RD_A l
         else (\<exists>l. v6 = Some l \<and> rds = List.map RD_AAAA l) \<or>
              (v6 = None \<and> (\<exists>l. v4 = Some l \<and> rds = List.map (\<lambda>ip. RD_AAAA (map_v4 ip)) l))"
    using handle_rule_addr_sound [OF assms] rule_walk_sound unfolding no_soa_def by blast
  then show ?thesis
  proof cases
    case soa
    have "r_answers r = []" "List.map rr_data (m_authorities (r_message r)) \<in> range (\<lambda>s. [RD_SOA s])"
      "List.map rr_name (m_authorities (r_message r)) = [q_name (rq_query req)]"
      "r_aaaa_suppressed r \<longleftrightarrow> q_type (rq_query req) = RT_AAAA"
      "m_queries (r_message r) = [rq_query req]" "m_response_code (r_message r) = RC_NoError"
      by (auto simp: r_def rule_reply_def soa Let_def foldl_add_authority forge_soa_record_def from_rdata_def)
    then show ?thesis using mw soa(2) by (auto simp: no_soa_def)
  next
    case addr
    have ns: "List.filter (\<lambda>d. \<not> is_soa_data d) rds = rds" "List.filter is_soa_data rds = []"
      using addr(5) by (auto split: if_splits)
    have h: "r_answers r = List.map (ttl_cap (cx_rr_ttl_reply_max ctx))
        (List.map (from_rdata (q_name (rq_query req)) (ucast (cx_local_ttl ctx))) rds)"
      "m_authorities (r_message r) = []" "\<not> r_aaaa_suppressed r" "m_queries (r_message r) = [rq_query req]"
      "m_response_code (r_message r) = RC_NoError"
      by (simp_all add: r_def rule_reply_def ns Let_def)
    have ty: "rd_type d = q_type (rq_query req)" if "d \<in> set rds" for d
      using addr(1, 5) that by (auto simp: is_ip_addr_def split: if_splits)
    have "List.map rr_data (r_answers r) = rds"
      by (simp add: h(1) comp_def from_rdata_def)
    moreover have "rds = (if q_type (rq_query req) = RT_A then List.map RD_A (unwrap_or v4 [])
               else case v6 of
                      Some l \<Rightarrow> List.map RD_AAAA l
                    | None \<Rightarrow> List.map (\<lambda>ip. RD_AAAA (map_v4 ip)) (unwrap_or v4 []))"
      using addr(5) by (auto split: if_splits)
    moreover have "\<forall>x \<in> set (r_answers r). rr_name x = q_name (rq_query req) \<and> rr_type x = q_type (rq_query req)"
      using ty by (auto simp: h(1) rr_type_def from_rdata_def)
    ultimately show ?thesis using mw h(2-5) addr(2-4) by metis
  qed
qed

theorem local_rule_reply_witness:
  "handle_rule_addr 100 RT_AAAA (demo_context (rt_config_default\<lparr>cf_force_aaaa_soa := Some True\<rparr>)) \<noteq> None \<and>
   (\<exists>r. address_mw demo_env (\<lambda>c q w. (Inr (demo_response [RD_A 1] 600), c, w))
        (demo_context (rt_config_default\<lparr>cf_force_aaaa_soa := Some True\<rparr>)) (demo_request RT_AAAA) () =
      (Inr r, (demo_context (rt_config_default\<lparr>cf_force_aaaa_soa := Some True\<rparr>))\<lparr>cx_source := LF_Static\<rparr>, ()))"
proof -
  have h: "handle_rule_addr (ev_build demo_env) (q_type (rq_query (demo_request RT_AAAA)))
      (demo_context (rt_config_default\<lparr>cf_force_aaaa_soa := Some True\<rparr>)) =
      Some [RD_SOA (default_soa 100)]"
    by code_simp
  moreover have "ev_build demo_env = 100" "q_type (rq_query (demo_request RT_AAAA)) = RT_AAAA"
    by code_simp+
  ultimately show ?thesis
    using local_rule_reply [OF h, of "\<lambda>c q w. (Inr (demo_response [RD_A 1] 600), c, w)" "()"]
    by (elim exE conjE) (rule conjI, simp, rule exI, assumption)
qed

end
