(* ===== verification/Mw_Dns64.thy ===== *)
theory Mw_Dns64
  imports Mw_Address
begin

unbundle bit_operations_syntax

text \<open>
  The DNS64 middleware (\<open>dns_mw_dns64.rs\<close>): the synthesis of AAAA records from A records for
  clients that only speak IPv6. The layout of an IPv4 address inside an IPv6 address is translated
  from the code over lists of octets, and compared with the table of RFC 6052, section 2.2, which the
  code cites.
\<close>

section \<open>The embedding\<close>

definition bytes_at :: "nat \<Rightarrow> 'a list \<Rightarrow> 'a list \<Rightarrow> 'a list" where
  "bytes_at i bs octs = take i octs @ bs @ drop (i + length bs) octs"

definition push_octet :: "128 word \<Rightarrow> 8 word \<Rightarrow> 128 word" where
  "push_octet acc b = push_bit 8 acc OR ucast b"

definition from_octets6 :: "8 word list \<Rightarrow> 128 word" where
  "from_octets6 bs = foldl push_octet 0 bs"

definition dns64_layout :: "nat \<Rightarrow> 8 word list \<Rightarrow> 8 word list \<Rightarrow> 8 word list option" where
  "dns64_layout prefix octs v4 =
     (if prefix = 32 then Some ((bytes_at 4 v4 octs)[8 := 0])
      else if prefix = 40 then Some (((bytes_at 5 (take 3 v4) octs)[9 := v4 ! 3])[8 := 0])
      else if prefix = 48 then Some ((bytes_at 9 (drop 2 v4) (bytes_at 6 (take 2 v4) octs))[8 := 0])
      else if prefix = 56 then Some (bytes_at 9 v4 (octs[7 := 0, 8 := 0]))
      else if prefix = 64 then Some ((bytes_at 9 v4 octs)[8 := 0])
      else if prefix = 96 then Some (bytes_at 12 v4 octs)
      else None)"

definition to_dns64 :: "ip_net \<Rightarrow> 32 word \<Rightarrow> 128 word option" where
  "to_dns64 net ipv4 =
     (case net_addr net of
        IpV6 a \<Rightarrow> map_option from_octets6 (dns64_layout (net_prefix net) (octets6 a) (octets4 ipv4))
      | IpV4 a \<Rightarrow> None)"

section \<open>The middleware\<close>

definition is_ipv4only_arpa :: "dname \<Rightarrow> bool" where
  "is_ipv4only_arpa n \<longleftrightarrow>
     n_fqdn n \<and> List.map lower_str (n_labels n) = [''ipv4only'', ''arpa'']"

definition ipv4only_addrs :: "32 word list" where
  "ipv4only_addrs = [0xC00000AA, 0xC00000AB]"

definition ipv4only_reply :: "env \<Rightarrow> u32 \<Rightarrow> query \<Rightarrow> rdata list \<Rightarrow> dns_response" where
  "ipv4only_reply ev ttl q ds =
     (let r = response_empty (ev_rid ev) (ev_now ev)
      in r\<lparr>r_message := m_add_answers (List.map (from_rdata (q_name q) ttl) ds) (m_add_query q (r_message r))\<rparr>)"

definition dns64_fallback_needed :: "(dns_response, lookup_error) result \<Rightarrow> bool" where
  "dns64_fallback_needed res =
     (case res of
        Inl e \<Rightarrow> True
      | Inr r \<Rightarrow> \<not> r_aaaa_suppressed r \<and> \<not> list_ex (\<lambda>x. rr_type x = RT_AAAA) (r_answers r))"

definition dns64_request :: "request \<Rightarrow> request option" where
  "dns64_request req =
     (case m_queries (rq_message req) of
        [] \<Rightarrow> None
      | q # qs \<Rightarrow>
          Some (request_new ((rq_message req)\<lparr>m_queries := q\<lparr>q_type := RT_A\<rparr> # qs\<rparr>)
                 (rq_src req) (rq_protocol req)))"

definition synthesise :: "ip_net \<Rightarrow> rr \<Rightarrow> rr" where
  "synthesise net x =
     (case rd_ip_addr (rr_data x) of
        Some (IpV4 a) \<Rightarrow>
          (case to_dns64 net a of
             Some v6 \<Rightarrow> from_rdata (rr_name x) (rr_ttl x) (RD_AAAA v6)
           | None \<Rightarrow> x)
      | _ \<Rightarrow> x)"

definition set_first_query_type :: "rtype \<Rightarrow> query list \<Rightarrow> query list" where
  "set_first_query_type t qs = (case qs of [] \<Rightarrow> [] | q # rest \<Rightarrow> q\<lparr>q_type := t\<rparr> # rest)"

definition dns64_reply :: "ip_net \<Rightarrow> dns_response \<Rightarrow> dns_response" where
  "dns64_reply net r =
     (let m = r_message r
      in r\<lparr>r_message := m\<lparr>m_answers := List.map (synthesise net) (m_answers m),
                         m_queries := set_first_query_type RT_AAAA (m_queries m)\<rparr>\<rparr>)"

definition dns64_mw :: "env \<Rightarrow> 'w middleware" where
  "dns64_mw ev run_next ctx req w =
     (case cx_dns64_prefix ctx of
        None \<Rightarrow> run_next ctx req w
      | Some net \<Rightarrow>
          (let q = rq_query req; t = q_type q; ttl = (ucast (cx_local_ttl ctx) :: u32) in
           if is_ipv4only_arpa (q_name q) \<and> t = RT_A then
             (Inr (ipv4only_reply ev ttl q (List.map RD_A ipv4only_addrs)), ctx, w)
           else if is_ipv4only_arpa (q_name q) \<and> t = RT_AAAA then
             (Inr (ipv4only_reply ev ttl q
                (List.map RD_AAAA (List.map_filter (to_dns64 net) ipv4only_addrs))), ctx, w)
           else if t \<noteq> RT_AAAA then run_next ctx req w
           else
             (case run_next ctx req w of
                (res, ctx1, w1) \<Rightarrow>
                  if \<not> dns64_fallback_needed res then (res, ctx1, w1)
                  else (case dns64_request req of
                          None \<Rightarrow> (res, ctx1, w1)
                        | Some req4 \<Rightarrow>
                            (case run_next ctx1 req4 w1 of
                               (Inl e, ctx2, w2) \<Rightarrow> (res, ctx2, w2)
                             | (Inr r, ctx2, w2) \<Rightarrow> (Inr (dns64_reply net r), ctx2, w2))))))"

section \<open>Lemmas on the embedding\<close>

lemma octet_push_0: "octet 0 (push_octet acc b) = b"
  by (rule bit_word_eqI) (auto simp: push_octet_def octet_bit bit_simps dest: bit_imp_le_length)

lemma octet_push_Suc:
  "i < 15 \<Longrightarrow> octet (Suc i) (push_octet acc b) = octet i acc"
  by (rule bit_word_eqI) (auto simp: push_octet_def octet_bit bit_simps dest: bit_imp_le_length)

lemma length_octets [simp]: "length (octets6 w) = 16" "length (octets4 a) = 4"
  by (simp_all add: octets6_def octets4_def)

lemma list16:
  assumes "length xs = 16"
  obtains a b c d e f g h i j k l m n p q where "xs = [a, b, c, d, e, f, g, h, i, j, k, l, m, n, p, q]"
  using assms by (auto simp: length_Suc_conv numeral_eq_Suc)

lemma list4:
  assumes "length xs = 4"
  obtains a b c d where "xs = [a, b, c, d]"
  using assms by (auto simp: length_Suc_conv numeral_eq_Suc)

lemma octets6_from_octets6: "length bs = 16 \<Longrightarrow> octets6 (from_octets6 bs) = bs"
  by (erule list16)
    (simp add: octets6_def from_octets6_def numeral_eq_Suc octet_push_0 octet_push_Suc)

lemma length_bytes_at [simp]: "i + length bs \<le> length xs \<Longrightarrow> length (bytes_at i bs xs) = length xs"
  by (simp add: bytes_at_def)

lemma length_dns64_layout:
  "dns64_layout p octs v4 = Some r \<Longrightarrow> length octs = 16 \<Longrightarrow> length v4 = 4 \<Longrightarrow> length r = 16"
  by (auto simp: dns64_layout_def split: if_splits)

section \<open>The table of RFC 6052\<close>

text \<open>The octet of the IPv6 address at which octet \<open>j\<close> of the IPv4 address stands for a prefix of
  \<open>p\<close> bits: right after the prefix, with octet 8 left out.\<close>

definition rfc6052_position :: "nat \<Rightarrow> nat \<Rightarrow> nat" where
  "rfc6052_position p j = (let k = p div 8 + j in if p div 8 \<le> 8 \<and> 8 \<le> k then k + 1 else k)"

definition rfc6052_extract :: "nat \<Rightarrow> 128 word \<Rightarrow> 8 word list" where
  "rfc6052_extract p w = List.map (\<lambda>i. octets6 w ! i) (List.map (rfc6052_position p) [0, 1, 2, 3])"

lemma dns64_layout_octets:
  "dns64_layout 32 [o0, o1, o2, o3, o4, o5, o6, o7, o8, o9, o10, o11, o12, o13, o14, o15] [v0, v1, v2, v3] =
     Some [o0, o1, o2, o3, v0, v1, v2, v3, 0, o9, o10, o11, o12, o13, o14, o15]"
  "dns64_layout 40 [o0, o1, o2, o3, o4, o5, o6, o7, o8, o9, o10, o11, o12, o13, o14, o15] [v0, v1, v2, v3] =
     Some [o0, o1, o2, o3, o4, v0, v1, v2, 0, v3, o10, o11, o12, o13, o14, o15]"
  "dns64_layout 48 [o0, o1, o2, o3, o4, o5, o6, o7, o8, o9, o10, o11, o12, o13, o14, o15] [v0, v1, v2, v3] =
     Some [o0, o1, o2, o3, o4, o5, v0, v1, 0, v2, v3, o11, o12, o13, o14, o15]"
  "dns64_layout 56 [o0, o1, o2, o3, o4, o5, o6, o7, o8, o9, o10, o11, o12, o13, o14, o15] [v0, v1, v2, v3] =
     Some [o0, o1, o2, o3, o4, o5, o6, 0, 0, v0, v1, v2, v3, o13, o14, o15]"
  "dns64_layout 64 [o0, o1, o2, o3, o4, o5, o6, o7, o8, o9, o10, o11, o12, o13, o14, o15] [v0, v1, v2, v3] =
     Some [o0, o1, o2, o3, o4, o5, o6, o7, 0, v0, v1, v2, v3, o13, o14, o15]"
  "dns64_layout 96 [o0, o1, o2, o3, o4, o5, o6, o7, o8, o9, o10, o11, o12, o13, o14, o15] [v0, v1, v2, v3] =
     Some [o0, o1, o2, o3, o4, o5, o6, o7, o8, o9, o10, o11, v0, v1, v2, v3]"
  by (simp_all add: dns64_layout_def bytes_at_def)

lemma rfc6052_positions:
  "List.map (rfc6052_position 32) [0, 1, 2, 3] = [4, 5, 6, 7]"
  "List.map (rfc6052_position 40) [0, 1, 2, 3] = [5, 6, 7, 9]"
  "List.map (rfc6052_position 48) [0, 1, 2, 3] = [6, 7, 9, 10]"
  "List.map (rfc6052_position 56) [0, 1, 2, 3] = [7, 9, 10, 11]"
  "List.map (rfc6052_position 64) [0, 1, 2, 3] = [9, 10, 11, 12]"
  "List.map (rfc6052_position 96) [0, 1, 2, 3] = [12, 13, 14, 15]"
  by (simp_all add: rfc6052_position_def)

lemma to_dns64_octets:
  "dns64_layout (net_prefix net) (octets6 a) (octets4 v4) = Some bs \<Longrightarrow> net_addr net = IpV6 a \<Longrightarrow>
     to_dns64 net v4 = Some (from_octets6 bs) \<and> octets6 (from_octets6 bs) = bs"
  using length_dns64_layout octets6_from_octets6 by (simp add: to_dns64_def)

text \<open>C39: for the prefix lengths 32, 40, 48, 64 and 96 the synthesised address follows RFC 6052: the
  IPv4 address is read back from the octets the RFC names, the reserved octet 8 is zero for the prefixes
  in front of it, and the octets of the prefix are unchanged.\<close>

theorem dns64_follows_rfc6052:
  assumes "net_addr net = IpV6 a" "net_prefix net \<in> {32, 40, 48, 64, 96}"
  shows "\<exists>w. to_dns64 net v4 = Some w \<and> rfc6052_extract (net_prefix net) w = octets4 v4 \<and>
     take (net_prefix net div 8) (octets6 w) = take (net_prefix net div 8) (octets6 a) \<and>
     (net_prefix net < 96 \<longrightarrow> octets6 w ! 8 = 0)"
proof -
  obtain bs where bs: "dns64_layout (net_prefix net) (octets6 a) (octets4 v4) = Some bs"
    using assms(2) by (auto simp: dns64_layout_def)
  note w = to_dns64_octets [OF bs assms(1)]
  obtain v0 v1 v2 v3 where v: "octets4 v4 = [v0, v1, v2, v3]" by (rule list4 [of "octets4 v4"]) simp_all
  obtain o0 o1 o2 o3 o4 o5 o6 o7 o8 o9 o10 o11 o12 o13 o14 o15
    where o: "octets6 a = [o0, o1, o2, o3, o4, o5, o6, o7, o8, o9, o10, o11, o12, o13, o14, o15]"
    by (rule list16 [of "octets6 a"]) simp_all
  consider "net_prefix net = 32" | "net_prefix net = 40" | "net_prefix net = 48" | "net_prefix net = 64"
    | "net_prefix net = 96"
    using assms(2) by auto
  then show ?thesis
    by cases
      (use bs w in \<open>auto simp only: v o dns64_layout_octets option.inject rfc6052_extract_def rfc6052_positions
         intro!: exI [of _ "from_octets6 bs"]\<close>, simp_all)
qed

definition nat64_net :: "nat \<Rightarrow> ip_net" where
  "nat64_net p = \<lparr>net_addr = IpV6 0x20010DB8000000000000000000000000, net_prefix = p\<rparr>"

theorem dns64_follows_rfc6052_witness:
  "\<exists>w. to_dns64 (nat64_net 96) 0xC0000221 = Some w \<and>
     rfc6052_extract (net_prefix (nat64_net 96)) w = octets4 0xC0000221"
  using dns64_follows_rfc6052 [of "nat64_net 96" _ "0xC0000221"] by (auto simp: nat64_net_def)

text \<open>For the prefix length 56 the address does not follow RFC 6052: the code zeroes octet 7 and
  stores the IPv4 address in octets 9 to 12, while the RFC puts its first octet at 7 and the rest at
  9 to 11. A translator that reads the address by the RFC gets the IPv4 address shifted right by an
  octet, which is another address except for 0.0.0.0.\<close>

theorem dns64_prefix_56_misplaced:
  assumes "net_addr net = IpV6 a" "net_prefix net = 56"
  shows "\<exists>w. to_dns64 net v4 = Some w \<and>
     rfc6052_extract 56 w = 0 # take 3 (octets4 v4) \<and>
     (rfc6052_extract 56 w = octets4 v4 \<longleftrightarrow> octets4 v4 = [0, 0, 0, 0])"
proof -
  obtain bs where bs: "dns64_layout (net_prefix net) (octets6 a) (octets4 v4) = Some bs"
    using assms(2) by (auto simp: dns64_layout_def)
  note w = to_dns64_octets [OF bs assms(1)]
  obtain v0 v1 v2 v3 where v: "octets4 v4 = [v0, v1, v2, v3]" by (rule list4 [of "octets4 v4"]) simp_all
  obtain o0 o1 o2 o3 o4 o5 o6 o7 o8 o9 o10 o11 o12 o13 o14 o15
    where o: "octets6 a = [o0, o1, o2, o3, o4, o5, o6, o7, o8, o9, o10, o11, o12, o13, o14, o15]"
    by (rule list16 [of "octets6 a"]) simp_all
  have "bs = [o0, o1, o2, o3, o4, o5, o6, 0, 0, v0, v1, v2, v3, o13, o14, o15]"
    using bs by (simp add: assms(2) v o dns64_layout_octets)
  then have "rfc6052_extract 56 (from_octets6 bs) = [0, v0, v1, v2]"
    using w by (simp only: rfc6052_extract_def rfc6052_positions) simp
  then show ?thesis
    using w by (intro exI [of _ "from_octets6 bs"]) (auto simp: v)
qed

theorem dns64_prefix_56_misplaced_witness:
  "\<exists>w. to_dns64 (nat64_net 56) 0xC0000221 = Some w \<and> rfc6052_extract 56 w = [0, 192, 0, 2]"
  using dns64_prefix_56_misplaced [of "nat64_net 56" _ "0xC0000221"]
  by (auto simp: nat64_net_def octets4_def octet_def)

section \<open>Properties of the middleware\<close>

lemma to_dns64_valid:
  "net_addr net = IpV6 a \<Longrightarrow> net_prefix net \<in> {32, 40, 48, 56, 64, 96} \<Longrightarrow> \<exists>w. to_dns64 net v4 = Some w"
  by (auto simp: to_dns64_def dns64_layout_def)

text \<open>An answer the inner chain gave to an AAAA query is passed on unchanged, and the inner chain is
  not asked again, when it holds an AAAA record or is marked as a deliberate refusal of AAAA, whatever
  prefix is configured.\<close>

theorem dns64_keeps_decisions:
  assumes "run_next ctx req w = (Inr r, ctx1, w1)"
    "r_aaaa_suppressed r \<or> (\<exists>x \<in> set (r_answers r). rr_type x = RT_AAAA)"
    "q_type (rq_query req) = RT_AAAA" "\<not> is_ipv4only_arpa (q_name (rq_query req))"
  shows "dns64_mw ev run_next ctx req w = (Inr r, ctx1, w1)"
  using assms
  by (auto simp: dns64_mw_def dns64_fallback_needed_def list_ex_iff Let_def split: option.split)

definition refused_response :: dns_response where
  "refused_response = set_aaaa_suppressed True (demo_response [] 0)"

theorem dns64_keeps_decisions_witness:
  "dns64_mw demo_env (\<lambda>c q w. (Inr refused_response, c, w :: unit))
     (demo_context (rt_config_default\<lparr>cf_dns64_prefix := Some (nat64_net 96)\<rparr>)) (demo_request RT_AAAA) () =
   (Inr refused_response, demo_context (rt_config_default\<lparr>cf_dns64_prefix := Some (nat64_net 96)\<rparr>), ())"
  by (rule dns64_keeps_decisions) (rule refl, simp add: refused_response_def, code_simp+)

text \<open>When the inner chain has no AAAA record and did not refuse one, it is asked for A, and with a
  valid prefix every address of that answer becomes the embedded IPv6 address under the same name and
  TTL; the reply holds no A record, keeps every other record, and restores the type of the question.
  An error of the second query falls back to the first result.\<close>

theorem dns64_synthesises:
  assumes "cx_dns64_prefix ctx = Some net" "net_addr net = IpV6 a"
    "net_prefix net \<in> {32, 40, 48, 56, 64, 96}"
    "q_type (rq_query req) = RT_AAAA" "\<not> is_ipv4only_arpa (q_name (rq_query req))"
    "run_next ctx req w = (res, ctx1, w1)" "dns64_fallback_needed res"
    "m_queries (rq_message req) = q # qs"
    "run_next ctx1 (request_new ((rq_message req)\<lparr>m_queries := q\<lparr>q_type := RT_A\<rparr> # qs\<rparr>)
        (rq_src req) (rq_protocol req)) w1 = (res2, ctx2, w2)"
  shows "case res2 of
      Inl e \<Rightarrow> dns64_mw ev run_next ctx req w = (res, ctx2, w2)
    | Inr r \<Rightarrow> \<exists>r'. dns64_mw ev run_next ctx req w = (Inr r', ctx2, w2) \<and>
        length (r_answers r') = length (r_answers r) \<and>
        (\<forall>x \<in> set (r_answers r'). rr_type x \<noteq> RT_A \<or> rd_ip_addr (rr_data x) = None) \<and>
        (\<forall>i < length (r_answers r). let x = r_answers r ! i; y = r_answers r' ! i in
           rr_name y = rr_name x \<and> rr_ttl y = rr_ttl x \<and>
           (case rr_data x of
              RD_A v4 \<Rightarrow> \<exists>v6. to_dns64 net v4 = Some v6 \<and> rr_data y = RD_AAAA v6
            | _ \<Rightarrow> y = x)) \<and>
        m_authorities (r_message r') = m_authorities (r_message r) \<and>
        List.map q_name (m_queries (r_message r')) = List.map q_name (m_queries (r_message r)) \<and>
        (m_queries (r_message r') \<noteq> [] \<longrightarrow> q_type (hd (m_queries (r_message r'))) = RT_AAAA)"
proof (cases res2)
  case (Inl e)
  then show ?thesis using assms by (simp add: dns64_mw_def dns64_request_def Let_def)
next
  case (Inr r)
  have mw: "dns64_mw ev run_next ctx req w = (Inr (dns64_reply net r), ctx2, w2)"
    using assms Inr by (simp add: dns64_mw_def dns64_request_def Let_def)
  have syn: "rr_name (synthesise net x) = rr_name x \<and> rr_ttl (synthesise net x) = rr_ttl x \<and>
      (case rr_data x of
         RD_A v4 \<Rightarrow> \<exists>v6. to_dns64 net v4 = Some v6 \<and> rr_data (synthesise net x) = RD_AAAA v6
       | _ \<Rightarrow> synthesise net x = x)" for x
  proof (cases "rd_ip_addr (rr_data x)")
    case None
    then show ?thesis by (auto simp: synthesise_def split: rdata.splits)
  next
    case (Some ip)
    show ?thesis
    proof (cases "rr_data x")
      case (RD_A v4)
      obtain v6 where "to_dns64 net v4 = Some v6" using to_dns64_valid [OF assms(2, 3)] by blast
      with RD_A show ?thesis by (simp add: synthesise_def from_rdata_def)
    qed (use Some in \<open>auto simp: synthesise_def\<close>)
  qed
  have no_a: "rr_type (synthesise net x) \<noteq> RT_A \<or> rd_ip_addr (rr_data (synthesise net x)) = None" for x
    using syn [of x] by (cases "rr_data x") (auto simp: rr_type_def)
  have ans: "r_answers (dns64_reply net r) = List.map (synthesise net) (r_answers r)"
    by (simp add: dns64_reply_def r_answers_def Let_def)
  show ?thesis
    unfolding Inr sum.case
    by (intro exI [of _ "dns64_reply net r"] conjI mw)
      (use syn no_a in \<open>auto simp: ans Let_def\<close>,
       auto simp: dns64_reply_def Let_def set_first_query_type_def split: list.splits)
qed

definition v4_only_upstream :: "unit handler" where
  "v4_only_upstream ctx req w =
     (Inr (demo_response (if q_type (rq_query req) = RT_A then [RD_A 0xC0000221] else []) 60), ctx, w)"

definition nat64_context :: dns_context where
  "nat64_context = demo_context (rt_config_default\<lparr>cf_dns64_prefix := Some (nat64_net 96)\<rparr>)"

theorem dns64_synthesises_witness:
  "\<exists>r'. dns64_mw demo_env v4_only_upstream nat64_context (demo_request RT_AAAA) () = (Inr r', nat64_context, ()) \<and>
     length (r_answers r') = 1"
proof -
  have n: "net_addr (nat64_net 96) = IpV6 0x20010DB8000000000000000000000000"
    by (simp add: nat64_net_def)
  have res2: "v4_only_upstream nat64_context
     (request_new ((rq_message (demo_request RT_AAAA))\<lparr>m_queries := (query_query name_root RT_AAAA)\<lparr>q_type := RT_A\<rparr> # []\<rparr>)
        (rq_src (demo_request RT_AAAA)) (rq_protocol (demo_request RT_AAAA))) () =
     (Inr (demo_response [RD_A 0xC0000221] 60), nat64_context, ())"
    by (simp add: v4_only_upstream_def request_new_def)
  have l: "length (r_answers (demo_response [RD_A 0xC0000221] 60)) = 1"
    by (simp add: demo_response_def)
  have p: "cx_dns64_prefix nat64_context = Some (nat64_net 96)"
    "net_prefix (nat64_net 96) \<in> {32, 40, 48, 56, 64, 96}" "q_type (rq_query (demo_request RT_AAAA)) = RT_AAAA"
    "\<not> is_ipv4only_arpa (q_name (rq_query (demo_request RT_AAAA)))"
    "dns64_fallback_needed (Inr (demo_response [] 60))"
    "m_queries (rq_message (demo_request RT_AAAA)) = query_query name_root RT_AAAA # []"
    by code_simp+
  have r1: "v4_only_upstream nat64_context (demo_request RT_AAAA) () = (Inr (demo_response [] 60), nat64_context, ())"
    by (simp add: v4_only_upstream_def demo_request_def request_of_query_def query_query_def Let_def)
  have "\<exists>r'. dns64_mw demo_env v4_only_upstream nat64_context (demo_request RT_AAAA) () =
        (Inr r', nat64_context, ()) \<and> length (r_answers r') = length (r_answers (demo_response [RD_A 0xC0000221] 60))"
    using dns64_synthesises [where run_next = v4_only_upstream and ?ctx1.0 = nat64_context and ?w1.0 = "()",
        OF p(1) n p(2-4) r1 p(5, 6) res2, of demo_env]
    unfolding sum.case by fast
  then show ?thesis using l by simp
qed

end
