(* ===== verification/Mw_Cname.thy ===== *)
theory Mw_Cname
  imports Mw_Dns64
begin

text \<open>
  Three middlewares that edit names and answers: the CNAME rule of a domain (\<open>dns_mw_cname.rs\<close>),
  the removal of CNAME records (\<open>dns_mw_force_no_cname.rs\<close>) and the rejection of bogus addresses
  (\<open>dns_mw_bogus.rs\<close>). The set of bogus addresses is the parameter \<open>bogus\<close> (its range map is a
  library).
\<close>

section \<open>The CNAME rule\<close>

definition cname_target :: "dns_context \<Rightarrow> dname option" where
  "cname_target ctx =
     rule_get (\<lambda>r. case dr_cname r of Some (Value n) \<Rightarrow> Some n | Some Ignore \<Rightarrow> None | None \<Rightarrow> None) ctx"

definition set_answers :: "rr list \<Rightarrow> dns_response \<Rightarrow> dns_response" where
  "set_answers xs r = r\<lparr>r_message := (r_message r)\<lparr>m_answers := xs\<rparr>\<rparr>"

definition cname_reply :: "query \<Rightarrow> rr \<Rightarrow> dns_response \<Rightarrow> dns_response" where
  "cname_reply q record r =
     r\<lparr>r_message := (r_message r)\<lparr>m_queries := [q], m_answers := record # m_answers (r_message r)\<rparr>\<rparr>"

definition cname_mw :: "(string \<Rightarrow> string \<Rightarrow> bool) \<Rightarrow> env \<Rightarrow> 'w middleware" where
  "cname_mw glob ev run_next ctx req w =
     (case cname_target ctx of
        None \<Rightarrow> run_next ctx req w
      | Some n0 \<Rightarrow>
          (let n = (if n_fqdn n0 then n0 else set_fqdn True n0);
               local_ttl = cx_local_ttl ctx;
               q = rq_query req;
               record = from_rdata (q_name q) (ucast local_ttl) (RD_CNAME n)
           in if q_type q = RT_CNAME then
                (Inr (new_with_deadline (ev_rid ev) q [record] (ev_now ev + secs (unat local_ttl))), ctx, w)
              else
                (case run_next (context_new glob n (cx_cfg ctx) (cx_server_opts ctx)) (with_cname n req) w of
                   (Inr r, ctx', w') \<Rightarrow> (Inr (cname_reply q record r), ctx, w')
                 | (Inl e, ctx', w') \<Rightarrow> (Inl e, ctx, w'))))"

section \<open>Removal of CNAME records\<close>

definition has_type :: "rtype \<Rightarrow> rr \<Rightarrow> bool" where
  "has_type t x \<longleftrightarrow> rr_type x = t"

definition strip_cname :: "query \<Rightarrow> dns_response \<Rightarrow> dns_response" where
  "strip_cname q r =
     (let xs = r_answers r; t = q_type q in
      if \<not> list_ex (has_type RT_CNAME) xs then r
      else if is_ip_addr t then
        (if \<not> list_ex (has_type t) xs then r
         else
           (let least = unwrap_or (min_list_opt (List.map rr_ttl xs)) 60
            in set_answers
                 (List.map (\<lambda>x. rr_set_ttl least
                     (if name_eq (rr_name x) (q_name q) then x else x\<lparr>rr_name := q_name q\<rparr>))
                   (List.filter (has_type t) xs)) r))
      else if List.filter (\<lambda>x. \<not> has_type RT_CNAME x) xs = [] then r
      else set_answers (List.filter (\<lambda>x. \<not> has_type RT_CNAME x) xs) r)"

definition no_cname_mw :: "'w middleware" where
  "no_cname_mw run_next ctx req w =
     (let enabled = cx_force_no_cname ctx; q = rq_query req in
      case run_next ctx req w of
        (Inl e, ctx', w') \<Rightarrow> (Inl e, ctx', w')
      | (Inr r, ctx', w') \<Rightarrow> (Inr (if enabled then strip_cname q r else r), ctx', w'))"

section \<open>Bogus addresses\<close>

definition is_bogus_record :: "(ip_addr \<Rightarrow> bool) \<Rightarrow> rr \<Rightarrow> bool" where
  "is_bogus_record bogus x = (case rd_ip_addr (rr_data x) of Some ip \<Rightarrow> bogus ip | None \<Rightarrow> False)"

definition bogus_soa_ttl :: "dns_context \<Rightarrow> u32" where
  "bogus_soa_ttl ctx =
     unwrap_or (or_else (map_option ucast (cx_rr_ttl ctx)) (map_option ucast (cx_rr_ttl_min ctx))) 300"

definition bogus_reply :: "env \<Rightarrow> dns_context \<Rightarrow> query \<Rightarrow> dns_response \<Rightarrow> dns_response" where
  "bogus_reply ev ctx q r =
     (let cleared = r_set_response_code RC_NXDomain (set_answers [] r)
      in if m_authorities (r_message cleared) = [] then
           r_add_authority (forge_soa_record (ev_build ev) (q_name q) (bogus_soa_ttl ctx)) cleared
         else cleared)"

definition bogus_mw :: "(ip_addr \<Rightarrow> bool) \<Rightarrow> env \<Rightarrow> 'w middleware" where
  "bogus_mw bogus ev run_next ctx req w =
     (case run_next ctx req w of
        (res, ctx', w') \<Rightarrow>
          if is_ip_addr (q_type (rq_query req)) then
            (case res of
               Inr r \<Rightarrow>
                 if list_ex (is_bogus_record bogus) (r_answers r)
                 then (Inr (bogus_reply ev ctx' (rq_query req) r), ctx', w')
                 else (Inr r, ctx', w')
             | Inl e \<Rightarrow> (Inl e, ctx', w'))
          else (res, ctx', w'))"

section \<open>Lemmas\<close>

lemma set_answers_sections [simp]:
  "r_answers (set_answers xs r) = xs"
  "m_authorities (r_message (set_answers xs r)) = m_authorities (r_message r)"
  "m_additionals (r_message (set_answers xs r)) = m_additionals (r_message r)"
  "m_queries (r_message (set_answers xs r)) = m_queries (r_message r)"
  by (simp_all add: set_answers_def r_answers_def)

lemma strip_cname_sections [simp]:
  "m_authorities (r_message (strip_cname q r)) = m_authorities (r_message r)"
  "m_additionals (r_message (strip_cname q r)) = m_additionals (r_message r)"
  by (simp_all add: strip_cname_def Let_def)

lemma strip_cname_ip:
  assumes "is_ip_addr (q_type q)" "x0 \<in> set (r_answers r)" "rr_type x0 = RT_CNAME"
    "x1 \<in> set (r_answers r)" "rr_type x1 = q_type q"
  shows "r_answers (strip_cname q r) \<noteq> [] \<and>
    (\<forall>y \<in> set (r_answers (strip_cname q r)).
       rr_type y = q_type q \<and> name_eq (rr_name y) (q_name q) \<and>
       (\<forall>x \<in> set (r_answers r). rr_ttl y \<le> rr_ttl x)) \<and>
    List.map rr_data (r_answers (strip_cname q r))
      = List.map rr_data (List.filter (has_type (q_type q)) (r_answers r))"
proof -
  have c: "list_ex (has_type RT_CNAME) (r_answers r)" "list_ex (has_type (q_type q)) (r_answers r)"
    using assms by (auto simp: list_ex_iff has_type_def)
  obtain least where l: "min_list_opt (List.map rr_ttl (r_answers r)) = Some least"
    using assms(2) by (cases "min_list_opt (List.map rr_ttl (r_answers r))") auto
  have ans: "r_answers (strip_cname q r) =
      List.map (\<lambda>x. rr_set_ttl least (if name_eq (rr_name x) (q_name q) then x else x\<lparr>rr_name := q_name q\<rparr>))
        (List.filter (has_type (q_type q)) (r_answers r))"
    using c assms(1) by (simp add: strip_cname_def Let_def l)
  have refl: "name_eq n n" for n by (simp add: name_eq_iff)
  show ?thesis
    unfolding ans using min_list_opt_Some [OF l] assms(4, 5)
    by (auto simp: has_type_def rr_type_def refl filter_empty_conv)
qed

section \<open>Properties\<close>

text \<open>Removing CNAME records never empties an answer section. For an address query that got
  addresses of the type asked for, exactly those remain, all under the name asked for and with the
  smallest TTL of the whole chain; for another query every record but the CNAMEs remains as it was.\<close>

theorem strip_cname_direct_answer:
  assumes "r_answers r \<noteq> []"
  shows "r_answers (strip_cname q r) \<noteq> [] \<and>
    (if \<not> list_ex (has_type RT_CNAME) (r_answers r) then strip_cname q r = r
     else if is_ip_addr (q_type q) then
       (if list_ex (has_type (q_type q)) (r_answers r) then
          List.map rr_data (r_answers (strip_cname q r))
            = List.map rr_data (List.filter (has_type (q_type q)) (r_answers r)) \<and>
          (\<forall>y \<in> set (r_answers (strip_cname q r)).
             name_eq (rr_name y) (q_name q) \<and> (\<forall>x \<in> set (r_answers r). rr_ttl y \<le> rr_ttl x))
        else strip_cname q r = r)
     else if List.filter (\<lambda>x. \<not> has_type RT_CNAME x) (r_answers r) = [] then strip_cname q r = r
     else r_answers (strip_cname q r) = List.filter (\<lambda>x. \<not> has_type RT_CNAME x) (r_answers r))"
proof (cases "is_ip_addr (q_type q) \<and> list_ex (has_type RT_CNAME) (r_answers r) \<and>
    list_ex (has_type (q_type q)) (r_answers r)")
  case True
  then obtain x0 x1 where "x0 \<in> set (r_answers r)" "rr_type x0 = RT_CNAME" "x1 \<in> set (r_answers r)"
    "rr_type x1 = q_type q"
    by (auto simp: list_ex_iff has_type_def)
  from strip_cname_ip [OF _ this] True show ?thesis by simp
next
  case False
  then show ?thesis using assms by (auto simp: strip_cname_def Let_def)
qed

definition cname_chain :: dns_response where
  "cname_chain = demo_response [RD_CNAME (fqdn [''t'']), RD_A 1] 60"

theorem strip_cname_direct_answer_witness:
  "r_answers (strip_cname query_default cname_chain) \<noteq> []"
  using conjunct1 [OF strip_cname_direct_answer [of cname_chain query_default]]
  by (simp add: cname_chain_def demo_response_def)

text \<open>No answer to an address query passes the bogus filter with an address of the bogus set. When
  one was there, the reply is NXDOMAIN with no answer at all and with a record in the authority section
  for negative caching; any other answer passes unchanged.\<close>

theorem bogus_addresses_never_pass:
  assumes "bogus_mw bogus ev run_next ctx req w = (Inr r', ctx', w')" "is_ip_addr (q_type (rq_query req))"
  shows "(\<forall>x \<in> set (r_answers r'). \<not> is_bogus_record bogus x) \<and>
    (\<exists>r. run_next ctx req w = (Inr r, ctx', w') \<and>
       (if list_ex (is_bogus_record bogus) (r_answers r)
        then r_answers r' = [] \<and> m_response_code (r_message r') = RC_NXDomain \<and>
             m_authorities (r_message r') \<noteq> []
        else r' = r))"
proof -
  obtain r where r: "run_next ctx req w = (Inr r, ctx', w')"
    using assms by (auto simp: bogus_mw_def split: prod.splits sum.splits if_splits)
  have b: "r_answers (bogus_reply ev ctx' q r) = [] \<and>
      m_response_code (r_message (bogus_reply ev ctx' q r)) = RC_NXDomain \<and>
      m_authorities (r_message (bogus_reply ev ctx' q r)) \<noteq> []" for q
    by (auto simp: bogus_reply_def Let_def) (simp_all add: r_set_response_code_def m_set_response_code_def
        set_answers_def r_answers_def m_response_code_def)
  show ?thesis using assms r b by (auto simp: bogus_mw_def list_ex_iff split: if_splits)
qed

theorem bogus_addresses_never_pass_witness:
  "\<exists>r'. fst (bogus_mw (\<lambda>ip. ip = IpV4 1) demo_env (\<lambda>c q w. (Inr (demo_response [RD_A 1] 60), c, w))
     (demo_context rt_config_default) (demo_request RT_A) ()) = Inr r' \<and> r_answers r' = []"
proof -
  define r' where "r' = bogus_reply demo_env (demo_context rt_config_default) (rq_query (demo_request RT_A))
    (demo_response [RD_A 1] 60)"
  have b: "bogus_mw (\<lambda>ip. ip = IpV4 1) demo_env (\<lambda>c q w. (Inr (demo_response [RD_A 1] 60), c, w))
     (demo_context rt_config_default) (demo_request RT_A) () = (Inr r', demo_context rt_config_default, ())"
    by (simp add: r'_def bogus_mw_def demo_response_def is_bogus_record_def from_rdata_def demo_request_def
        request_of_query_def query_query_def is_ip_addr_def Let_def)
  show ?thesis
    using bogus_addresses_never_pass [OF b] b
    by (auto simp: demo_request_def request_of_query_def query_query_def is_ip_addr_def is_bogus_record_def
        demo_response_def from_rdata_def Let_def)
qed

text \<open>A rule that asks to ignore CNAME rewriting for a domain has no effect when an enclosing zone
  has a CNAME rule: the walk to the zones goes on past the ignoring rule, and the query is rewritten
  to the zone's target as if the domain had no rule.\<close>

theorem cname_ignore_has_no_effect:
  assumes "dr_cname r = Some Ignore" "dr_cname r0 = None"
  shows "cname_target (ctx\<lparr>cx_domain_rule := Some (DNode n r z)\<rparr>)
       = cname_target (ctx\<lparr>cx_domain_rule := Some (DNode n r0 z)\<rparr>) \<and>
     cname_target (ctx\<lparr>cx_domain_rule := Some (DNode n r
         (Some (DNode n2 (set_cname (Value target) r2) z2)))\<rparr>) = Some target"
  using assms by (simp add: cname_target_def rule_get_def opt_get_def set_cname_def)

theorem cname_ignore_has_no_effect_witness:
  "cname_target ((demo_context rt_config_default)\<lparr>cx_domain_rule := Some (DNode (WDefault (fqdn [''b'', ''a'']))
     (set_cname Ignore domain_rule_default)
     (Some (DNode (WDefault (fqdn [''a''])) (set_cname (Value (fqdn [''t''])) domain_rule_default) None)))\<rparr>)
   = Some (fqdn [''t''])"
  by (rule conjunct2 [OF cname_ignore_has_no_effect [where ?r0.0 = domain_rule_default]])
    (simp_all add: set_cname_def domain_rule_default_def)

text \<open>Behind a CNAME rule the DNS64 fallback asks for the wrong name. The rewritten request carries
  the target in its query but still the client's message, and the fallback builds its query for A from
  that message, so it asks for the alias instead of the target.\<close>

theorem dns64_after_cname_asks_alias:
  assumes "m_queries m = q # qs"
  shows "\<exists>req4. dns64_request (with_cname target (request_new m src p)) = Some req4 \<and>
     q_name (rq_query (with_cname target (request_new m src p))) = target \<and>
     q_name (rq_query req4) = q_name q \<and> q_type (rq_query req4) = RT_A"
  using assms by (simp add: dns64_request_def with_cname_def request_new_def query_query_def)

theorem dns64_after_cname_asks_alias_witness:
  "\<exists>req4. dns64_request (with_cname (fqdn [''target''])
       (request_new (m_add_query (query_query (fqdn [''alias'']) RT_AAAA) (message_query 7)) (IpV4 1, 53) P_Udp)) = Some req4 \<and>
     q_name (rq_query req4) = fqdn [''alias'']"
  using dns64_after_cname_asks_alias [of "m_add_query (query_query (fqdn [''alias'']) RT_AAAA) (message_query 7)"
      "query_query (fqdn [''alias'']) RT_AAAA" "[]" "fqdn [''target'']" "(IpV4 1, 53)" P_Udp]
  by (auto simp: m_add_query_def message_query_def message_new_def query_query_def)

end
