(* ===== verification/Mw_Client.thy ===== *)
theory Mw_Client
  imports Middleware
begin

text \<open>
  The entry of a query (\<open>dns_mw.rs\<close>, \<open>DnsMiddlewareHandler::search\<close>): the limit on concurrent queries,
  the access control by client rules, the choice of the rule group, and the middleware that chooses
  the group once more, by address or MAC (\<open>app.rs\<close>, \<open>ClientRuleMiddleware\<close>). The neighbour table of the
  system is the parameter \<open>arp\<close>; membership in a network is \<open>net_contains\<close>.
\<close>

section \<open>The rule group of a query\<close>

definition is_mac_rule :: "client_rule \<Rightarrow> bool" where
  "is_mac_rule r = (case cr_client r of C_Mac m \<Rightarrow> True | C_IpAddr net \<Rightarrow> False)"

definition resolve_rule_group ::
    "(ip_net \<Rightarrow> ip_addr \<Rightarrow> bool) \<Rightarrow> rt_config \<Rightarrow> request \<Rightarrow> server_opts \<Rightarrow> string option" where
  "resolve_rule_group net_contains cfg req opts =
     (case so_rule_group opts of
        Some g \<Rightarrow> Some g
      | None \<Rightarrow>
          if so_is_background opts then None
          else (let grouping_ip = normalize_ip (unwrap_or (rq_forwarded_client req) (fst (rq_src req)))
                in map_option cr_group
                     (List.find (\<lambda>s. match_ip net_contains s grouping_ip) (cf_client_rules cfg))))"

definition rule_group_name ::
    "(ip_net \<Rightarrow> ip_addr \<Rightarrow> bool) \<Rightarrow> rt_config \<Rightarrow> request \<Rightarrow> server_opts \<Rightarrow> string" where
  "rule_group_name net_contains cfg req opts =
     unwrap_or (resolve_rule_group net_contains cfg req opts) []"

section \<open>Admission and access control\<close>

definition matched_rule ::
    "(ip_net \<Rightarrow> ip_addr \<Rightarrow> bool) \<Rightarrow> (ip_addr \<Rightarrow> string option) \<Rightarrow> rt_config \<Rightarrow> ip_addr \<Rightarrow> client_rule option" where
  "matched_rule net_contains arp cfg client_ip =
     (case List.find (\<lambda>s. match_ip net_contains s client_ip) (cf_client_rules cfg) of
        Some r \<Rightarrow> Some r
      | None \<Rightarrow>
          if list_ex is_mac_rule (cf_client_rules cfg) then
            (case arp client_ip of
               None \<Rightarrow> None
             | Some mac \<Rightarrow> List.find (\<lambda>s. match_mac s mac) (cf_client_rules cfg))
          else None)"

definition acl_refuses ::
    "(ip_net \<Rightarrow> ip_addr \<Rightarrow> bool) \<Rightarrow> (ip_addr \<Rightarrow> string option) \<Rightarrow> rt_config \<Rightarrow> request \<Rightarrow> server_opts \<Rightarrow> bool" where
  "acl_refuses net_contains arp cfg req opts \<longleftrightarrow>
     \<not> so_is_background opts \<and> (g_acl_enable cfg \<or> unwrap_or (so_acl opts) False) \<and>
     matched_rule net_contains arp cfg (normalize_ip (fst (rq_src req))) = None"

definition with_resolved_group ::
    "(ip_net \<Rightarrow> ip_addr \<Rightarrow> bool) \<Rightarrow> rt_config \<Rightarrow> request \<Rightarrow> server_opts \<Rightarrow> server_opts" where
  "with_resolved_group net_contains cfg req opts =
     (if so_rule_group opts = None \<and> \<not> so_is_background opts
      then opts\<lparr>so_rule_group := resolve_rule_group net_contains cfg req opts\<rparr> else opts)"

text \<open>The state of a search is the limiter of concurrent queries and the state of the handlers. The
  guard of an admitted query gives its slot back on every way out.\<close>

definition search ::
    "(string \<Rightarrow> string \<Rightarrow> bool) \<Rightarrow> (ip_net \<Rightarrow> ip_addr \<Rightarrow> bool) \<Rightarrow> (ip_addr \<Rightarrow> string option) \<Rightarrow> u64 \<Rightarrow>
     'w handler \<Rightarrow> rt_config \<Rightarrow> request \<Rightarrow> server_opts \<Rightarrow> query_limiter \<times> 'w \<Rightarrow>
     (dns_response, lookup_error) result \<times> query_limiter \<times> 'w" where
  "search glob net_contains arp now_secs host cfg req opts st =
     (case st of
        (ql, w) \<Rightarrow>
          (case admit ql (g_max_query_limit cfg) (so_is_background opts) now_secs of
             (ql1, Refused) \<Rightarrow> (Inl (LE_ResponseCode RC_Refused), ql1, w)
           | (ql1, Allowed) \<Rightarrow>
               if acl_refuses net_contains arp cfg req opts
               then (Inl (LE_ResponseCode RC_Refused), fetch_sub_one ql1, w)
               else
                 (case host (context_new glob (rq_lower_name req) cfg
                               (with_resolved_group net_contains cfg req opts)) req w of
                    (res, ctx, w') \<Rightarrow> (res, fetch_sub_one ql1, w'))))"

section \<open>The client rule middleware\<close>

definition client_rule_matches ::
    "(ip_net \<Rightarrow> ip_addr \<Rightarrow> bool) \<Rightarrow> (ip_addr \<Rightarrow> string option) \<Rightarrow> request \<Rightarrow> client_rule \<Rightarrow> bool" where
  "client_rule_matches net_contains arp req r =
     (case cr_client r of
        C_IpAddr net \<Rightarrow> net_contains net (unwrap_or (rq_forwarded_client req) (fst (rq_src req)))
      | C_Mac rule \<Rightarrow> (case arp (fst (rq_src req)) of Some m \<Rightarrow> mac_matches rule m | None \<Rightarrow> False))"

definition regroup ::
    "(string \<Rightarrow> string \<Rightarrow> bool) \<Rightarrow> (ip_net \<Rightarrow> ip_addr \<Rightarrow> bool) \<Rightarrow> (ip_addr \<Rightarrow> string option) \<Rightarrow>
     dns_context \<Rightarrow> request \<Rightarrow> dns_context" where
  "regroup glob net_contains arp ctx req =
     (case List.find (client_rule_matches net_contains arp req) (cf_client_rules (cx_cfg ctx)) of
        None \<Rightarrow> ctx
      | Some r \<Rightarrow>
          if \<not> so_is_background (cx_server_opts ctx) \<and>
             so_rule_group (cx_server_opts ctx) \<noteq> Some (cr_group r)
          then ctx\<lparr>cx_server_opts := (cx_server_opts ctx)\<lparr>so_rule_group := Some (cr_group r)\<rparr>,
                   cx_domain_rule := find_domain_rule glob (cx_cfg ctx) (q_name (rq_query req)) (cr_group r)\<rparr>
          else ctx)"

definition client_rule_mw ::
    "(string \<Rightarrow> string \<Rightarrow> bool) \<Rightarrow> (ip_net \<Rightarrow> ip_addr \<Rightarrow> bool) \<Rightarrow> (ip_addr \<Rightarrow> string option) \<Rightarrow> 'w middleware" where
  "client_rule_mw glob net_contains arp run_next ctx req w =
     run_next (regroup glob net_contains arp ctx req) req w"

section \<open>Lemmas\<close>

lemma admit_cases:
  "admit ql limit bg now = (ql1, a) \<Longrightarrow>
     (a = Allowed \<and> ql1 = fetch_add_one ql) \<or>
     (a = Refused \<and> \<not> bg \<and> limit \<noteq> 0 \<and> ql_in_flight ql + 1 > limit \<and> ql_in_flight ql1 = ql_in_flight ql)"
  by (auto simp: admit_def fetch_add_one_def fetch_sub_one_def warn_once_in_window_def Let_def
      split: if_splits)

lemma sub_add_one [simp]: "fetch_sub_one (fetch_add_one ql) = ql"
  by (simp add: fetch_sub_one_def fetch_add_one_def)

section \<open>Properties\<close>

text \<open>C40: with access control on, a client that no rule names by the address of its connection, or by
  the MAC address found for that address, is refused without reaching any handler, whatever address a
  proxy header reports for it and whatever rule group was set. The decision for two requests from one
  peer is the same.\<close>

theorem acl_uses_real_peer:
  assumes "g_acl_enable cfg \<or> so_acl opts = Some True" "\<not> so_is_background opts"
    "matched_rule net_contains arp cfg (normalize_ip (fst (rq_src req))) = None"
  shows "fst (search glob net_contains arp now host cfg (with_forwarded_client f req) opts (ql, w))
           = Inl (LE_ResponseCode RC_Refused) \<and>
         snd (snd (search glob net_contains arp now host cfg (with_forwarded_client f req) opts (ql, w))) = w \<and>
         (fst (rq_src req2) = fst (rq_src req) \<longrightarrow> acl_refuses net_contains arp cfg req2 opts)"
  using assms
  by (auto simp: search_def acl_refuses_def with_forwarded_client_def split: prod.split query_admission.split)

definition net_eq :: "ip_net \<Rightarrow> ip_addr \<Rightarrow> bool" where
  "net_eq n ip \<longleftrightarrow> net_addr n = ip"

definition acl_config :: rt_config where
  "acl_config = rt_config_default\<lparr>cf_acl_enable := Some True,
     cf_client_rules := [\<lparr>cr_client = C_IpAddr \<lparr>net_addr = IpV4 10, net_prefix = 32\<rparr>, cr_group = ''office''\<rparr>]\<rparr>"

theorem acl_uses_real_peer_witness:
  "fst (search (\<lambda>_ _. False) net_eq (\<lambda>_. None) 0
     (\<lambda>c q w. (Inl (LE_Io ''unreachable''), c, w :: nat)) acl_config
     (with_forwarded_client (Some (IpV4 10)) (request_of_query 7 query_default)) server_opts_default
     (\<lparr>ql_in_flight = 0, ql_last_warn = 0\<rparr>, 3)) = Inl (LE_ResponseCode RC_Refused)"
proof -
  have h: "g_acl_enable acl_config \<or> so_acl server_opts_default = Some True"
    "\<not> so_is_background server_opts_default"
    "matched_rule net_eq (\<lambda>_. None) acl_config (normalize_ip (fst (rq_src (request_of_query 7 query_default)))) = None"
    by code_simp+
  show ?thesis by (rule conjunct1 [OF acl_uses_real_peer [OF h, of _ _ _ _ _ _ "request_of_query 7 query_default"]])
qed

text \<open>A search gives back the slot it took: the number of queries in flight is the same before and
  after, on the refusals of the limiter and of the access control and after the handlers, and with a
  limit set a client's query only reaches the handlers while fewer than the limit were in flight.\<close>

theorem search_releases_slot:
  "ql_in_flight (fst (snd (search glob net_contains arp now host cfg req opts (ql, w)))) = ql_in_flight ql \<and>
   (snd (snd (search glob net_contains arp now host cfg req opts (ql, w))) = w \<or>
    so_is_background opts \<or> g_max_query_limit cfg = 0 \<or>
    ql_in_flight ql + 1 \<le> g_max_query_limit cfg)"
proof -
  obtain ql1 a where ad: "admit ql (g_max_query_limit cfg) (so_is_background opts) now = (ql1, a)"
    by fastforce
  from admit_cases [OF ad] show ?thesis
    using ad by (cases a) (auto simp: search_def admit_def fetch_add_one_def Let_def fetch_sub_one_def
        split: prod.split if_splits)
qed

text \<open>The client rule middleware replaces the rule group of a listener: although the search keeps a
  group the caller specified, and reports that group to the caller's own fallback, the handlers behind
  the middleware run under the group of the first client rule that matches.\<close>

theorem client_rule_overrides_listener_group:
  assumes "List.find (client_rule_matches net_contains arp req) (cf_client_rules cfg) = Some r"
    "so_rule_group opts = Some g" "\<not> so_is_background opts"
  shows "rule_group_name net_contains cfg req opts = g \<and>
    effective_rule_group (context_new glob n cfg (with_resolved_group net_contains cfg req opts)) = g \<and>
    effective_rule_group (regroup glob net_contains arp
       (context_new glob n cfg (with_resolved_group net_contains cfg req opts)) req) = cr_group r"
  using assms
  by (auto simp: rule_group_name_def resolve_rule_group_def with_resolved_group_def context_new_def
      effective_rule_group_def regroup_def Let_def)

theorem client_rule_overrides_listener_group_witness:
  "effective_rule_group (regroup (\<lambda>_ _. False) net_eq (\<lambda>_. None)
     (context_new (\<lambda>_ _. False) name_root acl_config
        (with_resolved_group net_eq acl_config
           (with_forwarded_client (Some (IpV4 10)) (request_of_query 7 query_default))
           (server_opts_default\<lparr>so_rule_group := Some ''guest''\<rparr>)))
     (with_forwarded_client (Some (IpV4 10)) (request_of_query 7 query_default))) = ''office''"
proof -
  have h: "List.find (client_rule_matches net_eq (\<lambda>_. None)
      (with_forwarded_client (Some (IpV4 10)) (request_of_query 7 query_default))) (cf_client_rules acl_config) =
      Some \<lparr>cr_client = C_IpAddr \<lparr>net_addr = IpV4 10, net_prefix = 32\<rparr>, cr_group = ''office''\<rparr>"
    "so_rule_group (server_opts_default\<lparr>so_rule_group := Some ''guest''\<rparr>) = Some ''guest''"
    "\<not> so_is_background (server_opts_default\<lparr>so_rule_group := Some ''guest''\<rparr>)"
    by code_simp+
  show ?thesis using conjunct2 [OF conjunct2 [OF client_rule_overrides_listener_group [OF h]]] by simp
qed

text \<open>When the middleware switches the group, it renews the domain rule but not the flag that keeps
  the query out of the cache: a domain whose rule in the new group says \<open>no-cache\<close> is answered under
  that rule and cached all the same, unlike a query whose group was known from the start.\<close>

theorem regroup_keeps_stale_no_cache:
  assumes "List.find (client_rule_matches net_contains arp req) (cf_client_rules (cx_cfg ctx)) = Some r"
    "\<not> so_is_background (cx_server_opts ctx)" "so_rule_group (cx_server_opts ctx) \<noteq> Some (cr_group r)"
    "opt_get (\<lambda>d. dr_no_cache (dn_rule d))
       (find_domain_rule glob (cx_cfg ctx) (q_name (rq_query req)) (cr_group r)) = Some True"
  shows "rule_get dr_no_cache (regroup glob net_contains arp ctx req) = Some True \<and>
    cx_no_cache (regroup glob net_contains arp ctx req) = cx_no_cache ctx \<and>
    cx_no_cache (context_new glob (q_name (rq_query req)) (cx_cfg ctx)
       ((cx_server_opts ctx)\<lparr>so_rule_group := Some (cr_group r)\<rparr>))"
  using assms by (simp add: regroup_def rule_get_def context_new_def Let_def)

definition guest_table :: "dnode dmap" where
  "guest_table = fst (dm_insert (WDefault (fqdn [''x'']))
     (DNode (WDefault (fqdn [''x''])) (domain_rule_default\<lparr>dr_no_cache := Some True\<rparr>) None) dm_empty)"

definition guest_config :: rt_config where
  "guest_config = rt_config_default\<lparr>
     cf_client_rules := [\<lparr>cr_client = C_Mac ''aa:bb:cc:dd:ee:ff'', cr_group = ''guest''\<rparr>],
     cf_domain_rule_groups := [(''guest'', guest_table)]\<rparr>"

definition guest_request :: request where
  "guest_request = request_of_query 7 (query_query (fqdn [''x'']) RT_A)"

theorem regroup_keeps_stale_no_cache_witness:
  "\<not> cx_no_cache (regroup (\<lambda>_ _. False) net_eq (\<lambda>_. Some ''AA-BB-CC-DD-EE-FF'')
     (context_new (\<lambda>_ _. False) (fqdn [''x'']) guest_config server_opts_default) guest_request)"
proof -
  define ctx where "ctx = context_new (\<lambda>_ _. False) (fqdn [''x'']) guest_config server_opts_default"
  have c: "cx_cfg ctx = guest_config" "cx_server_opts ctx = server_opts_default" "\<not> cx_no_cache ctx"
    unfolding ctx_def by code_simp+
  have h: "List.find (client_rule_matches net_eq (\<lambda>_. Some ''AA-BB-CC-DD-EE-FF'') guest_request)
      (cf_client_rules (cx_cfg ctx)) = Some \<lparr>cr_client = C_Mac ''aa:bb:cc:dd:ee:ff'', cr_group = ''guest''\<rparr>"
    unfolding c by code_simp
  have i: "\<not> so_is_background (cx_server_opts ctx)"
    "so_rule_group (cx_server_opts ctx) \<noteq> Some (cr_group \<lparr>cr_client = C_Mac ''aa:bb:cc:dd:ee:ff'', cr_group = ''guest''\<rparr>)"
    unfolding c by code_simp+
  have j: "opt_get (\<lambda>d. dr_no_cache (dn_rule d)) (find_domain_rule (\<lambda>_ _. False) (cx_cfg ctx)
      (q_name (rq_query guest_request)) (cr_group \<lparr>cr_client = C_Mac ''aa:bb:cc:dd:ee:ff'', cr_group = ''guest''\<rparr>)) = Some True"
    unfolding c by code_simp
  show ?thesis using regroup_keeps_stale_no_cache [OF h i j] c(3) by (simp add: ctx_def)
qed

section \<open>Queries with capital letters\<close>

definition one_level :: "string list \<Rightarrow> 'v \<Rightarrow> 'v dmap" where
  "one_level ls v = fst (dm_insert (WSub [] (fqdn ls)) v dm_empty)"

lemma one_level_get:
  "dm_get (one_level ls v) k = (if w_eq k (WSub [] (fqdn ls)) then Some v else None)"
  by (cases k) (auto simp: one_level_def dm_insert_def dm_get_def dm_empty_def w_set_fqdn_def w_canon_def
      name_eq_iff set_fqdn_def fqdn_def push_wildcard_def Let_def)

lemma one_level_subs:
  "dm_subs (one_level ls v) q = (if to_lowercase (fqdn ls) = to_lowercase q then [WSub [] (fqdn ls)] else [])"
  by (auto simp: one_level_def dm_insert_def dm_subs_def dm_empty_def w_set_fqdn_def set_fqdn_def fqdn_def
      push_wildcard_def Let_def)

lemma one_level_find_level:
  "find_level glob (one_level ls v) lvl last0 q =
     (if lvl = 1 \<and> to_lowercase (fqdn ls) = to_lowercase q \<and> w_is_match glob (WSub [] (fqdn ls)) last0
      then Some v else None)"
  by (auto simp: find_level_def one_level_get one_level_subs name_eq_iff split: option.splits)

lemma one_level_deeper: "lvl \<ge> 2 \<Longrightarrow> find_from glob (one_level ls v) lvl last0 q = None"
proof (induction glob "one_level ls v" lvl last0 q rule: find_from.induct)
  case (1 glob lvl last0 q)
  then show ?case by (subst find_from.simps) (simp add: one_level_find_level)
qed

lemma one_level_find:
  assumes "l \<noteq> ''*''"
  shows "dm_find glob (one_level ls v) (fqdn (l # bs)) =
    (if bs = ls then Some v else None)"
proof -
  have b: "base_name (fqdn (l # bs)) = fqdn bs"
    by (simp add: base_name_def trim_to_def fqdn_def)
  have m: "w_is_match glob (WSub [] (fqdn ls)) (fqdn (l # bs)) \<longleftrightarrow> ls = bs"
    by (simp add: b eq_ignore_root_case_iff) (simp add: fqdn_def wildcard_is_match_def)
  have f: "n_fqdn (fqdn xs)" for xs by (simp add: fqdn_def)
  have "find_from glob (one_level ls v) 1 (fqdn (l # bs)) (fqdn bs) = (if bs = ls then Some v else None)"
    by (subst find_from.simps)
      (use f in \<open>auto simp del: w_is_match.simps simp: one_level_find_level one_level_deeper m\<close>)
  moreover have "dm_map (one_level ls v) \<noteq> []"
    using one_level_get [of ls v "WSub [] (fqdn ls)"] by (auto simp: dm_get_def name_eq_iff)
  moreover have "\<not> is_wildcard (fqdn (l # bs))" using assms by (simp add: is_wildcard_def fqdn_def)
  moreover have "\<not> is_root (fqdn (l # bs))" "n_fqdn (fqdn (l # bs))" by (simp_all add: is_root_def fqdn_def)
  ultimately show ?thesis
    unfolding dm_find_def by (subst find_from.simps) (simp add: one_level_find_level b Let_def)
qed

text \<open>Whether a rule of a group applies depends on capital letters when the middleware chose the
  group. A query for a name directly below a one-level wildcard finds the rule when the group was known
  before, since the search looks up the lower-case name; the middleware looks up the name as the client
  wrote it, and finds no rule unless the zone is written exactly as in the configuration.\<close>

theorem regrouped_rule_depends_on_case:
  assumes "domain_rule_group cfg g = one_level ls d" "domain_rule_group cfg default_group = dm_empty"
    "List.map lower_str bs = ls" "bs \<noteq> ls" "lower_str l \<noteq> ''*''"
    "q_name (rq_query req) = fqdn (l # bs)" "cx_cfg ctx = cfg"
    "List.find (client_rule_matches net_contains arp req) (cf_client_rules cfg) = Some r"
    "\<not> so_is_background (cx_server_opts ctx)" "so_rule_group (cx_server_opts ctx) \<noteq> Some (cr_group r)"
    "cr_group r = g"
  shows "cx_domain_rule (context_new glob (rq_lower_name req) cfg (opts\<lparr>so_rule_group := Some g\<rparr>)) = Some d \<and>
    cx_domain_rule (regroup glob net_contains arp ctx req) = None"
proof -
  have "l \<noteq> ''*''" using assms(5) by (auto simp: lower_str_def lower_char_def)
  moreover have "rq_lower_name req = fqdn (lower_str l # ls)"
    using assms(3, 6) by (simp add: rq_lower_name_def to_lowercase_def fqdn_def)
  moreover have "dm_find glob dm_empty n = (None :: dnode option)" for n
    by (simp add: dm_find_def dm_empty_def)
  ultimately show ?thesis
    using assms by (simp add: context_new_def regroup_def find_domain_rule_def one_level_find Let_def)
qed

definition lan_node :: dnode where
  "lan_node = DNode (WSub [] (fqdn [''lan''])) (domain_rule_default\<lparr>dr_no_cache := Some True\<rparr>) None"

definition lan_config :: rt_config where
  "lan_config = rt_config_default\<lparr>
     cf_client_rules := [\<lparr>cr_client = C_Mac ''aa:bb:cc:dd:ee:ff'', cr_group = ''guest''\<rparr>],
     cf_domain_rule_groups := [(''guest'', one_level [''lan''] lan_node)]\<rparr>"

theorem regrouped_rule_depends_on_case_witness:
  "cx_domain_rule (regroup (\<lambda>_ _. False) net_eq (\<lambda>_. Some ''aabbccddeeff'')
     (context_new (\<lambda>_ _. False) (fqdn [''pc'', ''lan'']) lan_config server_opts_default)
     (request_of_query 7 (query_query (fqdn [''pc'', ''LAN'']) RT_A))) = None"
proof -
  define req where "req = request_of_query 7 (query_query (fqdn [''pc'', ''LAN'']) RT_A)"
  define ctx where "ctx = context_new (\<lambda>_ _. False) (fqdn [''pc'', ''lan'']) lan_config server_opts_default"
  define r where "r = \<lparr>cr_client = C_Mac ''aa:bb:cc:dd:ee:ff'', cr_group = ''guest''\<rparr>"
  have c: "cx_cfg ctx = lan_config" "cx_server_opts ctx = server_opts_default"
    by (simp_all add: ctx_def context_new_def Let_def)
  have h: "domain_rule_group lan_config ''guest'' = one_level [''lan''] lan_node"
    "domain_rule_group lan_config default_group = dm_empty"
    by (simp_all add: domain_rule_group_def lan_config_def default_group_def rt_config_default_def)
  have i: "List.map lower_str [''LAN''] = [''lan'']" "[''LAN''] \<noteq> [''lan'']" "lower_str ''pc'' \<noteq> ''*''"
    by code_simp+
  have q: "q_name (rq_query req) = fqdn (''pc'' # [''LAN''])"
    by (simp add: req_def request_of_query_def query_query_def Let_def)
  have f: "List.find (client_rule_matches net_eq (\<lambda>_. Some ''aabbccddeeff'') req) (cf_client_rules lan_config) = Some r"
    unfolding req_def r_def by code_simp
  have b: "\<not> so_is_background (cx_server_opts ctx)" "so_rule_group (cx_server_opts ctx) \<noteq> Some (cr_group r)"
    "cr_group r = ''guest''"
    unfolding c by (simp_all add: server_opts_default_def r_def)
  show ?thesis
    using conjunct2 [OF regrouped_rule_depends_on_case [OF h i q c(1) f b]]
    by (simp add: ctx_def req_def)
qed

section \<open>Background refreshes\<close>

text \<open>The options a background refresh runs with, and the context its query gets.\<close>

definition refresh_opts :: "server_opts \<Rightarrow> string \<Rightarrow> server_opts" where
  "refresh_opts opts grp = to_server_opts (from_server_opts opts) grp"

definition refresh_context ::
    "(string \<Rightarrow> string \<Rightarrow> bool) \<Rightarrow> (ip_net \<Rightarrow> ip_addr \<Rightarrow> bool) \<Rightarrow> (ip_addr \<Rightarrow> string option) \<Rightarrow>
     dname \<Rightarrow> rt_config \<Rightarrow> server_opts \<Rightarrow> string \<Rightarrow> request \<Rightarrow> dns_context" where
  "refresh_context glob net_contains arp n cfg opts grp req =
     regroup glob net_contains arp
       (context_new glob n cfg (with_resolved_group net_contains cfg req (refresh_opts opts grp))) req"

lemma refresh_context_eq:
  "refresh_context glob net_contains arp n cfg opts grp req = context_new glob n cfg (refresh_opts opts grp)"
  by (simp add: refresh_context_def refresh_opts_def to_server_opts_def regroup_def with_resolved_group_def
      context_new_def Let_def split: option.splits)

text \<open>A background refresh, which only gets the options stored in the cache key, runs in the rule
  group, with the domain rule, the cache permission and the server group of the query it refreshes, is
  not regrouped by its own address, has the same listener flags, and stores its answer under the same
  key options.\<close>

theorem refresh_runs_under_same_rules:
  assumes "so_force_no_cname opts \<noteq> Some False"
  shows "let fg = context_new glob n cfg opts;
             bg = refresh_context glob net_contains arp n cfg opts grp req in
     cx_domain_rule bg = cx_domain_rule fg \<and> cx_no_cache bg = cx_no_cache fg \<and>
     effective_rule_group bg = effective_rule_group fg \<and>
     cx_force_no_cname bg = cx_force_no_cname fg \<and> server_group_name bg = grp \<and>
     from_server_opts (cx_server_opts bg) = from_server_opts opts \<and> so_is_background (cx_server_opts bg)"
proof -
  have n: "so_force_no_cname opts \<in> {None, Some True}"
    using assms by (cases "so_force_no_cname opts") auto
  show ?thesis
    using n unfolding refresh_context_eq refresh_opts_def Let_def
    by (intro conjI)
      (auto simp: from_to_server_opts context_new_def to_server_opts_def from_server_opts_def
        effective_rule_group_def cx_force_no_cname_def server_group_name_def server_opts_default_def Let_def)
qed

theorem refresh_runs_under_same_rules_witness:
  "server_group_name (refresh_context (\<lambda>_ _. False) net_eq (\<lambda>_. None) name_root acl_config
     server_opts_default ''fast'' (request_of_query 7 query_default)) = ''fast''"
  using refresh_runs_under_same_rules [of server_opts_default "\<lambda>_ _. False" name_root acl_config net_eq
      "\<lambda>_. None" "''fast''" "request_of_query 7 query_default"]
  by (simp add: server_opts_default_def Let_def)

text \<open>One setting is not preserved. A listener that says nothing about \<open>force-AAAA-SOA\<close> follows its
  group, but the refresh of its entries runs with the setting switched off explicitly, so a group or a
  global setting that forces the negative answer is ignored by the refresh.\<close>

theorem refresh_drops_force_aaaa_soa:
  assumes "so_force_aaaa_soa opts = None"
    "force_aaaa_soa_in_group cfg (unwrap_or (so_rule_group opts) [])"
  shows "cx_force_aaaa_soa (context_new glob n cfg opts) \<and>
     \<not> cx_force_aaaa_soa (refresh_context glob net_contains arp n cfg opts grp req)"
  using assms unfolding refresh_context_eq
  by (simp add: refresh_opts_def to_server_opts_def from_server_opts_def cx_force_aaaa_soa_def
      context_new_def effective_rule_group_def server_opts_default_def Let_def)

theorem refresh_drops_force_aaaa_soa_witness:
  "\<not> cx_force_aaaa_soa (refresh_context (\<lambda>_ _. False) net_eq (\<lambda>_. None) name_root
     (rt_config_default\<lparr>cf_force_aaaa_soa := Some True\<rparr>) server_opts_default ''default''
     (request_of_query 7 query_default))"
proof -
  have h: "so_force_aaaa_soa server_opts_default = None"
    "force_aaaa_soa_in_group (rt_config_default\<lparr>cf_force_aaaa_soa := Some True\<rparr>)
       (unwrap_or (so_rule_group server_opts_default) [])"
    by code_simp+
  show ?thesis by (rule conjunct2 [OF refresh_drops_force_aaaa_soa [OF h]])
qed

end
