(* ===== verification/Cache_Store.thy ===== *)
theory Cache_Store
  imports Middleware
begin

unbundle bit_operations_syntax

text \<open>
  The answer cache (\<open>dns_mw_cache.rs\<close>, \<open>DnsCache\<close>): 64 independent shards, each an LRU map of a
  library. The library is the record of operations \<open>lru_ops\<close>, an argument of every operation of the
  cache; the locale \<open>lru\<close> states what the code relies on, and an executable list of entries in order of
  use interprets it. The hash of a key is the parameter \<open>hash\<close>. Keys compare names without case, so a
  key is used through its canonical form.
\<close>

section \<open>The LRU map of the library\<close>

record ('k, 'v, 'c) lru_ops =
  lru_new :: "nat \<Rightarrow> 'c"
  lru_peek :: "'k \<Rightarrow> 'c \<Rightarrow> 'v option"
  lru_get_mut :: "'k \<Rightarrow> ('v \<Rightarrow> 'v) \<Rightarrow> 'c \<Rightarrow> 'c"
  lru_put :: "'k \<Rightarrow> 'v \<Rightarrow> 'c \<Rightarrow> 'c"
  lru_pop :: "'k \<Rightarrow> 'c \<Rightarrow> 'c"
  lru_items :: "'c \<Rightarrow> ('k \<times> 'v) list"
  lru_iter_mut :: "('k \<Rightarrow> 'v \<Rightarrow> 'v) \<Rightarrow> 'c \<Rightarrow> 'c"
  lru_clear :: "'c \<Rightarrow> 'c"

text \<open>\<open>ok n c\<close> holds of the maps of capacity \<open>n\<close> that the operations produce. \<open>lru_get_mut k f\<close> marks an
  entry as used and writes \<open>f\<close> of it through the reference \<open>get_mut\<close> returns.\<close>

locale lru =
  fixes ops :: "('k, 'v, 'c) lru_ops" and ok :: "nat \<Rightarrow> 'c \<Rightarrow> bool"
  assumes ok_new: "0 < n \<Longrightarrow> ok n (lru_new ops n)"
    and ok_get_mut: "ok n c \<Longrightarrow> ok n (lru_get_mut ops k f c)"
    and ok_put: "ok n c \<Longrightarrow> ok n (lru_put ops k v c)"
    and ok_pop: "ok n c \<Longrightarrow> ok n (lru_pop ops k c)"
    and ok_iter_mut: "ok n c \<Longrightarrow> ok n (lru_iter_mut ops g c)"
    and ok_clear: "ok n c \<Longrightarrow> ok n (lru_clear ops c)"
    and peek_new: "lru_peek ops k (lru_new ops n) = None"
    and peek_get_mut: "ok n c \<Longrightarrow> lru_peek ops k' (lru_get_mut ops k f c) =
          (if k' = k then map_option f (lru_peek ops k c) else lru_peek ops k' c)"
    and peek_put_same: "ok n c \<Longrightarrow> lru_peek ops k (lru_put ops k v c) = Some v"
    and peek_put_other: "ok n c \<Longrightarrow> k' \<noteq> k \<Longrightarrow>
          lru_peek ops k' (lru_put ops k v c) = None \<or> lru_peek ops k' (lru_put ops k v c) = lru_peek ops k' c"
    and peek_pop: "ok n c \<Longrightarrow> lru_peek ops k' (lru_pop ops k c) = (if k' = k then None else lru_peek ops k' c)"
    and peek_iter_mut: "ok n c \<Longrightarrow> lru_peek ops k (lru_iter_mut ops g c) = map_option (g k) (lru_peek ops k c)"
    and peek_clear: "ok n c \<Longrightarrow> lru_peek ops k (lru_clear ops c) = None"
    and items_peek: "ok n c \<Longrightarrow> (k, v) \<in> set (lru_items ops c) \<longleftrightarrow> lru_peek ops k c = Some v"
    and items_bound: "ok n c \<Longrightarrow> length (lru_items ops c) \<le> n"
begin

lemma pops_ok: "ok n c \<Longrightarrow> ok n (foldl (\<lambda>c k. lru_pop ops k c) c ks)"
  by (induction ks arbitrary: c) (auto intro: ok_pop)

lemma pops_peek:
  "ok n c \<Longrightarrow> lru_peek ops k (foldl (\<lambda>c k. lru_pop ops k c) c ks)
     = (if k \<in> set ks then None else lru_peek ops k c)"
  by (induction ks arbitrary: c) (auto simp: peek_pop ok_pop)

lemma peek_put_SomeD:
  "ok n c \<Longrightarrow> lru_peek ops k' (lru_put ops k v c) = Some x \<Longrightarrow>
     (k' = k \<and> x = v) \<or> (k' \<noteq> k \<and> lru_peek ops k' c = Some x)"
  using peek_put_same [of n c k v] peek_put_other [of n c k' k v] by (cases "k' = k") auto

end

section \<open>Lists in order of use\<close>

text \<open>The executable instance: the entries from the most to the least recently used, with the
  capacity.\<close>

type_synonym ('k, 'v) lru_list = "nat \<times> ('k \<times> 'v) list"

definition ll_new :: "nat \<Rightarrow> ('k, 'v) lru_list" where
  "ll_new n = (n, [])"

definition ll_peek :: "'k \<Rightarrow> ('k, 'v) lru_list \<Rightarrow> 'v option" where
  "ll_peek k c = map_of (snd c) k"

definition ll_without :: "'k \<Rightarrow> ('k \<times> 'v) list \<Rightarrow> ('k \<times> 'v) list" where
  "ll_without k xs = List.filter (\<lambda>x. fst x \<noteq> k) xs"

definition ll_get_mut :: "'k \<Rightarrow> ('v \<Rightarrow> 'v) \<Rightarrow> ('k, 'v) lru_list \<Rightarrow> ('k, 'v) lru_list" where
  "ll_get_mut k f c =
     (case map_of (snd c) k of
        None \<Rightarrow> c
      | Some v \<Rightarrow> (fst c, (k, f v) # ll_without k (snd c)))"

definition ll_put :: "'k \<Rightarrow> 'v \<Rightarrow> ('k, 'v) lru_list \<Rightarrow> ('k, 'v) lru_list" where
  "ll_put k v c = (fst c, take (fst c) ((k, v) # ll_without k (snd c)))"

definition ll_pop :: "'k \<Rightarrow> ('k, 'v) lru_list \<Rightarrow> ('k, 'v) lru_list" where
  "ll_pop k c = (fst c, ll_without k (snd c))"

definition ll_iter_mut :: "('k \<Rightarrow> 'v \<Rightarrow> 'v) \<Rightarrow> ('k, 'v) lru_list \<Rightarrow> ('k, 'v) lru_list" where
  "ll_iter_mut g c = (fst c, List.map (\<lambda>(k, v). (k, g k v)) (snd c))"

definition list_lru :: "('k, 'v, ('k, 'v) lru_list) lru_ops" where
  "list_lru = \<lparr>lru_new = ll_new, lru_peek = ll_peek, lru_get_mut = ll_get_mut, lru_put = ll_put,
     lru_pop = ll_pop, lru_items = snd, lru_iter_mut = ll_iter_mut, lru_clear = (\<lambda>c. (fst c, []))\<rparr>"

definition ll_ok :: "nat \<Rightarrow> ('k, 'v) lru_list \<Rightarrow> bool" where
  "ll_ok n c \<longleftrightarrow> 0 < n \<and> fst c = n \<and> length (snd c) \<le> n \<and> distinct (List.map fst (snd c))"

lemma ll_without_props:
  "distinct (List.map fst xs) \<Longrightarrow> distinct (List.map fst (ll_without k xs))"
  "k \<notin> fst ` set (ll_without k xs)"
  "map_of (ll_without k xs) k' = (if k' = k then None else map_of xs k')"
  "length (ll_without k xs) \<le> length xs"
  by (auto simp: ll_without_def distinct_map_filter) (induction xs; auto)+

lemma ll_without_shorter: "map_of xs k = Some v \<Longrightarrow> length (ll_without k xs) < length xs"
  unfolding ll_without_def by (rule length_filter_less [of "(k, v)"]) (auto dest: map_of_SomeD)

lemma map_of_take_distinct:
  "distinct (List.map fst xs) \<Longrightarrow> map_of (take n xs) k = None \<or> map_of (take n xs) k = map_of xs k"
proof -
  assume d: "distinct (List.map fst xs)"
  then have t: "distinct (List.map fst (take n xs))" by (simp add: distinct_take take_map [symmetric])
  show ?thesis
  proof (cases "map_of (take n xs) k")
    case (Some v)
    then have "(k, v) \<in> set xs" using map_of_SomeD in_set_takeD by fast
    then show ?thesis using Some d by simp
  qed simp
qed

lemma map_of_map_key: "map_of (List.map (\<lambda>(k, v). (k, g k v)) xs) k = map_option (g k) (map_of xs k)"
  by (induction xs) auto

interpretation ll: lru list_lru ll_ok
proof unfold_locales
  fix n :: nat and c :: "('a, 'b) lru_list" and k k' :: 'a and v :: 'b
    and f :: "'b \<Rightarrow> 'b" and g :: "'a \<Rightarrow> 'b \<Rightarrow> 'b"
  show "0 < n \<Longrightarrow> ll_ok n (lru_new list_lru n :: ('a, 'b) lru_list)"
    by (simp add: list_lru_def ll_ok_def ll_new_def)
  show "lru_peek list_lru k (lru_new list_lru n) = (None :: 'b option)"
    by (simp add: list_lru_def ll_peek_def ll_new_def)
  assume ok: "ll_ok n c"
  show "ll_ok n (lru_get_mut list_lru k f c)"
    using ok ll_without_shorter [where xs = "snd c" and k = k] ll_without_props(1, 2) [where xs = "snd c" and k = k]
    by (auto simp: list_lru_def ll_ok_def ll_get_mut_def split: option.splits) (meson Suc_leI order_trans)
  show "ll_ok n (lru_put list_lru k v c)"
    using ok ll_without_props(1, 2) [where xs = "snd c" and k = k]
    by (auto simp: list_lru_def ll_ok_def ll_put_def take_map [symmetric] simp del: take_Cons')
  show "ll_ok n (lru_pop list_lru k c)"
    using ok ll_without_props(1, 4) [where xs = "snd c" and k = k]
    by (auto simp: list_lru_def ll_ok_def ll_pop_def intro: order_trans)
  show "ll_ok n (lru_iter_mut list_lru g c)"
    using ok by (simp add: list_lru_def ll_ok_def ll_iter_mut_def comp_def case_prod_beta)
  show "ll_ok n (lru_clear list_lru c)" using ok by (simp add: list_lru_def ll_ok_def)
  show "lru_peek list_lru k' (lru_get_mut list_lru k f c) =
      (if k' = k then map_option f (lru_peek list_lru k c) else lru_peek list_lru k' c)"
    by (auto simp: list_lru_def ll_peek_def ll_get_mut_def ll_without_props(3) split: option.splits)
  show "lru_peek list_lru k (lru_put list_lru k v c) = Some v"
    using ok by (cases n) (auto simp: list_lru_def ll_peek_def ll_put_def ll_ok_def)
  show "k' \<noteq> k \<Longrightarrow> lru_peek list_lru k' (lru_put list_lru k v c) = None \<or>
      lru_peek list_lru k' (lru_put list_lru k v c) = lru_peek list_lru k' c"
    using ok map_of_take_distinct [of "(k, v) # ll_without k (snd c)" n k'] ll_without_props [where xs = "snd c" and k = k]
    by (auto simp: list_lru_def ll_peek_def ll_put_def ll_ok_def simp del: take_Cons')
  show "lru_peek list_lru k' (lru_pop list_lru k c) = (if k' = k then None else lru_peek list_lru k' c)"
    by (simp add: list_lru_def ll_peek_def ll_pop_def ll_without_props(3))
  show "lru_peek list_lru k (lru_iter_mut list_lru g c) = map_option (g k) (lru_peek list_lru k c)"
    by (simp add: list_lru_def ll_peek_def ll_iter_mut_def map_of_map_key)
  show "lru_peek list_lru k (lru_clear list_lru c) = None" by (simp add: list_lru_def ll_peek_def)
  show "((k, v) \<in> set (lru_items list_lru c)) = (lru_peek list_lru k c = Some v)"
    using ok by (simp add: list_lru_def ll_peek_def ll_ok_def)
  show "length (lru_items list_lru c) \<le> n" using ok by (simp add: list_lru_def ll_ok_def)
qed

section \<open>Keys and entries\<close>

record cache_key =
  ck_query :: query
  ck_group :: string
  ck_ecs :: "string option"
  ck_opts :: answer_opts

text \<open>The derived equality of keys compares the name of the query without case.\<close>

definition ck_canon :: "cache_key \<Rightarrow> cache_key" where
  "ck_canon k = k\<lparr>ck_query := (ck_query k)\<lparr>q_name := to_lowercase (q_name (ck_query k))\<rparr>\<rparr>"

record cache_stats =
  cs_hits :: usize
  cs_last_access :: int

definition stats_new :: "int \<Rightarrow> cache_stats" where
  "stats_new wall = \<lparr>cs_hits = 0, cs_last_access = wall\<rparr>"

definition stats_hit :: "int \<Rightarrow> cache_stats \<Rightarrow> cache_stats" where
  "stats_hit wall s = \<lparr>cs_hits = cs_hits s + 1, cs_last_access = wall\<rparr>"

record cache_entry =
  ce_data :: dns_response
  ce_valid_until :: int
  ce_is_in_prefetching :: bool
  ce_stats :: cache_stats
  ce_ecs :: "string option"
  ce_opts :: answer_opts

definition entry_new :: "int \<Rightarrow> dns_response \<Rightarrow> int \<Rightarrow> string option \<Rightarrow> answer_opts \<Rightarrow> cache_entry" where
  "entry_new wall d until ecs opts =
     \<lparr>ce_data = d, ce_valid_until = until, ce_is_in_prefetching = False, ce_stats = stats_new wall,
      ce_ecs = ecs, ce_opts = opts\<rparr>"

definition is_current :: "cache_entry \<Rightarrow> int \<Rightarrow> bool" where
  "is_current e now \<longleftrightarrow> now \<le> ce_valid_until e"

definition entry_ttl :: "cache_entry \<Rightarrow> int \<Rightarrow> int" where
  "entry_ttl e now = max 0 (ce_valid_until e - now)"

section \<open>The cache\<close>

record 'c dns_cache =
  dc_shards :: "'c list"
  dc_serve_expired :: bool
  dc_expired_ttl :: u64
  dc_expired_reply_ttl :: u64
  dc_expired_prefetch_time :: u64
  dc_cache_size :: nat
  dc_actual_cache_size :: nat

definition SHARD_COUNT :: nat where
  "SHARD_COUNT = 64"

definition div_ceil :: "nat \<Rightarrow> nat \<Rightarrow> nat" where
  "div_ceil a b = (if a mod b = 0 then a div b else a div b + 1)"

definition effective_cache_size :: "nat \<Rightarrow> nat" where
  "effective_cache_size configured = max (div_ceil configured SHARD_COUNT) 1 * SHARD_COUNT"

definition cache_new ::
    "(cache_key, cache_entry, 'c) lru_ops \<Rightarrow> nat \<Rightarrow> bool \<Rightarrow> u64 \<Rightarrow> u64 \<Rightarrow> u64 \<Rightarrow> 'c dns_cache" where
  "cache_new ops configured serve_expired expired_ttl expired_reply_ttl expired_prefetch_time =
     (let actual_total = effective_cache_size configured;
          shard_size = actual_total div SHARD_COUNT
      in \<lparr>dc_shards = replicate SHARD_COUNT (lru_new ops shard_size), dc_serve_expired = serve_expired,
          dc_expired_ttl = expired_ttl, dc_expired_reply_ttl = expired_reply_ttl,
          dc_expired_prefetch_time = expired_prefetch_time, dc_cache_size = configured,
          dc_actual_cache_size = actual_total\<rparr>)"

definition reload_config :: "rt_config \<Rightarrow> 'c dns_cache \<Rightarrow> 'c dns_cache" where
  "reload_config cfg dc =
     dc\<lparr>dc_serve_expired := g_serve_expired cfg, dc_expired_ttl := g_serve_expired_ttl cfg,
        dc_expired_reply_ttl := g_serve_expired_reply_ttl cfg,
        dc_expired_prefetch_time := g_serve_expired_prefetch_time cfg,
        dc_cache_size := unat (g_cache_size cfg)\<rparr>"

definition shard_index :: "(cache_key \<Rightarrow> u64) \<Rightarrow> cache_key \<Rightarrow> nat" where
  "shard_index hash k = unat (hash (ck_canon k) AND 63)"

definition get_shard :: "(cache_key \<Rightarrow> u64) \<Rightarrow> cache_key \<Rightarrow> 'c dns_cache \<Rightarrow> 'c" where
  "get_shard hash k dc = dc_shards dc ! shard_index hash k"

definition upd_shard :: "(cache_key \<Rightarrow> u64) \<Rightarrow> cache_key \<Rightarrow> ('c \<Rightarrow> 'c) \<Rightarrow> 'c dns_cache \<Rightarrow> 'c dns_cache" where
  "upd_shard hash k f dc =
     dc\<lparr>dc_shards := (dc_shards dc)[shard_index hash k := f (get_shard hash k dc)]\<rparr>"

definition dc_peek ::
    "(cache_key, cache_entry, 'c) lru_ops \<Rightarrow> (cache_key \<Rightarrow> u64) \<Rightarrow> cache_key \<Rightarrow> 'c dns_cache \<Rightarrow> cache_entry option" where
  "dc_peek ops hash k dc = lru_peek ops (ck_canon k) (get_shard hash k dc)"

definition dc_modify ::
    "(cache_key, cache_entry, 'c) lru_ops \<Rightarrow> (cache_key \<Rightarrow> u64) \<Rightarrow> cache_key \<Rightarrow> (cache_entry \<Rightarrow> cache_entry) \<Rightarrow>
     'c dns_cache \<Rightarrow> 'c dns_cache" where
  "dc_modify ops hash k f dc = upd_shard hash k (lru_get_mut ops (ck_canon k) f) dc"

definition cache_clear :: "(cache_key, cache_entry, 'c) lru_ops \<Rightarrow> 'c dns_cache \<Rightarrow> 'c dns_cache" where
  "cache_clear ops dc = dc\<lparr>dc_shards := List.map (lru_clear ops) (dc_shards dc)\<rparr>"

definition mark_prefetching ::
    "(cache_key, cache_entry, 'c) lru_ops \<Rightarrow> (cache_key \<Rightarrow> u64) \<Rightarrow> cache_key \<Rightarrow> 'c dns_cache \<Rightarrow> bool \<times> 'c dns_cache" where
  "mark_prefetching ops hash k dc =
     (let dc' = dc_modify ops hash k
                  (\<lambda>e. if ce_is_in_prefetching e then e else e\<lparr>ce_is_in_prefetching := True\<rparr>) dc
      in case dc_peek ops hash k dc of
           Some e \<Rightarrow> (\<not> ce_is_in_prefetching e, dc')
         | None \<Rightarrow> (True, dc'))"

definition set_valid_until_for_prefetch ::
    "(cache_key, cache_entry, 'c) lru_ops \<Rightarrow> (cache_key \<Rightarrow> u64) \<Rightarrow> cache_key \<Rightarrow> int \<Rightarrow> 'c dns_cache \<Rightarrow> 'c dns_cache" where
  "set_valid_until_for_prefetch ops hash k new_until dc =
     dc_modify ops hash k
       (\<lambda>e. if ce_valid_until e < new_until then e\<lparr>ce_valid_until := new_until\<rparr> else e) dc"

text \<open>Dropping the guard of a refresh.\<close>

definition drop_prefetch_guard ::
    "(cache_key, cache_entry, 'c) lru_ops \<Rightarrow> (cache_key \<Rightarrow> u64) \<Rightarrow> cache_key \<Rightarrow> 'c dns_cache \<Rightarrow> 'c dns_cache" where
  "drop_prefetch_guard ops hash k dc = dc_modify ops hash k (\<lambda>e. e\<lparr>ce_is_in_prefetching := False\<rparr>) dc"

definition grace_period :: "'c dns_cache \<Rightarrow> int" where
  "grace_period dc = (if dc_serve_expired dc then secs (unat (dc_expired_ttl dc)) else 0)"

definition dead_keys :: "int \<Rightarrow> int \<Rightarrow> (cache_key \<times> cache_entry) list \<Rightarrow> cache_key list" where
  "dead_keys grace now items =
     List.map fst (List.filter (\<lambda>(k, e). now > ce_valid_until e + grace) items)"

definition purge_dead_records ::
    "(cache_key, cache_entry, 'c) lru_ops \<Rightarrow> int \<Rightarrow> 'c dns_cache \<Rightarrow> nat \<times> 'c dns_cache" where
  "purge_dead_records ops now dc =
     (let grace = grace_period dc in
      (sum_list (List.map (\<lambda>s. length (dead_keys grace now (lru_items ops s))) (dc_shards dc)),
       dc\<lparr>dc_shards := List.map (\<lambda>s. foldl (\<lambda>c k. lru_pop ops k c) s (dead_keys grace now (lru_items ops s)))
                         (dc_shards dc)\<rparr>))"

section \<open>Storing an answer\<close>

definition find_soa :: "rr list \<Rightarrow> rr option" where
  "find_soa xs = List.find (\<lambda>x. rr_type x = RT_SOA) xs"

definition cache_min_ttl :: "dns_response \<Rightarrow> u32" where
  "cache_min_ttl r =
     (let ttl =
        (if r_answers r \<noteq> [] then
           min MAX_TTL (unwrap_or (min_list_opt (List.map rr_ttl (r_answers r))) 60)
         else
           (case or_else (find_soa (m_authorities (r_message r))) (find_soa (r_answers r)) of
              Some soa \<Rightarrow>
                min MAX_TTL (case rr_data soa of
                               RD_SOA d \<Rightarrow> min (rr_ttl soa) (soa_minimum d)
                             | _ \<Rightarrow> rr_ttl soa)
            | None \<Rightarrow> 5))
      in min ttl MAX_TTL)"

definition cached_response :: "cache_key \<Rightarrow> dns_response \<Rightarrow> int \<Rightarrow> dns_response" where
  "cached_response k r now =
     r_set_new_ttl (cache_min_ttl r)
       (r\<lparr>r_name_server_group := Some (ck_group k),
          r_valid_until := now + secs (unat (cache_min_ttl r))\<rparr>)"

definition refreshed_entry :: "dns_response \<Rightarrow> int \<Rightarrow> bool \<Rightarrow> cache_entry \<Rightarrow> cache_entry" where
  "refreshed_entry d until from_prefetch e =
     e\<lparr>ce_data := d, ce_valid_until := until, ce_is_in_prefetching := False,
       ce_stats := (if from_prefetch then (ce_stats e)\<lparr>cs_hits := 1\<rparr> else ce_stats e)\<rparr>"

definition insert_full_response ::
    "(cache_key, cache_entry, 'c) lru_ops \<Rightarrow> (cache_key \<Rightarrow> u64) \<Rightarrow> int \<Rightarrow> cache_key \<Rightarrow> dns_response \<Rightarrow> int \<Rightarrow> bool \<Rightarrow>
     'c dns_cache \<Rightarrow> dns_response \<times> 'c dns_cache" where
  "insert_full_response ops hash wall k r now from_prefetch dc =
     (let resp = cached_response k r now;
          until = now + secs (unat (cache_min_ttl r))
      in (resp,
          case dc_peek ops hash k dc of
            Some e \<Rightarrow> dc_modify ops hash k (refreshed_entry resp until from_prefetch) dc
          | None \<Rightarrow>
              upd_shard hash k
                (lru_put ops (ck_canon k) (entry_new wall resp until (ck_ecs k) (ck_opts k)))
                (dc_modify ops hash k id dc)))"

section \<open>Reading an answer\<close>

datatype cache_status = CS_Valid | CS_Expired

definition ceil_secs :: "int \<Rightarrow> u32" where
  "ceil_secs d =
     (let s = (word_of_int (d div 1000000000) :: u32)
      in if d mod 1000000000 > 0 then s + 1 else s)"

definition cache_get ::
    "(cache_key, cache_entry, 'c) lru_ops \<Rightarrow> (cache_key \<Rightarrow> u64) \<Rightarrow> int \<Rightarrow> cache_key \<Rightarrow> int \<Rightarrow> 'c dns_cache \<Rightarrow>
     (dns_response \<times> cache_status) option \<times> 'c dns_cache" where
  "cache_get ops hash wall k now dc =
     (map_option
        (\<lambda>e. if is_current e now
             then (r_set_new_ttl (ceil_secs (entry_ttl e now)) (ce_data e), CS_Valid)
             else (ce_data e, CS_Expired))
        (dc_peek ops hash k dc),
      dc_modify ops hash k (\<lambda>e. e\<lparr>ce_stats := stats_hit wall (ce_stats e)\<rparr>) dc)"

section \<open>Choosing entries to refresh\<close>

datatype prefetch_verdict = PV_Fresh int | PV_Skip | PV_Select

definition prefetch_verdict_of ::
    "'c dns_cache \<Rightarrow> int \<Rightarrow> nat \<Rightarrow> cache_key \<Rightarrow> cache_entry \<Rightarrow> prefetch_verdict" where
  "prefetch_verdict_of dc now ahead_secs k e =
     (let is_frequent = (2 \<le> cs_hits (ce_stats e)) in
      if ce_is_in_prefetching e then PV_Skip
      else if \<not> is_ip_addr (q_type (ck_query k)) then PV_Skip
      else if dc_serve_expired dc then
        (if is_current e now then PV_Fresh (entry_ttl e now)
         else if 0 < dc_expired_prefetch_time dc then
           (if max 0 (now - ce_valid_until e) div 1000000000 < int (unat (dc_expired_prefetch_time dc)) then PV_Skip
            else if \<not> is_frequent then PV_Skip else PV_Select)
         else if \<not> is_frequent then PV_Skip else PV_Select)
      else
        (if is_current e (now + secs ahead_secs) then PV_Fresh (entry_ttl e now)
         else if \<not> is_frequent then PV_Skip else PV_Select))"

definition arranged :: "cache_entry \<Rightarrow> cache_entry" where
  "arranged e =
     e\<lparr>ce_is_in_prefetching := True, ce_stats := (ce_stats e)\<lparr>cs_hits := sat_sub (cs_hits (ce_stats e)) 1\<rparr>\<rparr>"

definition insert_hottest :: "(cache_key \<times> usize) list \<Rightarrow> cache_key \<times> usize \<Rightarrow> (cache_key \<times> usize) list" where
  "insert_hottest acc x = AList.update (fst x) (max (unwrap_or (map_of acc (fst x)) 0) (snd x)) acc"

text \<open>The candidates come out of a \<open>HashMap\<close>, whose order is the parameter \<open>order\<close>; the sort by hits
  is stable.\<close>

definition get_expired ::
    "(cache_key, cache_entry, 'c) lru_ops \<Rightarrow>
     ((cache_key \<times> usize) list \<Rightarrow> (cache_key \<times> usize) list) \<Rightarrow> int \<Rightarrow> nat option \<Rightarrow> 'c dns_cache \<Rightarrow>
     (cache_key list \<times> int) \<times> 'c dns_cache" where
  "get_expired ops order now seconds_ahead dc =
     (let ahead = unwrap_or seconds_ahead 5;
          items = concat (List.map (lru_items ops) (dc_shards dc));
          verdict = (\<lambda>(k, e). prefetch_verdict_of dc now ahead k e);
          most_recent = foldl (\<lambda>m x. case verdict x of PV_Fresh t \<Rightarrow> min m t | _ \<Rightarrow> m) (secs (unat MAX_TTL)) items;
          selected = List.filter (\<lambda>x. verdict x = PV_Select) items;
          to_prefetch = foldl insert_hottest [] (List.map (\<lambda>(k, e). (k, cs_hits (ce_stats e))) selected);
          sorted = sort_key (\<lambda>x. - int (unat (snd x))) (order to_prefetch)
      in ((List.map fst sorted, most_recent),
          dc\<lparr>dc_shards := List.map
               (lru_iter_mut ops (\<lambda>k e. if prefetch_verdict_of dc now ahead k e = PV_Select then arranged e else e))
               (dc_shards dc)\<rparr>))"

section \<open>The cache over any LRU map\<close>

lemma shard_index_less: "shard_index hash k < 64"
proof -
  have "unat (hash (ck_canon k) AND 63) \<le> unat (63 :: u64)"
    by (intro word_le_nat_alt [THEN iffD1] word_and_le1)
  then show ?thesis by (simp add: shard_index_def)
qed

lemma ck_canon_idem [simp]: "ck_canon (ck_canon k) = ck_canon k"
  by (simp add: ck_canon_def)

lemma shard_index_canon: "ck_canon k = ck_canon k' \<Longrightarrow> shard_index hash k = shard_index hash k'"
  by (simp add: shard_index_def)

definition cache_entries :: "(cache_key, cache_entry, 'c) lru_ops \<Rightarrow> 'c dns_cache \<Rightarrow> nat" where
  "cache_entries ops dc = sum_list (List.map (\<lambda>s. length (lru_items ops s)) (dc_shards dc))"

definition dc_ok :: "(nat \<Rightarrow> 'c \<Rightarrow> bool) \<Rightarrow> 'c dns_cache \<Rightarrow> bool" where
  "dc_ok ok dc \<longleftrightarrow> length (dc_shards dc) = 64 \<and> (\<forall>s \<in> set (dc_shards dc). ok (dc_actual_cache_size dc div 64) s) \<and>
     64 dvd dc_actual_cache_size dc"

lemma effective_size:
  "configured \<le> effective_cache_size configured \<and> 64 dvd effective_cache_size configured \<and>
   0 < effective_cache_size configured \<and> (0 < configured \<longrightarrow> effective_cache_size configured < configured + 64)"
proof -
  obtain q r where c: "configured = q * 64 + r" "r < 64"
    using div_mult_mod_eq [of configured 64] mod_less_divisor [of 64 configured] by (metis zero_less_numeral)
  then have "div_ceil configured SHARD_COUNT = (if r = 0 then q else q + 1)"
    by (simp add: div_ceil_def SHARD_COUNT_def)
  then have "effective_cache_size configured = max (if r = 0 then q else q + 1) 1 * 64"
    by (simp add: effective_cache_size_def SHARD_COUNT_def)
  then show ?thesis using c by (cases "r = 0"; cases "q = 0") auto
qed

locale answer_cache = lru ops ok
  for ops :: "(cache_key, cache_entry, 'c) lru_ops" and ok :: "nat \<Rightarrow> 'c \<Rightarrow> bool" +
  fixes hash :: "cache_key \<Rightarrow> u64"
begin

lemma shard_ok: "dc_ok ok dc \<Longrightarrow> ok (dc_actual_cache_size dc div 64) (get_shard hash k dc)"
  using shard_index_less [of hash k] by (auto simp: dc_ok_def get_shard_def)

lemma get_upd_shard:
  "dc_ok ok dc \<Longrightarrow> get_shard hash k' (upd_shard hash k f dc) =
     (if shard_index hash k' = shard_index hash k then f (get_shard hash k dc) else get_shard hash k' dc)"
  using shard_index_less [of hash k] by (auto simp: dc_ok_def get_shard_def upd_shard_def)

lemma upd_shard_ok:
  "dc_ok ok dc \<Longrightarrow> (\<And>c. ok (dc_actual_cache_size dc div 64) c \<Longrightarrow> ok (dc_actual_cache_size dc div 64) (f c)) \<Longrightarrow>
     dc_ok ok (upd_shard hash k f dc)"
proof -
  assume ok: "dc_ok ok dc"
    and f: "\<And>c. ok (dc_actual_cache_size dc div 64) c \<Longrightarrow> ok (dc_actual_cache_size dc div 64) (f c)"
  have "set ((dc_shards dc)[shard_index hash k := f (get_shard hash k dc)])
      \<subseteq> insert (f (get_shard hash k dc)) (set (dc_shards dc))"
    by (rule set_update_subset_insert)
  then show ?thesis using ok f [OF shard_ok [OF ok, of k]] by (auto simp: dc_ok_def upd_shard_def)
qed

lemma modify_ok: "dc_ok ok dc \<Longrightarrow> dc_ok ok (dc_modify ops hash k f dc)"
  unfolding dc_modify_def by (rule upd_shard_ok) (auto intro: ok_get_mut)

lemma peek_modify:
  "dc_ok ok dc \<Longrightarrow> dc_peek ops hash k' (dc_modify ops hash k f dc) =
     (if ck_canon k' = ck_canon k then map_option f (dc_peek ops hash k dc) else dc_peek ops hash k' dc)"
  using shard_ok [of dc k] shard_index_canon [of k' k hash]
  by (auto simp: dc_peek_def dc_modify_def get_upd_shard peek_get_mut) (auto simp: get_shard_def)

lemma peek_canon: "ck_canon k = ck_canon k' \<Longrightarrow> dc_peek ops hash k dc = dc_peek ops hash k' dc"
  using shard_index_canon [of k k' hash] by (simp add: dc_peek_def get_shard_def)

lemma insert_ok: "dc_ok ok dc \<Longrightarrow> dc_ok ok (snd (insert_full_response ops hash wall k r now bg dc))"
  by (auto simp: insert_full_response_def Let_def modify_ok ok_put
      intro!: upd_shard_ok split: option.split)

lemma peek_insert_same:
  "dc_ok ok dc \<Longrightarrow> ck_canon k' = ck_canon k \<Longrightarrow>
     \<exists>e. dc_peek ops hash k' (snd (insert_full_response ops hash wall k r now bg dc)) = Some e \<and>
       ce_data e = cached_response k r now \<and> ce_valid_until e = now + secs (unat (cache_min_ttl r)) \<and>
       \<not> ce_is_in_prefetching e \<and>
       cs_hits (ce_stats e) =
         (case dc_peek ops hash k dc of None \<Rightarrow> 0 | Some e0 \<Rightarrow> if bg then 1 else cs_hits (ce_stats e0))"
  using shard_ok [OF modify_ok [of dc k id], of k]
  by (auto simp: insert_full_response_def Let_def peek_modify refreshed_entry_def peek_canon [of k' k]
      split: option.split)
    (auto simp: dc_peek_def get_upd_shard modify_ok peek_put_same entry_new_def stats_new_def)

lemma peek_insert_other:
  "dc_ok ok dc \<Longrightarrow> ck_canon k' \<noteq> ck_canon k \<Longrightarrow>
     dc_peek ops hash k' (snd (insert_full_response ops hash wall k r now bg dc)) \<in> {None, dc_peek ops hash k' dc}"
proof -
  assume ok: "dc_ok ok dc" and ne: "ck_canon k' \<noteq> ck_canon k"
  define d1 where "d1 = dc_modify ops hash k id dc"
  have d1: "dc_ok ok d1" "dc_peek ops hash k' d1 = dc_peek ops hash k' dc"
    using ok ne by (simp_all add: d1_def modify_ok peek_modify)
  have "dc_peek ops hash k' (upd_shard hash k (lru_put ops (ck_canon k) v) d1) \<in> {None, dc_peek ops hash k' d1}" for v
    using peek_put_other [OF shard_ok [OF d1(1), of k] ne, of v] d1(1)
    by (cases "shard_index hash k' = shard_index hash k")
      (auto simp: dc_peek_def get_upd_shard, auto simp: get_shard_def)
  then show ?thesis
    using ok ne d1 by (simp add: insert_full_response_def Let_def peek_modify d1_def split: option.split)
qed

lemma map_shards_ok:
  "dc_ok ok dc \<Longrightarrow> (\<And>c. ok (dc_actual_cache_size dc div 64) c \<Longrightarrow> ok (dc_actual_cache_size dc div 64) (f c)) \<Longrightarrow>
     dc_ok ok (dc\<lparr>dc_shards := List.map f (dc_shards dc)\<rparr>)"
  by (auto simp: dc_ok_def)

lemma get_map_shards:
  "dc_ok ok dc \<Longrightarrow> get_shard hash k (dc\<lparr>dc_shards := List.map f (dc_shards dc)\<rparr>) = f (get_shard hash k dc)"
  using shard_index_less [of hash k] by (simp add: dc_ok_def get_shard_def)

lemma purge_ok: "dc_ok ok dc \<Longrightarrow> dc_ok ok (snd (purge_dead_records ops now dc))"
  by (auto simp: purge_dead_records_def Let_def intro!: map_shards_ok pops_ok)

lemma clear_ok: "dc_ok ok dc \<Longrightarrow> dc_ok ok (cache_clear ops dc)"
  unfolding cache_clear_def by (rule map_shards_ok) (auto intro: ok_clear)

lemma expired_ok: "dc_ok ok dc \<Longrightarrow> dc_ok ok (snd (get_expired ops order now ahead dc))"
  by (auto simp: get_expired_def Let_def intro!: map_shards_ok ok_iter_mut)

lemma peek_purge:
  assumes "dc_ok ok dc"
  shows "dc_peek ops hash k (snd (purge_dead_records ops now dc)) =
     (case dc_peek ops hash k dc of
        None \<Rightarrow> None
      | Some e \<Rightarrow> if now > ce_valid_until e + grace_period dc then None else Some e)"
proof -
  note ok = shard_ok [OF assms, of k]
  have "ck_canon k \<in> set (dead_keys g now (lru_items ops (get_shard hash k dc))) \<longleftrightarrow>
      (\<exists>e. lru_peek ops (ck_canon k) (get_shard hash k dc) = Some e \<and> now > ce_valid_until e + g)" for g
    using items_peek [OF ok] by (force simp: dead_keys_def)
  then show ?thesis
    using get_map_shards [OF assms, of k] pops_peek [OF ok]
    by (auto simp: purge_dead_records_def Let_def dc_peek_def split: option.split)
qed

lemma peek_expired:
  assumes "dc_ok ok dc"
  shows "dc_peek ops hash k (snd (get_expired ops order now ahead dc)) =
     map_option (\<lambda>e. if prefetch_verdict_of dc now (unwrap_or ahead 5) (ck_canon k) e = PV_Select then arranged e else e)
       (dc_peek ops hash k dc)"
  using get_map_shards [OF assms, of k] peek_iter_mut [OF shard_ok [OF assms, of k]]
  by (simp add: get_expired_def Let_def dc_peek_def)

lemma entries_bound: "dc_ok ok dc \<Longrightarrow> cache_entries ops dc \<le> dc_actual_cache_size dc"
proof -
  assume ok: "dc_ok ok dc"
  have "sum_list (List.map (\<lambda>s. length (lru_items ops s)) xs) \<le> length xs * (dc_actual_cache_size dc div 64)"
    if "\<forall>s \<in> set xs. ok (dc_actual_cache_size dc div 64) s" for xs
    using that by (induction xs) (auto simp: items_bound intro: add_mono)
  from this [of "dc_shards dc"] show ?thesis using ok by (auto simp: dc_ok_def cache_entries_def elim!: dvdE)
qed

lemma new_ok:
  "dc_ok ok (cache_new ops n se ttl rttl pt) \<and>
   dc_actual_cache_size (cache_new ops n se ttl rttl pt) = effective_cache_size n"
proof -
  have "0 < effective_cache_size n div 64" using effective_size [of n] by (auto elim!: dvdE)
  then show ?thesis
    using effective_size [of n] by (auto simp: cache_new_def dc_ok_def SHARD_COUNT_def Let_def intro: ok_new)
qed

lemma modify_size [simp]:
  "dc_actual_cache_size (dc_modify ops hash k f dc) = dc_actual_cache_size dc"
  by (simp add: dc_modify_def upd_shard_def)

lemma insert_size [simp]:
  "dc_actual_cache_size (snd (insert_full_response ops hash wall k r now bg dc)) = dc_actual_cache_size dc"
  by (simp add: insert_full_response_def upd_shard_def Let_def split: option.split)

end

section \<open>Runs of the cache\<close>

datatype cache_op =
    OpInsert int cache_key dns_response int bool
  | OpGet int cache_key int
  | OpMark cache_key
  | OpUntil cache_key int
  | OpDropGuard cache_key
  | OpPurge int
  | OpExpired int "nat option"
  | OpClear

fun run_cache_op ::
    "(cache_key, cache_entry, 'c) lru_ops \<Rightarrow> (cache_key \<Rightarrow> u64) \<Rightarrow> 'c dns_cache \<Rightarrow> cache_op \<Rightarrow> 'c dns_cache" where
  "run_cache_op ops hash dc (OpInsert wall k r now bg) = snd (insert_full_response ops hash wall k r now bg dc)"
| "run_cache_op ops hash dc (OpGet wall k now) = snd (cache_get ops hash wall k now dc)"
| "run_cache_op ops hash dc (OpMark k) = snd (mark_prefetching ops hash k dc)"
| "run_cache_op ops hash dc (OpUntil k t) = set_valid_until_for_prefetch ops hash k t dc"
| "run_cache_op ops hash dc (OpDropGuard k) = drop_prefetch_guard ops hash k dc"
| "run_cache_op ops hash dc (OpPurge now) = snd (purge_dead_records ops now dc)"
| "run_cache_op ops hash dc (OpExpired now ahead) = snd (get_expired ops id now ahead dc)"
| "run_cache_op ops hash dc OpClear = cache_clear ops dc"

context answer_cache
begin

lemma run_op_ok:
  "dc_ok ok dc \<Longrightarrow> dc_ok ok (run_cache_op ops hash dc c) \<and>
     dc_actual_cache_size (run_cache_op ops hash dc c) = dc_actual_cache_size dc"
  by (cases c)
    (auto simp: cache_get_def mark_prefetching_def set_valid_until_for_prefetch_def drop_prefetch_guard_def Let_def
      purge_dead_records_def get_expired_def cache_clear_def
      intro: modify_ok insert_ok purge_ok [unfolded purge_dead_records_def Let_def snd_conv]
        expired_ok [where order = id, unfolded get_expired_def Let_def snd_conv] clear_ok [unfolded cache_clear_def]
      split: option.split)

lemma run_ops_ok:
  "dc_ok ok dc \<Longrightarrow> dc_ok ok (foldl (run_cache_op ops hash) dc cs) \<and>
     dc_actual_cache_size (foldl (run_cache_op ops hash) dc cs) = dc_actual_cache_size dc"
  by (induction cs arbitrary: dc) (auto simp: run_op_ok)

lemma run_new_ok:
  "dc_ok ok (foldl (run_cache_op ops hash) (cache_new ops n se ttl rttl pt) cs) \<and>
   dc_actual_cache_size (foldl (run_cache_op ops hash) (cache_new ops n se ttl rttl pt) cs) = effective_cache_size n"
  using run_ops_ok new_ok by metis

end

interpretation lc: answer_cache list_lru ll_ok hash for hash
  by unfold_locales

section \<open>Time to live\<close>

lemma ceil_secs_bounds:
  assumes "0 \<le> d" "d \<le> secs 86400"
  shows "d \<le> secs (unat (ceil_secs d)) \<and> secs (unat (ceil_secs d)) < d + secs 1 \<and> unat (ceil_secs d) \<le> 86400"
proof -
  define q r where "q = d div 1000000000" and "r = d mod 1000000000"
  have d: "d = q * 1000000000 + r" "0 \<le> r" "r < 1000000000" by (simp_all add: q_def r_def)
  have q: "0 \<le> q" "q \<le> 86400" using assms by (auto simp: q_def secs_def pos_imp_zdiv_nonneg_iff zdiv_mono1)
  have qr: "r > 0 \<Longrightarrow> q < 86400" using assms(2) d by (auto simp: secs_def)
  have u: "unat (word_of_int q :: u32) = nat q"
    using q by (simp add: unat_eq_nat_uint uint_word_of_int)
  have u1: "unat (word_of_int q + 1 :: u32) = nat q + 1" if "r > 0"
  proof -
    have "word_of_int q + 1 = (word_of_int (q + 1) :: u32)" by simp
    then show ?thesis using q qr that by (simp add: unat_eq_nat_uint uint_word_of_int nat_add_distrib del: of_int_add)
  qed
  show ?thesis
    using u u1 d q qr unfolding ceil_secs_def Let_def q_def [symmetric] r_def [symmetric]
    by (cases "r > 0") (auto simp: secs_def)
qed

lemma cache_min_ttl_le: "unat (cache_min_ttl r) \<le> 86400"
proof -
  have "cache_min_ttl r \<le> MAX_TTL" by (simp add: cache_min_ttl_def Let_def)
  then show ?thesis by (simp add: word_le_nat_alt MAX_TTL_def)
qed

lemma r_answers_ttl: "r_answers (r_set_new_ttl t r) = List.map (rr_set_ttl t) (r_answers r)"
  by (simp add: r_set_new_ttl_def map_records_def r_answers_def Let_def)

lemma all_records_set_ttl: "x \<in> set (all_records (r_set_new_ttl t r)) \<Longrightarrow> rr_ttl x = t"
  by (auto simp: r_set_new_ttl_def)

lemma set_new_ttl_twice: "r_set_new_ttl t (r_set_new_ttl u r) = r_set_new_ttl t r"
  by (simp add: r_set_new_ttl_def map_records_def rr_set_ttl_def Let_def)

lemma cache_min_ttl_answers: "x \<in> set (r_answers r) \<Longrightarrow> cache_min_ttl r \<le> rr_ttl x"
  using min_list_opt_Some [of "List.map rr_ttl (r_answers r)"]
  by (cases "min_list_opt (List.map rr_ttl (r_answers r))")
    (auto simp: cache_min_ttl_def Let_def min_le_iff_disj)

section \<open>Properties\<close>

text \<open>C11: whatever sequence of operations the cache goes through, it holds at most the effective number
  of entries, which is the configured number rounded up to a multiple of 64.\<close>

theorem cache_stays_bounded:
  assumes "answer_cache ops ok"
  shows "cache_entries ops (foldl (run_cache_op ops hash) (cache_new ops n se ttl rttl pt) cs) \<le> effective_cache_size n \<and>
    n \<le> effective_cache_size n \<and> 64 dvd effective_cache_size n \<and>
    (0 < n \<longrightarrow> effective_cache_size n < n + 64)"
proof -
  have "dc_ok ok (foldl (run_cache_op ops hash) (cache_new ops n se ttl rttl pt) cs)"
    "dc_actual_cache_size (foldl (run_cache_op ops hash) (cache_new ops n se ttl rttl pt) cs) = effective_cache_size n"
    using answer_cache.run_new_ok [OF assms] by blast+
  then show ?thesis using answer_cache.entries_bound [OF assms] effective_size [of n] by metis
qed

definition demo_key :: cache_key where
  "demo_key = \<lparr>ck_query = query_query (fqdn [''Example'', ''com'']) RT_A, ck_group = ''default'', ck_ecs = None,
     ck_opts = from_server_opts server_opts_default\<rparr>"

definition demo_answer :: "u32 \<Rightarrow> dns_response" where
  "demo_answer ttl = new_with_deadline 7 (ck_query demo_key) [from_rdata (fqdn [''example'', ''com'']) ttl (RD_A 1)] 0"

theorem cache_stays_bounded_witness:
  "cache_entries list_lru (foldl (run_cache_op list_lru (\<lambda>_. 5)) (cache_new list_lru 1000 True 86400 5 21600)
      [OpInsert 0 demo_key (demo_answer 60) 0 False, OpPurge 100]) \<le> 1024"
  using conjunct1 [OF cache_stays_bounded [OF lc.answer_cache_axioms, of "\<lambda>_. 5" 1000 True 86400 5 21600
      "[OpInsert 0 demo_key (demo_answer 60) 0 False, OpPurge 100]"]]
  by (simp add: effective_cache_size_def SHARD_COUNT_def div_ceil_def)

text \<open>An answer that was stored is found under every spelling of its name until its lifetime ends,
  and is served with one TTL on all records: the time that is left, rounded up to the next second. So
  no client keeps it a second longer than it is valid, and the TTL never exceeds that of any answer
  record of the stored response. After its lifetime it is found as expired with the TTL it was stored
  with.\<close>

theorem read_after_write:
  assumes "answer_cache ops ok" "dc_ok ok dc" "ck_canon k' = ck_canon k" "now \<le> t"
  shows "let until = now + secs (unat (cache_min_ttl r));
             got = fst (cache_get ops hash wall' k' t (snd (insert_full_response ops hash wall k r now bg dc))) in
    if t \<le> until then
      \<exists>ttl. got = Some (r_set_new_ttl ttl (cached_response k r now), CS_Valid) \<and>
        until \<le> t + secs (unat ttl) \<and> t + secs (unat ttl) < until + secs 1 \<and>
        ttl \<le> cache_min_ttl r \<and> (\<forall>x \<in> set (r_answers r). ttl \<le> rr_ttl x)
    else got = Some (cached_response k r now, CS_Expired)"
proof -
  define until where "until = now + secs (unat (cache_min_ttl r))"
  obtain e where e: "dc_peek ops hash k' (snd (insert_full_response ops hash wall k r now bg dc)) = Some e"
    "ce_data e = cached_response k r now" "ce_valid_until e = until"
    using answer_cache.peek_insert_same [OF assms(1-3), of hash wall r now bg] by (auto simp: until_def)
  show ?thesis
  proof (cases "t \<le> until")
    case False
    then show ?thesis using e by (simp add: cache_get_def is_current_def until_def Let_def)
  next
    case True
    define ttl where "ttl = ceil_secs (until - t)"
    have "secs (unat (cache_min_ttl r)) \<le> secs 86400"
      using cache_min_ttl_le [of r] unfolding secs_def by linarith
    then have "until - t \<le> secs 86400"
      using assms(4) unfolding until_def by linarith
    then have b: "until - t \<le> secs (unat ttl)" "secs (unat ttl) < until - t + secs 1"
      using ceil_secs_bounds [of "until - t"] True by (auto simp: ttl_def)
    have "int (unat ttl) < int (unat (cache_min_ttl r)) + 1"
      using b(2) assms(4) by (simp add: until_def secs_def)
    then have le: "ttl \<le> cache_min_ttl r" by (simp add: word_le_def)
    have "entry_ttl e t = until - t" using e(3) True by (simp add: entry_ttl_def)
    then have "fst (cache_get ops hash wall' k' t (snd (insert_full_response ops hash wall k r now bg dc)))
        = Some (r_set_new_ttl ttl (cached_response k r now), CS_Valid)"
      using e True by (simp add: cache_get_def is_current_def ttl_def)
    then show ?thesis
      using b le True cache_min_ttl_answers [of _ r] unfolding until_def [symmetric] Let_def
      by (auto intro!: exI [of _ ttl] intro: order_trans)
  qed
qed


theorem read_after_write_witness:
  "\<exists>ttl. fst (cache_get list_lru (\<lambda>_. 5) 0 demo_key 500000000
      (snd (insert_full_response list_lru (\<lambda>_. 5) 0 demo_key (demo_answer 60) 0 False
         (cache_new list_lru 1000 True 86400 5 21600)))) =
    Some (r_set_new_ttl ttl (cached_response demo_key (demo_answer 60) 0), CS_Valid)"
proof -
  have "cache_min_ttl (demo_answer 60) = 60" by code_simp
  then show ?thesis
    using read_after_write [OF lc.answer_cache_axioms conjunct1 [OF lc.new_ok] refl, of 0 500000000 "demo_answer 60"
        "\<lambda>_. 5" 0 demo_key 0 False 1000 True 86400 5 21600]
    by (auto simp: Let_def secs_def)
qed

text \<open>Storing an answer gives every record of every section the smallest TTL of the answer section.
  That TTL is raised where a record of another section had a smaller one, so the cache promises such a
  record for longer than its owner allowed.\<close>

theorem cache_raises_other_ttls:
  assumes "x \<in> set (m_authorities (r_message r) @ m_additionals (r_message r))"
    "rr_ttl x < cache_min_ttl r"
  shows "\<exists>y \<in> set (m_authorities (r_message (cached_response k r now)) @ m_additionals (r_message (cached_response k r now))).
    rr_name y = rr_name x \<and> rr_data y = rr_data x \<and> rr_ttl x < rr_ttl y"
  using assms
  by (intro bexI [of _ "rr_set_ttl (cache_min_ttl r) x"])
    (auto simp: cached_response_def r_set_new_ttl_def map_records_def Let_def)

theorem cache_raises_other_ttls_witness:
  "\<exists>y :: rr. rr_ttl (from_rdata name_root 5 (RD_A 2)) < rr_ttl y"
proof -
  have "from_rdata name_root 5 (RD_A 2) \<in> set (m_authorities (r_message (r_add_additional (from_rdata name_root 5 (RD_A 2)) (demo_answer 60)))
      @ m_additionals (r_message (r_add_additional (from_rdata name_root 5 (RD_A 2)) (demo_answer 60))))"
    "rr_ttl (from_rdata name_root 5 (RD_A 2)) < cache_min_ttl (r_add_additional (from_rdata name_root 5 (RD_A 2)) (demo_answer 60))"
    by code_simp+
  from cache_raises_other_ttls [OF this, of demo_key 0] show ?thesis by (elim bexE conjE) (rule exI, assumption)
qed

text \<open>Purging removes an entry exactly when it has been expired for longer than the grace period of
  the cache, and touches no other. The grace period is the global one: with expired answers switched off
  globally an entry goes as soon as it expires, even if the group of the query may still serve it.\<close>

theorem purge_removes_dead_entries:
  assumes "answer_cache ops ok" "dc_ok ok dc"
  shows "dc_peek ops hash k (snd (purge_dead_records ops now dc)) =
     (case dc_peek ops hash k dc of
        None \<Rightarrow> None
      | Some e \<Rightarrow>
          if now > ce_valid_until e + (if dc_serve_expired dc then secs (unat (dc_expired_ttl dc)) else 0)
          then None else Some e)"
  using answer_cache.peek_purge [OF assms, of hash k now] by (simp only: grace_period_def)

theorem purge_removes_dead_entries_witness:
  "dc_peek list_lru (\<lambda>_. 5) demo_key (snd (purge_dead_records list_lru 7 (cache_new list_lru 1000 True 86400 5 21600))) =
   (case dc_peek list_lru (\<lambda>_. 5) demo_key (cache_new list_lru 1000 True 86400 5 21600) of
      None \<Rightarrow> None
    | Some e \<Rightarrow> if 7 > ce_valid_until e + (if dc_serve_expired (cache_new list_lru 1000 True 86400 5 21600)
          then secs (unat (dc_expired_ttl (cache_new list_lru 1000 True 86400 5 21600))) else 0) then None else Some e)"
  by (rule purge_removes_dead_entries [OF lc.answer_cache_axioms conjunct1 [OF lc.new_ok]])

end
