(* ===== verification/Fmt.thy ===== *)
theory Fmt
  imports Net_Addr
begin

text \<open>
  The text the standard library writes for numbers and addresses (\<open>Display\<close>): decimal and lower
  case hexadecimal numbers without leading zeros, dotted IPv4 addresses, and IPv6 addresses with the
  first of the longest runs of two or more zero groups written as two colons, an IPv4 address mapped
  into IPv6 with its dotted form.
\<close>

definition digit_char :: "nat \<Rightarrow> char" where
  "digit_char d = (if d < 10 then char_of (48 + d) else char_of (87 + d))"

function digits_rev :: "nat \<Rightarrow> nat \<Rightarrow> string" where
  "digits_rev b n =
     (if b < 2 \<or> n < b then [digit_char n] else digit_char (n mod b) # digits_rev b (n div b))"
  by pat_completeness auto
termination by (relation "measure snd") auto

declare digits_rev.simps [simp del]

definition show_base :: "nat \<Rightarrow> nat \<Rightarrow> string" where
  "show_base b n = rev (digits_rev b n)"

definition show_dec :: "nat \<Rightarrow> string" where
  "show_dec n = show_base 10 n"

definition show_hex :: "nat \<Rightarrow> string" where
  "show_hex n = show_base 16 n"

fun join :: "string \<Rightarrow> string list \<Rightarrow> string" where
  "join sep [] = []"
| "join sep [x] = x"
| "join sep (x # y # ys) = x @ sep @ join sep (y # ys)"

definition show_ipv4 :: "32 word \<Rightarrow> string" where
  "show_ipv4 w = join ''.'' (List.map (\<lambda>o8. show_dec (unat o8)) (octets4 w))"

definition segments6 :: "128 word \<Rightarrow> nat list" where
  "segments6 w = List.map (\<lambda>i. unat (drop_bit (16 * i) w) mod 65536) [7, 6, 5, 4, 3, 2, 1, 0]"

text \<open>The loop over the groups keeps the longest run of zeros seen so far and the current one, each
  as its start and length.\<close>

fun zero_span :: "nat \<Rightarrow> nat \<times> nat \<Rightarrow> nat \<times> nat \<Rightarrow> nat list \<Rightarrow> nat \<times> nat" where
  "zero_span i longest current [] = longest"
| "zero_span i longest current (s # ss) =
     (if s = 0 then
        (let c = (if snd current = 0 then i else fst current, Suc (snd current))
         in zero_span (Suc i) (if snd c > snd longest then c else longest) c ss)
      else zero_span (Suc i) longest (0, 0) ss)"

definition show_ipv6 :: "128 word \<Rightarrow> string" where
  "show_ipv6 w =
     (case to_ipv4_mapped w of
        Some a \<Rightarrow> ''::ffff:'' @ show_ipv4 a
      | None \<Rightarrow>
          (let segs = segments6 w; span = zero_span 0 (0, 0) (0, 0) segs in
           if snd span > 1 then
             join '':'' (List.map show_hex (take (fst span) segs)) @ ''::''
             @ join '':'' (List.map show_hex (drop (fst span + snd span) segs))
           else join '':'' (List.map show_hex segs)))"

fun show_ip :: "ip_addr \<Rightarrow> string" where
  "show_ip (IpV4 a) = show_ipv4 a"
| "show_ip (IpV6 w) = show_ipv6 w"

lemma show_ip_examples:
  "show_ip (IpV4 0xC0A80001) = ''192.168.0.1''"
  "show_ip (IpV6 0) = ''::''"
  "show_ip (IpV6 0x20010db8000000000001000000000001) = ''2001:db8::1:0:0:1''"
  by (simp_all add: show_ipv4_def octets4_def octet_def show_dec_def show_base_def digits_rev.simps digit_char_def
      show_ipv6_def segments6_def to_ipv4_mapped_def is_mapped_def show_hex_def Let_def char_of_def bit_0)

text \<open>Two numbers with the same text are equal.\<close>

fun read_base :: "nat \<Rightarrow> nat list \<Rightarrow> nat" where
  "read_base b [] = 0"
| "read_base b (d # ds) = d + b * read_base b ds"

definition char_digit :: "char \<Rightarrow> nat" where
  "char_digit c = (if (of_char c :: nat) < 58 then of_char c - 48 else of_char c - 87)"

lemma char_digit_digit: "d < 16 \<Longrightarrow> char_digit (digit_char d) = d"
  by (auto simp: char_digit_def digit_char_def)

lemma read_digits: "2 \<le> b \<Longrightarrow> b \<le> 16 \<Longrightarrow> read_base b (List.map char_digit (digits_rev b n)) = n"
proof (induction b n rule: digits_rev.induct)
  case (1 b n)
  have "n mod b < 16" using 1(2, 3) mod_less_divisor [of b n] by linarith
  then show ?case using 1 by (subst digits_rev.simps) (auto simp: char_digit_digit)
qed

lemma show_base_inj: "2 \<le> b \<Longrightarrow> b \<le> 16 \<Longrightarrow> show_base b m = show_base b n \<Longrightarrow> m = n"
  unfolding show_base_def by (metis read_digits rev_is_rev_conv)

end
