(* ===== verification/Cache_Mw.thy ===== *)
theory Cache_Mw
  imports Cache_Store Mw_Cname Fmt
begin

text \<open>
  The cache middleware (\<open>dns_mw_cache.rs\<close>, \<open>DnsCacheMiddleware::handle\<close>) over the store of
  \<open>Cache_Store\<close>: bypass, keys, answers from the cache, expired answers with their background refresh,
  the folding of concurrent queries for one key, and what is stored afterwards. The state the middleware
  works on is the cache, the keys that are being looked up, the refreshes it has started and the wake-up
  of the prefetch task, before the state of the rest of the chain. The middleware reads the clock
  several times; the record \<open>cache_clock\<close> holds the readings in their order.
\<close>

section \<open>Keys\<close>

text \<open>The text of a client subnet in a key (\<open>format!("{}/{}", ..)\<close>).\<close>

definition show_subnet :: "client_subnet \<Rightarrow> string" where
  "show_subnet s = show_ip (cs_address s) @ ''/'' @ show_dec (unat (cs_source_prefix s))"

definition request_ecs :: "dns_context \<Rightarrow> request \<Rightarrow> string option" where
  "request_ecs ctx req =
     or_else (map_option show_subnet (case m_edns (rq_message req) of Some e \<Rightarrow> ed_subnet e | None \<Rightarrow> None))
       (map_option show_subnet (rule_get dr_subnet ctx))"

definition cache_key_of :: "dns_context \<Rightarrow> request \<Rightarrow> cache_key" where
  "cache_key_of ctx req =
     \<lparr>ck_query = rq_query req, ck_group = server_group_name ctx, ck_ecs = request_ecs ctx req,
      ck_opts = from_server_opts (cx_server_opts ctx)\<rparr>"

text \<open>The query that refreshes a key. \<open>parse_subnet\<close> is the parser of the library \<open>ipnet\<close> behind
  \<open>ClientSubnet::from_str\<close>.\<close>

definition prefetch_query_for :: "(string \<Rightarrow> client_subnet option) \<Rightarrow> u16 \<Rightarrow> cache_key \<Rightarrow> message" where
  "prefetch_query_for parse_subnet rid k =
     (let m = m_add_query (ck_query k) (message_query rid)
      in case (case ck_ecs k of Some s \<Rightarrow> parse_subnet s | None \<Rightarrow> None) of
           Some subnet \<Rightarrow> m\<lparr>m_edns := Some (ed_insert (EO_Subnet subnet) (unwrap_or (m_edns m) edns_new))\<rparr>
         | None \<Rightarrow> m)"

section \<open>Flattening\<close>

definition flatten_cname :: "query \<Rightarrow> dns_response \<Rightarrow> dns_response" where
  "flatten_cname q r =
     (if is_ip_addr (q_type q) \<and> list_ex (has_type (q_type q)) (r_answers r) then
        (let least = unwrap_or (min_list_opt (List.map rr_ttl (r_answers r))) 60
         in set_answers
              (List.map (\<lambda>x. rr_set_ttl least
                  (if name_eq (rr_name x) (q_name q) then x else x\<lparr>rr_name := q_name q\<rparr>))
                (List.filter (has_type (q_type q)) (r_answers r))) r)
      else r)"

section \<open>State\<close>

text \<open>A refresh in the background: its query, the options it runs under and the keys whose guards it
  holds until it ends.\<close>

record refresh =
  rf_message :: message
  rf_opts :: server_opts
  rf_guards :: "cache_key list"

text \<open>The wake-up of the prefetch task: the time of the latest scheduled check, and the pending ones
  (\<open>DomainPrefetchingNotify\<close>).\<close>

record prefetch_notify =
  pn_tick :: int
  pn_wakeups :: "int list"

definition notify_after :: "int \<Rightarrow> int \<Rightarrow> prefetch_notify \<Rightarrow> prefetch_notify" where
  "notify_after now duration n =
     (if duration = 0 then n\<lparr>pn_wakeups := now # pn_wakeups n\<rparr>
      else if now < pn_tick n \<and> pn_tick n < now + duration then n
      else n\<lparr>pn_tick := now + duration, pn_wakeups := (now + duration) # pn_wakeups n\<rparr>)"

record ('c, 'w) cache_world =
  cw_cache :: "'c dns_cache"
  cw_inflight :: "cache_key list"
  cw_refreshes :: "refresh list"
  cw_notify :: prefetch_notify
  cw_rest :: 'w

record cache_clock =
  cc_get :: int
  cc_sync :: int
  cc_reply :: int
  cc_store :: int
  cc_wall :: int
  cc_rid :: u16

section \<open>Answers from the cache\<close>

definition no_serve_expired :: "dns_context \<Rightarrow> bool" where
  "no_serve_expired ctx \<longleftrightarrow>
     unwrap_or (rule_get dr_no_serve_expired ctx) False \<or>
     unwrap_or (so_no_serve_expired (cx_server_opts ctx)) False"

definition sibling_key :: "cache_key \<Rightarrow> cache_key" where
  "sibling_key k =
     k\<lparr>ck_query := query_query (q_name (ck_query k)) (if q_type (ck_query k) = RT_A then RT_AAAA else RT_A)\<rparr>"

definition start_refresh ::
    "(cache_key, cache_entry, 'c) lru_ops \<Rightarrow> (cache_key \<Rightarrow> u64) \<Rightarrow> (string \<Rightarrow> client_subnet option) \<Rightarrow>
     cache_clock \<Rightarrow> dns_context \<Rightarrow> cache_key \<Rightarrow> int \<Rightarrow> ('c, 'w) cache_world \<Rightarrow> ('c, 'w) cache_world" where
  "start_refresh ops hash parse_subnet clk ctx k until w =
     (let dc1 = set_valid_until_for_prefetch ops hash k until (cw_cache w);
          other = sibling_key k;
          (mine, dc2) = (if is_ip_addr (q_type (ck_query k)) then mark_prefetching ops hash other dc1 else (False, dc1));
          dc3 = (if mine then set_valid_until_for_prefetch ops hash other until dc2 else dc2);
          task = \<lparr>rf_message = prefetch_query_for parse_subnet (cc_rid clk) k,
                  rf_opts = (cx_server_opts ctx)\<lparr>so_is_background := True\<rparr>,
                  rf_guards = k # (if mine then [other] else [])\<rparr>
      in w\<lparr>cw_cache := dc3, cw_refreshes := task # cw_refreshes w\<rparr>)"

definition from_cache ::
    "(cache_key, cache_entry, 'c) lru_ops \<Rightarrow> (cache_key \<Rightarrow> u64) \<Rightarrow> (string \<Rightarrow> client_subnet option) \<Rightarrow>
     cache_clock \<Rightarrow> dns_context \<Rightarrow> cache_key \<Rightarrow> ('c, 'w) cache_world \<Rightarrow>
     dns_response option \<times> ('c, 'w) cache_world" where
  "from_cache ops hash parse_subnet clk ctx k w =
     (if so_is_background (cx_server_opts ctx) then (None, w)
      else
        (case cache_get ops hash (cc_wall clk) k (cc_get clk) (cw_cache w) of
           (None, dc) \<Rightarrow> (None, w\<lparr>cw_cache := dc\<rparr>)
         | (Some (res, CS_Valid), dc) \<Rightarrow> (Some res, w\<lparr>cw_cache := dc\<rparr>)
         | (Some (res, CS_Expired), dc) \<Rightarrow>
             if cx_serve_expired ctx \<and> \<not> no_serve_expired ctx then
               (case mark_prefetching ops hash k dc of
                  (True, dc1) \<Rightarrow>
                    (let until = cc_sync clk + secs (unat (cx_serve_expired_reply_ttl ctx))
                     in (Some (r_set_new_ttl (ceil_secs (max 0 (until - cc_reply clk))) res),
                         start_refresh ops hash parse_subnet clk ctx k until (w\<lparr>cw_cache := dc1\<rparr>)))
                | (False, dc1) \<Rightarrow>
                    (Some (r_set_new_ttl (ucast (cx_serve_expired_reply_ttl ctx)) res), w\<lparr>cw_cache := dc1\<rparr>))
             else (None, w\<lparr>cw_cache := dc\<rparr>)))"

section \<open>Storing the answer of the rest of the chain\<close>

definition store_answer ::
    "(cache_key, cache_entry, 'c) lru_ops \<Rightarrow> (cache_key \<Rightarrow> u64) \<Rightarrow> cache_clock \<Rightarrow> bool \<Rightarrow>
     'c dns_cache \<Rightarrow> cache_key \<times> dns_response \<Rightarrow> 'c dns_cache" where
  "store_answer ops hash clk bg dc kr =
     (if h_truncation (m_header (r_message (snd kr))) then dc
      else snd (insert_full_response ops hash (cc_wall clk) (fst kr) (snd kr) (cc_store clk) bg dc))"

definition extra_answers :: "dns_context \<Rightarrow> string option \<Rightarrow> (cache_key \<times> dns_response) list" where
  "extra_answers ctx ecs =
     List.map (\<lambda>(q, r).
         (\<lparr>ck_query = q, ck_group = server_group_name ctx, ck_ecs = ecs,
           ck_opts = from_server_opts (cx_server_opts ctx)\<rparr>, flatten_cname q r))
       (cx_extra_cache_records ctx)"

definition store_lookup ::
    "(cache_key, cache_entry, 'c) lru_ops \<Rightarrow> (cache_key \<Rightarrow> u64) \<Rightarrow> cache_clock \<Rightarrow> cache_key \<Rightarrow> dns_response \<Rightarrow>
     dns_context \<Rightarrow> ('c, 'w) cache_world \<Rightarrow> dns_context \<times> ('c, 'w) cache_world" where
  "store_lookup ops hash clk k lookup ctx w =
     (if cx_no_cache ctx then (ctx, w)
      else
        (let bg = so_is_background (cx_server_opts ctx);
             dc = foldl (store_answer ops hash clk bg) (cw_cache w) ((k, lookup) # extra_answers ctx (ck_ecs k));
             notify = (if \<not> h_truncation (m_header (r_message lookup)) \<and> cx_prefetch_domain ctx then
                         (case r_min_ttl lookup of
                            Some ttl \<Rightarrow> notify_after (cc_store clk) (secs (unat ttl)) (cw_notify w)
                          | None \<Rightarrow> cw_notify w)
                       else cw_notify w)
         in (ctx\<lparr>cx_extra_cache_records := []\<rparr>, w\<lparr>cw_cache := dc, cw_notify := notify\<rparr>)))"

section \<open>The middleware\<close>

text \<open>\<open>next\<close> works on the whole state, as a refresh or a nested query may use the cache. \<open>shared\<close> is
  what the query that already runs for the key broadcasts: nothing when its channel closes.\<close>

definition bypasses_cache :: "dns_context \<Rightarrow> bool" where
  "bypasses_cache ctx \<longleftrightarrow> unwrap_or (so_no_cache (cx_server_opts ctx)) False \<or> cx_no_cache ctx"

definition lead_lookup ::
    "(cache_key, cache_entry, 'c) lru_ops \<Rightarrow> (cache_key \<Rightarrow> u64) \<Rightarrow> cache_clock \<Rightarrow> cache_key \<Rightarrow>
     ('c, 'w) cache_world middleware" where
  "lead_lookup ops hash clk k run_next ctx req w =
     (case run_next ctx req (w\<lparr>cw_inflight := ck_canon k # cw_inflight w\<rparr>) of
        (Inr lookup, ctx', w') \<Rightarrow>
          (let lookup' = flatten_cname (ck_query k) lookup;
               (ctx'', w'') = store_lookup ops hash clk k lookup' ctx' w'
           in (Inr lookup', ctx'', w''\<lparr>cw_inflight := removeAll (ck_canon k) (cw_inflight w'')\<rparr>))
      | (Inl e, ctx', w') \<Rightarrow> (Inl e, ctx', w'\<lparr>cw_inflight := removeAll (ck_canon k) (cw_inflight w')\<rparr>))"

definition cache_mw ::
    "(cache_key, cache_entry, 'c) lru_ops \<Rightarrow> (cache_key \<Rightarrow> u64) \<Rightarrow> (string \<Rightarrow> client_subnet option) \<Rightarrow>
     cache_clock \<Rightarrow> (dns_response, lookup_error) result option \<Rightarrow> ('c, 'w) cache_world middleware" where
  "cache_mw ops hash parse_subnet clk shared run_next ctx req w =
     (if bypasses_cache ctx then map_ok (flatten_cname (rq_query req)) (run_next ctx req w)
      else
        (let k = cache_key_of ctx req in
         case from_cache ops hash parse_subnet clk ctx k w of
           (Some res, w1) \<Rightarrow> (Inr res, ctx\<lparr>cx_source := LF_Cache\<rparr>, w1)
         | (None, w1) \<Rightarrow>
             if ck_canon k \<in> set (cw_inflight w1) then
               (case shared of
                  Some (Inr res) \<Rightarrow> (Inr res, ctx\<lparr>cx_source := LF_Cache\<rparr>, w1)
                | Some (Inl e) \<Rightarrow> (Inl e, ctx, w1)
                | None \<Rightarrow> (Inl no_connections, ctx, w1))
             else lead_lookup ops hash clk k run_next ctx req w1))"

section \<open>The end of refreshes\<close>

text \<open>A refresh that ends without having stored anything, because the upstream failed, only drops its
  guards.\<close>

definition end_refreshes ::
    "(cache_key, cache_entry, 'c) lru_ops \<Rightarrow> (cache_key \<Rightarrow> u64) \<Rightarrow> ('c, 'w) cache_world \<Rightarrow> ('c, 'w) cache_world" where
  "end_refreshes ops hash w =
     w\<lparr>cw_cache := foldl (\<lambda>dc k. drop_prefetch_guard ops hash k dc) (cw_cache w)
                     (concat (List.map rf_guards (cw_refreshes w))),
       cw_refreshes := []\<rparr>"

text \<open>Rounds of a query for one key, a failed refresh and a purge at the given time.\<close>

fun stale_rounds ::
    "(cache_key, cache_entry, 'c) lru_ops \<Rightarrow> (cache_key \<Rightarrow> u64) \<Rightarrow> (string \<Rightarrow> client_subnet option) \<Rightarrow>
     ('c, 'w) cache_world handler \<Rightarrow> dns_context \<Rightarrow> request \<Rightarrow> (cache_clock \<times> int) list \<Rightarrow> ('c, 'w) cache_world \<Rightarrow>
     (dns_response, lookup_error) result list" where
  "stale_rounds ops hash parse run_next ctx req [] w = []"
| "stale_rounds ops hash parse run_next ctx req ((clk, p) # rounds) w =
     (case cache_mw ops hash parse clk None run_next ctx req w of
        (res, ctx', w1) \<Rightarrow>
          (let w2 = end_refreshes ops hash w1;
               w3 = w2\<lparr>cw_cache := snd (purge_dead_records ops p (cw_cache w2))\<rparr>
           in res # stale_rounds ops hash parse run_next ctx req rounds w3))"

fun stale_times :: "int \<Rightarrow> int \<Rightarrow> int \<Rightarrow> (cache_clock \<times> int) list \<Rightarrow> bool" where
  "stale_times grace ttl until [] = True"
| "stale_times grace ttl until ((clk, p) # rounds) =
     (let until' = max until (cc_sync clk + ttl)
      in until < cc_get clk \<and> p \<le> until' + grace \<and> stale_times grace ttl until' rounds)"

section \<open>Lemmas\<close>

lemma sibling_canon: "is_ip_addr (q_type (ck_query k)) \<Longrightarrow> ck_canon (sibling_key k) \<noteq> ck_canon k"
  by (auto simp: sibling_key_def ck_canon_def query_query_def dest: arg_cong [where f = "\<lambda>k. q_type (ck_query k)"])

lemma has_type_set_ttl [simp]: "has_type t (rr_set_ttl n x) = has_type t x"
  by (simp add: has_type_def rr_type_def)

lemma has_type_set_name [simp]: "has_type t (x\<lparr>rr_name := n\<rparr>) = has_type t x"
  by (simp add: has_type_def rr_type_def)

lemma r_answers_set_answers [simp]: "r_answers (set_answers xs r) = xs"
  by (simp add: set_answers_def r_answers_def)

lemma r_header_set_answers [simp]: "m_header (r_message (set_answers xs r)) = m_header (r_message r)"
  by (simp add: set_answers_def)

lemma flatten_header [simp]: "m_header (r_message (flatten_cname q r)) = m_header (r_message r)"
  by (simp add: flatten_cname_def Let_def)

text \<open>A flattened answer to an address query that has an address of the right family has nothing else.\<close>

definition flat :: "query \<Rightarrow> rr list \<Rightarrow> bool" where
  "flat q xs \<longleftrightarrow>
     (is_ip_addr (q_type q) \<and> (\<exists>x \<in> set xs. has_type (q_type q) x) \<longrightarrow>
      (\<forall>x \<in> set xs. has_type (q_type q) x \<and> name_eq (rr_name x) (q_name q)))"

lemma flatten_flat: "flat q (r_answers (flatten_cname q r))"
proof -
  have refl: "name_eq n n" for n by (simp add: name_eq_iff)
  show ?thesis by (auto simp: flat_def flatten_cname_def Let_def refl list_ex_iff)
qed

lemma flat_canon:
  "q_type q' = q_type q \<Longrightarrow> to_lowercase (q_name q') = to_lowercase (q_name q) \<Longrightarrow> flat q' xs = flat q xs"
  by (simp add: flat_def name_eq_iff)

lemma flat_set_ttl: "flat q (List.map (rr_set_ttl t) xs) = flat q xs"
  by (auto simp: flat_def)

lemma header_set_new_ttl [simp]: "m_header (r_message (r_set_new_ttl t r)) = m_header (r_message r)"
  by (simp add: r_set_new_ttl_def map_records_def Let_def)

lemma answers_cached: "r_answers (cached_response k r now) = List.map (rr_set_ttl (cache_min_ttl r)) (r_answers r)"
  by (simp add: cached_response_def r_answers_ttl) (simp add: r_answers_def)

lemma header_cached [simp]: "m_header (r_message (cached_response k r now)) = m_header (r_message r)"
  by (simp add: cached_response_def)

lemma ck_canon_query:
  "ck_canon k = ck_canon k' \<Longrightarrow> q_type (ck_query k) = q_type (ck_query k') \<and>
     to_lowercase (q_name (ck_query k)) = to_lowercase (q_name (ck_query k'))"
  by (auto simp: ck_canon_def dest: arg_cong [where f = "\<lambda>k. q_type (ck_query k)"]
      arg_cong [where f = "\<lambda>k. q_name (ck_query k)"])

text \<open>Every entry of the cache is untruncated and flat for the query of its key.\<close>

definition cache_clean ::
    "(cache_key, cache_entry, 'c) lru_ops \<Rightarrow> (cache_key \<Rightarrow> u64) \<Rightarrow> (nat \<Rightarrow> 'c \<Rightarrow> bool) \<Rightarrow> 'c dns_cache \<Rightarrow> bool" where
  "cache_clean ops hash ok dc \<longleftrightarrow> dc_ok ok dc \<and>
     (\<forall>k e. dc_peek ops hash k dc = Some e \<longrightarrow>
        \<not> h_truncation (m_header (r_message (ce_data e))) \<and> flat (ck_query k) (r_answers (ce_data e)))"

context answer_cache
begin

lemma peek_get: "dc_ok ok dc \<Longrightarrow> dc_peek ops hash k' (snd (cache_get ops hash wall k now dc)) =
    (if ck_canon k' = ck_canon k
     then map_option (\<lambda>e. e\<lparr>ce_stats := stats_hit wall (ce_stats e)\<rparr>) (dc_peek ops hash k dc)
     else dc_peek ops hash k' dc)"
  by (simp add: cache_get_def peek_modify)

lemma get_ok: "dc_ok ok dc \<Longrightarrow> dc_ok ok (snd (cache_get ops hash wall k now dc))"
  by (simp add: cache_get_def modify_ok)

lemma mark_ok: "dc_ok ok dc \<Longrightarrow> dc_ok ok (snd (mark_prefetching ops hash k dc))"
  by (auto simp: mark_prefetching_def Let_def modify_ok split: option.split)

lemma until_ok: "dc_ok ok dc \<Longrightarrow> dc_ok ok (set_valid_until_for_prefetch ops hash k t dc)"
  by (simp add: set_valid_until_for_prefetch_def modify_ok)

lemma peek_mark: "dc_ok ok dc \<Longrightarrow> dc_peek ops hash k' (snd (mark_prefetching ops hash k dc)) =
    (if ck_canon k' = ck_canon k
     then map_option (\<lambda>e. e\<lparr>ce_is_in_prefetching := True\<rparr>) (dc_peek ops hash k dc)
     else dc_peek ops hash k' dc)"
  by (cases "dc_peek ops hash k dc") (auto simp: mark_prefetching_def Let_def peek_modify)

lemma peek_until: "dc_ok ok dc \<Longrightarrow> dc_peek ops hash k' (set_valid_until_for_prefetch ops hash k t dc) =
    (if ck_canon k' = ck_canon k
     then map_option (\<lambda>e. if ce_valid_until e < t then e\<lparr>ce_valid_until := t\<rparr> else e) (dc_peek ops hash k dc)
     else dc_peek ops hash k' dc)"
  by (simp add: set_valid_until_for_prefetch_def peek_modify)

lemma grace_kept [simp]:
  "grace_period (dc_modify ops hash k f dc) = grace_period dc"
  "grace_period (snd (cache_get ops hash wall k now dc)) = grace_period dc"
  "grace_period (set_valid_until_for_prefetch ops hash k t dc) = grace_period dc"
  "grace_period (snd (mark_prefetching ops hash k dc)) = grace_period dc"
  by (auto simp: grace_period_def dc_modify_def upd_shard_def cache_get_def set_valid_until_for_prefetch_def
      mark_prefetching_def Let_def split: option.split)

lemma grace_purge [simp]: "grace_period (snd (purge_dead_records ops now dc)) = grace_period dc"
  by (simp add: purge_dead_records_def Let_def) (simp add: grace_period_def)

lemma start_refresh_facts:
  assumes ok: "dc_ok ok (cw_cache w)"
    and w'_def: "w' = start_refresh ops hash parse clk ctx k until w"
  shows "dc_ok ok (cw_cache w')"
    "dc_peek ops hash k (cw_cache w') =
       map_option (\<lambda>e. if ce_valid_until e < until then e\<lparr>ce_valid_until := until\<rparr> else e) (dc_peek ops hash k (cw_cache w))"
    "grace_period (cw_cache w') = grace_period (cw_cache w)"
    "cw_inflight w' = cw_inflight w" "cw_rest w' = cw_rest w"
    "\<exists>t. cw_refreshes w' = t # cw_refreshes w \<and> k \<in> set (rf_guards t)"
proof -
  define dc1 where "dc1 = set_valid_until_for_prefetch ops hash k until (cw_cache w)"
  obtain b dc2 where m: "mark_prefetching ops hash (sibling_key k) dc1 = (b, dc2)" by fastforce
  have dc1: "dc_ok ok dc1" "grace_period dc1 = grace_period (cw_cache w)"
    "dc_peek ops hash k dc1 =
       map_option (\<lambda>e. if ce_valid_until e < until then e\<lparr>ce_valid_until := until\<rparr> else e) (dc_peek ops hash k (cw_cache w))"
    using ok by (simp_all add: dc1_def until_ok peek_until)
  have dc2: "dc_ok ok dc2" "grace_period dc2 = grace_period dc1"
    "is_ip_addr (q_type (ck_query k)) \<Longrightarrow> dc_peek ops hash k dc2 = dc_peek ops hash k dc1"
    using mark_ok [OF dc1(1), of "sibling_key k"] peek_mark [OF dc1(1), of k "sibling_key k"]
      grace_kept(4) [of "sibling_key k" dc1] sibling_canon [of k] m by auto
  note w' = w'_def start_refresh_def Let_def dc1_def [symmetric] m
  show "dc_ok ok (cw_cache w')" "grace_period (cw_cache w') = grace_period (cw_cache w)"
    "cw_inflight w' = cw_inflight w" "cw_rest w' = cw_rest w"
    "\<exists>t. cw_refreshes w' = t # cw_refreshes w \<and> k \<in> set (rf_guards t)"
    using dc1 dc2 by (simp_all add: w' until_ok)
  show "dc_peek ops hash k (cw_cache w') =
      map_option (\<lambda>e. if ce_valid_until e < until then e\<lparr>ce_valid_until := until\<rparr> else e) (dc_peek ops hash k (cw_cache w))"
    using dc1 dc2 sibling_canon [of k] by (auto simp add: w' peek_until)
qed

lemma expired_hit:
  assumes ok: "dc_ok ok (cw_cache w)"
    and e: "dc_peek ops hash k (cw_cache w) = Some e" "\<not> ce_is_in_prefetching e" "ce_valid_until e < cc_get clk"
    and ctx: "\<not> so_is_background (cx_server_opts ctx)" "cx_serve_expired ctx" "\<not> no_serve_expired ctx"
  defines "until \<equiv> cc_sync clk + secs (unat (cx_serve_expired_reply_ttl ctx))"
  shows "\<exists>w' e'. from_cache ops hash parse clk ctx k w =
      (Some (r_set_new_ttl (ceil_secs (max 0 (until - cc_reply clk))) (ce_data e)), w') \<and>
    dc_ok ok (cw_cache w') \<and> grace_period (cw_cache w') = grace_period (cw_cache w) \<and>
    cw_inflight w' = cw_inflight w \<and> cw_rest w' = cw_rest w \<and>
    dc_peek ops hash k (cw_cache w') = Some e' \<and> ce_data e' = ce_data e \<and>
    ce_valid_until e' = max (ce_valid_until e) until \<and>
    (\<exists>t. cw_refreshes w' = t # cw_refreshes w \<and> k \<in> set (rf_guards t))"
proof -
  define dc where "dc = snd (cache_get ops hash (cc_wall clk) k (cc_get clk) (cw_cache w))"
  have get: "cache_get ops hash (cc_wall clk) k (cc_get clk) (cw_cache w) = (Some (ce_data e, CS_Expired), dc)"
    using e by (auto simp: dc_def cache_get_def is_current_def)
  have dc: "dc_ok ok dc" "dc_peek ops hash k dc = Some (e\<lparr>ce_stats := stats_hit (cc_wall clk) (ce_stats e)\<rparr>)"
    "grace_period dc = grace_period (cw_cache w)"
    using ok e by (simp_all add: dc_def get_ok peek_get)
  define dc1 where "dc1 = snd (mark_prefetching ops hash k dc)"
  have mark: "mark_prefetching ops hash k dc = (True, dc1)"
    using dc(2) e(2) by (simp add: dc1_def mark_prefetching_def Let_def)
  have dc1: "dc_ok ok dc1" "dc_peek ops hash k dc1 =
      Some (e\<lparr>ce_stats := stats_hit (cc_wall clk) (ce_stats e), ce_is_in_prefetching := True\<rparr>)"
    "grace_period dc1 = grace_period (cw_cache w)"
    using dc by (simp_all add: dc1_def mark_ok peek_mark)
  note r = start_refresh_facts [where w = "w\<lparr>cw_cache := dc1\<rparr>", simplified, OF dc1(1) refl]
  show ?thesis
    using ctx by (auto simp: from_cache_def get mark Let_def r dc1 until_def max_def)
qed

lemma drops_facts:
  assumes "dc_ok ok dc"
  shows "dc_ok ok (foldl (\<lambda>dc k. drop_prefetch_guard ops hash k dc) dc ks) \<and>
    grace_period (foldl (\<lambda>dc k. drop_prefetch_guard ops hash k dc) dc ks) = grace_period dc \<and>
    dc_peek ops hash k (foldl (\<lambda>dc k. drop_prefetch_guard ops hash k dc) dc ks) =
      (if ck_canon k \<in> ck_canon ` set ks
       then map_option (\<lambda>e. e\<lparr>ce_is_in_prefetching := False\<rparr>) (dc_peek ops hash k dc)
       else dc_peek ops hash k dc)"
  using assms
proof (induction ks arbitrary: dc)
  case Nil
  then show ?case by simp
next
  case (Cons a ks)
  have ok: "dc_ok ok (drop_prefetch_guard ops hash a dc)"
    using Cons.prems by (simp add: drop_prefetch_guard_def modify_ok)
  have "dc_peek ops hash k (drop_prefetch_guard ops hash a dc) =
      (if ck_canon k = ck_canon a then map_option (\<lambda>e. e\<lparr>ce_is_in_prefetching := False\<rparr>) (dc_peek ops hash k dc)
       else dc_peek ops hash k dc)"
    using Cons.prems by (simp add: drop_prefetch_guard_def peek_modify peek_canon [of k a])
  then show ?case
    using Cons.IH [OF ok] by (cases "dc_peek ops hash k dc") (auto simp: drop_prefetch_guard_def)
qed

lemma end_refreshes_facts:
  assumes "dc_ok ok (cw_cache w)" "dc_peek ops hash k (cw_cache w) = Some e"
    "t \<in> set (cw_refreshes w)" "k \<in> set (rf_guards t)"
  shows "dc_ok ok (cw_cache (end_refreshes ops hash w)) \<and>
    grace_period (cw_cache (end_refreshes ops hash w)) = grace_period (cw_cache w) \<and>
    dc_peek ops hash k (cw_cache (end_refreshes ops hash w)) = Some (e\<lparr>ce_is_in_prefetching := False\<rparr>)"
proof -
  have "ck_canon k \<in> ck_canon ` set (concat (List.map rf_guards (cw_refreshes w)))"
    using assms(3, 4) by fastforce
  then show ?thesis
    using drops_facts [OF assms(1), of "concat (List.map rf_guards (cw_refreshes w))" k] assms(2)
    by (simp add: end_refreshes_def)
qed

lemma valid_hit:
  assumes ok: "dc_ok ok (cw_cache w)" and e: "dc_peek ops hash k (cw_cache w) = Some e" "cc_get clk \<le> ce_valid_until e"
    and ctx: "\<not> so_is_background (cx_server_opts ctx)"
  shows "\<exists>w'. from_cache ops hash parse clk ctx k w =
      (Some (r_set_new_ttl (ceil_secs (ce_valid_until e - cc_get clk)) (ce_data e)), w') \<and>
    dc_ok ok (cw_cache w') \<and> grace_period (cw_cache w') = grace_period (cw_cache w) \<and> cw_rest w' = cw_rest w"
proof -
  define dc where "dc = snd (cache_get ops hash (cc_wall clk) k (cc_get clk) (cw_cache w))"
  have get: "cache_get ops hash (cc_wall clk) k (cc_get clk) (cw_cache w) =
      (Some (r_set_new_ttl (ceil_secs (ce_valid_until e - cc_get clk)) (ce_data e), CS_Valid), dc)"
    using e by (auto simp: dc_def cache_get_def is_current_def entry_ttl_def)
  have "dc_ok ok dc" "grace_period dc = grace_period (cw_cache w)"
    using ok by (simp_all add: dc_def get_ok)
  then show ?thesis using ctx by (simp add: from_cache_def get)
qed

abbreviation clean :: "'c dns_cache \<Rightarrow> bool" where
  "clean \<equiv> cache_clean ops hash ok"

lemma clean_modify:
  assumes f: "\<And>e. ce_data (f e) = ce_data e" and "clean dc"
  shows "clean (dc_modify ops hash k f dc)"
proof -
  have ok: "dc_ok ok dc" using assms(2) by (simp add: cache_clean_def)
  have "\<exists>e0. dc_peek ops hash k' dc = Some e0 \<and> ce_data e = ce_data e0"
    if "dc_peek ops hash k' (dc_modify ops hash k f dc) = Some e" for k' e
    using that f peek_canon [of k' k dc] by (auto simp: peek_modify [OF ok] split: if_splits)
  then show ?thesis
    using assms(2) modify_ok [OF ok] unfolding cache_clean_def by metis
qed

lemma clean_marks:
  "clean dc \<Longrightarrow> clean (snd (cache_get ops hash wall k now dc))"
  "clean dc \<Longrightarrow> clean (snd (mark_prefetching ops hash k dc))"
  "clean dc \<Longrightarrow> clean (set_valid_until_for_prefetch ops hash k t dc)"
  by (auto simp: cache_get_def mark_prefetching_def set_valid_until_for_prefetch_def Let_def intro: clean_modify
      split: option.split)

lemma clean_store:
  assumes "clean dc" "flat (ck_query (fst kr)) (r_answers (snd kr))"
  shows "clean (store_answer ops hash clk bg dc kr)"
proof (cases "h_truncation (m_header (r_message (snd kr)))")
  case True
  then show ?thesis using assms by (simp add: store_answer_def)
next
  case False
  obtain k r where kr: "kr = (k, r)" by fastforce
  have ok: "dc_ok ok dc" using assms by (simp add: cache_clean_def)
  define dc' where "dc' = snd (insert_full_response ops hash (cc_wall clk) k r (cc_store clk) bg dc)"
  have "\<not> h_truncation (m_header (r_message (ce_data e))) \<and> flat (ck_query k') (r_answers (ce_data e))"
    if p: "dc_peek ops hash k' dc' = Some e" for k' e
  proof (cases "ck_canon k' = ck_canon k")
    case True
    then have "ce_data e = cached_response k r (cc_store clk)"
      using peek_insert_same [OF ok True, of "cc_wall clk" r "cc_store clk" bg] p by (auto simp: dc'_def)
    moreover have "flat (ck_query k') (r_answers r)"
      using assms(2) ck_canon_query [OF True] by (simp add: kr flat_canon [of "ck_query k'" "ck_query k"])
    ultimately show ?thesis using False by (simp add: answers_cached flat_set_ttl kr)
  next
    case False
    then have "dc_peek ops hash k' dc = Some e"
      using peek_insert_other [OF ok False, of "cc_wall clk" r "cc_store clk" bg] p by (auto simp: dc'_def)
    then show ?thesis using assms(1) by (auto simp: cache_clean_def)
  qed
  then show ?thesis
    using False insert_ok [OF ok] by (auto simp: cache_clean_def store_answer_def kr dc'_def)
qed

lemma clean_stores:
  "clean dc \<Longrightarrow> \<forall>kr \<in> set krs. flat (ck_query (fst kr)) (r_answers (snd kr)) \<Longrightarrow>
     clean (foldl (store_answer ops hash clk bg) dc krs)"
  by (induction krs arbitrary: dc) (auto intro: clean_store)

lemma clean_mark: "mark_prefetching ops hash k dc = (b, dc') \<Longrightarrow> clean dc \<Longrightarrow> clean dc'"
  using clean_marks(2) [of dc k] by simp

lemma clean_start_refresh:
  assumes "clean (cw_cache w)"
  shows "clean (cw_cache (start_refresh ops hash parse clk ctx k until w))"
proof -
  define dc where "dc = set_valid_until_for_prefetch ops hash k until (cw_cache w)"
  obtain b dc2 where m: "mark_prefetching ops hash (sibling_key k) dc = (b, dc2)" by fastforce
  have "clean dc" using assms by (simp add: dc_def clean_marks(3))
  then show ?thesis
    using clean_mark [OF m] by (simp add: start_refresh_def dc_def [symmetric] m Let_def clean_marks(3))
qed

lemma clean_from_cache:
  assumes "clean (cw_cache w)"
  shows "clean (cw_cache (snd (from_cache ops hash parse clk ctx k w)))"
proof -
  obtain got dc where g: "cache_get ops hash (cc_wall clk) k (cc_get clk) (cw_cache w) = (got, dc)" by fastforce
  have dc: "clean dc" using clean_marks(1) [OF assms, of "cc_wall clk" k "cc_get clk"] by (simp add: g)
  obtain b dc1 where m: "mark_prefetching ops hash k dc = (b, dc1)" by fastforce
  note dc1 = clean_mark [OF m dc]
  show ?thesis
    using assms dc dc1
    by (auto simp: from_cache_def g m Let_def clean_start_refresh split: option.split cache_status.split bool.split)
qed

lemma clean_lead:
  assumes step: "\<And>ctx req w. clean (cw_cache w) \<Longrightarrow> clean (cw_cache (snd (snd (run_next ctx req w))))"
    and "clean (cw_cache w)"
  shows "clean (cw_cache (snd (snd (lead_lookup ops hash clk k run_next ctx req w))))"
proof -
  obtain res ctx' w' where r: "run_next ctx req (w\<lparr>cw_inflight := ck_canon k # cw_inflight w\<rparr>) = (res, ctx', w')"
    using prod_cases3 by blast
  have w': "clean (cw_cache w')"
    using step [of "w\<lparr>cw_inflight := ck_canon k # cw_inflight w\<rparr>" ctx req] assms(2) by (simp add: r)
  have "clean (cw_cache (snd (store_lookup ops hash clk k (flatten_cname (ck_query k) lookup) ctx' w')))" for lookup
    using w' flatten_flat
    by (auto simp: store_lookup_def Let_def extra_answers_def intro!: clean_stores clean_store)
  then show ?thesis
    using w' by (auto simp: lead_lookup_def r Let_def split: sum.split prod.split) (metis snd_conv)
qed

end

lemma cache_mw_hit:
  "from_cache ops hash parse clk ctx (cache_key_of ctx req) w = (Some res, w') \<Longrightarrow> \<not> bypasses_cache ctx \<Longrightarrow>
     cache_mw ops hash parse clk shared run_next ctx req w = (Inr res, ctx\<lparr>cx_source := LF_Cache\<rparr>, w')"
  by (simp add: cache_mw_def Let_def)

section \<open>Properties\<close>

text \<open>A client whose listener forbids expired answers can be given one all the same. When a query
  that may be served an expired answer finds the entry of a key expired, the refresh it starts extends
  the life of the entry, so that for the duration of the reply TTL every other query with the key finds
  it valid and is given the expired data with a fresh TTL, whatever its own settings say. The option
  that forbids expired answers is not part of the key.\<close>

theorem stale_data_served_as_valid:
  assumes "answer_cache ops ok" "dc_ok ok (cw_cache w)"
    and e: "dc_peek ops hash (cache_key_of ctx req) (cw_cache w) = Some e" "\<not> ce_is_in_prefetching e"
      "ce_valid_until e < cc_get clk"
    and ctx: "\<not> bypasses_cache ctx" "\<not> so_is_background (cx_server_opts ctx)" "cx_serve_expired ctx"
      "\<not> no_serve_expired ctx"
    and ctx2: "\<not> bypasses_cache ctx2" "\<not> so_is_background (cx_server_opts ctx2)" "no_serve_expired ctx2"
      "ck_canon (cache_key_of ctx2 req2) = ck_canon (cache_key_of ctx req)"
    and t: "cc_get clk2 \<le> cc_sync clk + secs (unat (cx_serve_expired_reply_ttl ctx))"
  shows "\<exists>ttl. fst (cache_mw ops hash parse clk2 shared2 next2 ctx2 req2
      (snd (snd (cache_mw ops hash parse clk shared next1 ctx req w)))) = Inr (r_set_new_ttl ttl (ce_data e))"
proof -
  obtain w' e' res where hit: "from_cache ops hash parse clk ctx (cache_key_of ctx req) w = (Some res, w')"
    "dc_ok ok (cw_cache w')" "dc_peek ops hash (cache_key_of ctx req) (cw_cache w') = Some e'"
    "ce_data e' = ce_data e"
    "ce_valid_until e' = max (ce_valid_until e) (cc_sync clk + secs (unat (cx_serve_expired_reply_ttl ctx)))"
    using answer_cache.expired_hit [OF assms(1, 2) e ctx(2-4), where parse = parse] by metis
  have "dc_peek ops hash (cache_key_of ctx2 req2) (cw_cache w') = Some e'"
    using hit(3) answer_cache.peek_canon [OF assms(1) ctx2(4)] by metis
  moreover have "cc_get clk2 \<le> ce_valid_until e'" using hit(5) t by simp
  ultimately obtain w'' where
    "from_cache ops hash parse clk2 ctx2 (cache_key_of ctx2 req2) w' =
       (Some (r_set_new_ttl (ceil_secs (ce_valid_until e' - cc_get clk2)) (ce_data e')), w'')"
    using answer_cache.valid_hit [OF assms(1) hit(2) _ _ ctx2(2)] by metis
  then show ?thesis
    using hit(4) cache_mw_hit [OF hit(1) ctx(1)] cache_mw_hit [OF _ ctx2(1)] by fastforce
qed

definition demo_ctx :: "server_opts \<Rightarrow> dns_context" where
  "demo_ctx opts = \<lparr>cx_cfg = rt_config_default\<lparr>cf_serve_expired := Some True\<rparr>, cx_server_opts = opts,
     cx_domain_rule = None, cx_fastest_speed = 0, cx_source = LF_None, cx_no_cache = False,
     cx_extra_cache_records = []\<rparr>"

definition demo_request :: request where
  "demo_request = request_of_query 7 (ck_query demo_key)"

definition demo_world :: "((cache_key, cache_entry) lru_list, unit) cache_world" where
  "demo_world =
     \<lparr>cw_cache = snd (insert_full_response list_lru (\<lambda>_. 5) 0 demo_key (demo_answer 60) 0 False
                      (cache_new list_lru 1000 True 86400 5 21600)),
      cw_inflight = [], cw_refreshes = [], cw_notify = \<lparr>pn_tick = 0, pn_wakeups = []\<rparr>, cw_rest = ()\<rparr>"

definition demo_clock :: "int \<Rightarrow> cache_clock" where
  "demo_clock t = \<lparr>cc_get = t, cc_sync = t, cc_reply = t, cc_store = t, cc_wall = 0, cc_rid = 1\<rparr>"

lemma demo_key_of: "cache_key_of (demo_ctx server_opts_default) demo_request = demo_key"
  "cache_key_of (demo_ctx (server_opts_default\<lparr>so_no_serve_expired := Some True\<rparr>)) demo_request = demo_key"
  by code_simp+

lemma demo_entry:
  "dc_ok ll_ok (cw_cache demo_world) \<and> grace_period (cw_cache demo_world) = secs 86400 \<and>
   (\<exists>e. dc_peek list_lru (\<lambda>_. 5) demo_key (cw_cache demo_world) = Some e \<and> \<not> ce_is_in_prefetching e \<and>
      ce_data e = cached_response demo_key (demo_answer 60) 0 \<and> ce_valid_until e = secs 60)"
proof -
  have "cache_min_ttl (demo_answer 60) = 60" by code_simp
  moreover have "grace_period (cw_cache demo_world) = secs 86400"
    by (simp add: demo_world_def insert_full_response_def Let_def upd_shard_def dc_modify_def cache_new_def
        grace_period_def split: option.split)
  ultimately show ?thesis
    using lc.insert_ok [OF conjunct1 [OF lc.new_ok [of 1000 True 86400 5 21600]]]
      lc.peek_insert_same [OF conjunct1 [OF lc.new_ok [of 1000 True 86400 5 21600]] refl, of "\<lambda>_. 5" demo_key]
    by (fastforce simp: demo_world_def)
qed

lemma demo_serves:
  "\<not> bypasses_cache (demo_ctx opts) \<longleftrightarrow> \<not> unwrap_or (so_no_cache opts) False"
  "so_is_background (cx_server_opts (demo_ctx opts)) = so_is_background opts"
  "no_serve_expired (demo_ctx opts) \<longleftrightarrow> unwrap_or (so_no_serve_expired opts) False"
  by (simp_all add: demo_ctx_def bypasses_cache_def no_serve_expired_def rule_get_def opt_get_def)

lemma demo_expired:
  "cx_serve_expired (demo_ctx server_opts_default)"
  "cx_serve_expired_reply_ttl (demo_ctx server_opts_default) = 5"
  by code_simp+

lemma demo_opts:
  "so_no_cache server_opts_default = None" "so_no_serve_expired server_opts_default = None"
  "\<not> so_is_background server_opts_default"
  by (simp_all add: server_opts_default_def)

theorem stale_data_served_as_valid_witness:
  "\<exists>ttl. fst (cache_mw list_lru (\<lambda>_. 5) (\<lambda>_. None) (demo_clock (secs 102)) None (\<lambda>ctx req w. (Inl no_connections, ctx, w))
      (demo_ctx (server_opts_default\<lparr>so_no_serve_expired := Some True\<rparr>)) demo_request
      (snd (snd (cache_mw list_lru (\<lambda>_. 5) (\<lambda>_. None) (demo_clock (secs 100)) None
        (\<lambda>ctx req w. (Inl no_connections, ctx, w)) (demo_ctx server_opts_default) demo_request demo_world))))
    = Inr (r_set_new_ttl ttl (cached_response demo_key (demo_answer 60) 0))"
proof -
  obtain e where e: "dc_peek list_lru (\<lambda>_. 5) demo_key (cw_cache demo_world) = Some e" "\<not> ce_is_in_prefetching e"
    "ce_data e = cached_response demo_key (demo_answer 60) 0" "ce_valid_until e = secs 60" "dc_ok ll_ok (cw_cache demo_world)"
    using demo_entry by blast
  show ?thesis
    unfolding e(3) [symmetric]
    by (rule stale_data_served_as_valid [OF lc.answer_cache_axioms e(5), where e = e])
      (use e in \<open>simp_all add: demo_key_of demo_serves demo_expired demo_clock_def secs_def demo_opts\<close>)
qed

text \<open>The age of an expired answer has no limit while it is asked for. Every query that finds it
  expired extends its life by the reply TTL and starts a refresh; when the refresh fails and no purge
  comes later than the grace period after the extended time, the next query finds it again. So with an
  upstream that is down, an answer is served for as long as clients keep asking, and
  \<open>serve-expired-ttl\<close> bounds only the time since the last query.\<close>

theorem expired_answer_has_no_age_limit:
  assumes "answer_cache ops ok" "dc_ok ok (cw_cache w)"
    and "dc_peek ops hash (cache_key_of ctx req) (cw_cache w) = Some e" "\<not> ce_is_in_prefetching e"
    and ctx: "\<not> bypasses_cache ctx" "\<not> so_is_background (cx_server_opts ctx)" "cx_serve_expired ctx"
      "\<not> no_serve_expired ctx"
    and "stale_times (grace_period (cw_cache w)) (secs (unat (cx_serve_expired_reply_ttl ctx))) (ce_valid_until e) rounds"
  shows "length (stale_rounds ops hash parse run_next ctx req rounds w) = length rounds \<and>
    (\<forall>res \<in> set (stale_rounds ops hash parse run_next ctx req rounds w). \<exists>ttl. res = Inr (r_set_new_ttl ttl (ce_data e)))"
  using assms(2-4, 9)
proof (induction rounds arbitrary: w e)
  case Nil
  then show ?case by simp
next
  case (Cons r rounds)
  obtain clk p where r: "r = (clk, p)" by fastforce
  define until where "until = cc_sync clk + secs (unat (cx_serve_expired_reply_ttl ctx))"
  have t: "ce_valid_until e < cc_get clk" "p \<le> max (ce_valid_until e) until + grace_period (cw_cache w)"
    "stale_times (grace_period (cw_cache w)) (secs (unat (cx_serve_expired_reply_ttl ctx)))
       (max (ce_valid_until e) until) rounds"
    using Cons.prems(4) by (simp_all add: r Let_def until_def)
  obtain w1 e1 task where hit:
    "from_cache ops hash parse clk ctx (cache_key_of ctx req) w =
       (Some (r_set_new_ttl (ceil_secs (max 0 (until - cc_reply clk))) (ce_data e)), w1)"
    "dc_ok ok (cw_cache w1)" "grace_period (cw_cache w1) = grace_period (cw_cache w)"
    "dc_peek ops hash (cache_key_of ctx req) (cw_cache w1) = Some e1" "ce_data e1 = ce_data e"
    "ce_valid_until e1 = max (ce_valid_until e) until"
    "task \<in> set (cw_refreshes w1)" "cache_key_of ctx req \<in> set (rf_guards task)"
    using answer_cache.expired_hit [OF assms(1) Cons.prems(1-3) t(1) ctx(2-4), where parse = parse]
    unfolding until_def by (metis list.set_intros(1))
  define w2 where "w2 = end_refreshes ops hash w1"
  define w3 where "w3 = w2\<lparr>cw_cache := snd (purge_dead_records ops p (cw_cache w2))\<rparr>"
  have w2: "dc_ok ok (cw_cache w2)" "grace_period (cw_cache w2) = grace_period (cw_cache w)"
    "dc_peek ops hash (cache_key_of ctx req) (cw_cache w2) = Some (e1\<lparr>ce_is_in_prefetching := False\<rparr>)"
    using answer_cache.end_refreshes_facts [OF assms(1) hit(2, 4, 7, 8)] hit(3) by (simp_all add: w2_def)
  have w3: "dc_ok ok (cw_cache w3)" "grace_period (cw_cache w3) = grace_period (cw_cache w)"
    "dc_peek ops hash (cache_key_of ctx req) (cw_cache w3) = Some (e1\<lparr>ce_is_in_prefetching := False\<rparr>)"
    using answer_cache.purge_ok [OF assms(1) w2(1)] answer_cache.peek_purge [OF assms(1) w2(1)]
      answer_cache.grace_purge [OF assms(1)] w2 t(2) hit(6)
    by (simp_all add: w3_def)
  have "stale_rounds ops hash parse run_next ctx req (r # rounds) w =
      Inr (r_set_new_ttl (ceil_secs (max 0 (until - cc_reply clk))) (ce_data e)) #
        stale_rounds ops hash parse run_next ctx req rounds w3"
    by (simp add: r cache_mw_hit [OF hit(1) ctx(1)] Let_def w2_def w3_def)
  moreover have "length (stale_rounds ops hash parse run_next ctx req rounds w3) = length rounds \<and>
      (\<forall>res \<in> set (stale_rounds ops hash parse run_next ctx req rounds w3). \<exists>ttl. res = Inr (r_set_new_ttl ttl (ce_data e)))"
    using Cons.IH [OF w3(1, 3)] t(3) w3(2) hit(5, 6) by simp
  ultimately show ?case by auto
qed

theorem expired_answer_has_no_age_limit_witness:
  "list_all (\<lambda>res. \<exists>ttl. res = Inr (r_set_new_ttl ttl (cached_response demo_key (demo_answer 60) 0)))
     (stale_rounds list_lru (\<lambda>_. 5) (\<lambda>_. None) (\<lambda>ctx req w. (Inl no_connections, ctx, w))
      (demo_ctx server_opts_default) demo_request
      [(demo_clock (secs 80000), secs 86000), (demo_clock (secs 160000), secs 170000), (demo_clock (secs 240000), 0)] demo_world)"
proof -
  obtain e where e: "dc_peek list_lru (\<lambda>_. 5) demo_key (cw_cache demo_world) = Some e" "\<not> ce_is_in_prefetching e"
    "ce_data e = cached_response demo_key (demo_answer 60) 0" "ce_valid_until e = secs 60" "dc_ok ll_ok (cw_cache demo_world)"
    using demo_entry by blast
  have times: "stale_times (grace_period (cw_cache demo_world))
     (secs (unat (cx_serve_expired_reply_ttl (demo_ctx server_opts_default)))) (ce_valid_until e)
      [(demo_clock (secs 80000), secs 86000), (demo_clock (secs 160000), secs 170000), (demo_clock (secs 240000), 0)]"
    by (simp add: demo_entry e demo_expired demo_clock_def secs_def)
  show ?thesis
    unfolding e(3) [symmetric] list_all_iff
    by (rule conjunct2 [OF expired_answer_has_no_age_limit [OF lc.answer_cache_axioms e(5) _ e(2) _ _ _ _ times]])
      (use e in \<open>simp_all add: demo_key_of demo_serves demo_expired demo_opts\<close>)
qed

text \<open>C12: whatever the queries and the answers of the rest of the chain, the cache never comes to hold a
  truncated answer, nor an answer to an address query that has an address of the right family next to a
  CNAME record or under another name: every reply from the cache is one step away from its addresses.\<close>

theorem cache_mw_keeps_cache_clean:
  assumes "answer_cache ops ok" "cache_clean ops hash ok (cw_cache w)"
    and "\<And>ctx req w. cache_clean ops hash ok (cw_cache w) \<Longrightarrow>
           cache_clean ops hash ok (cw_cache (snd (snd (run_next ctx req w))))"
  shows "cache_clean ops hash ok (cw_cache (snd (snd (cache_mw ops hash parse clk shared run_next ctx req w))))"
proof -
  obtain got w1 where g: "from_cache ops hash parse clk ctx (cache_key_of ctx req) w = (got, w1)" by fastforce
  have w1: "cache_clean ops hash ok (cw_cache w1)"
    using answer_cache.clean_from_cache [OF assms(1, 2), of parse clk ctx "cache_key_of ctx req"] by (simp add: g)
  show ?thesis
    using answer_cache.clean_lead [OF assms(1), where run_next = run_next, OF assms(3) w1, where clk = clk and k = "cache_key_of ctx req" and ctx = ctx and req = req] w1
      assms(3) [OF assms(2), of ctx req]
    by (auto simp: cache_mw_def g Let_def split: option.split sum.split)
qed

theorem cache_mw_keeps_cache_clean_witness:
  "cache_clean list_lru (\<lambda>_. 5) ll_ok
     (cw_cache (snd (snd (cache_mw list_lru (\<lambda>_. 5) (\<lambda>_. None) (demo_clock 0) None
        (\<lambda>ctx req w. (Inr (demo_answer 60), ctx, w)) (demo_ctx server_opts_default) demo_request
        (demo_world\<lparr>cw_cache := cache_new list_lru 1000 True 86400 5 21600\<rparr>)))))"
proof (rule cache_mw_keeps_cache_clean [OF lc.answer_cache_axioms])
  have "dc_peek list_lru (\<lambda>_. 5) k (cache_new list_lru 1000 True 86400 5 21600) = None" for k
    using shard_index_less [of "\<lambda>_. 5" k]
    by (simp add: dc_peek_def get_shard_def cache_new_def Let_def SHARD_COUNT_def list_lru_def ll_new_def ll_peek_def)
  then show "cache_clean list_lru (\<lambda>_. 5) ll_ok
      (cw_cache (demo_world\<lparr>cw_cache := cache_new list_lru 1000 True 86400 5 21600\<rparr>))"
    using lc.new_ok [of 1000 True 86400 5 21600] by (simp add: cache_clean_def)
qed simp

text \<open>C36: while the answer to a first client is valid, a second client whose query has the same key gets
  the same record data without the rest of the chain being asked, with a TTL that ends no later than a
  second after the stored one.\<close>

theorem second_client_served_from_cache:
  assumes "answer_cache ops ok" "dc_ok ok (cw_cache w)"
    and miss: "\<not> bypasses_cache ctx" "dc_peek ops hash (cache_key_of ctx req) (cw_cache w) = None"
      "ck_canon (cache_key_of ctx req) \<notin> set (cw_inflight w)"
    and chain: "\<And>w. run_next ctx req w = (Inr lookup, ctx', w)"
      "\<not> cx_no_cache ctx'" "cx_extra_cache_records ctx' = []" "\<not> h_truncation (m_header (r_message lookup))"
    and second: "\<not> bypasses_cache ctx2" "\<not> so_is_background (cx_server_opts ctx2)"
      "ck_canon (cache_key_of ctx2 req2) = ck_canon (cache_key_of ctx req)"
      "cc_store clk \<le> cc_get clk2"
      "cc_get clk2 \<le> cc_store clk + secs (unat (cache_min_ttl (flatten_cname (rq_query req) lookup)))"
  shows "\<exists>w1 ttl reply2 w2.
    cache_mw ops hash parse clk shared run_next ctx req w =
      (Inr (flatten_cname (rq_query req) lookup), ctx'\<lparr>cx_extra_cache_records := []\<rparr>, w1) \<and>
    cache_mw ops hash parse clk2 shared2 next2 ctx2 req2 w1 = (Inr reply2, ctx2\<lparr>cx_source := LF_Cache\<rparr>, w2) \<and>
    List.map rr_data (r_answers reply2) = List.map rr_data (r_answers (flatten_cname (rq_query req) lookup)) \<and>
    (\<forall>x \<in> set (all_records reply2). rr_ttl x = ttl) \<and> cw_rest w2 = cw_rest w \<and>
    ttl \<le> cache_min_ttl (flatten_cname (rq_query req) lookup)"
proof -
  define k where "k = cache_key_of ctx req"
  define r where "r = flatten_cname (rq_query req) lookup"
  have k: "ck_query k = rq_query req" by (simp add: k_def cache_key_of_def)
  have "\<exists>dc. from_cache ops hash parse clk ctx k w = (None, w\<lparr>cw_cache := dc\<rparr>) \<and> dc_ok ok dc"
    using miss(2) assms(2) answer_cache.get_ok [OF assms(1, 2), of hash "cc_wall clk" k "cc_get clk"]
    by (cases "so_is_background (cx_server_opts ctx)")
      (auto simp: from_cache_def cache_get_def k_def intro: exI [of _ "cw_cache w"])
  then obtain dc where g: "from_cache ops hash parse clk ctx k w = (None, w\<lparr>cw_cache := dc\<rparr>)" "dc_ok ok dc"
    by blast
  define dc1 where "dc1 = snd (insert_full_response ops hash (cc_wall clk) k r (cc_store clk)
      (so_is_background (cx_server_opts ctx')) dc)"
  obtain n where first: "cache_mw ops hash parse clk shared run_next ctx req w =
      (Inr r, ctx'\<lparr>cx_extra_cache_records := []\<rparr>, w\<lparr>cw_cache := dc1, cw_notify := n,
         cw_inflight := removeAll (ck_canon k) (ck_canon k # cw_inflight w)\<rparr>)"
    using g(1) miss chain
    by (simp add: cache_mw_def k_def [symmetric] Let_def lead_lookup_def store_lookup_def extra_answers_def
        store_answer_def k r_def [symmetric] dc1_def)
      (auto simp: r_def dc1_def)
  define w1 where "w1 = w\<lparr>cw_cache := dc1, cw_notify := n,
      cw_inflight := removeAll (ck_canon k) (ck_canon k # cw_inflight w)\<rparr>"
  obtain e where e: "dc_peek ops hash (cache_key_of ctx2 req2) dc1 = Some e" "ce_data e = cached_response k r (cc_store clk)"
    "ce_valid_until e = cc_store clk + secs (unat (cache_min_ttl r))"
    using answer_cache.peek_insert_same [OF assms(1) g(2) second(3) [folded k_def], of hash "cc_wall clk" r "cc_store clk"]
    by (auto simp: dc1_def)
  define ttl where "ttl = ceil_secs (ce_valid_until e - cc_get clk2)"
  have ok1: "dc_ok ok (cw_cache w1)" using answer_cache.insert_ok [OF assms(1) g(2)] by (simp add: w1_def dc1_def)
  obtain w2 where hit: "from_cache ops hash parse clk2 ctx2 (cache_key_of ctx2 req2) w1 =
      (Some (r_set_new_ttl ttl (ce_data e)), w2)" "cw_rest w2 = cw_rest w1"
    using answer_cache.valid_hit [OF assms(1) ok1 _ _ second(2), of hash "cache_key_of ctx2 req2" e clk2 parse] e second(5)
    unfolding ttl_def by (auto simp: w1_def r_def)
  have "ttl \<le> cache_min_ttl r"
  proof -
    have "secs (unat (cache_min_ttl r)) \<le> secs 86400" using cache_min_ttl_le [of r] unfolding secs_def by linarith
    then have "secs (unat ttl) < ce_valid_until e - cc_get clk2 + secs 1"
      using ceil_secs_bounds [of "ce_valid_until e - cc_get clk2"] e(3) second(4, 5) by (auto simp: ttl_def r_def)
    then have "int (unat ttl) < int (unat (cache_min_ttl r)) + 1" using e(3) second(4) by (simp add: secs_def)
    then show ?thesis by (simp add: word_le_def)
  qed
  moreover have "List.map rr_data (r_answers (r_set_new_ttl ttl (ce_data e))) = List.map rr_data (r_answers r)"
    by (simp add: e(2) r_answers_ttl answers_cached)
  moreover have "cw_rest w2 = cw_rest w" by (simp add: hit(2) w1_def)
  moreover have "\<forall>x \<in> set (all_records (r_set_new_ttl ttl (ce_data e))). rr_ttl x = ttl"
    using all_records_set_ttl by blast
  ultimately show ?thesis
    using first [folded w1_def] cache_mw_hit [OF hit(1) second(1), of shared2 next2]
    unfolding r_def [symmetric] by blast
qed

lemma demo_data: "List.map rr_data (r_answers (flatten_cname (rq_query demo_request) (demo_answer 60))) = [RD_A 1]"
  "cache_min_ttl (flatten_cname (rq_query demo_request) (demo_answer 60)) = 60"
  "\<not> h_truncation (m_header (r_message (demo_answer 60)))"
  by code_simp+

theorem second_client_served_from_cache_witness:
  "\<exists>w1 reply2 w2.
    cache_mw list_lru (\<lambda>_. 5) (\<lambda>_. None) (demo_clock 0) None (\<lambda>ctx req w. (Inr (demo_answer 60), ctx, w))
        (demo_ctx server_opts_default) demo_request
        (demo_world\<lparr>cw_cache := cache_new list_lru 1000 True 86400 5 21600\<rparr>) =
      (Inr (flatten_cname (rq_query demo_request) (demo_answer 60)), demo_ctx server_opts_default, w1) \<and>
    cache_mw list_lru (\<lambda>_. 5) (\<lambda>_. None) (demo_clock (secs 59)) None (\<lambda>ctx req w. (Inl no_connections, ctx, w))
        (demo_ctx server_opts_default) demo_request w1 =
      (Inr reply2, (demo_ctx server_opts_default)\<lparr>cx_source := LF_Cache\<rparr>, w2) \<and>
    List.map rr_data (r_answers reply2) = [RD_A 1]"
proof -
  have empty: "dc_peek list_lru (\<lambda>_. 5) k (cache_new list_lru 1000 True 86400 5 21600) = None" for k
    using shard_index_less [of "\<lambda>_. 5" k]
    by (simp add: dc_peek_def get_shard_def cache_new_def Let_def SHARD_COUNT_def list_lru_def ll_new_def ll_peek_def)
  have c: "(demo_ctx server_opts_default)\<lparr>cx_extra_cache_records := []\<rparr> = demo_ctx server_opts_default"
    by (simp add: demo_ctx_def)
  show ?thesis
    using second_client_served_from_cache [OF lc.answer_cache_axioms,
        where run_next = "\<lambda>ctx req w. (Inr (demo_answer 60), ctx, w)" and hash = "\<lambda>_. 5" and ctx = "demo_ctx server_opts_default"
          and req = demo_request and lookup = "demo_answer 60" and ctx' = "demo_ctx server_opts_default"
          and ?ctx2.0 = "demo_ctx server_opts_default" and ?req2.0 = demo_request and clk = "demo_clock 0"
          and ?clk2.0 = "demo_clock (secs 59)" and w = "demo_world\<lparr>cw_cache := cache_new list_lru 1000 True 86400 5 21600\<rparr>"
          and parse = "\<lambda>_. None" and shared = None and ?shared2.0 = None and ?next2.0 = "\<lambda>ctx req w. (Inl no_connections, ctx, w)"]
      lc.new_ok [of 1000 True 86400 5 21600] empty demo_data demo_serves [of server_opts_default]
    by (simp add: c demo_opts) (fastforce simp: demo_ctx_def demo_world_def demo_clock_def secs_def demo_data)
qed

text \<open>C38: the refresh that an expired answer starts asks the question of the entry itself: run under the
  options it carries and the same domain rule, its query computes the very key it has to renew, the
  client subnet included, provided the text of the subnet in the key can be read back.\<close>

theorem refresh_renews_its_own_entry:
  assumes "request_ecs ctx req = None \<or>
      (\<exists>s. request_ecs ctx req = Some (show_subnet s) \<and> parse (show_subnet s) = Some (s\<lparr>cs_scope_prefix := 0\<rparr>))"
  shows "\<exists>t. cw_refreshes (start_refresh ops hash parse clk ctx (cache_key_of ctx req) until w) = t # cw_refreshes w \<and>
    cache_key_of ctx req \<in> set (rf_guards t) \<and> so_is_background (rf_opts t) \<and>
    (\<forall>ctx' src p. cx_server_opts ctx' = rf_opts t \<and> cx_domain_rule ctx' = cx_domain_rule ctx \<longrightarrow>
       cache_key_of ctx' (request_new (rf_message t) src p) = cache_key_of ctx req)"
proof -
  define k where "k = cache_key_of ctx req"
  obtain gs where gs: "cw_refreshes (start_refresh ops hash parse clk ctx k until w) =
      \<lparr>rf_message = prefetch_query_for parse (cc_rid clk) k,
       rf_opts = (cx_server_opts ctx)\<lparr>so_is_background := True\<rparr>, rf_guards = k # gs\<rparr> # cw_refreshes w"
  proof -
    obtain mine dc2 where m: "(if is_ip_addr (q_type (ck_query k))
        then mark_prefetching ops hash (sibling_key k) (set_valid_until_for_prefetch ops hash k until (cw_cache w))
        else (False, set_valid_until_for_prefetch ops hash k until (cw_cache w))) = (mine, dc2)" by fastforce
    show thesis by (rule that [of "if mine then [sibling_key k] else []"]) (simp add: start_refresh_def Let_def m)
  qed
  have "cache_key_of ctx' (request_new (prefetch_query_for parse (cc_rid clk) k) src p) = k"
    if c: "cx_server_opts ctx' = (cx_server_opts ctx)\<lparr>so_is_background := True\<rparr>" "cx_domain_rule ctx' = cx_domain_rule ctx"
    for ctx' src p
  proof -
    define m where "m = prefetch_query_for parse (cc_rid clk) k"
    have q: "m_queries m = [ck_query k]"
      by (simp add: m_def prefetch_query_for_def Let_def m_add_query_def message_query_def message_new_def split: option.split)
    have g: "server_group_name ctx' = server_group_name ctx"
      "from_server_opts (cx_server_opts ctx') = from_server_opts (cx_server_opts ctx)"
      using c by (simp_all add: server_group_name_def from_server_opts_def split: option.split)
    have e: "request_ecs ctx' (request_new m src p) = ck_ecs k"
      using assms c(2)
      by (auto simp: request_ecs_def rule_get_def k_def cache_key_of_def m_def prefetch_query_for_def request_new_def
          Let_def m_add_query_def message_query_def message_new_def show_subnet_def unwrap_or.simps ed_insert_def
          ed_subnet_def ed_option_def edns_new_def)
    show ?thesis
      using q g e by (simp add: m_def [symmetric] cache_key_of_def) (simp add: k_def cache_key_of_def request_new_def)
  qed
  then show ?thesis unfolding k_def [symmetric] gs by auto
qed

definition demo_subnet_request :: request where
  "demo_subnet_request = demo_request\<lparr>rq_message := (rq_message demo_request)\<lparr>m_edns :=
     Some (ed_insert (EO_Subnet \<lparr>cs_address = from_octets4 10 0 0 0, cs_source_prefix = 8, cs_scope_prefix = 0\<rparr>) edns_new)\<rparr>\<rparr>"

theorem refresh_renews_its_own_entry_witness:
  "cache_key_of ((demo_ctx server_opts_default)\<lparr>cx_server_opts := server_opts_default\<lparr>so_is_background := True\<rparr>\<rparr>)
     (request_new (rf_message (hd (cw_refreshes (start_refresh list_lru (\<lambda>_. 5)
        (\<lambda>_. Some \<lparr>cs_address = from_octets4 10 0 0 0, cs_source_prefix = 8, cs_scope_prefix = 0\<rparr>)
        (demo_clock 0) (demo_ctx server_opts_default) (cache_key_of (demo_ctx server_opts_default) demo_subnet_request) 5 demo_world))))
      (IpV4 1, 53) P_Udp) = cache_key_of (demo_ctx server_opts_default) demo_subnet_request"
proof -
  have "\<exists>s. request_ecs (demo_ctx server_opts_default) demo_subnet_request = Some (show_subnet s) \<and>
      Some \<lparr>cs_address = from_octets4 10 0 0 0, cs_source_prefix = 8, cs_scope_prefix = 0\<rparr> = Some (s\<lparr>cs_scope_prefix := 0\<rparr>)"
    by (intro exI [of _ "\<lparr>cs_address = from_octets4 10 0 0 0, cs_source_prefix = 8, cs_scope_prefix = 0\<rparr>"])
      (simp add: request_ecs_def demo_subnet_request_def ed_insert_def ed_subnet_def ed_option_def edns_new_def)
  from refresh_renews_its_own_entry [OF disjI2, OF this, of list_lru "\<lambda>_. 5" "demo_clock 0" 5 demo_world] obtain t where t:
    "cw_refreshes (start_refresh list_lru (\<lambda>_. 5)
        (\<lambda>_. Some \<lparr>cs_address = from_octets4 10 0 0 0, cs_source_prefix = 8, cs_scope_prefix = 0\<rparr>)
        (demo_clock 0) (demo_ctx server_opts_default) (cache_key_of (demo_ctx server_opts_default) demo_subnet_request) 5 demo_world)
      = t # cw_refreshes demo_world"
    "\<forall>ctx' src p. cx_server_opts ctx' = rf_opts t \<and> cx_domain_rule ctx' = cx_domain_rule (demo_ctx server_opts_default) \<longrightarrow>
       cache_key_of ctx' (request_new (rf_message t) src p) = cache_key_of (demo_ctx server_opts_default) demo_subnet_request"
    by auto
  have "rf_opts t = server_opts_default\<lparr>so_is_background := True\<rparr>"
    using t(1) by (auto simp: start_refresh_def Let_def demo_ctx_def split: prod.splits)
  then show ?thesis using t(2) by (simp add: t(1))
qed

end
