(* ===== verification/Single_Flight.thy ===== *)
theory Single_Flight
  imports Cache_Mw
begin

text \<open>
  The folding of concurrent queries for one key (\<open>dns_mw_cache.rs\<close>, the field \<open>inflight\<close> of the cache
  middleware and \<open>InflightCacheGuard\<close>) as a step relation. Requests are numbered; a broadcast channel
  is named by the request that created it. The steps are the atomic sections of the code under the lock
  of the map: to lead, to follow, to finish with a broadcast, and to be cancelled, which for a leader
  means that its guard broadcasts an error.
\<close>

datatype flight_state =
    FS_Idle
  | FS_Leading cache_key
  | FS_Waiting cache_key nat
  | FS_Replied "(dns_response, lookup_error) result"
  | FS_Cancelled

record flight =
  fl_map :: "cache_key \<Rightarrow> nat option"
  fl_reqs :: "nat \<Rightarrow> flight_state"

definition flight_init :: flight where
  "flight_init = \<lparr>fl_map = Map.empty, fl_reqs = (\<lambda>i. FS_Idle)\<rparr>"

fun receive :: "nat \<Rightarrow> (dns_response, lookup_error) result \<Rightarrow> flight_state \<Rightarrow> flight_state" where
  "receive c r (FS_Waiting k c') = (if c' = c then FS_Replied r else FS_Waiting k c')"
| "receive c r st = st"

definition broadcast :: "cache_key \<Rightarrow> (dns_response, lookup_error) result \<Rightarrow> flight \<Rightarrow> flight" where
  "broadcast k r s =
     (case fl_map s k of
        None \<Rightarrow> s
      | Some c \<Rightarrow> \<lparr>fl_map = (fl_map s)(k := None), fl_reqs = (\<lambda>j. receive c r (fl_reqs s j))\<rparr>)"

definition set_req :: "nat \<Rightarrow> flight_state \<Rightarrow> flight \<Rightarrow> flight" where
  "set_req i st s = s\<lparr>fl_reqs := (fl_reqs s)(i := st)\<rparr>"

inductive flight_step :: "flight \<Rightarrow> flight \<Rightarrow> bool" where
  lead: "fl_reqs s i = FS_Idle \<Longrightarrow> k = ck_canon k0 \<Longrightarrow> fl_map s k = None \<Longrightarrow>
     flight_step s (set_req i (FS_Leading k) (s\<lparr>fl_map := (fl_map s)(k \<mapsto> i)\<rparr>))"
| follow: "fl_reqs s i = FS_Idle \<Longrightarrow> k = ck_canon k0 \<Longrightarrow> fl_map s k = Some c \<Longrightarrow>
     flight_step s (set_req i (FS_Waiting k c) s)"
| finish: "fl_reqs s i = FS_Leading k \<Longrightarrow> flight_step s (set_req i (FS_Replied r) (broadcast k r s))"
| drop_leader: "fl_reqs s i = FS_Leading k \<Longrightarrow>
     flight_step s (set_req i FS_Cancelled (broadcast k (Inl no_connections) s))"
| drop_follower: "fl_reqs s i = FS_Waiting k c \<Longrightarrow> flight_step s (set_req i FS_Cancelled s)"

inductive flight_reachable :: "flight \<Rightarrow> bool" where
  flight_start: "flight_reachable flight_init"
| flight_next: "flight_reachable s \<Longrightarrow> flight_step s t \<Longrightarrow> flight_reachable t"

section \<open>The invariant\<close>

text \<open>The map and the leaders agree, and every follower waits on the channel of the leader of its
  key.\<close>

definition flight_inv :: "flight \<Rightarrow> bool" where
  "flight_inv s \<longleftrightarrow>
     (\<forall>k i. fl_map s k = Some i \<longleftrightarrow> fl_reqs s i = FS_Leading k) \<and>
     (\<forall>j k c. fl_reqs s j = FS_Waiting k c \<longrightarrow> fl_map s k = Some c)"

lemma receive_eqs [simp]:
  "receive c r st = FS_Leading k \<longleftrightarrow> st = FS_Leading k"
  "receive c r st = FS_Waiting k c' \<longleftrightarrow> st = FS_Waiting k c' \<and> c' \<noteq> c"
  by (cases st; auto)+

lemma flight_invD:
  "flight_inv s \<Longrightarrow> fl_map s k = Some i \<longleftrightarrow> fl_reqs s i = FS_Leading k"
  "flight_inv s \<Longrightarrow> fl_reqs s j = FS_Waiting k c \<Longrightarrow> fl_map s k = Some c"
  by (simp_all add: flight_inv_def)

lemma flight_inv_end:
  assumes inv: "flight_inv s" and lead: "fl_reqs s i = FS_Leading k"
    and st: "\<And>k. st \<noteq> FS_Leading k" "\<And>k c. st \<noteq> FS_Waiting k c"
  shows "flight_inv (set_req i st (broadcast k r s))"
proof -
  define t where "t = set_req i st (broadcast k r s)"
  have m: "fl_map s k = Some i" using flight_invD(1) [OF inv] lead by simp
  have map: "fl_map t = (fl_map s)(k := None)" and reqs: "fl_reqs t = (\<lambda>j. receive i r (fl_reqs s j))(i := st)"
    by (simp_all add: t_def set_req_def broadcast_def m)
  have "fl_map t k' = Some j \<longleftrightarrow> fl_reqs t j = FS_Leading k'" for k' j
  proof (cases "k' = k")
    case True
    then show ?thesis using flight_invD(1) [OF inv, of k j] m st by (auto simp: map reqs)
  next
    case False
    then have "fl_map s k' \<noteq> Some i" using flight_invD(1) [OF inv, of k' i] lead by simp
    then show ?thesis using False flight_invD(1) [OF inv, of k' j] st by (auto simp: map reqs)
  qed
  moreover have "fl_map t k' = Some c" if w: "fl_reqs t j = FS_Waiting k' c" for j k' c
  proof -
    have "fl_reqs s j = FS_Waiting k' c" "c \<noteq> i" using w st by (auto simp: reqs split: if_splits)
    then show ?thesis using flight_invD(2) [OF inv, of j k' c] m by (auto simp: map)
  qed
  ultimately show ?thesis by (simp add: flight_inv_def t_def)
qed

lemma flight_step_inv: "flight_step s t \<Longrightarrow> flight_inv s \<Longrightarrow> flight_inv t"
proof (induction rule: flight_step.induct)
  case (lead s i k k0)
  have "fl_map s k' \<noteq> Some i" "fl_reqs s j \<noteq> FS_Leading k" for k' j
    using lead flight_invD(1) [OF lead.prems, of k' i] flight_invD(1) [OF lead.prems, of k j] by auto
  then show ?case
    using lead flight_invD(1) [OF lead.prems] flight_invD(2) [OF lead.prems]
    unfolding flight_inv_def by (auto simp: set_req_def split: if_splits) force
next
  case (follow s i k k0 c)
  then show ?case by (auto simp: flight_inv_def set_req_def split: if_splits)
next
  case (finish s i k r)
  then show ?case by (intro flight_inv_end) auto
next
  case (drop_leader s i k)
  then show ?case by (intro flight_inv_end) auto
next
  case (drop_follower s i k c)
  then show ?case by (auto simp: flight_inv_def set_req_def split: if_splits)
qed

lemma flight_reachable_inv: "flight_reachable s \<Longrightarrow> flight_inv s"
  by (induction rule: flight_reachable.induct)
    (auto simp: flight_init_def intro: flight_step_inv, simp add: flight_inv_def)

section \<open>Properties\<close>

text \<open>C19: at any moment at most one request for a key runs the rest of the chain, and a request that
  waits for a key has such a leader: nobody waits for an answer nobody is fetching.\<close>

theorem one_lookup_per_key:
  assumes "flight_reachable s"
  shows "(fl_reqs s i = FS_Leading k \<longrightarrow> fl_reqs s j = FS_Leading k \<longrightarrow> i = j) \<and>
    (fl_reqs s j = FS_Waiting k c \<longrightarrow> fl_reqs s c = FS_Leading k)"
  using flight_reachable_inv [OF assms] unfolding flight_inv_def by (metis option.inject)

definition demo_flight :: flight where
  "demo_flight = set_req 1 (FS_Waiting (ck_canon demo_key) 0)
     (set_req 0 (FS_Leading (ck_canon demo_key)) (flight_init\<lparr>fl_map := (fl_map flight_init)(ck_canon demo_key \<mapsto> 0)\<rparr>))"

lemma demo_flight_reachable: "flight_reachable demo_flight"
  unfolding demo_flight_def
proof (rule flight_next [OF flight_next [OF flight_start]])
  show "flight_step flight_init (set_req 0 (FS_Leading (ck_canon demo_key))
      (flight_init\<lparr>fl_map := (fl_map flight_init)(ck_canon demo_key \<mapsto> 0)\<rparr>))"
    by (rule lead [OF _ refl]) (simp_all add: flight_init_def)
qed (rule follow [OF _ refl], simp_all add: set_req_def flight_init_def)

theorem one_lookup_per_key_witness:
  "fl_reqs demo_flight 1 = FS_Waiting (ck_canon demo_key) 0 \<and> fl_reqs demo_flight 0 = FS_Leading (ck_canon demo_key)"
  using one_lookup_per_key [OF demo_flight_reachable, of 0 "ck_canon demo_key" 1 0]
  by (simp add: demo_flight_def set_req_def)

text \<open>C25: every waiting request is answered. Whatever step the system makes, a waiting request still
  waits on a leader that still runs, or it has been answered, or it was cancelled itself; the step that
  ends its leader, by success, by an error or by cancellation, is the one that answers it. And the
  leader can always make that step.\<close>

theorem followers_are_answered:
  assumes "flight_reachable s" "fl_reqs s j = FS_Waiting k c"
  shows "(\<forall>t. flight_step s t \<longrightarrow>
      (fl_reqs t j = FS_Waiting k c \<and> fl_reqs t c = FS_Leading k) \<or>
      (\<exists>r. fl_reqs t j = FS_Replied r \<and> (fl_reqs t c = FS_Replied r \<or> fl_reqs t c = FS_Cancelled \<and> r = Inl no_connections)) \<or>
      fl_reqs t j = FS_Cancelled) \<and>
    (\<forall>r. \<exists>t. flight_step s t \<and> fl_reqs t c = FS_Replied r \<and> fl_reqs t j = FS_Replied r)"
proof -
  have inv: "flight_inv s" by (rule flight_reachable_inv [OF assms(1)])
  have c: "fl_map s k = Some c" "fl_reqs s c = FS_Leading k" "j \<noteq> c"
    using flight_invD(2) [OF inv assms(2)] flight_invD(1) [OF inv, of k c] assms(2) by auto
  have fin: "fl_reqs (set_req c st (broadcast k r s)) j = FS_Replied r" for st r
    using c assms(2) by (simp add: set_req_def broadcast_def)
  have "(fl_reqs t j = FS_Waiting k c \<and> fl_reqs t c = FS_Leading k) \<or>
      (\<exists>r. fl_reqs t j = FS_Replied r \<and> (fl_reqs t c = FS_Replied r \<or> fl_reqs t c = FS_Cancelled \<and> r = Inl no_connections)) \<or>
      fl_reqs t j = FS_Cancelled"
    if "flight_step s t" for t
    using that
  proof (cases rule: flight_step.cases)
    case (lead i k' k0)
    then show ?thesis using assms(2) c by (auto simp: set_req_def)
  next
    case (follow i k' k0 c')
    then show ?thesis using assms(2) c by (auto simp: set_req_def)
  next
    case (finish i k' r)
    have i: "fl_map s k' = Some i" using finish flight_invD(1) [OF inv] by simp
    then have "i = c" if "k' = k" using c(1) that by simp
    moreover note i
    ultimately show ?thesis
      using finish fin [of "FS_Replied r" r] assms(2) c
      by (cases "i = c") (auto simp: set_req_def broadcast_def)
  next
    case (drop_leader i k')
    have "fl_map s k' = Some i" using drop_leader flight_invD(1) [OF inv] by simp
    then show ?thesis
      using drop_leader fin [of FS_Cancelled "Inl no_connections"] assms(2) c
      by (cases "i = c") (auto simp: set_req_def broadcast_def)
  next
    case (drop_follower i k' c')
    then show ?thesis using assms(2) c by (auto simp: set_req_def)
  qed
  moreover have "flight_step s (set_req c (FS_Replied r) (broadcast k r s))" for r
    using c(2) by (rule flight_step.finish)
  ultimately show ?thesis using fin by (fastforce simp: set_req_def)
qed

theorem followers_are_answered_witness:
  "\<exists>t. flight_step demo_flight t \<and> fl_reqs t 0 = FS_Replied (Inl no_connections) \<and> fl_reqs t 1 = FS_Replied (Inl no_connections)"
  using followers_are_answered [OF demo_flight_reachable, of 1 "ck_canon demo_key" 0]
  by (simp add: demo_flight_def set_req_def)

end
