(* ===== verification/Name_Wire.thy ===== *)
theory Name_Wire
  imports Domain_Name Dns_Types
begin

text \<open>
  Domain names on the wire (\<open>Name::emit\<close> and \<open>read_inner\<close> in
  \<open>hickory-dns/crates/proto/src/rr/domain/name.rs\<close>, with the parts of the encoder and the decoder of
  \<open>serialize/binary\<close> they use): the encoder's buffer with its table of name pointers, the compression
  of a name against the names before it, and the reader that follows compression pointers. The reader
  is a loop with fuel; it is shown that the number of iterations is bounded, that what it returns is
  well-formed, and that it reads back what the encoder writes.
\<close>

text \<open>The octets of a string; a character of the model is one octet of the text.\<close>

definition as_bytes :: "string \<Rightarrow> u8 list" where
  "as_bytes s = List.map (\<lambda>c. word_of_nat (of_char c)) s"

definition from_bytes :: "u8 list \<Rightarrow> string" where
  "from_bytes bs = List.map (\<lambda>b. char_of (unat b)) bs"

section \<open>Reading\<close>

datatype decode_error =
    DE_InsufficientBytes
  | DE_PointerNotPriorToLabel nat u16
  | DE_LabelOverlapsWithOther nat nat
  | DE_UnrecognizedLabelCode u8
  | DE_DomainNameTooLong nat

definition name_len :: "dname \<Rightarrow> nat" where
  "name_len n = (if n_labels n = [] then 1 else length (n_labels n)) + data_len n"

definition finish_name :: "dname \<Rightarrow> nat \<Rightarrow> (dname \<times> nat, decode_error) result" where
  "finish_name n end_index =
     (if 255 \<le> name_len n then Inl (DE_DomainNameTooLong (name_len n)) else Inr (n, end_index))"

text \<open>\<open>ret\<close> is where the reader of the message goes on once a pointer has been followed.\<close>

fun read_loop ::
    "nat \<Rightarrow> u8 list \<Rightarrow> nat \<Rightarrow> nat \<Rightarrow> nat option \<Rightarrow> nat option \<Rightarrow> dname \<Rightarrow> (dname \<times> nat, decode_error) result option" where
  "read_loop 0 buf index name_start ptr_max_idx ret name = None"
| "read_loop (Suc fuel) buf index name_start ptr_max_idx ret name =
     (case option_filter (\<lambda>max_idx. max_idx \<le> index) ptr_max_idx of
        Some max_idx \<Rightarrow> Some (Inl (DE_LabelOverlapsWithOther name_start max_idx))
      | None \<Rightarrow>
          if length buf \<le> index then Some (Inl DE_InsufficientBytes)
          else
            (let byte = buf ! index in
             if byte = 0 then Some (finish_name (set_fqdn True name) (unwrap_or ret (index + 1)))
             else if byte AND 0xC0 = 0xC0 then
               (case read_u16 (drop index buf) of
                  None \<Rightarrow> Some (Inl DE_InsufficientBytes)
                | Some (u, rest) \<Rightarrow>
                    (let location = u AND 0x3FFF in
                     if unat location < name_start then
                       read_loop fuel buf (unat location) (unat location) (Some name_start)
                         (Some (unwrap_or ret (index + 2))) name
                     else Some (Inl (DE_PointerNotPriorToLabel index location))))
             else if byte AND 0xC0 = 0 then
               (let len = unat byte in
                if length buf < index + 1 + len then Some (Inl DE_InsufficientBytes)
                else
                  (case extend_name (from_bytes (take len (drop (index + 1) buf))) name of
                     Inl e \<Rightarrow> Some (Inl (DE_DomainNameTooLong len))
                   | Inr name' \<Rightarrow>
                       if 255 \<le> data_len name' then Some (Inl (DE_DomainNameTooLong (name_len name')))
                       else read_loop fuel buf (index + 1 + len) name_start ptr_max_idx ret name'))
             else Some (Inl (DE_UnrecognizedLabelCode byte))))"

text \<open>One iteration for each label, at most 127 of them, one for each pointer, each of which goes to a
  lower index, and one for the end.\<close>

definition read_name :: "u8 list \<Rightarrow> nat \<Rightarrow> (dname \<times> nat, decode_error) result option" where
  "read_name buf index = read_loop (index + 129) buf index index None None name_new"

section \<open>Writing\<close>

datatype name_encoding = NE_Compressed | NE_Uncompressed | NE_UncompressedLowercase

datatype emit_error =
    EE_MaxBufferSizeExceeded nat
  | EE_CharacterDataTooLong nat
  | EE_LabelBytesTooLong nat
  | EE_DomainNameTooLong nat
  | EE_Message string

record encoder =
  en_offset :: nat
  en_buffer :: "u8 list"
  en_max_size :: nat
  en_name_pointers :: "(nat \<times> u8 list) list"
  en_name_encoding :: name_encoding

definition encoder_new :: encoder where
  "encoder_new =
     \<lparr>en_offset = 0, en_buffer = [], en_max_size = 65535, en_name_pointers = [], en_name_encoding = NE_Compressed\<rparr>"

text \<open>An error comes with the encoder as it is at that moment: what was written before stays written.\<close>

type_synonym emitter = "encoder \<Rightarrow> (encoder, emit_error \<times> encoder) result"

definition buffer_write :: "nat \<Rightarrow> u8 list \<Rightarrow> emitter" where
  "buffer_write offset bytes en =
     (let old = en_buffer en in
      if en_max_size en < offset + length bytes then Inl (EE_MaxBufferSizeExceeded (en_max_size en), en)
      else if offset = length old then Inr (en\<lparr>en_buffer := old @ bytes\<rparr>)
      else
        (let padded = old @ replicate (offset + length bytes - length old) 0
         in Inr (en\<lparr>en_buffer := take offset padded @ bytes @ drop (offset + length bytes) padded\<rparr>)))"

definition write_slice :: "u8 list \<Rightarrow> emitter" where
  "write_slice bytes en =
     result_bind (buffer_write (en_offset en) bytes en)
       (\<lambda>en'. Inr (en'\<lparr>en_offset := en_offset en' + length bytes\<rparr>))"

definition emit_byte :: "u8 \<Rightarrow> emitter" where
  "emit_byte b en = write_slice [b] en"

definition emit_character_data :: "u8 list \<Rightarrow> emitter" where
  "emit_character_data bytes en =
     (if 255 < length bytes then Inl (EE_CharacterDataTooLong (length bytes), en)
      else result_bind (emit_byte (of_nat (length bytes)) en) (write_slice bytes))"

definition trim_buffer :: "encoder \<Rightarrow> encoder" where
  "trim_buffer en =
     en\<lparr>en_buffer := take (en_offset en) (en_buffer en),
        en_name_pointers := List.filter (\<lambda>(start, _). start < en_offset en) (en_name_pointers en)\<rparr>"

definition slice_of :: "nat \<Rightarrow> nat \<Rightarrow> encoder \<Rightarrow> u8 list" where
  "slice_of start end_index en = take (end_index - start) (drop start (en_buffer en))"

definition store_label_pointer :: "nat \<Rightarrow> nat \<Rightarrow> encoder \<Rightarrow> encoder" where
  "store_label_pointer start end_index en =
     (if en_offset en < 0x3FFF then
        en\<lparr>en_name_pointers := en_name_pointers en @ [(start, slice_of start end_index en)]\<rparr>
      else en)"

definition get_label_pointer :: "nat \<Rightarrow> nat \<Rightarrow> encoder \<Rightarrow> u16 option" where
  "get_label_pointer start end_index en =
     find_map (\<lambda>(match_start, matcher).
         if matcher = slice_of start end_index en then Some (of_nat match_start) else None)
       (en_name_pointers en)"

text \<open>The first loop writes the labels and notes where each begins; the second looks for a name that was
  written before.\<close>

fun write_labels :: "label list \<Rightarrow> encoder \<Rightarrow> (nat list \<times> encoder, emit_error \<times> encoder) result" where
  "write_labels [] en = Inr ([], en)"
| "write_labels (l # ls) en =
     (if 63 < length l then Inl (EE_LabelBytesTooLong (length l), en)
      else
        result_bind (emit_character_data (as_bytes l) en)
          (\<lambda>en'. result_bind (write_labels ls en') (\<lambda>(starts, en''). Inr (en_offset en # starts, en''))))"

fun compress :: "bool \<Rightarrow> nat \<Rightarrow> nat list \<Rightarrow> encoder \<Rightarrow> (bool \<times> encoder, emit_error \<times> encoder) result" where
  "compress compression last_index [] en = Inr (False, en)"
| "compress compression last_index (label_idx # rest) en =
     (case get_label_pointer label_idx last_index en of
        Some loc \<Rightarrow>
          if \<not> compression then compress compression last_index rest en
          else if loc AND 0xC000 = 0 then
            result_bind (write_slice (emit_u16 (0xC000 OR loc)) (trim_buffer (en\<lparr>en_offset := label_idx\<rparr>)))
              (\<lambda>en'. Inr (True, en'))
          else compress compression last_index rest (store_label_pointer label_idx last_index en)
      | None \<Rightarrow> compress compression last_index rest (store_label_pointer label_idx last_index en))"

definition emit_name :: "dname \<Rightarrow> emitter" where
  "emit_name n en =
     (let name_ref = (if en_name_encoding en = NE_UncompressedLowercase then to_lowercase n else n);
          compression = (en_name_encoding en = NE_Compressed);
          buf_len = length (en_buffer en)
      in result_bind (write_labels (n_labels name_ref) en)
           (\<lambda>(labels_written, en1).
              result_bind (compress compression (en_offset en1) labels_written en1)
                (\<lambda>(pointer, en2).
                   if pointer then Inr en2
                   else
                     result_bind (emit_byte 0 en2)
                       (\<lambda>en3.
                          (let n_octets = length (en_buffer en3) - buf_len in
                           if 255 < n_octets then Inl (EE_DomainNameTooLong n_octets, en3) else Inr en3)))))"

fun emit_names :: "dname list \<Rightarrow> emitter" where
  "emit_names [] en = Inr en"
| "emit_names (n # ns) en = result_bind (emit_name n en) (emit_names ns)"

fun read_names :: "nat \<Rightarrow> u8 list \<Rightarrow> nat \<Rightarrow> (dname list \<times> nat) option" where
  "read_names 0 buf index = Some ([], index)"
| "read_names (Suc k) buf index =
     (case read_name buf index of
        Some (Inr (n, index')) \<Rightarrow> map_option (\<lambda>(ns, end_index). (n # ns, end_index)) (read_names k buf index')
      | _ \<Rightarrow> None)"

section \<open>Lemmas on the reader\<close>

lemma small_byte: "(b :: u8) AND 0xC0 = 0 \<Longrightarrow> unat b \<le> 63"
proof -
  assume a: "b AND 0xC0 = 0"
  have "take_bit 6 b = b"
  proof (rule bit_eqI)
    fix n assume "possible_bit TYPE(8 word) n"
    then have n: "n < 8" by simp
    show "bit (take_bit 6 b) n = bit b n"
    proof (cases "n < 6")
      case False
      then have "n = 6 \<or> n = 7" using n by linarith
      moreover have "\<not> bit (b AND 0xC0) n" using a by simp
      ultimately have "\<not> bit b n" by (auto simp: bit_simps)
      then show ?thesis using False by (simp add: bit_simps)
    qed (simp add: bit_simps)
  qed
  then have "unat b < 2 ^ 6" by (metis take_bit_nat_less_exp unsigned_take_bit_eq)
  then show ?thesis by simp
qed

lemma length_from_bytes [simp]: "length (from_bytes bs) = length bs"
  by (simp add: from_bytes_def)

lemma length_as_bytes [simp]: "length (as_bytes s) = length s"
  by (simp add: as_bytes_def)

lemma from_as_bytes [simp]: "from_bytes (as_bytes s) = s"
proof -
  have "char_of (unat (word_of_nat (of_char c) :: u8)) = c" for c
    by (simp add: unat_of_nat)
  then show ?thesis by (simp add: from_bytes_def as_bytes_def comp_def)
qed

lemma as_bytes_inject [simp]: "as_bytes s = as_bytes t \<longleftrightarrow> s = t"
  by (metis from_as_bytes)

lemma data_len_snoc: "data_len (n\<lparr>n_labels := ls @ [l]\<rparr>) = data_len (n\<lparr>n_labels := ls\<rparr>) + length l"
  by (simp add: data_len_def)

lemma encoded_len_extend: "extend_name l n = Inr n' \<Longrightarrow> encoded_len n' = encoded_len n + length l + 1 \<and> encoded_len n' \<le> 255"
  by (auto simp: extend_name_def Let_def encoded_len_def data_len_def max_name_length_def split: if_splits)

text \<open>The loop always ends: its measure is the start of the name, which every pointer lowers, and the
  room that is left for labels.\<close>

lemma read_loop_terminates:
  "name_start + (255 - encoded_len name) div 2 < fuel \<Longrightarrow>
     read_loop fuel buf index name_start ptr_max_idx ret name \<noteq> None"
proof (induction fuel arbitrary: index name_start ptr_max_idx ret name)
  case 0
  then show ?case by simp
next
  case (Suc fuel)
  have jump: "read_loop fuel buf i t m r name \<noteq> None" if "t < name_start" for i t m r
    using Suc.IH [of t name] Suc.prems that by simp
  have extend: "read_loop fuel buf i name_start m r name' \<noteq> None"
    if "extend_name l name = Inr name'" "l \<noteq> []" for i m r l name'
  proof -
    have "length l \<noteq> 0" using that(2) by simp
    then have "encoded_len name + 2 \<le> encoded_len name'" "encoded_len name' \<le> 255"
      using encoded_len_extend [OF that(1)] by linarith+
    then have "(255 - encoded_len name') div 2 < (255 - encoded_len name) div 2" by linarith
    then have "name_start + (255 - encoded_len name') div 2 < fuel" using Suc.prems by linarith
    then show ?thesis by (rule Suc.IH)
  qed
  have ne: "from_bytes (take (unat b) (drop (index + 1) buf)) \<noteq> []"
    if "b \<noteq> 0" "\<not> length buf < index + 1 + unat b" for b :: u8
  proof -
    have "0 < unat b" using that(1) by (simp add: unat_gt_0)
    then have "length (from_bytes (take (unat b) (drop (index + 1) buf))) \<noteq> 0" using that(2) by simp
    then show ?thesis by fastforce
  qed
  show ?case
    using jump extend [OF _ ne] by (auto simp: Let_def split: option.split sum.split)
qed

lemma read_loop_more_fuel:
  "read_loop fuel buf index ns m ret name = Some r \<Longrightarrow> read_loop (fuel + k) buf index ns m ret name = Some r"
proof (induction fuel arbitrary: index ns m ret name)
  case 0
  then show ?case by simp
next
  case (Suc fuel)
  show ?case
    using Suc.prems Suc.IH
    by (auto simp: Let_def split: option.splits sum.splits if_splits)
qed

lemma read_name_eqI:
  assumes "read_loop fuel buf index index None None name_new = Some r"
  shows "read_name buf index = Some r"
proof -
  have "encoded_len name_new = 1" by (simp add: encoded_len_def data_len_def name_new_def)
  then obtain r' where r': "read_name buf index = Some r'"
    using read_loop_terminates [of index name_new "index + 129" buf index None None] by (auto simp: read_name_def)
  have "read_loop (fuel + (index + 129)) buf index index None None name_new = Some r"
    by (rule read_loop_more_fuel [OF assms])
  moreover have "read_loop ((index + 129) + fuel) buf index index None None name_new = Some r'"
    using read_loop_more_fuel r' by (simp add: read_name_def)
  ultimately show ?thesis using r' by (simp add: add.commute)
qed

lemma read_loop_wf:
  assumes "read_loop fuel buf index ns m ret name = Some (Inr (n, e))" "wf_name name"
    and "case ret of Some r \<Rightarrow> start < r \<and> r \<le> length buf | None \<Rightarrow> start \<le> index"
  shows "wf_name n \<and> n_fqdn n \<and> start < e \<and> e \<le> length buf"
  using assms
proof (induction fuel arbitrary: index ns m ret name)
  case 0
  then show ?case by simp
next
  case (Suc fuel)
  let ?b = "buf ! index"
  have idx: "index < length buf" and go: "option_filter (\<lambda>max_idx. max_idx \<le> index) m = None"
    using Suc.prems(1) by (auto split: option.splits if_splits)
  consider "?b = 0" | u rest where "?b \<noteq> 0" "?b AND 0xC0 = 0xC0" "read_u16 (drop index buf) = Some (u, rest)"
      "read_loop fuel buf (unat (u AND 0x3FFF)) (unat (u AND 0x3FFF)) (Some ns) (Some (unwrap_or ret (index + 2))) name = Some (Inr (n, e))"
    | name' where "?b \<noteq> 0" "?b AND 0xC0 = 0" "index + 1 + unat ?b \<le> length buf"
      "extend_name (from_bytes (take (unat ?b) (drop (index + 1) buf))) name = Inr name'"
      "read_loop fuel buf (index + 1 + unat ?b) ns m ret name' = Some (Inr (n, e))"
    using Suc.prems(1) idx go
    by (auto simp: Let_def split: option.splits sum.splits if_splits)
  then show ?case
  proof cases
    case 1
    then have "finish_name (set_fqdn True name) (unwrap_or ret (index + 1)) = Inr (n, e)"
      using Suc.prems(1) idx go by simp
    then show ?thesis using Suc.prems(2, 3) idx
      by (auto simp: finish_name_def set_fqdn_def wf_name_def encoded_len_def data_len_def split: if_splits option.splits)
  next
    case 2
    have "index + 2 \<le> length buf"
      using 2(3) idx by (cases "drop index buf" rule: read_u16.cases) (auto simp: drop_eq_Nil dest: arg_cong [where f = length])
    then show ?thesis using Suc.IH [OF 2(4) Suc.prems(2)] Suc.prems(3) idx by (auto split: option.splits)
  next
    case 3
    have b: "unat ?b \<le> 63" "0 < unat ?b" using small_byte [OF 3(2)] 3(1) by (simp_all add: unat_gt_0)
    have "length (from_bytes (take (unat ?b) (drop (index + 1) buf))) = unat ?b" using 3(3) by simp
    then have "wf_label (from_bytes (take (unat ?b) (drop (index + 1) buf)))"
      using b by (metis length_0_conv less_irrefl wf_label_def)
    then have "wf_name name'" using extend_name_Inr 3(4) Suc.prems(2)
      by (auto simp: extend_name_def Let_def wf_name_def encoded_len_def data_len_def max_name_length_def split: if_splits)
    then show ?thesis using Suc.IH [OF 3(5)] Suc.prems(3) by (auto split: option.splits)
  qed
qed

section \<open>Properties of the reader\<close>

text \<open>Reading a name from any octets ends after at most one iteration for every octet before the name and
  129 more, although the octets may send it from pointer to pointer; a longer run would give the same
  result.\<close>

theorem read_name_terminates:
  "\<exists>r. \<forall>k. read_loop (index + 129 + k) buf index index None None name_new = Some r"
proof -
  have "encoded_len name_new = 1" by (simp add: encoded_len_def data_len_def name_new_def)
  then obtain r where "read_loop (index + 129) buf index index None None name_new = Some r"
    using read_loop_terminates [of index name_new "index + 129" buf index None None] by auto
  then show ?thesis using read_loop_more_fuel by blast
qed

text \<open>Whatever the octets are, a name that is read is well-formed: it has labels of one to 63 octets, takes
  at most 255 octets and is fully qualified. The reader of the message goes on behind the start of the
  name and not behind the end of the octets.\<close>

theorem read_name_wf:
  assumes "read_name buf index = Some (Inr (n, e))"
  shows "wf_name n \<and> n_fqdn n \<and> index < e \<and> e \<le> length buf"
proof -
  have "wf_name name_new" by (simp add: wf_name_def name_new_def encoded_len_def data_len_def max_name_length_def)
  then show ?thesis using read_loop_wf [where ret = None and start = index] assms by (simp add: read_name_def)
qed

theorem read_name_wf_witness:
  "wf_name \<lparr>n_labels = [''ab'', ''c''], n_fqdn = True\<rparr> \<and>
   read_name [1, 0x63, 0, 2, 0x61, 0x62, 0xC0, 0] 3 = Some (Inr (\<lparr>n_labels = [''ab'', ''c''], n_fqdn = True\<rparr>, 8))"
proof -
  have "read_loop 4 [1, 0x63, 0, 2, 0x61, 0x62, 0xC0, 0] 3 3 None None name_new =
      Some (Inr (\<lparr>n_labels = [''ab'', ''c''], n_fqdn = True\<rparr>, 8))"
    by code_simp
  then have "read_name [1, 0x63, 0, 2, 0x61, 0x62, 0xC0, 0] 3 = Some (Inr (\<lparr>n_labels = [''ab'', ''c''], n_fqdn = True\<rparr>, 8))"
    by (rule read_name_eqI)
  then show ?thesis using read_name_wf by blast
qed

section \<open>Names in a buffer\<close>

text \<open>\<open>names_at buf lo index ls e\<close>: from \<open>index\<close> on, in a run of labels that began at \<open>lo\<close> and ends at \<open>e\<close>,
  the buffer has the labels \<open>ls\<close>; a pointer at the end of the run leads to a run wholly before \<open>lo\<close>.\<close>

inductive names_at :: "u8 list \<Rightarrow> nat \<Rightarrow> nat \<Rightarrow> label list \<Rightarrow> nat \<Rightarrow> bool" for buf where
  at_end: "index < length buf \<Longrightarrow> buf ! index = 0 \<Longrightarrow> names_at buf lo index [] (Suc index)"
| at_label: "wf_label l \<Longrightarrow> index + 1 + length l \<le> length buf \<Longrightarrow> buf ! index = of_nat (length l) \<Longrightarrow>
     take (length l) (drop (index + 1) buf) = as_bytes l \<Longrightarrow>
     names_at buf lo (index + 1 + length l) ls e \<Longrightarrow> names_at buf lo index (l # ls) e"
| at_pointer: "index < length buf \<Longrightarrow> read_u16 (drop index buf) = Some (0xC000 OR of_nat t, rest) \<Longrightarrow>
     t < 0x4000 \<Longrightarrow> t < lo \<Longrightarrow> names_at buf t t ls e' \<Longrightarrow> e' \<le> lo \<Longrightarrow> names_at buf lo index ls (index + 2)"

lemma read_u16_drop: "read_u16 (drop index buf) = Some (u, rest) \<Longrightarrow>
    index + 2 \<le> length buf \<and> u = push_bit 8 (ucast (buf ! index)) OR ucast (buf ! (index + 1))"
proof -
  assume a: "read_u16 (drop index buf) = Some (u, rest)"
  have len: "index + 2 \<le> length buf"
  proof (rule ccontr)
    assume "\<not> ?thesis"
    then have "length (drop index buf) < 2" by simp
    then show False using a by (cases "drop index buf" rule: read_u16.cases) auto
  qed
  then have "drop index buf = buf ! index # buf ! (index + 1) # drop (index + 2) buf"
    by (metis Cons_nth_drop_Suc Suc_eq_plus1 add_2_eq_Suc' add_lessD1 add_Suc_right less_eq_Suc_le le_simps(3) numeral_2_eq_2 one_add_one plus_1_eq_Suc)
  then show ?thesis using a len by simp
qed

lemma names_at_end: "names_at buf lo index ls e \<Longrightarrow> index < e \<and> e \<le> length buf"
  by (induction rule: names_at.induct) (auto dest: read_u16_drop)

lemma names_at_lo: "names_at buf lo index ls e \<Longrightarrow> lo \<le> lo' \<Longrightarrow> names_at buf lo' index ls e"
proof (induction rule: names_at.induct)
  case (at_pointer index t rest lo ls e')
  then show ?case by (intro names_at.at_pointer [where t = t and e' = e' and rest = rest]) simp_all
qed (auto intro: names_at.intros)

lemma names_at_append: "names_at buf lo index ls e \<Longrightarrow> names_at (buf @ ys) lo index ls e"
proof (induction rule: names_at.induct)
  case (at_pointer index t rest lo ls e')
  have "index + 2 \<le> length buf" using read_u16_drop [OF at_pointer.hyps(2)] by simp
  then have "read_u16 (drop index (buf @ ys)) = Some (0xC000 OR of_nat t, rest @ ys)"
    using at_pointer.hyps(2) by (cases "drop index buf" rule: read_u16.cases) auto
  then show ?case using at_pointer by (intro names_at.at_pointer [where t = t and e' = e']) simp_all
qed (auto intro!: names_at.intros simp: nth_append)

lemma list_all_wf: "names_at buf lo index ls e \<Longrightarrow> list_all wf_label ls"
  by (induction rule: names_at.induct) simp_all

section \<open>Reading what is in a buffer\<close>

lemma label_byte:
  assumes "wf_label l"
  shows "(of_nat (length l) :: u8) \<noteq> 0" "(of_nat (length l) :: u8) AND 0xC0 = 0" "unat (of_nat (length l) :: u8) = length l"
proof -
  have n: "0 < length l" "length l \<le> 63" using assms by (auto simp: wf_label_def)
  show u: "unat (of_nat (length l) :: u8) = length l" using n by (simp add: unat_of_nat)
  then show "(of_nat (length l) :: u8) \<noteq> 0" using n by auto
  have small: "take_bit 6 (of_nat (length l) :: u8) = of_nat (length l)"
    by (rule word_unat_eq_iff [THEN iffD2]) (use u n in \<open>simp add: unsigned_take_bit_eq take_bit_nat_eq_self\<close>)
  show "(of_nat (length l) :: u8) AND 0xC0 = 0"
  proof (rule bit_eqI)
    fix k assume "possible_bit TYPE(8 word) k"
    have "bit (of_nat (length l) :: u8) k \<Longrightarrow> k < 6" using small by (metis bit_take_bit_iff)
    moreover have "k < 6 \<Longrightarrow> \<not> bit (0xC0 :: u8) k"
    proof -
      assume "k < 6"
      then have "k = 0 \<or> k = 1 \<or> k = 2 \<or> k = 3 \<or> k = 4 \<or> k = 5" by linarith
      then show ?thesis by (elim disjE) simp_all
    qed
    ultimately show "bit ((of_nat (length l) :: u8) AND 0xC0) k = bit 0 k" by (auto simp: bit_and_iff)
  qed
qed

lemma pointer_octet:
  assumes "u = (0xC000 OR of_nat t :: u16)" "t < 0x4000" "u = push_bit 8 (ucast a) OR ucast (b :: u8)"
  shows "(a :: u8) AND 0xC0 = 0xC0" "unat (u AND 0x3FFF) = t"
proof -
  have high: "bit a 6" "bit a 7"
  proof -
    have "bit u 14" "bit u 15" unfolding assms(1) by (simp_all add: bit_or_iff)
    then show "bit a 6" "bit a 7" unfolding assms(3)
      using bit_imp_le_length [of b 14] bit_imp_le_length [of b 15] by (auto simp: bit_simps)
  qed
  show "a AND 0xC0 = 0xC0"
  proof (rule bit_eqI)
    fix k assume "possible_bit TYPE(8 word) k"
    then have "k < 8" by simp
    then have "k = 0 \<or> k = 1 \<or> k = 2 \<or> k = 3 \<or> k = 4 \<or> k = 5 \<or> k = 6 \<or> k = 7" by linarith
    then show "bit (a AND 0xC0) k = bit (0xC0 :: u8) k" using high by (elim disjE) (simp_all add: bit_and_iff)
  qed
  have "u AND mask 14 = take_bit 14 (0xC000 OR of_nat t)" unfolding assms(1) by (simp add: take_bit_eq_mask)
  also have "\<dots> = take_bit 14 (of_nat t)" by (simp add: take_bit_or)
  finally have "u AND 0x3FFF = take_bit 14 (of_nat t)" by (simp add: mask_eq_exp_minus_1)
  then show "unat (u AND 0x3FFF) = t"
    using assms(2) by (simp only: unsigned_take_bit_eq) (simp add: unat_of_nat take_bit_nat_eq_self)
qed

lemma read_names_at:
  assumes "names_at buf lo index ls e" "case m of Some k \<Rightarrow> e \<le> k | None \<Rightarrow> True"
    and "encoded_len (name\<lparr>n_labels := n_labels name @ ls\<rparr>) \<le> 255"
  shows "\<exists>fuel. read_loop fuel buf index lo m ret name =
    Some (Inr (\<lparr>n_labels = n_labels name @ ls, n_fqdn = True\<rparr>, unwrap_or ret e))"
  using assms
proof (induction arbitrary: m ret name rule: names_at.induct)
  case (at_end index lo)
  have m: "option_filter (\<lambda>k. k \<le> index) m = None" using at_end.prems(1) by (cases m) auto
  have "255 > name_len (set_fqdn True name)"
    using at_end.prems(2) by (auto simp: name_len_def encoded_len_def data_len_def set_fqdn_def)
  then have "read_loop (Suc 0) buf index lo m ret name =
      Some (Inr (\<lparr>n_labels = n_labels name @ [], n_fqdn = True\<rparr>, unwrap_or ret (Suc index)))"
    using at_end.hyps m by (simp add: finish_name_def set_fqdn_def dname_eqI)
  then show ?case by blast
next
  case (at_label l index lo ls e)
  have m: "option_filter (\<lambda>k. k \<le> index) m = None"
    using at_label.prems(1) names_at_end [OF at_label.hyps(5)] by (cases m) auto
  define name' where "name' = name\<lparr>n_labels := n_labels name @ [l]\<rparr>"
  have len: "encoded_len name + length l + 1 \<le> 255"
    using at_label.prems(2) by (simp add: encoded_len_def data_len_def)
  have ext: "extend_name (from_bytes (take (length l) (drop (index + 1) buf))) name = Inr name'"
    using len at_label.hyps(4) by (simp add: extend_name_def name'_def max_name_length_def)
  have short: "data_len name' < 255"
    using len by (simp add: name'_def encoded_len_def data_len_def)
  obtain fuel where "read_loop fuel buf (index + 1 + length l) lo m ret name' =
      Some (Inr (\<lparr>n_labels = n_labels name' @ ls, n_fqdn = True\<rparr>, unwrap_or ret e))"
    using at_label.IH [of m name' ret] at_label.prems by (auto simp: name'_def encoded_len_def data_len_def)
  then have "read_loop (Suc fuel) buf index lo m ret name =
      Some (Inr (\<lparr>n_labels = n_labels name @ l # ls, n_fqdn = True\<rparr>, unwrap_or ret e))"
    using m at_label.hyps(2, 3) label_byte [OF at_label.hyps(1)] ext short
    by (simp add: Let_def name'_def)
  then show ?case by blast
next
  case (at_pointer index t rest lo ls e')
  have r: "index + 2 \<le> length buf"
    "(0xC000 OR of_nat t :: u16) = push_bit 8 (ucast (buf ! index)) OR ucast (buf ! (index + 1))"
    using read_u16_drop [OF at_pointer.hyps(2)] by simp_all
  note ptr = pointer_octet [OF refl at_pointer.hyps(3) r(2)]
  have nz: "buf ! index \<noteq> 0" using ptr(1) by auto
  have m: "option_filter (\<lambda>k. k \<le> index) m = None" using at_pointer.prems(1) by (cases m) auto
  obtain fuel where "read_loop fuel buf t t (Some lo) (Some (unwrap_or ret (index + 2))) name =
      Some (Inr (\<lparr>n_labels = n_labels name @ ls, n_fqdn = True\<rparr>, unwrap_or ret (index + 2)))"
    using at_pointer.IH [of "Some lo" name "Some (unwrap_or ret (index + 2))"] at_pointer.hyps(6) at_pointer.prems(2) by auto
  then have "read_loop (Suc fuel) buf index lo m ret name =
      Some (Inr (\<lparr>n_labels = n_labels name @ ls, n_fqdn = True\<rparr>, unwrap_or ret (index + 2)))"
    using m nz ptr at_pointer.hyps(1, 2, 4) by (simp add: Let_def)
  then show ?case by blast
qed

section \<open>What the encoder writes\<close>

definition label_octets :: "label list \<Rightarrow> u8 list" where
  "label_octets ls = concat (List.map (\<lambda>l. of_nat (length l) # as_bytes l) ls)"

lemma label_octets_simps [simp]:
  "label_octets [] = []" "label_octets (l # ls) = of_nat (length l) # as_bytes l @ label_octets ls"
  "label_octets (xs @ ys) = label_octets xs @ label_octets ys"
  by (simp_all add: label_octets_def)

lemma label_octets_Nil_iff [simp]: "label_octets ls = [] \<longleftrightarrow> ls = []"
  by (cases ls) simp_all

lemma label_octets_inject:
  "list_all wf_label xs \<Longrightarrow> list_all wf_label ys \<Longrightarrow> label_octets xs = label_octets ys \<Longrightarrow> xs = ys"
proof (induction xs arbitrary: ys)
  case Nil
  then show ?case by (metis label_octets_Nil_iff)
next
  case (Cons x xs)
  then obtain y zs where ys: "ys = y # zs" by (cases ys) auto
  have eq: "(of_nat (length x) :: u8) = of_nat (length y)" "as_bytes x @ label_octets xs = as_bytes y @ label_octets zs"
    using Cons.prems(3) ys by simp_all
  have len: "length x = length y"
  proof -
    have "unat (of_nat (length x) :: u8) = length x" "unat (of_nat (length y) :: u8) = length y"
      by (rule label_byte(3), use Cons.prems(1, 2) ys in simp)+
    then show ?thesis using eq(1) by metis
  qed
  then have "as_bytes x = as_bytes y \<and> label_octets xs = label_octets zs" using eq(2) by (simp add: append_eq_append_conv)
  then show ?case using Cons ys by simp
qed

lemma names_at_labels:
  assumes "names_at (A @ label_octets xs @ R) lo (length A + length (label_octets xs)) ls e" "list_all wf_label xs"
  shows "names_at (A @ label_octets xs @ R) lo (length A) (xs @ ls) e"
  using assms
proof (induction xs arbitrary: A)
  case Nil
  then show ?case by simp
next
  case (Cons x xs)
  let ?A = "A @ of_nat (length x) # as_bytes x"
  have "names_at (?A @ label_octets xs @ R) lo (length ?A) (xs @ ls) e"
    by (rule Cons.IH) (use Cons.prems in \<open>simp_all add: add.assoc\<close>)
  then show ?case using Cons.prems(2)
    by (intro append_Cons [THEN ssubst, of "\<lambda>z. names_at _ _ _ z _"] names_at.at_label) (simp_all add: nth_append)
qed

definition ready :: "encoder \<Rightarrow> bool" where
  "ready en \<longleftrightarrow>
     en_offset en = length (en_buffer en) \<and> length (en_buffer en) \<le> en_max_size en \<and> en_max_size en \<le> 65535 \<and>
     length (en_buffer en) \<le> 65535"

definition known :: "u8 list \<Rightarrow> nat \<times> u8 list \<Rightarrow> bool" where
  "known buf p \<longleftrightarrow>
     (case p of (s, bs) \<Rightarrow> \<exists>ls e. names_at buf s s ls e \<and> ls \<noteq> [] \<and> bs = label_octets ls)"

text \<open>An encoder is good when it appends and every name pointer leads to the name it stands for.\<close>

definition en_good :: "encoder \<Rightarrow> bool" where
  "en_good en \<longleftrightarrow> ready en \<and> (\<forall>p \<in> set (en_name_pointers en). known (en_buffer en) p)"

lemma known_append: "known buf p \<Longrightarrow> known (buf @ ys) p"
  by (fastforce simp: known_def intro: names_at_append)

lemma write_slice_Inr:
  assumes "write_slice bs en = Inr en'" "ready en"
  shows "en' = en\<lparr>en_buffer := en_buffer en @ bs, en_offset := length (en_buffer en) + length bs\<rparr> \<and> ready en'"
  using assms by (auto simp: write_slice_def buffer_write_def Let_def ready_def split: if_splits)

lemma emit_character_data_Inr:
  assumes "emit_character_data bs en = Inr en'" "ready en"
  shows "en' = en\<lparr>en_buffer := en_buffer en @ of_nat (length bs) # bs,
      en_offset := length (en_buffer en) + Suc (length bs)\<rparr> \<and> ready en'"
proof -
  obtain en1 where en1: "write_slice [of_nat (length bs)] en = Inr en1" "write_slice bs en1 = Inr en'"
    using assms(1) by (auto simp: emit_character_data_def emit_byte_def result_bind_Inr_iff split: if_splits)
  note a = write_slice_Inr [OF en1(1) assms(2)]
  show ?thesis using a write_slice_Inr [OF en1(2)] by auto
qed

fun starts_of :: "nat \<Rightarrow> label list \<Rightarrow> nat list" where
  "starts_of i [] = []"
| "starts_of i (l # ls) = i # starts_of (i + Suc (length l)) ls"

lemma write_labels_Inr:
  assumes "write_labels ls en = Inr (starts, en')" "ready en"
  shows "starts = starts_of (en_offset en) ls \<and> ready en' \<and>
    en' = en\<lparr>en_buffer := en_buffer en @ label_octets ls, en_offset := length (en_buffer en) + length (label_octets ls)\<rparr>"
  using assms
proof (induction ls arbitrary: en starts)
  case Nil
  then show ?case by (simp add: ready_def)
next
  case (Cons l ls)
  obtain en1 starts1 where s: "emit_character_data (as_bytes l) en = Inr en1" "write_labels ls en1 = Inr (starts1, en')"
    "starts = en_offset en # starts1"
    using Cons.prems(1) by (auto simp: result_bind_Inr_iff split: if_splits)
  note a = emit_character_data_Inr [OF s(1) Cons.prems(2)]
  have "en_offset en = length (en_buffer en)" using Cons.prems(2) by (simp add: ready_def)
  then show ?case using Cons.IH [OF s(2)] a s(3) by auto
qed

text \<open>The entries that a name adds to the table while it is written: one for every proper end of it.\<close>

definition pending :: "nat \<Rightarrow> label list \<Rightarrow> (nat \<times> u8 list) list \<Rightarrow> bool" where
  "pending base ls ps \<longleftrightarrow>
     (\<forall>p \<in> set ps. \<exists>xs ys. ls = xs @ ys \<and> ys \<noteq> [] \<and> p = (base + length (label_octets xs), label_octets ys))"

lemma get_label_pointer_SomeD:
  "get_label_pointer s e en = Some loc \<Longrightarrow> \<exists>t. (t, slice_of s e en) \<in> set (en_name_pointers en) \<and> loc = of_nat t"
  unfolding get_label_pointer_def by (drule find_map_SomeD) (auto split: if_splits)

lemma slice_of_end: "en_buffer en = A @ B \<Longrightarrow> s = length A \<Longrightarrow> e = length A + length B \<Longrightarrow> slice_of s e en = B"
  by (simp add: slice_of_def)

lemma small_location: "(loc :: u16) AND 0xC000 = 0 \<Longrightarrow> unat loc < 0x4000"
proof -
  assume a: "loc AND 0xC000 = 0"
  have "take_bit 14 loc = loc"
  proof (rule bit_eqI)
    fix n assume "possible_bit TYPE(16 word) n"
    then have n: "n < 16" by simp
    show "bit (take_bit 14 loc) n = bit loc n"
    proof (cases "n < 14")
      case False
      then have "n = 14 \<or> n = 15" using n by linarith
      moreover have "\<not> bit (loc AND 0xC000) n" using a by simp
      ultimately have "\<not> bit loc n" by (auto simp: bit_simps)
      then show ?thesis using False by (simp add: bit_simps)
    qed (simp add: bit_simps)
  qed
  then have "unat loc < 2 ^ 14" by (metis take_bit_nat_less_exp unsigned_take_bit_eq)
  then show ?thesis by simp
qed

text \<open>The search either finds no earlier name, or it cuts the name at one of its labels and writes a
  pointer to an entry of the table as it was before the name.\<close>

lemma same_pointers: "en_name_pointers en = ps \<Longrightarrow> en\<lparr>en_name_pointers := ps\<rparr> = en"
  by auto

lemma compress_Inr:
  assumes "compress c last_index (starts_of (length P + length (label_octets ds)) ls) en = Inr (found, en')"
    and "list_all wf_label (ds @ ls)" "ready en" "last_index = length (en_buffer en)"
    and "en_buffer en = P @ label_octets ds @ label_octets ls"
    and "en_name_pointers en = old @ pend" "pending (length P) (ds @ ls) pend"
    and "\<forall>p \<in> set pend. fst p < length P + length (label_octets ds)"
    and "\<forall>p \<in> set old. known P p"
  shows "if found then
      \<exists>xs ys t pend'. ds @ ls = xs @ ys \<and> ys \<noteq> [] \<and> (t, label_octets ys) \<in> set old \<and> t < 0x4000 \<and>
        en_buffer en' = P @ label_octets xs @ emit_u16 (0xC000 OR of_nat t) \<and>
        en_name_pointers en' = old @ pend' \<and> pending (length P) (ds @ ls) pend' \<and>
        (\<forall>p \<in> set pend'. fst p < length P + length (label_octets xs)) \<and>
        ready en' \<and> en_name_encoding en' = en_name_encoding en
    else \<exists>pend'. en' = en\<lparr>en_name_pointers := old @ pend'\<rparr> \<and> pending (length P) (ds @ ls) pend'"
  using assms
proof (induction ls arbitrary: ds en pend)
  case Nil
  then show ?case using same_pointers [OF Nil.prems(6)] by (auto intro!: exI [of _ pend])
next
  case (Cons l ls)
  let ?i = "length P + length (label_octets ds)"
  let ?store = "store_label_pointer ?i last_index en"
  have off: "en_offset en = last_index" using Cons.prems(3, 4) by (simp add: ready_def)
  have slice: "slice_of ?i last_index en = label_octets (l # ls)"
    by (rule slice_of_end [where A = "P @ label_octets ds"]) (use Cons.prems(4, 5) in simp_all)
  have wf: "list_all wf_label (l # ls)" "list_all wf_label ((ds @ [l]) @ ls)" using Cons.prems(2) by simp_all
  have old_before: "fst p < length P" if "p \<in> set old" for p
    using Cons.prems(9) that by (auto simp: known_def dest!: names_at_end)
  have continue: ?case
    if run: "compress c last_index (starts_of (length P + length (label_octets (ds @ [l]))) ls) en1 = Inr (found, en')"
      and en1: "en1 = en\<lparr>en_name_pointers := old @ pend1\<rparr>" "pending (length P) (ds @ l # ls) pend1"
        "\<forall>p \<in> set pend1. fst p < length P + length (label_octets (ds @ [l]))" for en1 pend1
  proof -
    have "if found then
        \<exists>xs ys t pend'. (ds @ [l]) @ ls = xs @ ys \<and> ys \<noteq> [] \<and> (t, label_octets ys) \<in> set old \<and> t < 0x4000 \<and>
          en_buffer en' = P @ label_octets xs @ emit_u16 (0xC000 OR of_nat t) \<and>
          en_name_pointers en' = old @ pend' \<and> pending (length P) ((ds @ [l]) @ ls) pend' \<and>
          (\<forall>p \<in> set pend'. fst p < length P + length (label_octets xs)) \<and>
          ready en' \<and> en_name_encoding en' = en_name_encoding en1
      else \<exists>pend'. en' = en1\<lparr>en_name_pointers := old @ pend'\<rparr> \<and> pending (length P) ((ds @ [l]) @ ls) pend'"
      by (rule Cons.IH [OF run wf(2)]) (use Cons.prems(3-5, 9) en1 in \<open>simp_all add: ready_def\<close>)
    moreover have "(ds @ [l]) @ ls = ds @ l # ls" "en_name_encoding en1 = en_name_encoding en"
      "en1\<lparr>en_name_pointers := x\<rparr> = en\<lparr>en_name_pointers := x\<rparr>" for x
      using en1(1) by simp_all
    ultimately show ?thesis by (simp only:)
  qed
  have skip: ?case if "compress c last_index (starts_of (length P + length (label_octets (ds @ [l]))) ls) en = Inr (found, en')"
    by (rule continue [OF that, of pend]) (use Cons.prems(6-8) in auto)
  have store: ?case if "compress c last_index (starts_of (length P + length (label_octets (ds @ [l]))) ls) ?store = Inr (found, en')"
  proof (cases "en_offset en < 0x3FFF")
    case True
    have "pending (length P) (ds @ l # ls) (pend @ [(?i, label_octets (l # ls))])"
      using Cons.prems(7) by (fastforce simp: pending_def)
    then show ?thesis
      using continue [OF that, of "pend @ [(?i, label_octets (l # ls))]"] True Cons.prems(6, 8) slice
      by (fastforce simp: store_label_pointer_def)
  next
    case False
    then show ?thesis using skip that by (simp add: store_label_pointer_def)
  qed
  have st: "starts_of ?i (l # ls) = ?i # starts_of (length P + length (label_octets (ds @ [l]))) ls"
    by (simp add: add.assoc)
  show ?case
  proof (cases "get_label_pointer ?i last_index en")
    case None
    then show ?thesis using Cons.prems(1) store unfolding st by simp
  next
    case (Some loc)
    show ?thesis
    proof (cases "c \<and> loc AND 0xC000 = 0")
      case False
      then show ?thesis using Cons.prems(1) Some skip store unfolding st by (cases c) simp_all
    next
      case True
      let ?en1 = "trim_buffer (en\<lparr>en_offset := ?i\<rparr>)"
      from get_label_pointer_SomeD [OF Some] slice obtain t where
        t: "(t, label_octets (l # ls)) \<in> set (old @ pend)" "loc = of_nat t" using Cons.prems(6) by auto
      have in_old: "(t, label_octets (l # ls)) \<in> set old"
      proof (rule ccontr)
        assume "\<not> ?thesis"
        then have p: "(t, label_octets (l # ls)) \<in> set pend" using t(1) by simp
        then obtain xs ys where x: "ds @ l # ls = xs @ ys" "t = length P + length (label_octets xs)"
          "label_octets (l # ls) = label_octets ys" using Cons.prems(7) unfolding pending_def by blast
        have "list_all wf_label ys" using Cons.prems(2) x(1) by simp
        then have "ys = l # ls" using label_octets_inject [OF _ wf(1)] x(3) by metis
        then have "t = ?i" using x by simp
        then show False using Cons.prems(8) p by fastforce
      qed
      have tP: "t < length P" using old_before [OF in_old] by simp
      have "length P \<le> 65535" using Cons.prems(3, 5) by (simp add: ready_def)
      then have t_loc: "unat loc = t" using tP t(2) by (simp add: unat_of_nat)
      have keep: "List.filter (\<lambda>(start, _). start < ?i) (old @ pend) = old @ pend"
      proof (rule filter_True)
        show "\<forall>p \<in> set (old @ pend). (\<lambda>(start, _). start < ?i) p"
          using old_before Cons.prems(8) by (fastforce simp: split_beta)
      qed
      have en1: "en_buffer ?en1 = P @ label_octets ds" "en_name_pointers ?en1 = old @ pend" "ready ?en1"
        "en_name_encoding ?en1 = en_name_encoding en"
        using Cons.prems(3, 5, 6) keep by (simp_all add: trim_buffer_def ready_def)
      from Cons.prems(1) Some True have w: "write_slice (emit_u16 (0xC000 OR loc)) ?en1 = Inr en'" "found"
        unfolding st by (auto simp: result_bind_Inr_iff)
      note w' = write_slice_Inr [OF w(1) en1(3)]
      have fin: "en_buffer en' = P @ label_octets ds @ emit_u16 (0xC000 OR of_nat t)" "en_name_pointers en' = old @ pend"
        "ready en'" "en_name_encoding en' = en_name_encoding en"
        using w' [THEN conjunct2] w' [THEN conjunct1, THEN arg_cong [where f = en_buffer]]
          w' [THEN conjunct1, THEN arg_cong [where f = en_name_pointers]]
          w' [THEN conjunct1, THEN arg_cong [where f = en_name_encoding]] en1 t(2) by simp_all
      show ?thesis unfolding if_P [OF w(2)]
        by (rule exI [of _ ds], rule exI [of _ "l # ls"], rule exI [of _ t], rule exI [of _ pend])
          (use fin in_old small_location [of loc] True t_loc Cons.prems(7, 8) in simp)
    qed
  qed
qed

section \<open>A name that was written\<close>

lemma known_pending:
  assumes "\<And>xs ys. n = xs @ ys \<Longrightarrow> ys \<noteq> [] \<Longrightarrow> length (label_octets xs) < k \<Longrightarrow>
      names_at buf (base + length (label_octets xs)) (base + length (label_octets xs)) ys e"
    and "pending base n ps" "\<forall>p \<in> set ps. fst p < base + k"
  shows "\<forall>p \<in> set ps. known buf p"
  using assms by (fastforce simp: pending_def known_def)

lemma emit_name_good:
  assumes "emit_name n en = Inr en'" "en_good en" "wf_name n"
    and name_ref: "name_ref = (if en_name_encoding en = NE_UncompressedLowercase then to_lowercase n else n)"
  shows "en_good en' \<and> en_name_encoding en' = en_name_encoding en \<and>
    (\<exists>ys. en_buffer en' = en_buffer en @ ys) \<and>
    names_at (en_buffer en') (length (en_buffer en)) (length (en_buffer en)) (n_labels name_ref) (length (en_buffer en'))"
proof -
  let ?P = "en_buffer en" and ?ls = "n_labels name_ref" and ?c = "en_name_encoding en = NE_Compressed"
  have wf: "list_all wf_label ?ls"
    using assms(3) wf_name_to_lowercase [of n] unfolding name_ref by (simp add: wf_name_def)
  have rdy: "ready en" and old: "\<forall>p \<in> set (en_name_pointers en). known ?P p" using assms(2) by (simp_all add: en_good_def)
  from assms(1) obtain starts en1 found en2 where
    w: "write_labels ?ls en = Inr (starts, en1)" "compress ?c (en_offset en1) starts en1 = Inr (found, en2)"
    "if found then en' = en2 else emit_byte 0 en2 = Inr en'"
    unfolding name_ref by (auto simp: emit_name_def Let_def result_bind_Inr_iff split: if_splits)
  note en1 = write_labels_Inr [OF w(1) rdy]
  have off: "en_offset en = length ?P" using rdy by (simp add: ready_def)
  have comp: "compress ?c (en_offset en1) (starts_of (length ?P + length (label_octets [])) ?ls) en1 = Inr (found, en2)"
    using w(2) en1 off by simp
  note res = compress_Inr [where ds = "[]" and P = ?P and old = "en_name_pointers en" and pend = "[]", OF comp]
  show ?thesis
  proof (cases found)
    case True
    then obtain xs ys t pend where r: "?ls = xs @ ys" "ys \<noteq> []" "(t, label_octets ys) \<in> set (en_name_pointers en)"
      "t < 0x4000" "en_buffer en' = ?P @ label_octets xs @ emit_u16 (0xC000 OR of_nat t)"
      "en_name_pointers en' = en_name_pointers en @ pend" "pending (length ?P) ?ls pend"
      "\<forall>p \<in> set pend. fst p < length ?P + length (label_octets xs)" "ready en'" "en_name_encoding en' = en_name_encoding en1"
      using res w(3) wf en1 old by (auto simp: ready_def pending_def)
    let ?B = "en_buffer en'"
    have B: "?B = ?P @ (label_octets xs @ emit_u16 (0xC000 OR of_nat t))" using r(5) by simp
    obtain ls' e' where k: "names_at ?P t t ls' e'" "label_octets ys = label_octets ls'"
      using old r(3) by (fastforce simp: known_def)
    have "ys = ls'" by (rule label_octets_inject) (use wf r(1) list_all_wf [OF k(1)] k(2) in simp_all)
    then have tgt: "names_at ?B t t ys e'" "e' \<le> length ?P" "t < length ?P"
      using names_at_append [OF k(1)] names_at_end [OF k(1)] B by auto
    let ?i = "length ?P + length (label_octets xs)"
    have len: "length ?B = ?i + 2" by (simp add: B emit_u16_def)
    have at_ptr: "names_at ?B lo ?i ys (length ?B)" if "length ?P \<le> lo" for lo
      unfolding len
    proof (rule names_at.at_pointer [OF _ _ r(4) _ tgt(1)])
      show "?i < length ?B" using len by simp
      have "drop ?i ?B = emit_u16 (0xC000 OR of_nat t) @ []" by (simp add: B)
      then show "read_u16 (drop ?i ?B) = Some (0xC000 OR of_nat t, [])" by (simp only: read_emit_u16)
      show "t < lo" "e' \<le> lo" using tgt that by simp_all
    qed
    have from_suffix: "names_at ?B (length ?P + length (label_octets us)) (length ?P + length (label_octets us)) vs (length ?B)"
      if split: "?ls = us @ vs" and "vs \<noteq> []"
        and short: "length (label_octets us) < length (label_octets xs) \<or> us = []" for us vs
    proof -
      obtain zs where z: "xs = us @ zs"
      proof (cases "us = []")
        case False
        then have lt: "length (label_octets us) < length (label_octets xs)" using short by simp
        obtain ws where "us = xs @ ws \<and> ws @ vs = ys \<or> us @ ws = xs \<and> vs = ws @ ys"
          using split r(1) append_eq_append_conv2 [of us vs xs ys] by auto
        then show ?thesis using lt that [of ws] by auto
      qed (use that in auto)
      have vs: "vs = zs @ ys" using split r(1) z by simp
      have "names_at ((?P @ label_octets us) @ label_octets zs @ emit_u16 (0xC000 OR of_nat t))
          (length ?P + length (label_octets us)) (length (?P @ label_octets us)) (zs @ ys) (length ?B)"
        by (rule names_at_labels) (use at_ptr [of "length ?P + length (label_octets us)"] wf r(1) z B in \<open>simp_all add: add.assoc\<close>)
      then show ?thesis using vs B z by simp
    qed
    have "\<forall>p \<in> set pend. known ?B p"
      by (rule known_pending [OF from_suffix r(7, 8)]) simp_all
    then have "en_good en'" using r(6, 9) old known_append B by (auto simp: en_good_def)
    then show ?thesis using from_suffix [of "[]" ?ls] r(1, 2, 10) en1 B by auto
  next
    case False
    then obtain pend where r: "en2 = en1\<lparr>en_name_pointers := en_name_pointers en @ pend\<rparr>" "pending (length ?P) ?ls pend"
      "emit_byte 0 en2 = Inr en'"
      using res w(3) wf en1 old by (auto simp: ready_def pending_def)
    have "ready (en1\<lparr>en_name_pointers := x\<rparr>) = ready en1" for x by (simp add: ready_def)
    then have rdy2: "ready en2" using en1 r(1) by metis
    note fin = write_slice_Inr [OF r(3) [unfolded emit_byte_def] rdy2]
    let ?B = "en_buffer en'"
    have B: "?B = ?P @ label_octets ?ls @ [0]" "en_name_pointers en' = en_name_pointers en @ pend" "ready en'"
      "en_name_encoding en' = en_name_encoding en"
      using fin r(1) en1 by auto
    have at_zero: "names_at ?B lo (length ?P + length (label_octets ?ls)) [] (length ?B)" for lo
      using names_at.at_end [of "length ?P + length (label_octets ?ls)" ?B lo] by (simp add: B(1) nth_append)
    have from_suffix: "names_at ?B (length ?P + length (label_octets us)) (length ?P + length (label_octets us)) vs (length ?B)"
      if "?ls = us @ vs" for us vs
    proof -
      have "names_at ((?P @ label_octets us) @ label_octets vs @ [0])
          (length ?P + length (label_octets us)) (length (?P @ label_octets us)) (vs @ []) (length ?B)"
        by (rule names_at_labels) (use at_zero [of "length ?P + length (label_octets us)"] wf that B(1) in \<open>simp_all add: add.assoc\<close>)
      then show ?thesis using that B(1) by simp
    qed
    have "\<forall>p \<in> set pend. known ?B p"
      by (rule known_pending [OF from_suffix r(2), of "Suc (length (label_octets ?ls))"])
        (use r(2) in \<open>fastforce simp: pending_def\<close>)+
    then have "en_good en'" using B old known_append by (auto simp: en_good_def)
    then show ?thesis using from_suffix [of "[]" ?ls] B by auto
  qed
qed

section \<open>Reading back\<close>

lemma read_back:
  assumes "names_at buf i i (n_labels n) e" "wf_name n"
  shows "read_name buf i = Some (Inr (set_fqdn True n, e))"
proof -
  have "encoded_len (name_new\<lparr>n_labels := n_labels name_new @ n_labels n\<rparr>) \<le> 255"
    using assms(2) by (simp add: wf_name_def name_new_def encoded_len_def data_len_def max_name_length_def)
  then obtain fuel where "read_loop fuel buf i i None None name_new =
      Some (Inr (\<lparr>n_labels = n_labels name_new @ n_labels n, n_fqdn = True\<rparr>, unwrap_or None e))"
    using read_names_at [OF assms(1), of None name_new None] by auto
  then show ?thesis by (intro read_name_eqI [of fuel]) (simp add: name_new_def set_fqdn_def dname_eqI)
qed

lemma emit_names_good:
  assumes "emit_names ns en = Inr en'" "en_good en" "list_all wf_name ns"
    and "f = (if en_name_encoding en = NE_UncompressedLowercase then to_lowercase else (\<lambda>n. n))"
  shows "\<exists>ys. en_buffer en' = en_buffer en @ ys \<and>
    (\<forall>junk. read_names (length ns) (en_buffer en' @ junk) (length (en_buffer en)) =
       Some (List.map (\<lambda>n. set_fqdn True (f n)) ns, length (en_buffer en')))"
  using assms
proof (induction ns arbitrary: en)
  case Nil
  then show ?case by simp
next
  case (Cons n ns)
  obtain en1 where e: "emit_name n en = Inr en1" "emit_names ns en1 = Inr en'"
    using Cons.prems(1) by (auto simp: result_bind_Inr_iff)
  have n: "n_labels (f n) = n_labels (if en_name_encoding en = NE_UncompressedLowercase then to_lowercase n else n)"
    "wf_name (f n)"
    using Cons.prems(3, 4) wf_name_to_lowercase [of n] by simp_all
  note g = emit_name_good [OF e(1) Cons.prems(2) _ refl]
  have g: "en_good en1" "en_name_encoding en1 = en_name_encoding en"
    "names_at (en_buffer en1) (length (en_buffer en)) (length (en_buffer en)) (n_labels (f n)) (length (en_buffer en1))"
    using g Cons.prems(3) n(1) by simp_all
  obtain zs where zs: "en_buffer en1 = en_buffer en @ zs"
    using emit_name_good [OF e(1) Cons.prems(2) _ refl] Cons.prems(3) by auto
  obtain ys where ys: "en_buffer en' = en_buffer en1 @ ys"
    "\<And>junk. read_names (length ns) (en_buffer en' @ junk) (length (en_buffer en1)) =
       Some (List.map (\<lambda>n. set_fqdn True (f n)) ns, length (en_buffer en'))"
    using Cons.IH [OF e(2) g(1)] Cons.prems(3, 4) g(2) by auto
  have "read_name (en_buffer en' @ junk) (length (en_buffer en)) = Some (Inr (set_fqdn True (f n), length (en_buffer en1)))" for junk
    using read_back [OF names_at_append [OF g(3)] n(2), of "ys @ junk"] ys(1) by simp
  then show ?case using ys zs by simp
qed

text \<open>C14: names survive the wire: whatever well-formed names are written one after the other into a message,
  compressed against each other or not, reading the message gives the same names in the same order, fully
  qualified, in lower case when the encoder writes the canonical form, and ends where the writer stopped;
  what follows in the message does not matter.\<close>

theorem names_roundtrip:
  assumes "emit_names ns (encoder_new\<lparr>en_name_encoding := mode\<rparr>) = Inr en'" "list_all wf_name ns"
  shows "read_names (length ns) (en_buffer en' @ junk) 0 =
    Some (List.map (\<lambda>n. set_fqdn True (if mode = NE_UncompressedLowercase then to_lowercase n else n)) ns,
          length (en_buffer en'))"
proof -
  have "en_good (encoder_new\<lparr>en_name_encoding := mode\<rparr>)"
    by (simp add: en_good_def encoder_new_def ready_def)
  from emit_names_good [OF assms(1) this assms(2) refl]
  show ?thesis by (cases mode) (auto simp: encoder_new_def)
qed

theorem names_roundtrip_witness:
  "read_names 2 ([1, 0x61, 1, 0x62, 0, 2, 0x58, 0x59, 0xC0, 2] @ [7]) 0 =
     Some ([\<lparr>n_labels = [''a'', ''b''], n_fqdn = True\<rparr>, \<lparr>n_labels = [''XY'', ''b''], n_fqdn = True\<rparr>], 10)"
proof -
  have "emit_names [\<lparr>n_labels = [''a'', ''b''], n_fqdn = True\<rparr>, \<lparr>n_labels = [''XY'', ''b''], n_fqdn = False\<rparr>]
      (encoder_new\<lparr>en_name_encoding := NE_Compressed\<rparr>) =
    Inr \<lparr>en_offset = 10, en_buffer = [1, 0x61, 1, 0x62, 0, 2, 0x58, 0x59, 0xC0, 2], en_max_size = 65535,
      en_name_pointers = [(0, [1, 0x61, 1, 0x62]), (2, [1, 0x62]), (5, [2, 0x58, 0x59, 1, 0x62])],
      en_name_encoding = NE_Compressed\<rparr>"
    by (simp add: encoder_new_def emit_name_def Let_def emit_character_data_def emit_byte_def write_slice_def
        buffer_write_def as_bytes_def get_label_pointer_def slice_of_def store_label_pointer_def trim_buffer_def emit_u16_def)
  from names_roundtrip [OF this, of "[7]"] show ?thesis
    by (simp add: wf_name_def wf_label_def encoded_len_def data_len_def max_name_length_def set_fqdn_def numeral_2_eq_2)
qed

end
