(* ===== verification/Cache_File.thy ===== *)
theory Cache_File
  imports Cache_Store Name_Wire
begin

unbundle bit_operations_syntax

text \<open>
  The file of the answer cache (\<open>dns_mw_cache.rs\<close>): its header, the entries, the tolerant reader, the
  adjustment of lifetimes for the time the server was off, and the decision what to do with the task
  that writes the file when the configuration changes. The codec of DNS messages and the JSON text of
  the answer options are arguments of the definitions (\<open>entry_codec\<close>).
\<close>

section \<open>Octets\<close>

definition emit_u16_le :: "u16 \<Rightarrow> u8 list" where
  "emit_u16_le w = [ucast w, ucast (drop_bit 8 w)]"

definition emit_u32_le :: "u32 \<Rightarrow> u8 list" where
  "emit_u32_le w = [ucast w, ucast (drop_bit 8 w), ucast (drop_bit 16 w), ucast (drop_bit 24 w)]"

definition emit_u32 :: "u32 \<Rightarrow> u8 list" where
  "emit_u32 w = [ucast (drop_bit 24 w), ucast (drop_bit 16 w), ucast (drop_bit 8 w), ucast w]"

fun read_u32 :: "u8 list \<Rightarrow> (u32 \<times> u8 list) option" where
  "read_u32 (a # b # c # d # rest) =
     Some (push_bit 24 (ucast a) OR push_bit 16 (ucast b) OR push_bit 8 (ucast c) OR ucast d, rest)"
| "read_u32 _ = None"

definition read_slice :: "nat \<Rightarrow> u8 list \<Rightarrow> (u8 list \<times> u8 list) option" where
  "read_slice n bs = (if n \<le> length bs then Some (take n bs, drop n bs) else None)"

section \<open>The header of the file\<close>

definition CACHE_MAGIC :: "u8 list" where
  "CACHE_MAGIC = [83, 77, 67, 65, 67, 72, 69, 0]"

definition CACHE_FORMAT_VERSION :: u16 where
  "CACHE_FORMAT_VERSION = 3"

definition CACHE_HEADER_LEN :: nat where
  "CACHE_HEADER_LEN = 14"

definition emit_cache_header :: "u32 \<Rightarrow> u8 list" where
  "emit_cache_header entry_count = CACHE_MAGIC @ emit_u16_le CACHE_FORMAT_VERSION @ emit_u32_le entry_count"

definition parse_cache_header :: "u8 list \<Rightarrow> (u16 \<times> u32) option" where
  "parse_cache_header data =
     (if length data < CACHE_HEADER_LEN \<or> take 8 data \<noteq> CACHE_MAGIC then None
      else Some (push_bit 8 (ucast (data ! 9)) OR ucast (data ! 8),
                 push_bit 24 (ucast (data ! 13)) OR push_bit 16 (ucast (data ! 12)) OR
                 push_bit 8 (ucast (data ! 11)) OR ucast (data ! 10)))"

section \<open>Text\<close>

text \<open>\<open>String::from_utf8\<close> accepts well-formed UTF-8 only: no overlong form, no surrogate, nothing above
  the last code point.\<close>

definition continuation :: "u8 \<Rightarrow> bool" where
  "continuation b \<longleftrightarrow> 0x80 \<le> b \<and> b \<le> 0xBF"

fun valid_utf8 :: "u8 list \<Rightarrow> bool" where
  "valid_utf8 [] = True"
| "valid_utf8 (a # bs) =
     (if a \<le> 0x7F then valid_utf8 bs
      else
        (case bs of
           [] \<Rightarrow> False
         | b # bs1 \<Rightarrow>
             if 0xC2 \<le> a \<and> a \<le> 0xDF then continuation b \<and> valid_utf8 bs1
             else
               (case bs1 of
                  [] \<Rightarrow> False
                | c # bs2 \<Rightarrow>
                    if 0xE0 \<le> a \<and> a \<le> 0xEF then
                      continuation b \<and> continuation c \<and> (a = 0xE0 \<longrightarrow> 0xA0 \<le> b) \<and> (a = 0xED \<longrightarrow> b \<le> 0x9F) \<and>
                      valid_utf8 bs2
                    else
                      (case bs2 of
                         [] \<Rightarrow> False
                       | d # bs3 \<Rightarrow>
                           0xF0 \<le> a \<and> a \<le> 0xF4 \<and> continuation b \<and> continuation c \<and> continuation d \<and>
                           (a = 0xF0 \<longrightarrow> 0x90 \<le> b) \<and> (a = 0xF4 \<longrightarrow> b \<le> 0x8F) \<and> valid_utf8 bs3))))"

definition from_utf8 :: "u8 list \<Rightarrow> string option" where
  "from_utf8 bs = (if valid_utf8 bs then Some (List.map (\<lambda>b. char_of (unat b)) bs) else None)"

section \<open>Entries\<close>

record entry_codec =
  ec_emit_message :: "message \<Rightarrow> u8 list option"
  ec_read_message :: "u8 list \<Rightarrow> (message \<times> u8 list) option"
  ec_emit_opts :: "answer_opts \<Rightarrow> u8 list"
  ec_read_opts :: "u8 list \<Rightarrow> answer_opts option"
  ec_default_opts :: answer_opts

text \<open>Whole seconds of a duration as the 32 bits the file keeps.\<close>

definition as_secs_u32 :: "int \<Rightarrow> u32" where
  "as_secs_u32 d = word_of_int (d div 1000000000)"

definition emit_opt_text :: "string option \<Rightarrow> u8 list" where
  "emit_opt_text t =
     (case t of
        Some s \<Rightarrow> emit_u16 (of_nat (length (as_bytes s))) @ as_bytes s
      | None \<Rightarrow> emit_u16 0)"

text \<open>An encoder holds at most 65535 octets; an entry that does not fit fails and is left out.\<close>

definition emit_entry :: "entry_codec \<Rightarrow> int \<Rightarrow> cache_entry \<Rightarrow> u8 list option" where
  "emit_entry codec now e =
     (case ec_emit_message codec (r_message (ce_data e)) of
        None \<Rightarrow> None
      | Some msg \<Rightarrow>
          (let opts = ec_emit_opts codec (ce_opts e);
               bytes = [1] @ msg @
                 (if now < ce_valid_until e then [2] @ emit_u32 (as_secs_u32 (ce_valid_until e - now))
                  else [5] @ emit_u32 (as_secs_u32 (now - ce_valid_until e))) @
                 [3] @ emit_opt_text (r_name_server_group (ce_data e)) @
                 [4] @ emit_u32 (ucast (cs_hits (ce_stats e))) @
                 [6] @ emit_opt_text (ce_ecs e) @
                 [7] @ emit_u16 (of_nat (length opts)) @ opts
           in if length bytes \<le> 65535 then Some bytes else None))"

definition serialize_many :: "entry_codec \<Rightarrow> int \<Rightarrow> cache_entry list \<Rightarrow> u8 list" where
  "serialize_many codec now es =
     concat (List.map (\<lambda>e. case emit_entry codec now e of Some bs \<Rightarrow> bs | None \<Rightarrow> []) es)"

definition clamp_file_duration :: "u32 \<Rightarrow> nat" where
  "clamp_file_duration s = (if s \<le> MAX_TTL then unat s else unat MAX_TTL)"

text \<open>The reader's steps; \<open>expect\<close> is the check of a tag.\<close>

definition expect :: "u8 \<Rightarrow> u8 list \<Rightarrow> u8 list option" where
  "expect tag bs = (case read_u8 bs of Some (t, rest) \<Rightarrow> if t = tag then Some rest else None | None \<Rightarrow> None)"

definition read_lifetime :: "int \<Rightarrow> u8 list \<Rightarrow> (int \<times> u8 list) option" where
  "read_lifetime now bs =
     (case read_u8 bs of
        None \<Rightarrow> None
      | Some (tag, bs1) \<Rightarrow>
          if tag = 2 then map_option (\<lambda>(s, bs2). (now + secs (clamp_file_duration s), bs2)) (read_u32 bs1)
          else if tag = 5 then map_option (\<lambda>(s, bs2). (now - secs (clamp_file_duration s), bs2)) (read_u32 bs1)
          else None)"

definition read_group :: "u8 list \<Rightarrow> (string option \<times> u8 list) option" where
  "read_group bs =
     (case read_u16 bs of
        None \<Rightarrow> None
      | Some (n, bs1) \<Rightarrow>
          if 0 < n then map_option (\<lambda>(name, bs2). (from_utf8 name, bs2)) (read_slice (unat n) bs1)
          else Some (None, bs1))"

text \<open>The subnet is read leniently: whatever is missing leaves it empty, and what has been consumed up
  to there stays consumed.\<close>

definition read_ecs :: "u8 list \<Rightarrow> string option \<times> u8 list" where
  "read_ecs bs =
     (case read_u8 bs of
        None \<Rightarrow> (None, bs)
      | Some (tag, bs1) \<Rightarrow>
          if tag \<noteq> 6 then (None, bs1)
          else
            (case read_u16 bs1 of
               None \<Rightarrow> (None, bs1)
             | Some (n, bs2) \<Rightarrow>
                 if 0 < n then
                   (case read_slice (unat n) bs2 of
                      Some (text, bs3) \<Rightarrow> (from_utf8 text, bs3)
                    | None \<Rightarrow> (None, bs2))
                 else (None, bs2)))"

definition read_opts :: "entry_codec \<Rightarrow> u8 list \<Rightarrow> (answer_opts \<times> u8 list) option" where
  "read_opts codec bs =
     (case bs of
        [] \<Rightarrow> Some (ec_default_opts codec, bs)
      | t # bs1 \<Rightarrow>
          if t \<noteq> 7 then Some (ec_default_opts codec, bs)
          else
            (case read_u16 bs1 of
               None \<Rightarrow> None
             | Some (n, bs2) \<Rightarrow>
                 (case read_slice (unat n) bs2 of
                    None \<Rightarrow> None
                  | Some (text, bs3) \<Rightarrow> map_option (\<lambda>opts. (opts, bs3)) (ec_read_opts codec text))))"

definition read_entry :: "entry_codec \<Rightarrow> int \<Rightarrow> int \<Rightarrow> u8 list \<Rightarrow> (cache_entry \<times> u8 list) option" where
  "read_entry codec wall now bs =
     (case expect 1 bs of None \<Rightarrow> None | Some bs1 \<Rightarrow>
     (case ec_read_message codec bs1 of None \<Rightarrow> None | Some (msg, bs2) \<Rightarrow>
     (case read_lifetime now bs2 of None \<Rightarrow> None | Some (until, bs3) \<Rightarrow>
     (case expect 3 bs3 of None \<Rightarrow> None | Some bs4 \<Rightarrow>
     (case read_group bs4 of None \<Rightarrow> None | Some (gname, bs5) \<Rightarrow>
     (case expect 4 bs5 of None \<Rightarrow> None | Some bs6 \<Rightarrow>
     (case read_u32 bs6 of None \<Rightarrow> None | Some (hits, bs7) \<Rightarrow>
     (case read_ecs bs7 of (ecs, bs8) \<Rightarrow>
     (case read_opts codec bs8 of None \<Rightarrow> None | Some (opts, bs9) \<Rightarrow>
        (let res = \<lparr>r_message = msg, r_valid_until = until, r_name_server_group = gname, r_aaaa_suppressed = False\<rparr>;
             e = entry_new wall res until ecs opts
         in Some (e\<lparr>ce_stats := (ce_stats e)\<lparr>cs_hits := ucast hits\<rparr>\<rparr>, bs9)))))))))))"

text \<open>The tolerant reader keeps what it has read when an entry is broken. It also stops when an entry
  was read without consuming anything, which makes it terminate on every input.\<close>

function deserialize_best_effort ::
    "entry_codec \<Rightarrow> int \<Rightarrow> int \<Rightarrow> u8 list \<Rightarrow> cache_entry list \<times> bool" where
  "deserialize_best_effort codec wall now bs =
     (if bs = [] then ([], False)
      else
        (case read_entry codec wall now bs of
           None \<Rightarrow> ([], True)
         | Some (e, rest) \<Rightarrow>
             if length rest < length bs then
               (case deserialize_best_effort codec wall now rest of (es, stopped) \<Rightarrow> (e # es, stopped))
             else ([], True)))"
  by pat_completeness auto
termination by (relation "measure (\<lambda>(codec, wall, now, bs). length bs)") auto

declare deserialize_best_effort.simps [simp del]

section \<open>Loading\<close>

text \<open>The time the server was off is taken off the lifetime of an entry.\<close>

definition adjust_offline :: "int \<Rightarrow> int \<Rightarrow> cache_entry \<Rightarrow> cache_entry" where
  "adjust_offline now offline e =
     (if now < ce_valid_until e then
        (let remaining = ce_valid_until e - now
         in if offline < remaining then e\<lparr>ce_valid_until := ce_valid_until e - offline\<rparr>
            else e\<lparr>ce_valid_until := now - (offline - remaining)\<rparr>)
      else e\<lparr>ce_valid_until := ce_valid_until e - offline\<rparr>)"

definition entry_key :: "cache_entry \<Rightarrow> cache_key" where
  "entry_key e =
     \<lparr>ck_query = r_query (ce_data e), ck_group = unwrap_or (r_name_server_group (ce_data e)) ''default'',
      ck_ecs = ce_ecs e, ck_opts = ce_opts e\<rparr>"

definition load_entry ::
    "(cache_key, cache_entry, 'c) lru_ops \<Rightarrow> (cache_key \<Rightarrow> u64) \<Rightarrow> bool \<Rightarrow> int \<Rightarrow> int \<Rightarrow> 'c dns_cache \<Rightarrow>
     cache_entry \<Rightarrow> 'c dns_cache" where
  "load_entry ops hash only_missing now offline dc e =
     (let e' = adjust_offline now offline e; k = entry_key e'
      in if only_missing \<and> dc_peek ops hash k dc \<noteq> None then dc
         else upd_shard hash k (lru_put ops (ck_canon k) e') dc)"

datatype load_result = Loaded nat bool | Incompatible u16

definition load_cache_impl ::
    "(cache_key, cache_entry, 'c) lru_ops \<Rightarrow> (cache_key \<Rightarrow> u64) \<Rightarrow> entry_codec \<Rightarrow> bool \<Rightarrow> int \<Rightarrow> int \<Rightarrow> int \<Rightarrow>
     u8 list \<Rightarrow> 'c dns_cache \<Rightarrow> load_result \<times> 'c dns_cache" where
  "load_cache_impl ops hash codec only_missing wall now offline data dc =
     (let load = (\<lambda>payload.
            case deserialize_best_effort codec wall now payload of
              (es, stopped) \<Rightarrow>
                (Loaded (length es) stopped, foldl (load_entry ops hash only_missing now offline) dc es))
      in case parse_cache_header data of
           Some (version, entries_in_file) \<Rightarrow>
             if version \<noteq> CACHE_FORMAT_VERSION then (Incompatible version, dc)
             else load (drop CACHE_HEADER_LEN data)
         | None \<Rightarrow> load data)"

definition persist_bytes ::
    "(cache_key, cache_entry, 'c) lru_ops \<Rightarrow> entry_codec \<Rightarrow> int \<Rightarrow> 'c dns_cache \<Rightarrow> u8 list" where
  "persist_bytes ops codec now dc =
     emit_cache_header (of_nat (cache_entries ops dc)) @
     concat (List.map (\<lambda>s. serialize_many codec now (List.map snd (lru_items ops s))) (dc_shards dc))"

section \<open>The task that writes the file\<close>

datatype persist_action = PA_Keep | PA_Stop | PA_Restart string u64

fun persist_action_of :: "(string \<times> u64) option \<Rightarrow> (string \<times> u64) option \<Rightarrow> persist_action" where
  "persist_action_of None None = PA_Keep"
| "persist_action_of (Some c) None = PA_Stop"
| "persist_action_of (Some (file, every)) (Some (file', every')) =
     (if file = file' \<and> every = every' then PA_Keep else PA_Restart file' every')"
| "persist_action_of None (Some (file', every')) = PA_Restart file' every'"

text \<open>What \<open>sync_persist_task\<close> leaves running, and whether it went from no task to a task.\<close>

definition sync_persist_task ::
    "(string \<times> u64) option \<Rightarrow> (string \<times> u64) option \<Rightarrow> (string \<times> u64) option \<times> bool" where
  "sync_persist_task current want =
     (case persist_action_of current want of
        PA_Keep \<Rightarrow> (current, False)
      | PA_Stop \<Rightarrow> (None, False)
      | PA_Restart file every \<Rightarrow> (Some (file, max every 1), current = None))"

section \<open>Names of archives\<close>

definition strip_prefix :: "string \<Rightarrow> string \<Rightarrow> string option" where
  "strip_prefix p s = (if take (length p) s = p then Some (drop (length p) s) else None)"

definition starts_with :: "string \<Rightarrow> string \<Rightarrow> bool" where
  "starts_with p s \<longleftrightarrow> take (length p) s = p"

fun contains_text :: "string \<Rightarrow> string \<Rightarrow> bool" where
  "contains_text p [] = (p = [])"
| "contains_text p (c # s) = (starts_with p (c # s) \<or> contains_text p s)"

definition is_digit :: "char \<Rightarrow> bool" where
  "is_digit c \<longleftrightarrow> 48 \<le> (of_char c :: nat) \<and> (of_char c :: nat) \<le> 57"

text \<open>\<open>rest.get(..)\<close> is none when the cut falls into a character; the test of the octets that follows
  refuses such a name too, since a continuation octet is no digit.\<close>

definition is_our_archive :: "string \<Rightarrow> string \<Rightarrow> bool" where
  "is_our_archive file_name candidate =
     (case strip_prefix (file_name @ ''.'') candidate of
        None \<Rightarrow> False
      | Some rest \<Rightarrow>
          (starts_with ''corrupt-'' rest \<or> starts_with ''load-panic-'' rest \<or>
           starts_with ''v'' rest \<and> contains_text ''-incompatible-'' rest) \<and>
          15 < length rest \<and>
          (let stamp = drop (length rest - 15) rest
           in stamp ! 8 = CHR ''-'' \<and> (\<forall>i \<in> set [0..<15]. i = 8 \<or> is_digit (stamp ! i))))"

section \<open>Lemmas\<close>

lemma le_u16: "push_bit 8 (ucast (ucast (drop_bit 8 w) :: u8)) OR ucast (ucast w :: u8) = (w :: u16)"
  by (rule bit_word_eqI) (auto simp: bit_simps)

lemma le_u32:
  "push_bit 24 (ucast (ucast (drop_bit 24 w) :: u8)) OR push_bit 16 (ucast (ucast (drop_bit 16 w) :: u8)) OR
   push_bit 8 (ucast (ucast (drop_bit 8 w) :: u8)) OR ucast (ucast w :: u8) = (w :: u32)" (is "?l = w")
proof (rule bit_word_eqI)
  fix n assume "n < LENGTH(32)"
  then consider "n < 8" | "8 \<le> n" "n < 16" | "16 \<le> n" "n < 24" | "24 \<le> n" "n < 32" by fastforce
  then show "bit ?l n = bit w n"
    by cases (auto simp: bit_simps)
qed

lemma read_emit_u32 [simp]: "read_u32 (emit_u32 w @ rest) = Some (w, rest)"
  by (simp add: emit_u32_def le_u32)

lemma parse_emit_header:
  "parse_cache_header (emit_cache_header n @ payload) = Some (CACHE_FORMAT_VERSION, n) \<and>
   drop CACHE_HEADER_LEN (emit_cache_header n @ payload) = payload"
proof -
  have e: "emit_cache_header n @ payload =
      [83, 77, 67, 65, 67, 72, 69, 0, ucast CACHE_FORMAT_VERSION, ucast (drop_bit 8 CACHE_FORMAT_VERSION),
       ucast n, ucast (drop_bit 8 n), ucast (drop_bit 16 n), ucast (drop_bit 24 n)] @ payload"
    by (simp add: emit_cache_header_def CACHE_MAGIC_def emit_u16_le_def emit_u32_le_def)
  show ?thesis
    unfolding parse_cache_header_def e by (simp add: CACHE_HEADER_LEN_def CACHE_MAGIC_def le_u16 le_u32)
qed

lemma from_utf8_as_bytes: "valid_utf8 (as_bytes s) \<Longrightarrow> from_utf8 (as_bytes s) = Some s"
proof -
  have "char_of (unat (word_of_nat (of_char c) :: u8)) = c" for c :: char
    by (simp add: unat_of_nat take_bit_eq_mod of_char_mod_256)
  then show "valid_utf8 (as_bytes s) \<Longrightarrow> from_utf8 (as_bytes s) = Some s"
    by (simp add: from_utf8_def as_bytes_def comp_def)
qed

text \<open>Texts the format can hold.\<close>

definition storable_text :: "string option \<Rightarrow> bool" where
  "storable_text t \<longleftrightarrow> (\<forall>s. t = Some s \<longrightarrow> s \<noteq> [] \<and> length s \<le> 65535 \<and> valid_utf8 (as_bytes s))"

lemma read_emit_group: "storable_text t \<Longrightarrow> read_group (emit_opt_text t @ rest) = Some (t, rest)"
proof (cases t)
  case (Some s)
  assume t: "storable_text t"
  then have l: "0 < length s" "length s \<le> 65535" using Some by (auto simp: storable_text_def)
  then have u: "unat (of_nat (length s) :: u16) = length s"
    by (simp add: unat_of_nat take_bit_eq_mod)
  then have "(0 :: u16) < of_nat (length s)" using l by (simp add: word_less_nat_alt)
  then show ?thesis
    using t Some u by (simp add: read_group_def emit_opt_text_def read_slice_def from_utf8_as_bytes storable_text_def)
qed (simp add: read_group_def emit_opt_text_def)

lemma read_emit_ecs: "storable_text t \<Longrightarrow> read_ecs (6 # emit_opt_text t @ rest) = (t, rest)"
  using read_emit_group [of t rest]
  by (auto simp: read_ecs_def read_group_def split: option.splits prod.splits if_splits)

section \<open>What the file preserves\<close>

definition restored :: "int \<Rightarrow> int \<Rightarrow> int \<Rightarrow> cache_entry \<Rightarrow> cache_entry" where
  "restored now wall now' e =
     (let until = (if now < ce_valid_until e
                   then now' + secs (clamp_file_duration (as_secs_u32 (ce_valid_until e - now)))
                   else now' - secs (clamp_file_duration (as_secs_u32 (now - ce_valid_until e))))
      in e\<lparr>ce_data := (ce_data e)\<lparr>r_valid_until := until, r_aaaa_suppressed := False\<rparr>,
           ce_valid_until := until, ce_is_in_prefetching := False,
           ce_stats := \<lparr>cs_hits = ucast (ucast (cs_hits (ce_stats e)) :: u32), cs_last_access = wall\<rparr>\<rparr>)"

text \<open>An entry can be stored if what is written of it can be read back; its message may come back in a normal form,
  as \<open>m\<close>.\<close>

definition storable_as :: "entry_codec \<Rightarrow> message \<Rightarrow> cache_entry \<Rightarrow> bool" where
  "storable_as codec m e \<longleftrightarrow>
     (\<exists>msg. ec_emit_message codec (r_message (ce_data e)) = Some msg \<and>
        (\<forall>rest. ec_read_message codec (msg @ rest) = Some (m, rest))) \<and>
     ec_read_opts codec (ec_emit_opts codec (ce_opts e)) = Some (ce_opts e) \<and>
     storable_text (r_name_server_group (ce_data e)) \<and> storable_text (ce_ecs e)"

definition storable :: "entry_codec \<Rightarrow> cache_entry \<Rightarrow> bool" where
  "storable codec e \<longleftrightarrow> storable_as codec (r_message (ce_data e)) e"

definition with_message :: "message \<Rightarrow> cache_entry \<Rightarrow> cache_entry" where
  "with_message m e = e\<lparr>ce_data := (ce_data e)\<lparr>r_message := m\<rparr>\<rparr>"

lemma with_message_same [simp]: "with_message (r_message (ce_data e)) e = e"
  by (simp add: with_message_def)

lemma read_emit_opts:
  assumes "length (ec_emit_opts codec opts) \<le> 65535" "ec_read_opts codec (ec_emit_opts codec opts) = Some opts"
  shows "read_opts codec (7 # emit_u16 (of_nat (length (ec_emit_opts codec opts))) @ ec_emit_opts codec opts @ rest) = Some (opts, rest)"
proof -
  have "unat (of_nat (length (ec_emit_opts codec opts)) :: u16) = length (ec_emit_opts codec opts)"
    using assms(1) by (simp add: unat_of_nat take_bit_eq_mod)
  then show ?thesis using assms(2) by (simp add: read_opts_def read_slice_def)
qed

lemma read_emit_entry:
  assumes "storable_as codec m e" "emit_entry codec now e = Some bs"
  shows "read_entry codec wall now' (bs @ rest) = Some (restored now wall now' (with_message m e), rest) \<and> bs \<noteq> []"
proof -
  obtain msg where m: "ec_emit_message codec (r_message (ce_data e)) = Some msg"
    "\<And>rest. ec_read_message codec (msg @ rest) = Some (m, rest)"
    using assms(1) by (auto simp: storable_as_def)
  have o: "length (ec_emit_opts codec (ce_opts e)) \<le> 65535"
    using assms(2) by (auto simp: emit_entry_def m(1) Let_def split: if_splits)
  note t = assms(1) [unfolded storable_as_def]
  have l: "read_lifetime now' ((if now < ce_valid_until e then [2] @ emit_u32 (as_secs_u32 (ce_valid_until e - now))
        else [5] @ emit_u32 (as_secs_u32 (now - ce_valid_until e))) @ rest) =
      Some (if now < ce_valid_until e
                   then now' + secs (clamp_file_duration (as_secs_u32 (ce_valid_until e - now)))
                   else now' - secs (clamp_file_duration (as_secs_u32 (now - ce_valid_until e))), rest)" for rest
    by (simp add: read_lifetime_def)
  have bs: "bs = [1] @ msg @ (if now < ce_valid_until e then [2] @ emit_u32 (as_secs_u32 (ce_valid_until e - now))
        else [5] @ emit_u32 (as_secs_u32 (now - ce_valid_until e))) @
      [3] @ emit_opt_text (r_name_server_group (ce_data e)) @ [4] @ emit_u32 (ucast (cs_hits (ce_stats e))) @
      [6] @ emit_opt_text (ce_ecs e) @ [7] @ emit_u16 (of_nat (length (ec_emit_opts codec (ce_opts e)))) @ ec_emit_opts codec (ce_opts e)"
    using assms(2) by (auto simp: emit_entry_def m(1) Let_def split: if_splits)
  have "read_entry codec wall now' (bs @ rest) = Some (restored now wall now' (with_message m e), rest)"
    unfolding bs read_entry_def
    using t by (simp add: with_message_def expect_def m(2) l read_emit_group read_emit_ecs read_emit_opts [OF o]
        restored_def entry_new_def stats_new_def Let_def)
  then show ?thesis by (simp add: bs)
qed

lemma best_effort_step:
  "read_entry codec wall now bs = Some (e, rest) \<Longrightarrow> length rest < length bs \<Longrightarrow>
     deserialize_best_effort codec wall now bs =
       (e # fst (deserialize_best_effort codec wall now rest), snd (deserialize_best_effort codec wall now rest))"
  by (subst deserialize_best_effort.simps) (auto split: prod.split)

lemma best_effort_append:
  assumes "\<forall>e \<in> set es. storable_as codec (f e) e"
  shows "deserialize_best_effort codec wall now' (serialize_many codec now es @ rest) =
    (List.map (\<lambda>e. restored now wall now' (with_message (f e) e)) (List.filter (\<lambda>e. emit_entry codec now e \<noteq> None) es)
       @ fst (deserialize_best_effort codec wall now' rest),
     snd (deserialize_best_effort codec wall now' rest))"
  using assms
proof (induction es)
  case Nil
  then show ?case by (simp add: serialize_many_def)
next
  case (Cons e es)
  show ?case
  proof (cases "emit_entry codec now e")
    case None
    then show ?thesis using Cons by (simp add: serialize_many_def)
  next
    case (Some bs)
    note r = read_emit_entry [OF _ Some, of "f e" wall now' "serialize_many codec now es @ rest"]
    have "serialize_many codec now (e # es) @ rest = bs @ serialize_many codec now es @ rest"
      using Some by (simp add: serialize_many_def)
    then show ?thesis
      using Cons r best_effort_step [of codec wall now' "bs @ serialize_many codec now es @ rest"] Some by simp
  qed
qed

section \<open>Properties\<close>

lemma persist_octets:
  "CACHE_HEADER_LEN \<le> length (persist_bytes ops codec now dc) \<and>
   drop CACHE_HEADER_LEN (persist_bytes ops codec now dc) =
     serialize_many codec now (concat (List.map (\<lambda>s. List.map snd (lru_items ops s)) (dc_shards dc)))"
proof -
  have app: "serialize_many codec now (xs @ ys) = serialize_many codec now xs @ serialize_many codec now ys" for xs ys
    by (simp add: serialize_many_def)
  have "concat (List.map (\<lambda>s. serialize_many codec now (List.map snd (lru_items ops s))) ss) =
      serialize_many codec now (concat (List.map (\<lambda>s. List.map snd (lru_items ops s)) ss))" for ss
    by (induction ss) (simp_all add: app, simp add: serialize_many_def)
  moreover have "length (emit_cache_header n) = CACHE_HEADER_LEN" for n 
    by (simp add: emit_cache_header_def CACHE_MAGIC_def emit_u16_le_def emit_u32_le_def CACHE_HEADER_LEN_def)
  ultimately show ?thesis by (simp add: persist_bytes_def)
qed

text \<open>The file gives back what was written to it: the header has the version and the number of
  entries, and reading the rest yields every entry that could be written, in the order of the shards, as
  \<open>restored\<close>; whatever junk follows the written entries, none of them is lost.\<close>

theorem cache_file_roundtrip:
  assumes "\<forall>s \<in> set (dc_shards dc). \<forall>(k, e) \<in> set (lru_items ops s). storable codec e"
  shows "let es = concat (List.map (\<lambda>s. List.map snd (lru_items ops s)) (dc_shards dc));
             written = List.filter (\<lambda>e. emit_entry codec now e \<noteq> None) es;
             data = persist_bytes ops codec now dc
    in parse_cache_header (data @ junk) = Some (CACHE_FORMAT_VERSION, of_nat (length es)) \<and>
       deserialize_best_effort codec wall now' (drop CACHE_HEADER_LEN (data @ junk)) =
         (List.map (restored now wall now') written @ fst (deserialize_best_effort codec wall now' junk),
          snd (deserialize_best_effort codec wall now' junk))"
proof -
  define es where "es = concat (List.map (\<lambda>s. List.map snd (lru_items ops s)) (dc_shards dc))"
  have st: "\<forall>e \<in> set es. storable_as codec (r_message (ce_data e)) e" using assms by (fastforce simp: es_def storable_def)
  have app: "serialize_many codec now (xs @ ys) = serialize_many codec now xs @ serialize_many codec now ys" for xs ys
    by (simp add: serialize_many_def)
  have "concat (List.map (\<lambda>s. serialize_many codec now (List.map snd (lru_items ops s))) ss) =
      serialize_many codec now (concat (List.map (\<lambda>s. List.map snd (lru_items ops s)) ss))" for ss
    by (induction ss) (simp_all add: app, simp add: serialize_many_def)
  moreover have "cache_entries ops dc = length es"
    by (simp add: es_def cache_entries_def length_concat comp_def)
  ultimately have d: "persist_bytes ops codec now dc @ junk =
      emit_cache_header (of_nat (length es)) @ serialize_many codec now es @ junk"
    by (simp add: persist_bytes_def es_def)
  show ?thesis
    unfolding Let_def es_def [symmetric] d
    using parse_emit_header [of "of_nat (length es)" "serialize_many codec now es @ junk"]
      best_effort_append [OF st, of wall now' now junk] by simp
qed

text \<open>An entry never comes back from the file with more life than it had, and loses less than a
  second; an expired one comes back no older than it was. But its age is capped at a day, although the
  cache may keep expired entries for longer, so a restart makes an old answer younger.\<close>

theorem saved_lifetimes:
  assumes "ce_valid_until e - now \<le> secs 86400" "now - ce_valid_until e < secs (2 ^ 32)"
  shows "(now < ce_valid_until e \<longrightarrow>
      (let left = ce_valid_until (restored now wall now' e) - now'
       in 0 \<le> left \<and> left \<le> ce_valid_until e - now \<and> ce_valid_until e - now < left + secs 1)) \<and>
    (ce_valid_until e \<le> now \<longrightarrow>
      now' - ce_valid_until (restored now wall now' e) =
        secs (nat (min ((now - ce_valid_until e) div 1000000000) 86400)))"
proof -
  have u: "int (unat (as_secs_u32 d)) = d div 1000000000" if "0 \<le> d" "d < secs (2 ^ 32)" for d
  proof -
    have "d < 4294967296000000000" using that by (simp add: secs_def)
    then have "0 \<le> d div 1000000000" "d div 1000000000 < 4294967296" using that by linarith+
    then show ?thesis by (simp add: as_secs_u32_def uint_word_of_int)
  qed
  show ?thesis
  proof (cases "now < ce_valid_until e")
    case True
    define d where "d = ce_valid_until e - now"
    have d: "0 < d" "d \<le> secs 86400" "d < secs (2 ^ 32)" using True assms(1) by (auto simp: d_def secs_def)
    define q where "q = d div 1000000000"
    have "d = q * 1000000000 + d mod 1000000000" unfolding q_def by simp
    moreover have "0 \<le> d mod 1000000000" "d mod 1000000000 < 1000000000" by simp_all
    ultimately have q: "q * 1000000000 \<le> d" "d < q * 1000000000 + 1000000000" by linarith+
    have i: "int (unat (as_secs_u32 d)) = q" using u [of d] d unfolding q_def by linarith
    moreover have "d \<le> 86400000000000" using d(2) by (simp add: secs_def)
    then have "unat (as_secs_u32 d) \<le> 86400" using q i by linarith
    then have "clamp_file_duration (as_secs_u32 d) = unat (as_secs_u32 d)"
      by (simp add: clamp_file_duration_def word_le_nat_alt MAX_TTL_def)
    ultimately have "secs (clamp_file_duration (as_secs_u32 d)) = q * 1000000000" by (simp only: secs_def)
    then show ?thesis using True q d by (simp add: restored_def d_def [symmetric] Let_def secs_def)
  next
    case False
    define d where "d = now - ce_valid_until e"
    have d: "0 \<le> d" "d < secs (2 ^ 32)" using False assms(2) by (auto simp: d_def)
    have q: "int (unat (as_secs_u32 d)) = d div 1000000000" using u [OF d] .
    have "clamp_file_duration (as_secs_u32 d) = min (unat (as_secs_u32 d)) 86400"
      by (simp add: clamp_file_duration_def word_le_nat_alt MAX_TTL_def)
    then have "int (clamp_file_duration (as_secs_u32 d)) = min (d div 1000000000) 86400"
      unfolding q [symmetric] by linarith
    then show ?thesis using False by (simp add: restored_def d_def [symmetric] Let_def secs_def)
  qed
qed

definition demo_stored :: cache_entry where
  "demo_stored = entry_new 0 (cached_response demo_key (demo_answer 60) 0) (secs 60) None (ck_opts demo_key)"

definition demo_codec :: entry_codec where
  "demo_codec = \<lparr>ec_emit_message = (\<lambda>m. if m = r_message (ce_data demo_stored) then Some [1, 2] else None),
     ec_read_message = (\<lambda>bs. if take 2 bs = [1, 2] then Some (r_message (ce_data demo_stored), drop 2 bs) else None),
     ec_emit_opts = (\<lambda>_. [9]), ec_read_opts = (\<lambda>_. Some (ck_opts demo_key)), ec_default_opts = ck_opts demo_key\<rparr>"

lemma demo_stored_texts: "r_name_server_group (ce_data demo_stored) = Some ''default''" "ce_ecs demo_stored = None"
  by (simp_all add: demo_stored_def entry_new_def cached_response_def r_set_new_ttl_def map_records_def Let_def demo_key_def)

lemma demo_storable: "storable demo_codec demo_stored"
proof -
  have "storable_text (Some ''default'')" by (simp add: storable_text_def as_bytes_def)
  then show ?thesis
    using demo_stored_texts by (auto simp: storable_def storable_as_def demo_codec_def storable_text_def) (simp add: demo_stored_def entry_new_def)
qed

lemma demo_emitted: "emit_entry demo_codec 0 demo_stored \<noteq> None"
  by (simp add: emit_entry_def demo_codec_def demo_stored_texts emit_opt_text_def emit_u32_def emit_u16_def Let_def)

lemma items_list_lru [simp]: "lru_items list_lru = snd"
  by (simp add: list_lru_def)

theorem cache_file_roundtrip_witness:
  "deserialize_best_effort demo_codec 0 7 (drop CACHE_HEADER_LEN (persist_bytes list_lru demo_codec 0
      ((cache_new list_lru 1000 True 86400 5 21600)\<lparr>dc_shards := [(4, [(ck_canon demo_key, demo_stored)])]\<rparr>) @ [255]))
    = ([restored 0 0 7 demo_stored], True)"
proof -
  have "deserialize_best_effort demo_codec 0 7 [255] = ([], True)"
    by (subst deserialize_best_effort.simps) (simp add: read_entry_def expect_def)
  moreover have "\<forall>s \<in> set (dc_shards ((cache_new list_lru 1000 True 86400 5 21600)
      \<lparr>dc_shards := [(4, [(ck_canon demo_key, demo_stored)])]\<rparr>)). \<forall>(k, e) \<in> set (lru_items list_lru s). storable demo_codec e"
    using demo_storable by simp
  note cache_file_roundtrip [OF this, of 0 "[255]" 0 7]
  ultimately show ?thesis using demo_emitted unfolding Let_def by simp
qed

theorem saved_lifetimes_witness:
  "secs 86400 = 7 - ce_valid_until (restored (secs 200060) 0 7 demo_stored)"
  using saved_lifetimes [where e = demo_stored and now = "secs 200060" and now' = 7 and wall = 0] by (simp add: demo_stored_def entry_new_def secs_def)

text \<open>An entry as it was written before the client subnet and the options were part of it.\<close>

definition entry_before_subnets :: "entry_codec \<Rightarrow> int \<Rightarrow> cache_entry \<Rightarrow> u8 list \<Rightarrow> u8 list" where
  "entry_before_subnets codec now e msg =
     [1] @ msg @
     (if now < ce_valid_until e then [2] @ emit_u32 (as_secs_u32 (ce_valid_until e - now))
      else [5] @ emit_u32 (as_secs_u32 (now - ce_valid_until e))) @
     [3] @ emit_opt_text (r_name_server_group (ce_data e)) @
     [4] @ emit_u32 (ucast (cs_hits (ce_stats e)))"

text \<open>Reading the subnet of an entry that has none eats the first octet of the next entry. Of a file
  from before subnets, which the reader is meant to accept, only the first entry comes back, unless the
  second message id happens to start with one of two octets.\<close>

theorem missing_subnet_loses_next_entry:
  assumes "storable codec e" "ec_emit_message codec (r_message (ce_data e)) = Some msg" "b \<noteq> 1" "b \<noteq> 7"
  shows "\<exists>e'. deserialize_best_effort codec wall now' (entry_before_subnets codec now e msg @ 1 # b # tail) = ([e'], True) \<and>
    r_message (ce_data e') = r_message (ce_data e)"
proof -
  have m: "ec_read_message codec (msg @ rest) = Some (r_message (ce_data e), rest)" for rest
    using assms(1, 2) by (auto simp: storable_def storable_as_def)
  have l: "\<exists>until. read_lifetime now' ((if now < ce_valid_until e then [2] @ emit_u32 (as_secs_u32 (ce_valid_until e - now))
        else [5] @ emit_u32 (as_secs_u32 (now - ce_valid_until e))) @ rest) = Some (until, rest)" for rest
    by (simp add: read_lifetime_def)
  have "\<exists>e'. read_entry codec wall now' (entry_before_subnets codec now e msg @ 1 # b # tail) = Some (e', b # tail) \<and>
    r_message (ce_data e') = r_message (ce_data e)"
  proof -
    obtain until where u: "read_lifetime now' ((if now < ce_valid_until e then [2] @ emit_u32 (as_secs_u32 (ce_valid_until e - now))
        else [5] @ emit_u32 (as_secs_u32 (now - ce_valid_until e))) @
        [3] @ emit_opt_text (r_name_server_group (ce_data e)) @ [4] @ emit_u32 (ucast (cs_hits (ce_stats e))) @ 1 # b # tail) =
        Some (until, [3] @ emit_opt_text (r_name_server_group (ce_data e)) @ [4] @ emit_u32 (ucast (cs_hits (ce_stats e))) @ 1 # b # tail)"
      using l by blast
    have g: "read_group (emit_opt_text (r_name_server_group (ce_data e)) @ rest) = Some (r_name_server_group (ce_data e), rest)" for rest
      using assms(1) by (simp add: storable_def storable_as_def read_emit_group)
    show ?thesis
      using u assms(4) by (simp add: entry_before_subnets_def read_entry_def expect_def m g read_ecs_def
          read_opts_def entry_new_def Let_def)
  qed
  then obtain e' where r: "read_entry codec wall now' (entry_before_subnets codec now e msg @ 1 # b # tail) = Some (e', b # tail)"
    "r_message (ce_data e') = r_message (ce_data e)" by blast
  have "deserialize_best_effort codec wall now' (b # tail) = ([], True)"
    using assms(3) by (subst deserialize_best_effort.simps) (simp add: read_entry_def expect_def)
  moreover have "length (b # tail) < length (entry_before_subnets codec now e msg @ 1 # b # tail)" by simp
  ultimately show ?thesis using best_effort_step [OF r(1)] r(2) by auto
qed

theorem missing_subnet_loses_next_entry_witness:
  "\<exists>e'. deserialize_best_effort demo_codec 0 7
      (entry_before_subnets demo_codec 0 demo_stored [1, 2] @ entry_before_subnets demo_codec 0 demo_stored [2, 2]) = ([e'], True)"
  using missing_subnet_loses_next_entry [OF demo_storable, of "[1, 2]" 2 0 7 0 "tl (tl (entry_before_subnets demo_codec 0 demo_stored [2, 2]))"]
  by (auto simp: demo_codec_def entry_before_subnets_def)

end
