(* ===== verification/Wire.thy ===== *)
theory Wire
  imports Name_Wire Net_Addr
begin

text \<open>
  The primitive reads and writes of messages (\<open>serialize/binary/decoder.rs\<close>, \<open>encoder.rs\<close>): octets,
  numbers in network order, character data, places that are filled in later, and the lists an encoder
  cuts off when the buffer is full. A reader takes all octets and its index and returns a value with the
  next index; an emitter takes and returns the encoder. Two notions carry the proofs of all codecs:
  \<open>emits f r v\<close> says that \<open>r\<close> reads the value \<open>v\<close> back from what \<open>f\<close> writes, and \<open>blind f\<close> that \<open>f\<close> does not
  look at the octets before its own, so that a length filled in afterwards is as good as one written
  first.
\<close>

section \<open>Readers\<close>

datatype read_error =
    RE_Decode decode_error
  | RE_EdnsNameNotRoot dname
  | RE_UnknownRecordTypeValue u16
  | RE_IncorrectRDataLengthRead nat nat
  | RE_RDataLengthTooLarge u16 nat
  | RE_UnrecognizedCsyncFlags u16
  | RE_SvcParamTooLong u16 nat
  | RE_BadSvcbLength
  | RE_OnlyInAdditional rtype
  | RE_Utf8
  | RE_Stuck
  | RE_Message string

type_synonym 'a reader = "u8 list \<Rightarrow> nat \<Rightarrow> ('a \<times> nat, read_error) result"

definition rd_return :: "'a \<Rightarrow> 'a reader" where
  "rd_return x buf i = Inr (x, i)"

definition rd_fail :: "read_error \<Rightarrow> 'a reader" where
  "rd_fail e buf i = Inl e"

definition rd_bind :: "'a reader \<Rightarrow> ('a \<Rightarrow> 'b reader) \<Rightarrow> 'b reader" where
  "rd_bind r k buf i = result_bind (r buf i) (\<lambda>(x, j). k x buf j)"

text \<open>How many octets are left, and where the reader is.\<close>

definition rd_len :: "nat reader" where
  "rd_len buf i = Inr (length buf - i, i)"

definition rd_index :: "nat reader" where
  "rd_index buf i = Inr (i, i)"

definition rd_slice :: "nat \<Rightarrow> u8 list reader" where
  "rd_slice n buf i =
     (if length buf < i + n then Inl (RE_Decode DE_InsufficientBytes)
      else Inr (take n (drop i buf), i + n))"

definition rd_pop :: "u8 reader" where
  "rd_pop buf i = (if length buf \<le> i then Inl (RE_Decode DE_InsufficientBytes) else Inr (buf ! i, i + 1))"

definition from_be :: "u8 list \<Rightarrow> 'a::len word" where
  "from_be bs = foldl (\<lambda>a b. push_bit 8 a OR ucast b) 0 bs"

definition rd_u16 :: "u16 reader" where
  "rd_u16 = rd_bind (rd_slice 2) (\<lambda>s. rd_return (from_be s))"

definition rd_u32 :: "u32 reader" where
  "rd_u32 = rd_bind (rd_slice 4) (\<lambda>s. rd_return (from_be s))"

definition rd_character_data :: "u8 list reader" where
  "rd_character_data = rd_bind rd_pop (\<lambda>n. rd_slice (unat n))"

text \<open>A name. The loop of \<open>read_inner\<close> has no bound in the code; if it went on after all its fuel is spent, that
  is \<open>RE_Stuck\<close>, like a loop below that makes no progress.\<close>

definition rd_name :: "dname reader" where
  "rd_name buf i =
     (case read_name buf i of
        Some (Inr (n, j)) \<Rightarrow> Inr (n, j)
      | Some (Inl e) \<Rightarrow> Inl (RE_Decode e)
      | None \<Rightarrow> Inl RE_Stuck)"

fun rd_many :: "nat \<Rightarrow> 'a reader \<Rightarrow> 'a list reader" where
  "rd_many 0 r = rd_return []"
| "rd_many (Suc k) r = rd_bind r (\<lambda>x. rd_bind (rd_many k r) (\<lambda>xs. rd_return (x # xs)))"

text \<open>A loop of the decoder: as long as \<open>continue\<close> holds of the index, one more step. A step that takes no
  octet would make the code loop for ever; the model says \<open>RE_Stuck\<close>, and no step of the readers does so.\<close>

function rd_while :: "(nat \<Rightarrow> bool) \<Rightarrow> ('s \<Rightarrow> 's reader) \<Rightarrow> 's \<Rightarrow> 's reader" where
  "rd_while continue step s buf i =
     (if continue i then
        (case step s buf i of
           Inl e \<Rightarrow> Inl e
         | Inr (s', j) \<Rightarrow> if i < j \<and> j \<le> length buf then rd_while continue step s' buf j else Inl RE_Stuck)
      else Inr (s, i))"
  by pat_completeness auto
termination by (relation "measure (\<lambda>(continue, step, s, buf, i). length buf - i)") auto

section \<open>Emitters\<close>

fun be_octets :: "nat \<Rightarrow> 'a::len word \<Rightarrow> u8 list" where
  "be_octets 0 w = []"
| "be_octets (Suc n) w = be_octets n (drop_bit 8 w) @ [ucast w]"

definition put_u16 :: "u16 \<Rightarrow> emitter" where
  "put_u16 w = write_slice (be_octets 2 w)"

definition put_u32 :: "u32 \<Rightarrow> emitter" where
  "put_u32 w = write_slice (be_octets 4 w)"

fun emit_seq :: "emitter list \<Rightarrow> emitter" where
  "emit_seq [] en = Inr en"
| "emit_seq (f # fs) en = result_bind (f en) (emit_seq fs)"

definition buffer_reserve :: "nat \<Rightarrow> nat \<Rightarrow> emitter" where
  "buffer_reserve offset n en =
     (let end_index = offset + n in
      if en_max_size en < end_index then Inl (EE_MaxBufferSizeExceeded (en_max_size en), en)
      else Inr (en\<lparr>en_buffer := take end_index (en_buffer en) @ replicate (end_index - length (en_buffer en)) 0\<rparr>))"

text \<open>A place of \<open>n\<close> octets at the offset, and the octets that fill it later.\<close>

definition put_place :: "nat \<Rightarrow> emitter" where
  "put_place n en =
     result_bind (buffer_reserve (en_offset en) n en) (\<lambda>en'. Inr (en'\<lparr>en_offset := en_offset en' + n\<rparr>))"

definition emit_at :: "nat \<Rightarrow> u8 list \<Rightarrow> emitter" where
  "emit_at start bytes en =
     (case write_slice bytes (en\<lparr>en_offset := start\<rparr>) of
        Inr en' \<Rightarrow> Inr (en'\<lparr>en_offset := en_offset en\<rparr>)
      | Inl (e, en') \<Rightarrow> Inl (e, en'\<lparr>en_offset := en_offset en\<rparr>))"

definition with_length :: "emitter \<Rightarrow> emitter" where
  "with_length body en =
     (let start = en_offset en in
      result_bind (put_place 2 en)
        (\<lambda>en1. result_bind (body en1)
           (\<lambda>en2. emit_at start (be_octets 2 (of_nat (en_offset en2 - start - 2) :: u16)) en2)))"

text \<open>The guard of \<open>with_rdata_behavior\<close> sets the encoding of names back when it is dropped, after an
  error too. The canonical form of DNSSEC is never switched on.\<close>

datatype rdata_encoding = StandardRecord | Canonical | OtherRecord

definition with_rdata_behavior :: "rdata_encoding \<Rightarrow> emitter \<Rightarrow> emitter" where
  "with_rdata_behavior enc body en =
     (let previous = en_name_encoding en;
          en0 = (if enc = StandardRecord then en else en\<lparr>en_name_encoding := NE_Uncompressed\<rparr>)
      in case body en0 of
           Inr en' \<Rightarrow> Inr (en'\<lparr>en_name_encoding := previous\<rparr>)
         | Inl (e, en') \<Rightarrow> Inl (e, en'\<lparr>en_name_encoding := previous\<rparr>))"

text \<open>What writing a list of items gives: the number of items, or the number of those before the first
  that found the buffer full (the encoder then goes back to the end of these; the octets behind its
  offset stay in the buffer), or another error.\<close>

datatype iter_error = IE_NotAllRecordsWritten nat | IE_Other emit_error

definition roll_back :: "encoder \<Rightarrow> encoder \<Rightarrow> encoder" where
  "roll_back mark en =
     en\<lparr>en_offset := en_offset mark,
        en_name_pointers := take (length (en_name_pointers mark)) (en_name_pointers en)\<rparr>"

fun emit_iter :: "nat \<Rightarrow> emitter list \<Rightarrow> encoder \<Rightarrow> (nat \<times> encoder, iter_error \<times> encoder) result" where
  "emit_iter count [] en = Inr (count, en)"
| "emit_iter count (f # fs) en =
     (case f en of
        Inr en' \<Rightarrow> emit_iter (Suc count) fs en'
      | Inl (EE_MaxBufferSizeExceeded m, en') \<Rightarrow> Inl (IE_NotAllRecordsWritten count, roll_back en en')
      | Inl (e, en') \<Rightarrow> Inl (IE_Other e, en'))"

definition emit_all :: "emitter list \<Rightarrow> encoder \<Rightarrow> (nat \<times> encoder, iter_error \<times> encoder) result" where
  "emit_all fs en = emit_iter 0 fs en"

definition count_was_truncated ::
    "(nat \<times> encoder, iter_error \<times> encoder) result \<Rightarrow> ((nat \<times> bool) \<times> encoder, iter_error \<times> encoder) result" where
  "count_was_truncated r =
     (case r of
        Inr (count, en) \<Rightarrow> Inr ((count, False), en)
      | Inl (IE_NotAllRecordsWritten count, en) \<Rightarrow> Inr ((count, True), en)
      | Inl (IE_Other e, en) \<Rightarrow> Inl (IE_Other e, en))"

text \<open>Octets written in several writes: pieces of the given lengths and what is left.\<close>

fun chunks :: "nat list \<Rightarrow> u8 list \<Rightarrow> u8 list list" where
  "chunks [] bs = [bs]"
| "chunks (n # ns) bs = take n bs # chunks ns (drop n bs)"

definition write_all :: "u8 list list \<Rightarrow> emitter" where
  "write_all bss = emit_seq (List.map write_slice bss)"

section \<open>Numbers\<close>

lemma from_be_snoc: "(from_be (bs @ [b]) :: 'a::len word) = push_bit 8 (from_be bs) OR ucast b"
  by (simp add: from_be_def)

lemma length_be_octets [simp]: "length (be_octets n w) = n"
  by (induction n arbitrary: w) simp_all

lemma from_be_octets: "(from_be (be_octets n w) :: 'a::len word) = take_bit (8 * n) w"
proof (induction n arbitrary: w)
  case 0
  then show ?case by (simp add: from_be_def)
next
  case (Suc n)
  show ?case
    unfolding be_octets.simps from_be_snoc Suc.IH
    by (rule bit_word_eqI) (auto simp: bit_simps)
qed

lemma from_be_octets_full [simp]:
  "from_be (be_octets 2 (w :: u16)) = w" "from_be (be_octets 4 (v :: u32)) = v"
  "from_be (be_octets 16 (x :: 128 word)) = x"
  by (simp_all add: from_be_octets take_bit_word_eq_self)

lemma be_octets_from_be: "length bs = n \<Longrightarrow> 8 * n \<le> LENGTH('a) \<Longrightarrow> be_octets n (from_be bs :: 'a::len word) = bs"
proof (induction n arbitrary: bs)
  case 0
  then show ?case by simp
next
  case (Suc n)
  then obtain cs b where bs: "bs = cs @ [b]" "length cs = n" by (metis length_Suc_conv_rev)
  have "(ucast (from_be (cs @ [b]) :: 'a word) :: u8) = b"
    unfolding from_be_snoc by (rule bit_word_eqI) (use Suc.prems in \<open>auto simp: bit_simps\<close>)
  moreover have "drop_bit 8 (from_be (cs @ [b]) :: 'a word) = take_bit (LENGTH('a) - 8) (from_be cs)"
    unfolding from_be_snoc by (rule bit_word_eqI) (auto simp: bit_simps dest: bit_imp_le_length)
  moreover have "be_octets n (take_bit (LENGTH('a) - 8) (from_be cs) :: 'a word) = be_octets n (from_be cs :: 'a word)"
  proof -
    have "be_octets k (take_bit m v :: 'a word) = be_octets k v" if "8 * k \<le> m" for k m v
      using that
    proof (induction k arbitrary: m v)
      case (Suc k)
      have "drop_bit 8 (take_bit m v) = take_bit (m - 8) (drop_bit 8 v)"
        by (rule bit_word_eqI) (use Suc.prems in \<open>auto simp: bit_simps\<close>)
      moreover have "(ucast (take_bit m v) :: u8) = ucast v"
        by (rule bit_word_eqI) (use Suc.prems in \<open>auto simp: bit_simps\<close>)
      ultimately show ?case using Suc by simp
    qed simp
    then show ?thesis using Suc.prems by simp
  qed
  ultimately show ?case using Suc.IH [of cs] Suc.prems bs by simp
qed

section \<open>Readers on what was written\<close>

lemma rd_slice_append [simp]:
  "length bs = n \<Longrightarrow> rd_slice n (pre @ bs @ rest) (length pre) = Inr (bs, length pre + n)"
  by (simp add: rd_slice_def)

lemma rd_bind_Inr_iff:
  "rd_bind r k buf i = Inr (y, l) \<longleftrightarrow> (\<exists>x j. r buf i = Inr (x, j) \<and> k x buf j = Inr (y, l))"
  by (cases "r buf i") (auto simp: rd_bind_def)

lemma rd_name_Inr_iff: "rd_name buf i = Inr (n, j) \<longleftrightarrow> read_name buf i = Some (Inr (n, j))"
  by (auto simp: rd_name_def split: option.splits sum.splits)

section \<open>Emitters that do not look back\<close>

text \<open>The encoder with its first octets replaced.\<close>

definition sub :: "u8 list \<Rightarrow> encoder \<Rightarrow> encoder" where
  "sub P en = en\<lparr>en_buffer := P @ drop (length P) (en_buffer en)\<rparr>"

lemma sub_simps [simp]:
  "en_offset (sub P en) = en_offset en" "en_max_size (sub P en) = en_max_size en"
  "en_name_pointers (sub P en) = en_name_pointers en" "en_name_encoding (sub P en) = en_name_encoding en"
  "en_buffer (sub P en) = P @ drop (length P) (en_buffer en)"
  by (simp_all add: sub_def)

lemma sub_upd:
  "(sub P en)\<lparr>en_offset := i\<rparr> = sub P (en\<lparr>en_offset := i\<rparr>)"
  "(sub P en)\<lparr>en_name_encoding := e\<rparr> = sub P (en\<lparr>en_name_encoding := e\<rparr>)"
  "(sub P en)\<lparr>en_name_pointers := ps\<rparr> = sub P (en\<lparr>en_name_pointers := ps\<rparr>)"
  by (simp_all add: sub_def)

definition blind :: "emitter \<Rightarrow> bool" where
  "blind f \<longleftrightarrow> (\<forall>en en'. ready en \<and> f en = Inr en' \<longrightarrow>
     ready en' \<and> (\<exists>ys. en_buffer en' = en_buffer en @ ys) \<and>
     (\<forall>P. length P \<le> length (en_buffer en) \<longrightarrow> f (sub P en) = Inr (sub P en')))"

lemma blindD:
  assumes "blind f" "ready en" "f en = Inr en'"
  shows "ready en'" "\<exists>ys. en_buffer en' = en_buffer en @ ys"
    "length P \<le> length (en_buffer en) \<Longrightarrow> f (sub P en) = Inr (sub P en')"
  using assms unfolding blind_def by blast+

lemma buffer_write_sub:
  assumes "buffer_write i bs en = Inr en'" "length P \<le> i" "length P \<le> length (en_buffer en)"
  shows "buffer_write i bs (sub P en) = Inr (sub P en')"
  using assms
  by (auto simp: buffer_write_def Let_def sub_def min_def drop_take split: if_splits)

lemma write_slice_sub:
  assumes "write_slice bs en = Inr en'" "length P \<le> en_offset en" "length P \<le> length (en_buffer en)"
  shows "write_slice bs (sub P en) = Inr (sub P en')"
proof -
  obtain en1 where e: "buffer_write (en_offset en) bs en = Inr en1" "en' = en1\<lparr>en_offset := en_offset en1 + length bs\<rparr>"
    using assms(1) by (auto simp: write_slice_def result_bind_Inr_iff)
  show ?thesis using buffer_write_sub [OF e(1) assms(2, 3)] e(2) by (simp add: write_slice_def sub_def)
qed

lemma write_slice_ok:
  assumes "write_slice bs en = Inr en'" "ready en"
  shows "ready en'" "en_buffer en' = en_buffer en @ bs"
  using write_slice_Inr [OF assms] by (rule conjunct2, simp)

lemma write_slice_ready:
  "ready en \<Longrightarrow> \<not> en_max_size en < en_offset en + length bs \<Longrightarrow>
   write_slice bs en = Inr (en\<lparr>en_buffer := en_buffer en @ bs, en_offset := length (en_buffer en) + length bs\<rparr>)"
  by (simp add: write_slice_def buffer_write_def Let_def ready_def)

lemma blind_write_slice [intro]: "blind (write_slice bs)"
  unfolding blind_def
proof (intro allI impI conjI)
  fix en en' assume a: "ready en \<and> write_slice bs en = Inr en'"
  note w = write_slice_Inr [of bs en en']
  show "ready en'" "\<exists>ys. en_buffer en' = en_buffer en @ ys" using a w by auto
  fix P :: "u8 list" assume "length P \<le> length (en_buffer en)"
  then show "write_slice bs (sub P en) = Inr (sub P en')"
    using a by (intro write_slice_sub) (auto simp: ready_def)
qed

lemma blind_bind:
  assumes "blind f" "blind g"
  shows "blind (\<lambda>en. result_bind (f en) g)"
  unfolding blind_def
proof (intro allI impI conjI)
  fix en en' assume a: "ready en \<and> result_bind (f en) g = Inr en'"
  then obtain en1 where e: "f en = Inr en1" "g en1 = Inr en'" by (auto simp: result_bind_Inr_iff)
  note f = blindD [OF assms(1) conjunct1 [OF a] e(1)]
  note g = blindD [OF assms(2) f(1) e(2)]
  show "ready en'" by (rule g(1))
  show "\<exists>ys. en_buffer en' = en_buffer en @ ys" using f(2) g(2) by auto
  fix P :: "u8 list" assume P: "length P \<le> length (en_buffer en)"
  then have "length P \<le> length (en_buffer en1)" using f(2) by auto
  then show "result_bind (f (sub P en)) g = Inr (sub P en')" using f(3) [OF P] g(3) by simp
qed

lemma blind_emit_seq [intro]: "list_all blind fs \<Longrightarrow> blind (emit_seq fs)"
proof (induction fs)
  case Nil
  then show ?case by (auto simp: blind_def)
next
  case (Cons f fs)
  then show ?case using blind_bind [of f "emit_seq fs"] by (simp add: emit_seq.simps(2) [abs_def])
qed

lemma put_place_Inr:
  assumes "put_place n en = Inr en'" "ready en"
  shows "en' = en\<lparr>en_buffer := en_buffer en @ replicate n 0, en_offset := length (en_buffer en) + n\<rparr> \<and> ready en'"
  using assms by (auto simp: put_place_def buffer_reserve_def Let_def ready_def result_bind_Inr_iff split: if_splits)

lemma put_place_sub:
  assumes "put_place n en = Inr en'" "ready en" "length P \<le> length (en_buffer en)"
  shows "put_place n (sub P en) = Inr (sub P en')"
  using assms by (auto simp: put_place_def buffer_reserve_def Let_def ready_def result_bind_Inr_iff sub_def split: if_splits)

lemma emit_at_Inr:
  assumes "emit_at i bs en = Inr en'" "ready en" "i + length bs \<le> length (en_buffer en)"
  shows "en' = sub (take i (en_buffer en) @ bs) en \<and> ready en'"
proof -
  have "en' = en\<lparr>en_buffer := take i (en_buffer en) @ bs @ drop (i + length bs) (en_buffer en)\<rparr>"
  proof (cases "i = length (en_buffer en)")
    case True
    then have "bs = []" using assms(3) by simp
    then show ?thesis using assms True
      by (auto simp: emit_at_def write_slice_def buffer_write_def Let_def ready_def split: if_splits)
  next
    case False
    then show ?thesis using assms
      by (auto simp: emit_at_def write_slice_def buffer_write_def Let_def ready_def split: if_splits)
  qed
  then show ?thesis using assms(2, 3) by (simp add: sub_def ready_def)
qed

lemma with_length_parts:
  assumes "with_length body en = Inr en'" "ready en" "blind body"
  obtains en1 en2 where "put_place 2 en = Inr en1" "ready en1" "body en1 = Inr en2" "ready en2"
    "en_buffer en1 = en_buffer en @ [0, 0]" "en_offset en1 = length (en_buffer en1)"
    "en' = sub (en_buffer en @ be_octets 2 (of_nat (length (en_buffer en2) - length (en_buffer en) - 2) :: u16)) en2"
    "ready en'" "\<exists>ys. en_buffer en2 = en_buffer en @ [0, 0] @ ys"
proof -
  obtain en1 en2 where e: "put_place 2 en = Inr en1" "body en1 = Inr en2"
    "emit_at (en_offset en) (be_octets 2 (of_nat (en_offset en2 - en_offset en - 2) :: u16)) en2 = Inr en'"
    using assms(1) by (auto simp: with_length_def Let_def result_bind_Inr_iff)
  note p = put_place_Inr [OF e(1) assms(2)]
  note b = blindD [OF assms(3) conjunct2 [OF p] e(2)]
  have buf: "en_buffer en1 = en_buffer en @ [0, 0]" "en_offset en1 = length (en_buffer en1)" "en_offset en = length (en_buffer en)"
    "en_offset en2 = length (en_buffer en2)"
    using p b(1) assms(2) by (simp_all add: ready_def numeral_2_eq_2)
  obtain ys where ys: "en_buffer en2 = en_buffer en @ [0, 0] @ ys" using b(2) buf(1) by auto
  have fin: "en' = sub (take (en_offset en) (en_buffer en2) @ be_octets 2 (of_nat (en_offset en2 - en_offset en - 2) :: u16)) en2 \<and> ready en'"
    by (rule emit_at_Inr [OF e(3) b(1)]) (use ys buf in simp)
  have old: "take (length (en_buffer en)) (en_buffer en2) = en_buffer en" using ys by simp
  note fin = fin [unfolded buf(3, 4) old]
  show ?thesis using that [OF e(1) conjunct2 [OF p] e(2) b(1) buf(1, 2)] fin ys by blast
qed

text \<open>Filling in the length afterwards is as good as writing it first.\<close>

lemma with_length_first:
  assumes "with_length body en = Inr en'" "ready en" "blind body"
  shows "\<exists>len en1. put_u16 len en = Inr en1 \<and> body en1 = Inr en' \<and>
    length (en_buffer en') = length (en_buffer en) + 2 + unat len"
proof -
  obtain en1 en2 where e: "put_place 2 en = Inr en1" "ready en1" "body en1 = Inr en2" "ready en2"
    "en_buffer en1 = en_buffer en @ [0, 0]" "en_offset en1 = length (en_buffer en1)"
    "en' = sub (en_buffer en @ be_octets 2 (of_nat (length (en_buffer en2) - length (en_buffer en) - 2) :: u16)) en2"
    "ready en'" "\<exists>ys. en_buffer en2 = en_buffer en @ [0, 0] @ ys"
    using with_length_parts [OF assms] by blast
  let ?len = "of_nat (length (en_buffer en2) - length (en_buffer en) - 2) :: u16"
  let ?P = "en_buffer en @ be_octets 2 ?len"
  have len: "length ?P \<le> length (en_buffer en1)" using e(5) by simp
  have "body (sub ?P en1) = Inr en'" using blindD(3) [OF assms(3) e(2, 3) len] e(7) by simp
  moreover have "put_u16 ?len en = Inr (sub ?P en1)"
  proof -
    have "\<not> en_max_size en < en_offset en + 2"
      using e(1) by (auto simp: put_place_def buffer_reserve_def Let_def split: if_splits)
    then have "put_u16 ?len en = Inr (en\<lparr>en_buffer := ?P, en_offset := length (en_buffer en) + 2\<rparr>)"
      using assms(2) by (simp only: put_u16_def) (subst write_slice_ready, simp_all)
    then show ?thesis using put_place_Inr [OF e(1) assms(2)] e(5) by (simp add: sub_def)
  qed
  moreover have "unat ?len = length (en_buffer en2) - length (en_buffer en) - 2"
  proof -
    have "length (en_buffer en2) \<le> 65535" using e(4) by (simp add: ready_def)
    then show ?thesis by (simp add: unat_of_nat)
  qed
  moreover have "length (en_buffer en') = length (en_buffer en2)" using e(7, 9) by auto
  moreover have "length (en_buffer en) + 2 \<le> length (en_buffer en2)" using e(9) by auto
  ultimately show ?thesis by (intro exI [of _ ?len] exI [of _ "sub ?P en1"]) simp
qed

lemma emit_at_sub:
  assumes "emit_at i bs en = Inr en'" "length P \<le> i" "length P \<le> length (en_buffer en)"
  shows "emit_at i bs (sub P en) = Inr (sub P en')"
proof -
  obtain en1 where e: "write_slice bs (en\<lparr>en_offset := i\<rparr>) = Inr en1" "en' = en1\<lparr>en_offset := en_offset en\<rparr>"
    using assms(1) by (auto simp: emit_at_def split: sum.splits)
  have "write_slice bs (sub P (en\<lparr>en_offset := i\<rparr>)) = Inr (sub P en1)"
    by (rule write_slice_sub [OF e(1)]) (use assms in simp_all)
  then show ?thesis using e(2) by (simp add: emit_at_def sub_upd)
qed

lemma blind_with_length [intro]:
  assumes "blind body"
  shows "blind (with_length body)"
  unfolding blind_def
proof (intro allI impI conjI)
  fix en en' assume a: "ready en \<and> with_length body en = Inr en'"
  obtain en1 en2 where e: "put_place 2 en = Inr en1" "ready en1" "body en1 = Inr en2" "ready en2"
    "en_buffer en1 = en_buffer en @ [0, 0]" "ready en'" "\<exists>ys. en_buffer en2 = en_buffer en @ [0, 0] @ ys"
    "en' = sub (en_buffer en @ be_octets 2 (of_nat (length (en_buffer en2) - length (en_buffer en) - 2) :: u16)) en2"
    by (rule with_length_parts [OF conjunct2 [OF a] conjunct1 [OF a] assms])
  show "ready en'" by (rule e(6))
  show "\<exists>ys. en_buffer en' = en_buffer en @ ys" using e(8) by simp
  fix P :: "u8 list" assume P: "length P \<le> length (en_buffer en)"
  have off: "en_offset en = length (en_buffer en)" using a by (simp add: ready_def)
  have "put_place 2 (sub P en) = Inr (sub P en1)" by (rule put_place_sub) (use a e(1) P in auto)
  moreover have "body (sub P en1) = Inr (sub P en2)" by (rule blindD(3) [OF assms e(2, 3)]) (use e(5) P in simp)
  moreover have "emit_at (en_offset en) (be_octets 2 (of_nat (en_offset en2 - en_offset en - 2) :: u16)) en2 = Inr en'"
    using a e(1, 3) by (simp add: with_length_def Let_def)
  then have "emit_at (en_offset en) (be_octets 2 (of_nat (en_offset en2 - en_offset en - 2) :: u16)) (sub P en2) = Inr (sub P en')"
    by (rule emit_at_sub) (use P off e(7) in auto)
  ultimately show "with_length body (sub P en) = Inr (sub P en')" by (simp add: with_length_def Let_def)
qed

lemma ready_upd [simp]:
  "ready (en\<lparr>en_name_encoding := e\<rparr>) = ready en" "ready (en\<lparr>en_name_pointers := ps\<rparr>) = ready en"
  by (simp_all add: ready_def)

lemma blind_with_rdata_behavior [intro]:
  assumes "blind body"
  shows "blind (with_rdata_behavior enc body)"
  unfolding blind_def
proof (intro allI impI conjI)
  fix en en' :: encoder
  let ?en0 = "if enc = StandardRecord then en else en\<lparr>en_name_encoding := NE_Uncompressed\<rparr>"
  assume a: "ready en \<and> with_rdata_behavior enc body en = Inr en'"
  then obtain en1 where e: "body ?en0 = Inr en1" "en' = en1\<lparr>en_name_encoding := en_name_encoding en\<rparr>"
    by (auto simp: with_rdata_behavior_def Let_def split: sum.splits)
  have r: "ready ?en0" and b: "en_buffer ?en0 = en_buffer en" using a by simp_all
  note f = blindD [OF assms r e(1)]
  show "ready en'" using f(1) e(2) by simp
  show "\<exists>ys. en_buffer en' = en_buffer en @ ys" using f(2) b e(2) by simp
  fix P :: "u8 list" assume "length P \<le> length (en_buffer en)"
  then have "body (sub P ?en0) = Inr (sub P en1)" using f(3) b by simp
  moreover have "sub P ?en0 = (if enc = StandardRecord then sub P en else (sub P en)\<lparr>en_name_encoding := NE_Uncompressed\<rparr>)"
    by (simp add: sub_upd)
  ultimately show "with_rdata_behavior enc body (sub P en) = Inr (sub P en')"
    using e(2) by (simp add: with_rdata_behavior_def Let_def sub_upd split: if_splits)
qed

lemma blind_fail [intro]: "blind (\<lambda>en. Inl (e en))"
  by (simp add: blind_def)

lemma blind_Inr [intro]: "blind Inr"
  by (simp add: blind_def)

lemma blind_if [intro]: "(c \<Longrightarrow> blind f) \<Longrightarrow> (\<not> c \<Longrightarrow> blind g) \<Longrightarrow> blind (\<lambda>en. if c then f en else g en)"
  by (cases c) simp_all

lemma blind_put [intro]: "blind (emit_byte b)" "blind (put_u16 w)" "blind (put_u32 v)"
  unfolding emit_byte_def [abs_def] put_u16_def put_u32_def by (rule blind_write_slice)+

lemma blind_emit_character_data [intro]: "blind (emit_character_data bs)"
  unfolding emit_character_data_def [abs_def]
  by (intro blind_if blind_fail blind_bind blind_put blind_write_slice)

text \<open>Names: the table of pointers holds the octets of the names, and the search compares them with the
  octets of the name that is written.\<close>

lemma write_labels_sub:
  assumes "write_labels ls en = Inr (starts, en')" "ready en" "length P \<le> length (en_buffer en)"
  shows "write_labels ls (sub P en) = Inr (starts, sub P en')"
  using assms
proof (induction ls arbitrary: en starts)
  case Nil
  then show ?case by simp
next
  case (Cons l ls)
  obtain en1 starts1 where s: "emit_character_data (as_bytes l) en = Inr en1" "write_labels ls en1 = Inr (starts1, en')"
    "starts = en_offset en # starts1" "\<not> 63 < length l"
    using Cons.prems(1) by (auto simp: result_bind_Inr_iff split: if_splits)
  note b = blindD [OF blind_emit_character_data Cons.prems(2) s(1)]
  have "write_labels ls (sub P en1) = Inr (starts1, sub P en')"
    by (rule Cons.IH [OF s(2) b(1)]) (use b(2) Cons.prems(3) in auto)
  then show ?case using b(3) [OF Cons.prems(3)] s(3, 4) by simp
qed

lemma get_label_pointer_sub:
  "length P \<le> s \<Longrightarrow> length P \<le> length (en_buffer en) \<Longrightarrow> get_label_pointer s e (sub P en) = get_label_pointer s e en"
  by (simp add: get_label_pointer_def slice_of_def)

lemma store_label_pointer_sub:
  "length P \<le> s \<Longrightarrow> length P \<le> length (en_buffer en) \<Longrightarrow> store_label_pointer s e (sub P en) = sub P (store_label_pointer s e en)"
  by (simp add: store_label_pointer_def slice_of_def sub_def)

lemma store_label_pointer_simps [simp]:
  "en_buffer (store_label_pointer s e en) = en_buffer en" "ready (store_label_pointer s e en) = ready en"
  by (simp_all add: store_label_pointer_def)

lemma compress_sub:
  assumes "compress c last_index starts en = Inr (found, en')" "ready en"
    and "\<forall>s \<in> set starts. length P \<le> s \<and> s \<le> length (en_buffer en)"
  shows "compress c last_index starts (sub P en) = Inr (found, sub P en') \<and> ready en'"
  using assms
proof (induction starts arbitrary: en)
  case Nil
  then show ?case by simp
next
  case (Cons s starts)
  have P: "length P \<le> s" "length P \<le> length (en_buffer en)" "s \<le> length (en_buffer en)" using Cons.prems(3) by auto
  note sub = get_label_pointer_sub [OF P(1, 2)] store_label_pointer_sub [OF P(1, 2)]
  have skip: ?case if "compress c last_index (s # starts) (sub P en) = compress c last_index starts (sub P en1)"
    and "compress c last_index starts en1 = Inr (found, en')" and "ready en1" "en_buffer en1 = en_buffer en" for en1
    using Cons.IH [OF that(2, 3)] that(1, 4) Cons.prems(3) by auto
  show ?case
  proof (cases "get_label_pointer s last_index en")
    case None
    then show ?thesis by (intro skip [of "store_label_pointer s last_index en"]) (use Cons.prems sub in simp_all)
  next
    case (Some loc)
    show ?thesis
    proof (cases "c \<and> loc AND 0xC000 = 0")
      case True
      let ?t = "trim_buffer (en\<lparr>en_offset := s\<rparr>)"
      have t: "ready ?t" using Cons.prems(2) P(3) by (simp add: ready_def trim_buffer_def)
      have w: "write_slice (emit_u16 (0xC000 OR loc)) ?t = Inr en'" "found"
        using Cons.prems(1) Some True by (auto simp: result_bind_Inr_iff)
      have "trim_buffer ((sub P en)\<lparr>en_offset := s\<rparr>) = sub P ?t"
        using P by (simp add: trim_buffer_def sub_def take_drop)
      moreover have "write_slice (emit_u16 (0xC000 OR loc)) (sub P ?t) = Inr (sub P en')"
        by (rule write_slice_sub [OF w(1)]) (use P in \<open>simp_all add: trim_buffer_def\<close>)
      moreover have "ready en'" using write_slice_Inr [OF w(1) t] by (rule conjunct2)
      ultimately show ?thesis using w Some True sub by simp
    next
      case False
      show ?thesis
      proof (cases c)
        case True
        then show ?thesis by (intro skip [of "store_label_pointer s last_index en"]) (use False Some Cons.prems sub in simp_all)
      next
        case False
        then show ?thesis by (intro skip [of en]) (use Some Cons.prems sub in simp_all)
      qed
    qed
  qed
qed

lemma starts_of_between: "s \<in> set (starts_of i ls) \<Longrightarrow> i \<le> s \<and> s \<le> i + length (label_octets ls)"
  by (induction ls arbitrary: i) force+

lemma blind_emit_name [intro]: "blind (emit_name n)"
  unfolding blind_def
proof (intro allI impI conjI)
  fix en en' assume a: "ready en \<and> emit_name n en = Inr en'"
  let ?ref = "if en_name_encoding en = NE_UncompressedLowercase then to_lowercase n else n"
  let ?c = "en_name_encoding en = NE_Compressed"
  obtain starts en1 found en2 where w: "write_labels (n_labels ?ref) en = Inr (starts, en1)"
    "compress ?c (en_offset en1) starts en1 = Inr (found, en2)"
    "if found then en' = en2 else emit_byte 0 en2 = Inr en' \<and> length (en_buffer en') - length (en_buffer en) \<le> 255"
    using a by (auto simp: emit_name_def Let_def result_bind_Inr_iff split: if_splits)
  have rdy: "ready en" using a by simp
  note en1 = write_labels_Inr [OF w(1) rdy]
  have bounds: "\<forall>s \<in> set starts. length P \<le> s \<and> s \<le> length (en_buffer en1)" if "length P \<le> length (en_buffer en)" for P :: "u8 list"
    using en1 starts_of_between rdy that by (fastforce simp: ready_def)
  have rdy1: "ready en1" using en1 by (rule conjunct1 [OF conjunct2])
  note c = compress_sub [OF w(2) rdy1 bounds]
  have rdy2: "ready en2" using c [of "[]"] by simp
  show "ready en'" using w(3) rdy2 blindD(1) [OF blind_put(1) rdy2] by (auto split: if_splits)
  have "sub (en_buffer en) en1 = en1" using conjunct2 [OF conjunct2 [OF en1]] by (simp add: sub_def)
  then have "en2 = sub (en_buffer en) en2" using c [of "en_buffer en"] w(2) by simp
  then have pre: "\<exists>ys. en_buffer en2 = en_buffer en @ ys" by (metis sub_simps(5))
  then show ext: "\<exists>ys. en_buffer en' = en_buffer en @ ys"
    using w(3) blindD(2) [OF blind_put(1) rdy2] by (fastforce split: if_splits)
  fix P :: "u8 list" assume P: "length P \<le> length (en_buffer en)"
  have "emit_byte 0 (sub P en2) = Inr (sub P en')" if "\<not> found"
    using blindD(3) [OF blind_put(1) rdy2] w(3) that P pre by auto
  then show "emit_name n (sub P en) = Inr (sub P en')"
    using write_labels_sub [OF w(1) rdy P] c [OF P] w(3) P ext
    by (cases found) (auto simp: emit_name_def Let_def)
qed

section \<open>Readers that give back what was written\<close>

text \<open>An encoder of a message: names are not changed to lower case.\<close>

definition plain :: "encoder \<Rightarrow> bool" where
  "plain en \<longleftrightarrow> en_good en \<and> en_name_encoding en \<noteq> NE_UncompressedLowercase"

text \<open>The reader may depend on the index behind what was written.\<close>

definition emits_to :: "emitter \<Rightarrow> (nat \<Rightarrow> 'a reader) \<Rightarrow> 'a \<Rightarrow> bool" where
  "emits_to f r v \<longleftrightarrow> (\<forall>en en'. plain en \<and> f en = Inr en' \<longrightarrow>
     plain en' \<and> en_name_encoding en' = en_name_encoding en \<and>
     (\<exists>ys. en_buffer en' = en_buffer en @ ys) \<and>
     (\<forall>junk. r (length (en_buffer en')) (en_buffer en' @ junk) (length (en_buffer en)) = Inr (v, length (en_buffer en'))))"

definition emits :: "emitter \<Rightarrow> 'a reader \<Rightarrow> 'a \<Rightarrow> bool" where
  "emits f r v \<longleftrightarrow> emits_to f (\<lambda>stop. r) v"

lemma emits_toD:
  assumes "emits_to f r v" "plain en" "f en = Inr en'"
  shows "plain en'" "en_name_encoding en' = en_name_encoding en" "\<exists>ys. en_buffer en' = en_buffer en @ ys"
    "r (length (en_buffer en')) (en_buffer en' @ junk) (length (en_buffer en)) = Inr (v, length (en_buffer en'))"
  using assms unfolding emits_to_def by blast+

lemma emits_to_if_emits: "emits f r v \<Longrightarrow> emits_to f (\<lambda>stop. r) v"
  by (simp add: emits_def)

lemma emits_to_bind:
  assumes "emits f r v" "emits_to g (k v) w"
  shows "emits_to (\<lambda>en. result_bind (f en) g) (\<lambda>stop. rd_bind r (\<lambda>x. k x stop)) w"
  unfolding emits_to_def
proof (intro allI impI conjI)
  fix en en' assume a: "plain en \<and> result_bind (f en) g = Inr en'"
  then obtain en1 where e: "f en = Inr en1" "g en1 = Inr en'" by (auto simp: result_bind_Inr_iff)
  note f = emits_toD [OF emits_to_if_emits [OF assms(1)] conjunct1 [OF a] e(1)]
  note g = emits_toD [OF assms(2) f(1) e(2)]
  show "plain en'" "en_name_encoding en' = en_name_encoding en" "\<exists>ys. en_buffer en' = en_buffer en @ ys"
    using f g by auto
  fix junk
  obtain zs where zs: "en_buffer en' = en_buffer en1 @ zs" using g(3) by blast
  show "rd_bind r (\<lambda>x. k x (length (en_buffer en'))) (en_buffer en' @ junk) (length (en_buffer en)) = Inr (w, length (en_buffer en'))"
    using f(4) [of "zs @ junk"] g(4) [of junk] zs by (simp add: rd_bind_def)
qed

lemma emits_bind:
  "emits f r v \<Longrightarrow> emits g (k v) w \<Longrightarrow> emits (\<lambda>en. result_bind (f en) g) (rd_bind r k) w"
  using emits_to_bind [of f r v g "\<lambda>x stop. k x" w] by (simp add: emits_def)

text \<open>The same for sequences, one emitter after the other.\<close>

lemma emits_to_seq:
  "emits f r v \<Longrightarrow> emits_to (emit_seq fs) (k v) w \<Longrightarrow> emits_to (emit_seq (f # fs)) (\<lambda>stop. rd_bind r (\<lambda>x. k x stop)) w"
  using emits_to_bind [of f r v "emit_seq fs" k w] by (simp add: emit_seq.simps(2) [abs_def])

lemma emits_seq:
  "emits f r v \<Longrightarrow> emits (emit_seq fs) (k v) w \<Longrightarrow> emits (emit_seq (f # fs)) (rd_bind r k) w"
  using emits_bind [of f r v "emit_seq fs" k w] by (simp add: emit_seq.simps(2) [abs_def])

lemma emits_seq_last:
  assumes "emits f r v"
  shows "emits (emit_seq [f]) (rd_bind r (\<lambda>x. rd_return (h x))) (h v)"
  by (rule emits_seq [OF assms]) (simp add: emits_def emits_to_def rd_return_def)

lemma emits_return: "emits (emit_seq []) (rd_return v) v"
  by (simp add: emits_def emits_to_def rd_return_def)

lemma plain_write:
  assumes "plain en" "write_slice bs en = Inr en'"
  shows "plain en'" "en_name_encoding en' = en_name_encoding en" "en_buffer en' = en_buffer en @ bs"
proof -
  have "ready en" using assms(1) by (simp add: plain_def en_good_def)
  note w = write_slice_Inr [OF assms(2) this]
  then show "en_name_encoding en' = en_name_encoding en" "en_buffer en' = en_buffer en @ bs" by simp_all
  have "en_name_pointers en' = en_name_pointers en" using w by simp
  then show "plain en'" using assms(1) w known_append
    by (auto simp: plain_def en_good_def)
qed

lemma emits_to_write:
  assumes "\<And>pre rest. r (length pre + length bs) (pre @ bs @ rest) (length pre) = Inr (v, length pre + length bs)"
  shows "emits_to (write_slice bs) r v"
  using plain_write assms by (fastforce simp: emits_to_def)

lemma emits_write:
  assumes "\<And>pre rest. r (pre @ bs @ rest) (length pre) = Inr (v, length pre + length bs)"
  shows "emits (write_slice bs) r v"
  unfolding emits_def by (rule emits_to_write) (rule assms)

lemma emits_u16 [intro]: "emits (put_u16 w) rd_u16 w"
  unfolding put_u16_def by (rule emits_write) (simp add: rd_u16_def rd_bind_def rd_return_def rd_slice_def)

lemma emits_u32 [intro]: "emits (put_u32 w) rd_u32 w"
  unfolding put_u32_def by (rule emits_write) (simp add: rd_u32_def rd_bind_def rd_return_def rd_slice_def)

lemma emits_byte [intro]: "emits (emit_byte b) rd_pop b"
  unfolding emit_byte_def [abs_def] by (rule emits_write) (simp add: rd_pop_def)

lemma emits_slice [intro]: "length bs = n \<Longrightarrow> emits (write_slice bs) (rd_slice n) bs"
  by (rule emits_write) (simp add: rd_slice_def)

lemma emits_character_data [intro]: "emits (emit_character_data bs) rd_character_data bs"
proof (cases "255 < length bs")
  case True
  then show ?thesis by (simp add: emits_def emits_to_def emit_character_data_def)
next
  case False
  then have "unat (of_nat (length bs) :: u8) = length bs" by (simp add: unat_of_nat)
  then have "emits (write_slice bs) (rd_slice (unat (of_nat (length bs) :: u8))) bs" by (intro emits_slice) simp
  then have "emits (\<lambda>en. result_bind (emit_byte (of_nat (length bs)) en) (write_slice bs))
      (rd_bind rd_pop (\<lambda>n. rd_slice (unat n))) bs"
    by (rule emits_bind [OF emits_byte])
  then show ?thesis using False by (simp add: emit_character_data_def [abs_def] rd_character_data_def)
qed

lemma emits_name [intro]:
  assumes "wf_name n"
  shows "emits (emit_name n) rd_name (set_fqdn True n)"
  unfolding emits_def emits_to_def
proof (intro allI impI)
  fix en en' assume a: "plain en \<and> emit_name n en = Inr en'"
  have g: "en_good en" "(if en_name_encoding en = NE_UncompressedLowercase then to_lowercase n else n) = n"
    using a by (simp_all add: plain_def)
  note e = emit_name_good [OF conjunct2 [OF a] g(1) assms g(2) [symmetric]]
  have "rd_name (en_buffer en' @ junk) (length (en_buffer en)) = Inr (set_fqdn True n, length (en_buffer en'))" for junk
    unfolding rd_name_Inr_iff by (rule read_back [OF names_at_append assms]) (use e in blast)
  then show "plain en' \<and> en_name_encoding en' = en_name_encoding en \<and> (\<exists>ys. en_buffer en' = en_buffer en @ ys) \<and>
      (\<forall>junk. rd_name (en_buffer en' @ junk) (length (en_buffer en)) = Inr (set_fqdn True n, length (en_buffer en')))"
    using a e by (simp add: plain_def)
qed

lemma plain_upd [simp]: "plain (en\<lparr>en_name_encoding := e\<rparr>) \<longleftrightarrow> en_good en \<and> e \<noteq> NE_UncompressedLowercase"
  by (simp add: plain_def en_good_def)

lemma en_good_upd [simp]: "en_good (en\<lparr>en_name_encoding := e\<rparr>) \<longleftrightarrow> en_good en"
  by (simp add: en_good_def)

lemma emits_to_with_rdata_behavior [intro]:
  assumes "emits_to f r v"
  shows "emits_to (with_rdata_behavior enc f) r v"
  unfolding emits_to_def
proof (intro allI impI)
  fix en en' :: encoder
  let ?en0 = "if enc = StandardRecord then en else en\<lparr>en_name_encoding := NE_Uncompressed\<rparr>"
  assume a: "plain en \<and> with_rdata_behavior enc f en = Inr en'"
  then obtain en1 where e: "f ?en0 = Inr en1" "en' = en1\<lparr>en_name_encoding := en_name_encoding en\<rparr>"
    by (auto simp: with_rdata_behavior_def Let_def split: sum.splits)
  have p: "plain ?en0" and b: "en_buffer ?en0 = en_buffer en" using a by (simp_all add: plain_def)
  note f = emits_toD [OF assms p e(1)]
  show "plain en' \<and> en_name_encoding en' = en_name_encoding en \<and> (\<exists>ys. en_buffer en' = en_buffer en @ ys) \<and>
      (\<forall>junk. r (length (en_buffer en')) (en_buffer en' @ junk) (length (en_buffer en)) = Inr (v, length (en_buffer en')))"
    using a e(2) f [unfolded b] by (simp add: plain_def)
qed

lemma emits_with_rdata_behavior [intro]: "emits f r v \<Longrightarrow> emits (with_rdata_behavior enc f) r v"
  unfolding emits_def by (rule emits_to_with_rdata_behavior)

text \<open>A length that was filled in afterwards tells the reader where the data ends.\<close>

lemma emits_with_length:
  assumes "emits_to body r v" "blind body"
  shows "emits (with_length body) (rd_bind rd_u16 (\<lambda>len. rd_bind rd_index (\<lambda>start. r (start + unat len)))) v"
  unfolding emits_def emits_to_def
proof (intro allI impI)
  fix en en' assume a: "plain en \<and> with_length body en = Inr en'"
  have rdy: "ready en" using a by (simp add: plain_def en_good_def)
  obtain len en1 where e: "put_u16 len en = Inr en1" "body en1 = Inr en'"
    "length (en_buffer en') = length (en_buffer en) + 2 + unat len"
    using with_length_first [OF conjunct2 [OF a] rdy assms(2)] by blast
  note w = emits_toD [OF emits_to_if_emits [OF emits_u16] conjunct1 [OF a] e(1)]
  note b = emits_toD [OF assms(1) w(1) e(2)]
  have len1: "length (en_buffer en1) = length (en_buffer en) + 2"
    using plain_write(3) [OF conjunct1 [OF a] e(1) [unfolded put_u16_def]] by simp
  have "rd_bind rd_u16 (\<lambda>len. rd_bind rd_index (\<lambda>start. r (start + unat len))) (en_buffer en' @ junk) (length (en_buffer en)) =
      Inr (v, length (en_buffer en'))" for junk
  proof -
    obtain zs where "en_buffer en' = en_buffer en1 @ zs" using b(3) by blast
    then show ?thesis using w(4) [of "zs @ junk"] b(4) [of junk] e(3) len1
      by (simp add: rd_bind_def rd_index_def)
  qed
  then show "plain en' \<and> en_name_encoding en' = en_name_encoding en \<and> (\<exists>ys. en_buffer en' = en_buffer en @ ys) \<and>
      (\<forall>junk. rd_bind rd_u16 (\<lambda>len. rd_bind rd_index (\<lambda>start. r (start + unat len))) (en_buffer en' @ junk) (length (en_buffer en)) =
        Inr (v, length (en_buffer en')))"
    using w b by auto
qed

declare rd_while.simps [simp del]

lemma rd_while_mono: "rd_while c step s buf i = Inr (s', j) \<Longrightarrow> i \<le> j"
proof (induction c step s buf i rule: rd_while.induct)
  case (1 c step s buf i)
  show ?case using 1 by (subst (asm) (2) rd_while.simps) (fastforce split: if_splits sum.splits)
qed

section \<open>Emitters of plain octets\<close>

definition writes :: "emitter \<Rightarrow> u8 list \<Rightarrow> bool" where
  "writes f bs \<longleftrightarrow> (\<forall>en en'. ready en \<and> f en = Inr en' \<longrightarrow> write_slice bs en = Inr en')"

lemma writes_write_slice [intro]: "writes (write_slice bs) bs"
  by (simp add: writes_def)

lemma writes_put [intro]: "writes (put_u16 w) (be_octets 2 w)" "writes (put_u32 v) (be_octets 4 v)" "writes (emit_byte b) [b]"
  by (simp_all add: writes_def put_u16_def put_u32_def emit_byte_def)

lemma writes_Nil [intro]: "writes (emit_seq []) []" "writes Inr []"
  by (auto simp: writes_def write_slice_def buffer_write_def Let_def ready_def)

lemma writes_bind:
  assumes "writes f bs" "writes g cs"
  shows "writes (\<lambda>en. result_bind (f en) g) (bs @ cs)"
  unfolding writes_def
proof (intro allI impI)
  fix en en' assume a: "ready en \<and> result_bind (f en) g = Inr en'"
  then obtain en1 where e: "f en = Inr en1" "g en1 = Inr en'" by (auto simp: result_bind_Inr_iff)
  have w: "write_slice bs en = Inr en1" using assms(1) a e(1) by (auto simp: writes_def)
  note w1 = write_slice_Inr [OF w conjunct1 [OF a]]
  have w2: "write_slice cs en1 = Inr en'" using assms(2) w1 e(2) by (auto simp: writes_def)
  have off: "en_offset en = length (en_buffer en)" "en_offset en1 = length (en_buffer en1)" using a w1 by (auto simp: ready_def)
  have "\<not> en_max_size en1 < en_offset en1 + length cs"
    using w2 by (auto simp: write_slice_def buffer_write_def Let_def split: if_splits)
  then have "\<not> en_max_size en < en_offset en + length (bs @ cs)" using w1 off by auto
  then have "write_slice (bs @ cs) en = Inr (en\<lparr>en_buffer := en_buffer en @ bs @ cs, en_offset := length (en_buffer en) + length (bs @ cs)\<rparr>)"
    using write_slice_ready [OF conjunct1 [OF a]] by simp
  then show "write_slice (bs @ cs) en = Inr en'" using w1 write_slice_Inr [OF w2 conjunct2 [OF w1]] by auto
qed

lemma writes_seq: "writes f bs \<Longrightarrow> writes (emit_seq fs) cs \<Longrightarrow> writes (emit_seq (f # fs)) (bs @ cs)"
  using writes_bind [of f bs "emit_seq fs" cs] by (simp add: emit_seq.simps(2) [abs_def])

lemma writes_map:
  "(\<And>x. x \<in> set xs \<Longrightarrow> writes (f x) (h x)) \<Longrightarrow> writes (emit_seq (List.map f xs)) (concat (List.map h xs))"
proof (induction xs)
  case Nil
  then show ?case using writes_Nil by (simp add: emit_seq.simps(1) [abs_def])
next
  case (Cons x xs)
  have "writes (f x) (h x)" "writes (emit_seq (List.map f xs)) (concat (List.map h xs))"
    using Cons by simp_all
  from writes_seq [OF this] show ?case by (simp only: list.map concat.simps)
qed

lemma writes_all [intro]: "writes (write_all bss) (concat bss)"
  using writes_map [of bss write_slice "\<lambda>bs. bs"] by (simp add: write_all_def writes_write_slice)

lemma blind_write_all [intro]: "blind (write_all bss)"
  unfolding write_all_def by (rule blind_emit_seq) (simp add: list_all_iff blind_write_slice)

lemma concat_chunks [simp]: "concat (chunks ns bs) = bs"
  by (induction ns bs rule: chunks.induct) simp_all

lemma writes_with_rdata_behavior [intro]:
  assumes "writes f bs"
  shows "writes (with_rdata_behavior enc f) bs"
  unfolding writes_def
proof (intro allI impI)
  fix en en' :: encoder
  let ?en0 = "if enc = StandardRecord then en else en\<lparr>en_name_encoding := NE_Uncompressed\<rparr>"
  assume a: "ready en \<and> with_rdata_behavior enc f en = Inr en'"
  then obtain en1 where e: "f ?en0 = Inr en1" "en' = en1\<lparr>en_name_encoding := en_name_encoding en\<rparr>"
    by (auto simp: with_rdata_behavior_def Let_def split: sum.splits)
  have r: "ready ?en0" using a by simp
  have w: "write_slice bs ?en0 = Inr en1" using assms r e(1) by (auto simp: writes_def)
  have "\<not> en_max_size en < en_offset en + length bs"
    using w by (auto simp: write_slice_def buffer_write_def Let_def split: if_splits)
  then show "write_slice bs en = Inr en'"
    using write_slice_Inr [OF w r] write_slice_ready [of en bs] a e(2) by auto
qed

lemma emits_to_writes:
  assumes "writes f bs"
    and "\<And>pre rest. length bs \<le> 65535 \<Longrightarrow> r (length pre + length bs) (pre @ bs @ rest) (length pre) = Inr (v, length pre + length bs)"
  shows "emits_to f r v"
  unfolding emits_to_def
proof (intro allI impI)
  fix en en' assume a: "plain en \<and> f en = Inr en'"
  have rdy: "ready en" using a by (simp add: plain_def en_good_def)
  have w: "write_slice bs en = Inr en'" using assms(1) a rdy by (auto simp: writes_def)
  note p = plain_write [OF conjunct1 [OF a] w]
  have "length bs \<le> 65535" using write_slice_Inr [OF w rdy] by (auto simp: ready_def)
  then show "plain en' \<and> en_name_encoding en' = en_name_encoding en \<and> (\<exists>ys. en_buffer en' = en_buffer en @ ys) \<and>
      (\<forall>junk. r (length (en_buffer en')) (en_buffer en' @ junk) (length (en_buffer en)) = Inr (v, length (en_buffer en')))"
    using p assms(2) [of "en_buffer en"] by simp
qed

lemma emits_writes:
  "writes f bs \<Longrightarrow> (\<And>pre rest. length bs \<le> 65535 \<Longrightarrow> r (pre @ bs @ rest) (length pre) = Inr (v, length pre + length bs)) \<Longrightarrow>
   emits f r v"
  unfolding emits_def by (rule emits_to_writes)

section \<open>Loops over plain octets\<close>

text \<open>Reading one item after the other gives the items, if every item takes an octet.\<close>

lemma rd_while_items:
  assumes "\<And>x acc pre rest. x \<in> set xs \<Longrightarrow>
      step acc (pre @ h x @ rest) (length pre) = Inr (acc @ [x], length pre + length (h x))"
    and "\<And>x. x \<in> set xs \<Longrightarrow> h x \<noteq> []"
    and "stop = length pre + length (concat (List.map h xs))"
  shows "rd_while (\<lambda>i. i < stop) step acc (pre @ concat (List.map h xs) @ rest) (length pre) =
    Inr (acc @ xs, stop)"
  using assms
proof (induction xs arbitrary: acc pre)
  case Nil
  then show ?case by (simp add: rd_while.simps)
next
  case (Cons x xs)
  have s: "step acc (pre @ h x @ concat (List.map h xs) @ rest) (length pre) = Inr (acc @ [x], length pre + length (h x))"
    using Cons.prems(1) by simp
  have ne: "0 < length (h x)" using Cons.prems(2) [of x] by simp
  have "rd_while (\<lambda>i. i < stop) step (acc @ [x]) ((pre @ h x) @ concat (List.map h xs) @ rest) (length (pre @ h x)) =
      Inr ((acc @ [x]) @ xs, stop)"
    by (rule Cons.IH) (use Cons.prems in simp_all)
  then show ?case using s ne Cons.prems(3) by (subst rd_while.simps) simp
qed

lemma rd_bind_step:
  "r (pre @ bs @ rest) (length pre) = Inr (x, length pre + length bs) \<Longrightarrow>
   k x (pre @ bs @ rest) (length pre + length bs) = res \<Longrightarrow>
   rd_bind r k (pre @ bs @ rest) (length pre) = res"
  by (simp add: rd_bind_def)

lemma rd_many_items:
  assumes "\<And>x pre rest. x \<in> set xs \<Longrightarrow> r (pre @ h x @ rest) (length pre) = Inr (x, length pre + length (h x))"
  shows "rd_many (length xs) r (pre @ concat (List.map h xs) @ rest) (length pre) =
    Inr (xs, length pre + length (concat (List.map h xs)))"
  using assms
proof (induction xs arbitrary: pre)
  case Nil
  then show ?case by (simp add: rd_return_def)
next
  case (Cons x xs)
  have "r (pre @ h x @ concat (List.map h xs) @ rest) (length pre) = Inr (x, length pre + length (h x))"
    using Cons.prems by simp
  moreover have "rd_many (length xs) r ((pre @ h x) @ concat (List.map h xs) @ rest) (length (pre @ h x)) =
      Inr (xs, length (pre @ h x) + length (concat (List.map h xs)))"
    by (rule Cons.IH) (use Cons.prems in simp)
  ultimately show ?case by (simp add: rd_bind_def rd_return_def)
qed


end
