(* ===== verification/Rdata_Wire.thy ===== *)
theory Rdata_Wire
  imports Wire Dns_Message
begin

text \<open>
  The data of records on the wire (\<open>rr/record_data.rs\<close> and \<open>rr/rdata\<close>): one reader and one emitter for
  each type, and the proof that the reader gives back what the emitter writes. A name comes back fully
  qualified, the address of a client subnet comes back cut to its prefix, and data of no octet comes back
  as \<open>RD_Update0\<close>. The values of \<open>RD_Other\<close> are kept as octets; the readers check them as the code does.

  When the data of a record cannot be read, the code reports that the length is wrong, instead of what is
  wrong with the data, if it had not taken exactly RDLENGTH octets by then; the model always says what is
  wrong with the data.
\<close>

section \<open>Addresses, names and numbers\<close>

definition rd_a :: "32 word reader" where
  "rd_a = rd_bind (rd_many 4 rd_pop) (\<lambda>bs. rd_return (from_be bs))"

definition rd_aaaa :: "128 word reader" where
  "rd_aaaa = rd_bind (rd_many 8 rd_u16) (\<lambda>ws. rd_return (from_be (concat (List.map (be_octets 2) ws))))"

definition put_a :: "32 word \<Rightarrow> emitter" where
  "put_a a = write_all (chunks [1, 1, 1] (octets4 a))"

definition put_aaaa :: "128 word \<Rightarrow> emitter" where
  "put_aaaa a = write_all (chunks [2, 2, 2, 2, 2, 2, 2] (octets6 a))"

definition rd_mx :: "rdata reader" where
  "rd_mx = rd_bind rd_u16 (\<lambda>preference. rd_bind rd_name (\<lambda>exchange. rd_return (RD_MX preference exchange)))"

definition put_mx :: "u16 \<Rightarrow> dname \<Rightarrow> emitter" where
  "put_mx preference exchange =
     with_rdata_behavior StandardRecord (emit_seq [put_u16 preference, emit_name exchange])"

definition rd_soa :: "soa reader" where
  "rd_soa =
     rd_bind rd_name (\<lambda>mname. rd_bind rd_name (\<lambda>rname. rd_bind rd_u32 (\<lambda>serial. rd_bind rd_u32 (\<lambda>refresh.
     rd_bind rd_u32 (\<lambda>retry. rd_bind rd_u32 (\<lambda>expire. rd_bind rd_u32 (\<lambda>minimum.
       rd_return \<lparr>soa_mname = mname, soa_rname = rname, soa_serial = serial, soa_refresh = refresh,
         soa_retry = retry, soa_expire = expire, soa_minimum = minimum\<rparr>)))))))"

definition put_soa :: "soa \<Rightarrow> emitter" where
  "put_soa s =
     with_rdata_behavior StandardRecord
       (emit_seq [emit_name (soa_mname s), emit_name (soa_rname s), put_u32 (soa_serial s), put_u32 (soa_refresh s),
          put_u32 (soa_retry s), put_u32 (soa_expire s), put_u32 (soa_minimum s)])"

definition rd_srv :: "srv reader" where
  "rd_srv =
     rd_bind rd_u16 (\<lambda>priority. rd_bind rd_u16 (\<lambda>weight. rd_bind rd_u16 (\<lambda>port. rd_bind rd_name (\<lambda>target.
       rd_return \<lparr>srv_priority = priority, srv_weight = weight, srv_port = port, srv_target = target\<rparr>))))"

definition put_srv :: "srv \<Rightarrow> emitter" where
  "put_srv s =
     with_rdata_behavior Canonical
       (emit_seq [put_u16 (srv_priority s), put_u16 (srv_weight s), put_u16 (srv_port s), emit_name (srv_target s)])"

definition alphanumeric_octet :: "u8 \<Rightarrow> bool" where
  "alphanumeric_octet c \<longleftrightarrow>
     (0x30 \<le> c \<and> c \<le> 0x39) \<or> (0x61 \<le> c \<and> c \<le> 0x7A) \<or> (0x41 \<le> c \<and> c \<le> 0x5A)"

definition verify_flags :: "u8 list \<Rightarrow> bool" where
  "verify_flags flags \<longleftrightarrow> list_all alphanumeric_octet flags"

definition rd_naptr :: "naptr reader" where
  "rd_naptr =
     rd_bind rd_u16 (\<lambda>order. rd_bind rd_u16 (\<lambda>preference. rd_bind rd_character_data (\<lambda>flags.
     if \<not> verify_flags flags then rd_fail (RE_Message ''flags are not within range [a-zA-Z0-9]'')
     else
       rd_bind rd_character_data (\<lambda>services. rd_bind rd_character_data (\<lambda>regexp. rd_bind rd_name (\<lambda>replacement.
         rd_return \<lparr>nap_order = order, nap_preference = preference, nap_flags = flags, nap_services = services,
           nap_regexp = regexp, nap_replacement = replacement\<rparr>))))))"

definition put_naptr :: "naptr \<Rightarrow> emitter" where
  "put_naptr n =
     with_rdata_behavior Canonical
       (emit_seq [put_u16 (nap_order n), put_u16 (nap_preference n), emit_character_data (nap_flags n),
          emit_character_data (nap_services n), emit_character_data (nap_regexp n), emit_name (nap_replacement n)])"

section \<open>Text\<close>

definition rd_txt :: "nat \<Rightarrow> u8 list list reader" where
  "rd_txt rdlen =
     rd_bind rd_index (\<lambda>start.
       rd_while (\<lambda>i. i < start + rdlen) (\<lambda>strings. rd_bind rd_character_data (\<lambda>s. rd_return (strings @ [s]))) [])"

definition put_txt :: "u8 list list \<Rightarrow> emitter" where
  "put_txt strings = emit_seq (List.map emit_character_data strings)"

section \<open>Service bindings\<close>

fun svc_key :: "svc_param \<Rightarrow> u16" where
  "svc_key (SvcIpv4Hint as) = 4"
| "svc_key (SvcIpv6Hint as) = 6"
| "svc_key (SvcParam k bs) = k"

text \<open>\<open>String::from_utf8\<close>: the well-formed sequences of UTF-8.\<close>

definition utf8_tail :: "u8 \<Rightarrow> bool" where
  "utf8_tail b \<longleftrightarrow> 0x80 \<le> b \<and> b \<le> 0xBF"

fun utf8_valid :: "u8 list \<Rightarrow> bool" where
  "utf8_valid [] = True"
| "utf8_valid [a] = (a < 0x80)"
| "utf8_valid [a, b] = (if a < 0x80 then utf8_valid [b] else 0xC2 \<le> a \<and> a \<le> 0xDF \<and> utf8_tail b)"
| "utf8_valid (a # b # c # bs) =
     (if a < 0x80 then utf8_valid (b # c # bs)
      else if 0xC2 \<le> a \<and> a \<le> 0xDF then utf8_tail b \<and> utf8_valid (c # bs)
      else if 0xE0 \<le> a \<and> a \<le> 0xEF then
        utf8_tail b \<and> (a = 0xE0 \<longrightarrow> 0xA0 \<le> b) \<and> (a = 0xED \<longrightarrow> b \<le> 0x9F) \<and> utf8_tail c \<and> utf8_valid bs
      else if 0xF0 \<le> a \<and> a \<le> 0xF4 then
        utf8_tail b \<and> (a = 0xF0 \<longrightarrow> 0x90 \<le> b) \<and> (a = 0xF4 \<longrightarrow> b \<le> 0x8F) \<and> utf8_tail c \<and>
        (case bs of [] \<Rightarrow> False | d # ds \<Rightarrow> utf8_tail d \<and> utf8_valid ds)
      else False)"

text \<open>The readers of a parameter's value run on its own octets; \<open>collect\<close> repeats one up to their end.\<close>

definition collect :: "'a reader \<Rightarrow> u8 list \<Rightarrow> ('a list, read_error) result" where
  "collect r bs =
     result_bind (rd_while (\<lambda>i. i < length bs) (\<lambda>acc. rd_bind r (\<lambda>x. rd_return (acc @ [x]))) [] bs 0)
       (\<lambda>(xs, i). Inr xs)"

definition rd_alpn :: "u8 list reader" where
  "rd_alpn = rd_bind rd_character_data (\<lambda>s. if utf8_valid s then rd_return s else rd_fail RE_Utf8)"

definition counted :: "u8 list \<Rightarrow> u8 list" where
  "counted s = of_nat (length s) # s"

definition svc_value :: "u16 \<Rightarrow> u8 list \<Rightarrow> (svc_param, read_error) result" where
  "svc_value key bs =
     (if key = 0 then
        result_bind (collect rd_u16 bs)
          (\<lambda>keys. if keys = [] then Inl (RE_Message ''Mandatory expects at least one value'')
                  else Inr (SvcParam key (concat (List.map (be_octets 2) keys))))
      else if key = 1 then
        result_bind (collect rd_alpn bs)
          (\<lambda>alpns. if alpns = [] then Inl (RE_Message ''Alpn expects at least one value'')
                   else Inr (SvcParam key (concat (List.map counted alpns))))
      else if key = 2 then
        if bs \<noteq> [] then Inl (RE_Message ''Alpn expects at least one value'') else Inr (SvcParam key [])
      else if key = 3 then result_bind (rd_u16 bs 0) (\<lambda>(port, i). Inr (SvcParam key (be_octets 2 port)))
      else if key = 4 then result_bind (collect rd_a bs) (\<lambda>as. Inr (SvcIpv4Hint as))
      else if key = 6 then result_bind (collect rd_aaaa bs) (\<lambda>as. Inr (SvcIpv6Hint as))
      else Inr (SvcParam key bs))"

definition rd_result :: "('a, read_error) result \<Rightarrow> 'a reader" where
  "rd_result r buf i = result_bind r (\<lambda>x. Inr (x, i))"

definition rd_svc_value :: "u16 \<Rightarrow> svc_param reader" where
  "rd_svc_value key =
     rd_bind rd_u16 (\<lambda>len. rd_bind rd_len (\<lambda>left.
       if left < unat len then rd_fail (RE_SvcParamTooLong len left)
       else rd_bind (rd_slice (unat len)) (\<lambda>bs. rd_result (svc_value key bs))))"

definition rd_not_behind :: "nat \<Rightarrow> unit reader" where
  "rd_not_behind stop = rd_bind rd_index (\<lambda>i. if stop < i then rd_fail RE_BadSvcbLength else rd_return ())"

definition rd_svc_param :: "nat \<Rightarrow> svc_param list \<Rightarrow> svc_param list reader" where
  "rd_svc_param stop params =
     rd_bind rd_u16 (\<lambda>key. rd_bind (rd_svc_value key) (\<lambda>v.
       if params \<noteq> [] \<and> key \<le> svc_key (last params) then rd_fail (RE_Message ''SvcParams out of order'')
       else rd_bind (rd_not_behind stop) (\<lambda>u. rd_return (params @ [v]))))"

definition rd_svcb :: "nat \<Rightarrow> svcb reader" where
  "rd_svcb rdlen =
     rd_bind rd_index (\<lambda>start. rd_bind rd_u16 (\<lambda>priority. rd_bind rd_name (\<lambda>target.
     rd_bind (rd_not_behind (start + rdlen)) (\<lambda>u.
     rd_bind (rd_while (\<lambda>i. i + 4 \<le> start + rdlen) (rd_svc_param (start + rdlen)) []) (\<lambda>params.
       rd_return \<lparr>svc_priority = priority, svc_target_name = target, svc_params = params\<rparr>)))))"

text \<open>A parameter is written as the code does, value by value.\<close>

fun counted_pieces :: "u8 list \<Rightarrow> u8 list list" where
  "counted_pieces [] = []"
| "counted_pieces (n # bs) = [n] # take (unat n) bs # counted_pieces (drop (unat n) bs)"

definition emit_message_error :: "string \<Rightarrow> emitter" where
  "emit_message_error s en = Inl (EE_Message s, en)"

fun put_svc_value :: "svc_param \<Rightarrow> emitter" where
  "put_svc_value (SvcIpv4Hint as) = emit_seq (List.map put_a as)"
| "put_svc_value (SvcIpv6Hint as) = emit_seq (List.map put_aaaa as)"
| "put_svc_value (SvcParam k bs) =
     (if (k = 0 \<or> k = 1) \<and> bs = [] then emit_message_error ''Alpn expects at least one value''
      else if k = 0 then write_all (chunks (replicate (length bs div 2 - 1) 2) bs)
      else if k = 1 then write_all (counted_pieces bs)
      else if k = 2 then emit_seq []
      else write_slice bs)"

fun put_svc_params :: "u16 option \<Rightarrow> svc_param list \<Rightarrow> emitter" where
  "put_svc_params last_key [] = emit_seq []"
| "put_svc_params last_key (p # ps) =
     (if (case last_key of Some k \<Rightarrow> svc_key p \<le> k | None \<Rightarrow> False)
      then emit_message_error ''SvcParams out of order''
      else emit_seq [put_u16 (svc_key p), with_length (put_svc_value p), put_svc_params (Some (svc_key p)) ps])"

definition put_svcb :: "svcb \<Rightarrow> emitter" where
  "put_svcb s =
     with_rdata_behavior OtherRecord
       (emit_seq [put_u16 (svc_priority s), emit_name (svc_target_name s), put_svc_params None (svc_params s)])"

section \<open>Options of EDNS\<close>

definition subnet_addr_len :: "u8 \<Rightarrow> nat" where
  "subnet_addr_len prefix = unat (prefix div 8 + (if prefix mod 8 > 0 then 1 else 0))"

definition padded :: "nat \<Rightarrow> u8 list \<Rightarrow> u8 list" where
  "padded n bs = bs @ replicate (n - length bs) 0"

text \<open>The octets behind the address are ignored.\<close>

definition rd_client_subnet :: "client_subnet reader" where
  "rd_client_subnet =
     rd_bind rd_u16 (\<lambda>family.
       if family = 1 then
         rd_bind rd_pop (\<lambda>source. rd_bind rd_pop (\<lambda>scope.
           if 4 < subnet_addr_len source then rd_fail (RE_Message ''Invalid address length'')
           else rd_bind (rd_many (subnet_addr_len source) rd_pop) (\<lambda>bs.
             rd_return \<lparr>cs_address = IpV4 (from_be (padded 4 bs)), cs_source_prefix = source, cs_scope_prefix = scope\<rparr>)))
       else if family = 2 then
         rd_bind rd_pop (\<lambda>source. rd_bind rd_pop (\<lambda>scope.
           if 16 < subnet_addr_len source then rd_fail (RE_Message ''Invalid address length'')
           else rd_bind (rd_many (subnet_addr_len source) rd_pop) (\<lambda>bs.
             rd_return \<lparr>cs_address = IpV6 (from_be (padded 16 bs)), cs_source_prefix = source, cs_scope_prefix = scope\<rparr>)))
       else rd_fail (RE_Message ''Invalid family type.''))"

fun address_octets :: "ip_addr \<Rightarrow> u8 list" where
  "address_octets (IpV4 a) = octets4 a"
| "address_octets (IpV6 a) = octets6 a"

definition put_client_subnet :: "client_subnet \<Rightarrow> emitter" where
  "put_client_subnet s =
     emit_seq [put_u16 (case cs_address s of IpV4 a \<Rightarrow> 1 | IpV6 a \<Rightarrow> 2), emit_byte (cs_source_prefix s),
       emit_byte (cs_scope_prefix s),
       if subnet_addr_len (cs_source_prefix s) \<le> length (address_octets (cs_address s))
       then write_slice (take (subnet_addr_len (cs_source_prefix s)) (address_octets (cs_address s)))
       else emit_message_error ''Invalid addr length for encode EcsOption'']"

text \<open>The length of an option is cast to 16 bits.\<close>

fun option_len :: "edns_option \<Rightarrow> u16" where
  "option_len (EO_Subnet s) = 4 + of_nat (subnet_addr_len (cs_source_prefix s))"
| "option_len (EO_NSID d) = of_nat (length d)"
| "option_len (EO_Unknown c d) = of_nat (length d)"

fun put_option_data :: "edns_option \<Rightarrow> emitter" where
  "put_option_data (EO_Subnet s) = put_client_subnet s"
| "put_option_data (EO_NSID d) = write_slice d"
| "put_option_data (EO_Unknown c d) = write_slice d"

definition put_option :: "edns_option \<Rightarrow> emitter" where
  "put_option opt = emit_seq [put_u16 (option_code opt), put_u16 (option_len opt), put_option_data opt]"

definition put_opt :: "edns_option list \<Rightarrow> emitter" where
  "put_opt options = with_rdata_behavior OtherRecord (emit_seq (List.map put_option options))"

definition option_from :: "u16 \<Rightarrow> u8 list \<Rightarrow> (edns_option, read_error) result" where
  "option_from code bs =
     (if code = 8 then result_bind (rd_client_subnet bs 0) (\<lambda>(s, i). Inr (EO_Subnet s))
      else if code = 3 then
        if 65535 < length bs then Inl (RE_Message ''NSID EDNS payload too large'') else Inr (EO_NSID bs)
      else Inr (EO_Unknown code bs))"

datatype opt_read_state = ReadCode | OptCode u16 | OptData u16 nat "u8 list"

fun opt_step :: "nat \<Rightarrow> opt_read_state \<times> edns_option list \<Rightarrow> (opt_read_state \<times> edns_option list) reader" where
  "opt_step rdlen (ReadCode, options) = rd_bind rd_u16 (\<lambda>code. rd_return (OptCode code, options))"
| "opt_step rdlen (OptCode code, options) =
     rd_bind rd_u16 (\<lambda>len.
       if rdlen < unat len then rd_fail (RE_Message ''OPT value length exceeds rdata length'')
       else if len = 0 then rd_bind (rd_result (option_from code [])) (\<lambda>opt. rd_return (ReadCode, options @ [opt]))
       else rd_return (OptData code (unat len) [], options))"
| "opt_step rdlen (OptData code len collected, options) =
     rd_bind rd_pop (\<lambda>b.
       if len = length (collected @ [b])
       then rd_bind (rd_result (option_from code (collected @ [b]))) (\<lambda>opt. rd_return (ReadCode, options @ [opt]))
       else rd_return (OptData code len (collected @ [b]), options))"

definition rd_opt :: "nat \<Rightarrow> edns_option list reader" where
  "rd_opt rdlen =
     rd_bind rd_index (\<lambda>start.
     rd_bind (rd_while (\<lambda>i. i < start + rdlen) (opt_step rdlen) (ReadCode, [])) (\<lambda>(state, options).
       rd_return (if state \<noteq> ReadCode then [] else options)))"

section \<open>Data that is kept as octets\<close>

definition rd_hinfo :: "u8 list reader" where
  "rd_hinfo =
     rd_bind rd_character_data (\<lambda>cpu. rd_bind rd_character_data (\<lambda>os. rd_return (counted cpu @ counted os)))"

definition rd_sshfp :: "nat \<Rightarrow> u8 list reader" where
  "rd_sshfp rdlen =
     rd_bind rd_pop (\<lambda>algorithm. rd_bind rd_pop (\<lambda>fingerprint_type.
       if rdlen < 2 then rd_fail (RE_Message ''invalid rdata length in SSHFP'')
       else rd_bind (rd_slice (rdlen - 2)) (\<lambda>fingerprint. rd_return (algorithm # fingerprint_type # fingerprint))))"

definition rd_tlsa :: "nat \<Rightarrow> u8 list reader" where
  "rd_tlsa rdlen =
     rd_bind rd_pop (\<lambda>cert_usage. rd_bind rd_pop (\<lambda>selector. rd_bind rd_pop (\<lambda>matching.
       if rdlen < 3 then rd_fail (RE_Message ''invalid rdata length in TLSA'')
       else rd_bind (rd_slice (rdlen - 3)) (\<lambda>cert_data. rd_return (cert_usage # selector # matching # cert_data)))))"

definition rd_cert :: "nat \<Rightarrow> u8 list reader" where
  "rd_cert rdlen =
     (if rdlen \<le> 5 then rd_fail (RE_Message ''invalid cert_record length'')
      else
        rd_bind rd_u16 (\<lambda>cert_type. rd_bind rd_u16 (\<lambda>key_tag. rd_bind rd_pop (\<lambda>algorithm.
        rd_bind (rd_slice (rdlen - 5)) (\<lambda>cert_data.
          rd_return (be_octets 2 cert_type @ be_octets 2 key_tag @ algorithm # cert_data))))))"

text \<open>The bit maps of CSYNC: the reader checks the lengths of the blocks and that a bit that is set stands
  for a type.\<close>

datatype bit_map_state = BmWindow | BmLen u8 | BmRecordType u8 u8 u8

fun bit_map_step :: "bit_map_state \<Rightarrow> u8 \<Rightarrow> (bit_map_state, read_error) result" where
  "bit_map_step BmWindow b = Inr (BmLen b)"
| "bit_map_step (BmLen window) b = Inr (BmRecordType window b b)"
| "bit_map_step (BmRecordType window len left) b =
     (if b \<noteq> 0 \<and> (len < left \<or> 255 < unat (len - left) * 8) then
        Inl (RE_Message ''block len or left out of bounds in NSEC(3)'')
      else if left = 0 then Inl (RE_Message ''block left out of bounds in NSEC(3)'')
      else Inr (if left - 1 = 0 then BmWindow else BmRecordType window len (left - 1)))"

text \<open>The code is a \<open>for\<close> loop over the octets that were taken from the decoder before it, so it is a recursion
  over this list and needs no fuel.\<close>

fun bit_maps :: "bit_map_state \<Rightarrow> u8 list \<Rightarrow> (bit_map_state, read_error) result" where
  "bit_maps state [] = Inr state"
| "bit_maps state (b # bs) = result_bind (bit_map_step state b) (\<lambda>state'. bit_maps state' bs)"

definition rd_csync :: "nat \<Rightarrow> u8 list reader" where
  "rd_csync rdlen =
     rd_bind rd_u32 (\<lambda>soa_serial. rd_bind rd_u16 (\<lambda>flags.
       if flags AND 0xFC \<noteq> 0 then rd_fail (RE_UnrecognizedCsyncFlags flags)
       else if rdlen < 6 then rd_fail (RE_Message ''invalid rdata length in CSYNC'')
       else
         rd_bind (rd_slice (rdlen - 6)) (\<lambda>bytes. rd_bind (rd_result (bit_maps BmWindow bytes)) (\<lambda>state.
           rd_return (be_octets 4 soa_serial @ be_octets 2 flags @ bytes)))))"

definition rd_caa_tag :: "nat \<Rightarrow> u8 list reader" where
  "rd_caa_tag len =
     (if len = 0 \<or> 15 < len then rd_fail (RE_Message ''CAA tag length out of bounds, 1-15'')
      else
        rd_many len (rd_bind rd_pop (\<lambda>ch.
          if alphanumeric_octet ch then rd_return ch
          else rd_fail (RE_Message ''CAA tag character(s) out of bounds''))))"

definition rd_caa :: "nat \<Rightarrow> u8 list reader" where
  "rd_caa rdlen =
     rd_bind rd_pop (\<lambda>flags. rd_bind rd_pop (\<lambda>tag_len.
       if rdlen < unat tag_len + 2 then rd_fail (RE_Message ''CAA tag character(s) out of bounds'')
       else
         rd_bind (rd_caa_tag (unat tag_len)) (\<lambda>tag. rd_bind (rd_slice (rdlen - unat tag_len - 2)) (\<lambda>value.
           rd_return (flags # tag_len # tag @ value)))))"

definition rd_octets :: "rtype \<Rightarrow> nat \<Rightarrow> u8 list reader" where
  "rd_octets rt rdlen =
     (case rt of
        RT_CAA \<Rightarrow> rd_caa rdlen
      | RT_CERT \<Rightarrow> rd_cert rdlen
      | RT_CSYNC \<Rightarrow> rd_csync rdlen
      | RT_HINFO \<Rightarrow> rd_hinfo
      | RT_SSHFP \<Rightarrow> rd_sshfp rdlen
      | RT_TLSA \<Rightarrow> rd_tlsa rdlen
      | _ \<Rightarrow> rd_slice rdlen)"

text \<open>The pieces in which the emitters of these types write: field by field, and \<open>NULL\<close> and unknown types
  octet by octet.\<close>

definition octet_pieces :: "rtype \<Rightarrow> u8 list \<Rightarrow> u8 list list" where
  "octet_pieces rt bs =
     (case rt of
        RT_CAA \<Rightarrow> chunks [1, 1, case bs of flags # tag_len # rest \<Rightarrow> unat tag_len | _ \<Rightarrow> 0] bs
      | RT_CERT \<Rightarrow> chunks [2, 2, 1] bs
      | RT_CSYNC \<Rightarrow> chunks [4, 2] bs
      | RT_HINFO \<Rightarrow> counted_pieces bs
      | RT_OPENPGPKEY \<Rightarrow> [bs]
      | RT_SSHFP \<Rightarrow> chunks [1, 1] bs
      | RT_TLSA \<Rightarrow> chunks [1, 1, 1] bs
      | _ \<Rightarrow> List.map (\<lambda>b. [b]) bs)"

section \<open>The data of a record\<close>

definition rd_fields :: "rtype \<Rightarrow> nat \<Rightarrow> rdata reader" where
  "rd_fields rt rdlen =
     (case rt of
        RT_A \<Rightarrow> rd_bind rd_a (\<lambda>a. rd_return (RD_A a))
      | RT_AAAA \<Rightarrow> rd_bind rd_aaaa (\<lambda>a. rd_return (RD_AAAA a))
      | RT_ANAME \<Rightarrow> rd_bind rd_name (\<lambda>n. rd_return (RD_ANAME n))
      | RT_CNAME \<Rightarrow> rd_bind rd_name (\<lambda>n. rd_return (RD_CNAME n))
      | RT_HTTPS \<Rightarrow> rd_bind (rd_svcb rdlen) (\<lambda>s. rd_return (RD_HTTPS s))
      | RT_ZERO \<Rightarrow> rd_return RD_ZERO
      | RT_MX \<Rightarrow> rd_mx
      | RT_NAPTR \<Rightarrow> rd_bind rd_naptr (\<lambda>n. rd_return (RD_NAPTR n))
      | RT_NS \<Rightarrow> rd_bind rd_name (\<lambda>n. rd_return (RD_NS n))
      | RT_OPT \<Rightarrow> rd_bind (rd_opt rdlen) (\<lambda>options. rd_return (RD_OPT options))
      | RT_PTR \<Rightarrow> rd_bind rd_name (\<lambda>n. rd_return (RD_PTR n))
      | RT_SOA \<Rightarrow> rd_bind rd_soa (\<lambda>s. rd_return (RD_SOA s))
      | RT_SRV \<Rightarrow> rd_bind rd_srv (\<lambda>s. rd_return (RD_SRV s))
      | RT_SVCB \<Rightarrow> rd_bind (rd_svcb rdlen) (\<lambda>s. rd_return (RD_SVCB s))
      | RT_TXT \<Rightarrow> rd_bind (rd_txt rdlen) (\<lambda>ss. rd_return (RD_TXT (List.map from_bytes ss)))
      | _ \<Rightarrow> rd_bind (rd_octets rt rdlen) (\<lambda>bs. rd_return (RD_Other rt bs)))"

definition rd_rdata :: "rtype \<Rightarrow> nat \<Rightarrow> rdata reader" where
  "rd_rdata rt rdlen =
     (if rt = RT_ANY \<or> rt = RT_AXFR \<or> rt = RT_IXFR then rd_fail (RE_UnknownRecordTypeValue (rt_to_u16 rt))
      else
        rd_bind rd_index (\<lambda>start. rd_bind (rd_fields rt rdlen) (\<lambda>d. rd_bind rd_index (\<lambda>end_index.
          if end_index - start = rdlen then rd_return d
          else rd_fail (RE_IncorrectRDataLengthRead (end_index - start) rdlen)))))"

fun put_rdata :: "rdata \<Rightarrow> emitter" where
  "put_rdata (RD_A a) = put_a a"
| "put_rdata (RD_AAAA a) = put_aaaa a"
| "put_rdata (RD_ANAME n) = with_rdata_behavior OtherRecord (emit_name n)"
| "put_rdata (RD_CNAME n) = with_rdata_behavior StandardRecord (emit_name n)"
| "put_rdata (RD_NS n) = with_rdata_behavior StandardRecord (emit_name n)"
| "put_rdata (RD_PTR n) = with_rdata_behavior StandardRecord (emit_name n)"
| "put_rdata (RD_HTTPS s) = put_svcb s"
| "put_rdata RD_ZERO = emit_seq []"
| "put_rdata (RD_MX p n) = put_mx p n"
| "put_rdata (RD_NAPTR n) = put_naptr n"
| "put_rdata (RD_OPT options) = put_opt options"
| "put_rdata (RD_SOA s) = put_soa s"
| "put_rdata (RD_SRV s) = put_srv s"
| "put_rdata (RD_SVCB s) = put_svcb s"
| "put_rdata (RD_TXT ss) = put_txt (List.map as_bytes ss)"
| "put_rdata (RD_Other t bs) = write_all (octet_pieces t bs)"
| "put_rdata (RD_Update0 t) = emit_seq []"

section \<open>Reading back what has no names\<close>

lemma octets_be: "octets4 a = be_octets 4 a" "octets6 b = be_octets 16 b"
  by (simp_all add: octets4_def octets6_def octet_def eval_nat_numeral)

lemma length_address_octets [simp]: "length (octets4 a) = 4" "length (octets6 b) = 16"
  by (simp_all add: octets_be)

lemma from_be_octets4 [simp]: "from_be (octets4 a) = a"
  by (simp add: octets_be)

lemma from_be_octets6 [simp]: "from_be (octets6 a) = a"
  by (simp add: octets_be)

lemma rd_pop_at [simp]: "rd_pop (pre @ b # rest) (length pre) = Inr (b, Suc (length pre))"
  by (simp add: rd_pop_def)

lemma rd_pops:
  assumes "length bs = n"
  shows "rd_many n rd_pop (pre @ bs @ rest) (length pre) = Inr (bs, length pre + n)"
  using rd_many_items [of bs rd_pop "\<lambda>b. [b]" pre rest] assms by simp

lemma rd_u16_at [simp]: "rd_u16 (pre @ be_octets 2 w @ rest) (length pre) = Inr (w, length pre + 2)"
  by (simp add: rd_u16_def rd_bind_def rd_return_def rd_slice_def)

lemma rd_a_at: "rd_a (pre @ octets4 a @ rest) (length pre) = Inr (a, length pre + length (octets4 a))"
  by (simp add: rd_a_def rd_bind_def rd_return_def rd_pops)

fun segments :: "u8 list \<Rightarrow> u16 list" where
  "segments (a # b # bs) = from_be [a, b] # segments bs"
| "segments bs = []"

lemma segments_octets:
  assumes "length bs = 2 * n"
  shows "concat (List.map (be_octets 2) (segments bs)) = bs" "length (segments bs) = n"
proof -
  have pair: "be_octets 2 (from_be [a, b] :: u16) = [a, b]" for a b by (rule be_octets_from_be) simp_all
  have "concat (List.map (be_octets 2) (segments bs)) = bs \<and> length (segments bs) = n"
    using assms
  proof (induction bs arbitrary: n rule: segments.induct)
    case (1 a b bs)
    then obtain m where "n = Suc m" "length bs = 2 * m" by (cases n) auto
    then show ?case using "1.IH" [of m] pair by simp
  qed auto
  then show "concat (List.map (be_octets 2) (segments bs)) = bs" "length (segments bs) = n" by simp_all
qed

lemma rd_aaaa_at: "rd_aaaa (pre @ octets6 a @ rest) (length pre) = Inr (a, length pre + length (octets6 a))"
proof -
  have s: "concat (List.map (be_octets 2) (segments (octets6 a))) = octets6 a" "length (segments (octets6 a)) = 8"
    by (rule segments_octets [where n = 8], simp)+
  have "rd_many 8 rd_u16 (pre @ octets6 a @ rest) (length pre) = Inr (segments (octets6 a), length pre + length (octets6 a))"
    using rd_many_items [of "segments (octets6 a)" rd_u16 "be_octets 2" pre rest] s by simp
  then show ?thesis using s by (simp add: rd_aaaa_def rd_bind_def rd_return_def)
qed

lemma writes_address: "writes (put_a a) (octets4 a)" "writes (put_aaaa b) (octets6 b)"
  unfolding put_a_def put_aaaa_def by (rule writes_all [of "chunks _ _", unfolded concat_chunks])+

lemma emits_a: "emits (put_a a) rd_a a" "emits (put_aaaa b) rd_aaaa b"
  by (rule emits_writes [OF writes_address(1)], rule rd_a_at)
    (rule emits_writes [OF writes_address(2)], rule rd_aaaa_at)

lemma rd_character_data_at:
  assumes "length s \<le> 255"
  shows "rd_character_data (pre @ counted s @ rest) (length pre) = Inr (s, length pre + length (counted s))"
proof -
  have "unat (of_nat (length s) :: u8) = length s" using assms by (simp add: unat_of_nat)
  then show ?thesis
    by (simp add: rd_character_data_def rd_bind_def rd_slice_def counted_def)
qed

lemma writes_character_data: "writes (emit_character_data s) (counted s)"
  unfolding writes_def counted_def
proof (intro allI impI)
  fix en en' assume a: "ready en \<and> emit_character_data s en = Inr en'"
  then have "result_bind (emit_byte (of_nat (length s)) en) (write_slice s) = Inr en'"
    by (auto simp: emit_character_data_def split: if_splits)
  then show "write_slice (of_nat (length s) # s) en = Inr en'"
    using writes_bind [OF writes_put(3) writes_write_slice, of "of_nat (length s)" s] a by (auto simp: writes_def)
qed

lemma emits_to_txt:
  assumes "\<forall>s \<in> set ss. length s \<le> 255"
  shows "emits_to (put_txt ss) (\<lambda>stop. rd_while (\<lambda>i. i < stop) (\<lambda>strings. rd_bind rd_character_data (\<lambda>s. rd_return (strings @ [s]))) []) ss"
proof (rule emits_to_writes)
  show "writes (put_txt ss) (concat (List.map counted ss))"
    unfolding put_txt_def by (rule writes_map) (rule writes_character_data)
next
  fix pre rest
  show "rd_while (\<lambda>i. i < length pre + length (concat (List.map counted ss)))
      (\<lambda>strings. rd_bind rd_character_data (\<lambda>s. rd_return (strings @ [s]))) []
      (pre @ concat (List.map counted ss) @ rest) (length pre) =
    Inr (ss, length pre + length (concat (List.map counted ss)))"
    by (subst rd_while_items [where h = counted])
      (use assms in \<open>simp_all add: rd_bind_def rd_return_def rd_character_data_at, simp_all add: counted_def\<close>)
qed

section \<open>Service bindings come back\<close>

text \<open>The octets of a parameter's value, and the parameters that a reader can have built.\<close>

fun svc_octets :: "svc_param \<Rightarrow> u8 list" where
  "svc_octets (SvcIpv4Hint as) = concat (List.map octets4 as)"
| "svc_octets (SvcIpv6Hint as) = concat (List.map octets6 as)"
| "svc_octets (SvcParam k bs) = bs"

definition svc_param_ok :: "svc_param \<Rightarrow> bool" where
  "svc_param_ok p \<longleftrightarrow> (case p of SvcParam k bs \<Rightarrow> svc_value k bs = Inr p | _ \<Rightarrow> True)"

lemma collect_items:
  assumes "\<And>x pre rest. r (pre @ h x @ rest) (length pre) = Inr (x, length pre + length (h x))" "\<And>x. h x \<noteq> []"
  shows "collect r (concat (List.map h xs)) = Inr xs"
proof -
  have "rd_while (\<lambda>i. i < length (concat (List.map h xs))) (\<lambda>acc. rd_bind r (\<lambda>x. rd_return (acc @ [x]))) []
      ([] @ concat (List.map h xs) @ []) (length ([] :: u8 list)) = Inr ([] @ xs, length (concat (List.map h xs)))"
    by (rule rd_while_items) (use assms in \<open>simp_all add: rd_bind_def rd_return_def\<close>)
  then show ?thesis by (simp add: collect_def)
qed

lemma svc_value_octets:
  assumes "svc_param_ok p"
  shows "svc_value (svc_key p) (svc_octets p) = Inr p"
proof -
  have ne: "octets4 a \<noteq> []" "octets6 b \<noteq> []" for a b
    using length_address_octets by (metis list.size(3) zero_neq_numeral)+
  show ?thesis
  proof (cases p)
    case (SvcIpv4Hint as)
    then show ?thesis using collect_items [of rd_a octets4 as, OF rd_a_at ne(1)] by (simp add: svc_value_def)
  next
    case (SvcIpv6Hint as)
    then show ?thesis using collect_items [of rd_aaaa octets6 as, OF rd_aaaa_at ne(2)] by (simp add: svc_value_def)
  qed (use assms in \<open>simp add: svc_param_ok_def\<close>)
qed

lemma concat_counted_pieces [simp]: "concat (counted_pieces bs) = bs"
  by (induction bs rule: counted_pieces.induct) simp_all

lemma writes_error: "writes (emit_message_error s) bs"
  by (simp add: writes_def emit_message_error_def)

lemma writes_svc_value:
  assumes "svc_param_ok p"
  shows "writes (put_svc_value p) (svc_octets p)"
proof (cases p)
  case (SvcIpv4Hint as)
  have "writes (emit_seq (List.map put_a as)) (concat (List.map octets4 as))"
    by (rule writes_map) (rule writes_address)
  then show ?thesis using SvcIpv4Hint by simp
next
  case (SvcIpv6Hint as)
  have "writes (emit_seq (List.map put_aaaa as)) (concat (List.map octets6 as))"
    by (rule writes_map) (rule writes_address)
  then show ?thesis using SvcIpv6Hint by simp
next
  case (SvcParam k bs)
  have "bs = []" if "k = 2" using assms SvcParam that by (auto simp: svc_param_ok_def svc_value_def split: if_splits)
  then show ?thesis
    using writes_all [of "chunks (replicate (length bs div 2 - 1) 2) bs"] writes_all [of "counted_pieces bs"] SvcParam
    by (auto simp: writes_error writes_Nil writes_write_slice)
qed

lemma blind_emit_message_error [intro]: "blind (emit_message_error s)"
  unfolding emit_message_error_def [abs_def] by (rule blind_fail)

lemma blind_put_svc_value [intro]: "blind (put_svc_value p)"
proof (cases p)
  case (SvcParam k bs)
  show ?thesis unfolding SvcParam put_svc_value.simps
    by (auto intro!: blind_emit_message_error blind_write_all blind_write_slice blind_emit_seq)
qed (auto intro!: blind_emit_seq simp: list_all_iff put_a_def put_aaaa_def)

lemma emits_svc_value:
  assumes "svc_param_ok p"
  shows "emits (with_length (put_svc_value p)) (rd_svc_value (svc_key p)) p"
proof -
  have body: "emits_to (put_svc_value p)
      (\<lambda>stop. rd_bind rd_index (\<lambda>i. rd_bind (rd_slice (stop - i)) (\<lambda>bs. rd_result (svc_value (svc_key p) bs)))) p"
    by (rule emits_to_writes [OF writes_svc_value [OF assms]])
      (simp add: rd_bind_def rd_index_def rd_slice_def rd_result_def svc_value_octets [OF assms])
  have "rd_svc_value (svc_key p) buf i = Inr (p, j)"
    if "rd_bind rd_u16 (\<lambda>len. rd_bind rd_index (\<lambda>start. rd_bind rd_index (\<lambda>i. rd_bind (rd_slice (start + unat len - i))
        (\<lambda>bs. rd_result (svc_value (svc_key p) bs))))) buf i = Inr (p, j)" for buf i j
    using that
    by (cases "rd_u16 buf i") (auto simp: rd_svc_value_def rd_bind_def rd_index_def rd_len_def rd_slice_def rd_fail_def split: if_splits)
  then show ?thesis using emits_with_length [OF body blind_put_svc_value] unfolding emits_def emits_to_def by blast
qed

lemma blind_put_svc_params [intro]: "blind (put_svc_params last_key ps)"
proof (induction ps arbitrary: last_key)
  case Nil
  then show ?case by (simp add: blind_Inr emit_seq.simps(1) [abs_def])
next
  case (Cons p ps)
  show ?case unfolding put_svc_params.simps
    by (auto intro!: blind_emit_message_error blind_emit_seq Cons.IH blind_put blind_with_length blind_put_svc_value simp del: emit_seq.simps)
qed

text \<open>A parameter takes four octets at least, so the loop runs until the last one has been read.\<close>

lemma emits_to_svc_params:
  assumes "\<forall>p \<in> set ps. svc_param_ok p" "last_key = (if acc = [] then None else Some (svc_key (last acc)))"
  shows "emits_to (put_svc_params last_key ps) (\<lambda>stop. rd_while (\<lambda>i. i + 4 \<le> stop) (rd_svc_param stop) acc) (acc @ ps)"
  using assms
proof (induction ps arbitrary: last_key acc)
  case Nil
  then show ?case by (simp add: emits_to_def rd_while.simps)
next
  case (Cons p ps)
  let ?ordered = "\<not> (case last_key of Some k \<Rightarrow> svc_key p \<le> k | None \<Rightarrow> False)"
  have IH: "emits_to (put_svc_params (Some (svc_key p)) ps) (\<lambda>stop. rd_while (\<lambda>i. i + 4 \<le> stop) (rd_svc_param stop) (acc @ [p]))
      ((acc @ [p]) @ ps)"
    by (rule Cons.IH) (use Cons.prems in simp_all)
  have head: "emits (emit_seq [put_u16 (svc_key p), with_length (put_svc_value p)])
      (rd_bind rd_u16 (\<lambda>key. rd_bind (rd_svc_value key) (\<lambda>v. rd_return (key, v)))) (svc_key p, p)"
    by (rule emits_seq [OF emits_u16], rule emits_seq_last [OF emits_svc_value]) (use Cons.prems in simp)
  show ?case
    unfolding emits_to_def
  proof (intro allI impI)
    fix en en' assume a: "plain en \<and> put_svc_params last_key (p # ps) en = Inr en'"
    then have ord: ?ordered by (auto simp: emit_message_error_def split: if_splits)
    obtain en1 where e: "emit_seq [put_u16 (svc_key p), with_length (put_svc_value p)] en = Inr en1"
      "put_svc_params (Some (svc_key p)) ps en1 = Inr en'"
      using a ord by (auto simp: result_bind_Inr_iff)
    note h = emits_toD [OF emits_to_if_emits [OF head] conjunct1 [OF a] e(1)]
    note t = emits_toD [OF IH h(1) e(2)]
    have rdy: "ready en" using a by (simp add: plain_def en_good_def)
    have four: "length (en_buffer en) + 4 \<le> length (en_buffer en1)"
    proof -
      obtain en0 where e0: "put_u16 (svc_key p) en = Inr en0" "with_length (put_svc_value p) en0 = Inr en1"
        using e(1) by (auto simp: result_bind_Inr_iff)
      have "ready en0" "length (en_buffer en0) = length (en_buffer en) + 2"
        using write_slice_ok [OF e0(1) [unfolded put_u16_def] rdy] by simp_all
      then show ?thesis using with_length_first [OF e0(2) _ blind_put_svc_value] by auto
    qed
    obtain zs where zs: "en_buffer en' = en_buffer en1 @ zs" using t(3) by blast
    have step: "rd_svc_param (length (en_buffer en')) acc (en_buffer en' @ junk) (length (en_buffer en)) =
        Inr (acc @ [p], length (en_buffer en1))" for junk
    proof -
      have "\<not> (acc \<noteq> [] \<and> svc_key p \<le> svc_key (last acc))" using ord Cons.prems(2) by auto
      moreover obtain i where "rd_u16 (en_buffer en' @ junk) (length (en_buffer en)) = Inr (svc_key p, i)"
        "rd_svc_value (svc_key p) (en_buffer en' @ junk) i = Inr (p, length (en_buffer en1))"
        using h(4) [of "zs @ junk"] zs by (auto simp: rd_bind_Inr_iff rd_return_def)
      ultimately show ?thesis using zs
        by (auto simp: rd_svc_param_def rd_not_behind_def rd_bind_def rd_return_def rd_index_def)
    qed
    have "rd_while (\<lambda>i. i + 4 \<le> length (en_buffer en')) (rd_svc_param (length (en_buffer en'))) acc
        (en_buffer en' @ junk) (length (en_buffer en)) = Inr (acc @ p # ps, length (en_buffer en'))" for junk
      using step [of junk] t(4) [of junk] four zs by (subst rd_while.simps) simp
    then show "plain en' \<and> en_name_encoding en' = en_name_encoding en \<and> (\<exists>ys. en_buffer en' = en_buffer en @ ys) \<and>
      (\<forall>junk. rd_while (\<lambda>i. i + 4 \<le> length (en_buffer en')) (rd_svc_param (length (en_buffer en'))) acc
        (en_buffer en' @ junk) (length (en_buffer en)) = Inr (acc @ p # ps, length (en_buffer en')))"
      using h t by auto
  qed
qed

lemma emits_to_svcb:
  assumes "wf_name (svc_target_name s)" "\<forall>p \<in> set (svc_params s). svc_param_ok p"
  shows "emits_to (put_svcb s) (\<lambda>stop. rd_bind rd_index (\<lambda>start. rd_svcb (stop - start)))
    (s\<lparr>svc_target_name := set_fqdn True (svc_target_name s)\<rparr>)"
proof -
  let ?s = "s\<lparr>svc_target_name := set_fqdn True (svc_target_name s)\<rparr>"
  let ?build = "\<lambda>priority target params. \<lparr>svc_priority = priority, svc_target_name = target, svc_params = params\<rparr>"
  have params: "emits_to (put_svc_params None (svc_params s))
      (\<lambda>stop. rd_bind (rd_while (\<lambda>i. i + 4 \<le> stop) (rd_svc_param stop) [])
         (\<lambda>params. rd_return (?build (svc_priority s) (set_fqdn True (svc_target_name s)) params))) ?s"
    using emits_to_svc_params [of "svc_params s" None "[]"] assms(2)
    by (fastforce simp: emits_to_def rd_bind_def rd_return_def)
  have "emits_to (emit_seq [put_u16 (svc_priority s), emit_name (svc_target_name s), put_svc_params None (svc_params s)])
      (\<lambda>stop. rd_bind rd_u16 (\<lambda>priority. rd_bind rd_name (\<lambda>target.
         rd_bind (rd_while (\<lambda>i. i + 4 \<le> stop) (rd_svc_param stop) []) (\<lambda>params. rd_return (?build priority target params))))) ?s"
    by (rule emits_to_seq [OF emits_u16], rule emits_to_seq [OF emits_name [OF assms(1)]])
      (use params in \<open>simp add: emits_to_def result_bind_Inr_iff\<close>)
  then have e: "emits_to (put_svcb s) (\<lambda>stop. rd_bind rd_u16 (\<lambda>priority. rd_bind rd_name (\<lambda>target.
         rd_bind (rd_while (\<lambda>i. i + 4 \<le> stop) (rd_svc_param stop) []) (\<lambda>params. rd_return (?build priority target params))))) ?s"
    unfolding put_svcb_def by (rule emits_to_with_rdata_behavior)
  have read: "rd_svcb (stop - i) buf i = Inr (v, stop)"
    if h: "rd_bind rd_u16 (\<lambda>priority. rd_bind rd_name (\<lambda>target.
         rd_bind (rd_while (\<lambda>i. i + 4 \<le> stop) (rd_svc_param stop) []) (\<lambda>params. rd_return (?build priority target params))))
         buf i = Inr (v, stop)" and le: "i \<le> stop" for stop i buf v
  proof -
    obtain a i1 b i2 c where r: "rd_u16 buf i = Inr (a, i1)" "rd_name buf i1 = Inr (b, i2)"
      "rd_while (\<lambda>i. i + 4 \<le> stop) (rd_svc_param stop) [] buf i2 = Inr (c, stop)" "v = ?build a b c"
      using h by (auto simp: rd_bind_Inr_iff rd_return_def)
    have mono: "i2 \<le> stop" using rd_while_mono [OF r(3)] by simp
    show ?thesis using r mono le
      by (simp add: rd_svcb_def rd_bind_def rd_index_def rd_return_def rd_not_behind_def)
  qed
  show ?thesis
    unfolding emits_to_def
  proof (intro allI impI)
    fix en en' assume a: "plain en \<and> put_svcb s en = Inr en'"
    note d = emits_toD [OF e conjunct1 [OF a] conjunct2 [OF a]]
    have "length (en_buffer en) \<le> length (en_buffer en')" using d(3) by auto
    from read [OF d(4) this] d(1-3)
    show "plain en' \<and> en_name_encoding en' = en_name_encoding en \<and> (\<exists>ys. en_buffer en' = en_buffer en @ ys) \<and>
      (\<forall>junk. rd_bind rd_index (\<lambda>start. rd_svcb (length (en_buffer en') - start)) (en_buffer en' @ junk) (length (en_buffer en)) =
        Inr (?s, length (en_buffer en')))"
      by (simp add: rd_bind_def rd_index_def)
  qed
qed

section \<open>Options of EDNS come back\<close>

text \<open>The address of a client subnet is cut to the octets of its prefix.\<close>

definition cut_address :: "nat \<Rightarrow> ip_addr \<Rightarrow> ip_addr" where
  "cut_address n a =
     (case a of
        IpV4 v \<Rightarrow> IpV4 (from_be (padded 4 (take n (octets4 v))))
      | IpV6 v \<Rightarrow> IpV6 (from_be (padded 16 (take n (octets6 v)))))"

fun wire_option :: "edns_option \<Rightarrow> edns_option" where
  "wire_option (EO_Subnet s) =
     EO_Subnet (s\<lparr>cs_address := cut_address (subnet_addr_len (cs_source_prefix s)) (cs_address s)\<rparr>)"
| "wire_option opt = opt"

fun option_octets :: "edns_option \<Rightarrow> u8 list" where
  "option_octets (EO_Subnet s) =
     be_octets 2 (case cs_address s of IpV4 a \<Rightarrow> 1 :: u16 | IpV6 a \<Rightarrow> 2) @ [cs_source_prefix s, cs_scope_prefix s] @
     take (subnet_addr_len (cs_source_prefix s)) (address_octets (cs_address s))"
| "option_octets (EO_NSID d) = d"
| "option_octets (EO_Unknown c d) = d"

text \<open>An option of unknown kind has a code of its own, and a prefix is not longer than its address.\<close>

fun option_ok :: "edns_option \<Rightarrow> bool" where
  "option_ok (EO_Unknown c d) = (c \<noteq> 8 \<and> c \<noteq> 3)"
| "option_ok (EO_Subnet s) = (subnet_addr_len (cs_source_prefix s) \<le> length (address_octets (cs_address s)))"
| "option_ok (EO_NSID d) = True"

lemma writes_client_subnet: "writes (put_client_subnet s) (option_octets (EO_Subnet s))"
proof -
  let ?n = "subnet_addr_len (cs_source_prefix s)" and ?a = "address_octets (cs_address s)"
  have "writes (if ?n \<le> length ?a then write_slice (take ?n ?a)
      else emit_message_error ''Invalid addr length for encode EcsOption'') (take ?n ?a)"
    by (simp add: writes_write_slice writes_error)
  then have "writes (put_client_subnet s) (be_octets 2 (case cs_address s of IpV4 a \<Rightarrow> 1 :: u16 | IpV6 a \<Rightarrow> 2) @
      [cs_source_prefix s] @ [cs_scope_prefix s] @ take ?n ?a @ [])"
    unfolding put_client_subnet_def by (intro writes_seq writes_put writes_Nil)
  then show ?thesis by simp
qed

lemma writes_option: "writes (put_option opt) (be_octets 2 (option_code opt) @ be_octets 2 (option_len opt) @ option_octets opt)"
proof -
  have "writes (put_option_data opt) (option_octets opt)"
    by (cases opt) (auto simp: writes_client_subnet writes_write_slice simp del: option_octets.simps(1))
  then have "writes (put_option opt) (be_octets 2 (option_code opt) @ be_octets 2 (option_len opt) @ option_octets opt @ [])"
    unfolding put_option_def by (intro writes_seq writes_put writes_Nil)
  then show ?thesis by simp
qed

lemma option_len_octets:
  assumes "option_ok opt" "length (option_octets opt) \<le> 65535"
  shows "unat (option_len opt) = length (option_octets opt)"
proof (cases opt)
  case (EO_Subnet s)
  let ?n = "subnet_addr_len (cs_source_prefix s)"
  have n: "?n \<le> length (address_octets (cs_address s))" using assms(1) EO_Subnet by simp
  then have "?n \<le> 16" by (cases "cs_address s") simp_all
  then have "unat (4 + of_nat ?n :: u16) = 4 + ?n" by (simp add: unat_word_ariths unat_of_nat)
  then show ?thesis using EO_Subnet n by simp
qed (use assms(2) in \<open>simp_all add: unat_of_nat\<close>)

lemma length_padded [simp]: "length bs \<le> n \<Longrightarrow> length (padded n bs) = n"
  by (simp add: padded_def)

lemma option_from_octets:
  assumes "option_ok opt" "length (option_octets opt) \<le> 65535"
  shows "option_from (option_code opt) (option_octets opt) = Inr (wire_option opt)"
proof (cases opt)
  case (EO_Subnet s)
  let ?n = "subnet_addr_len (cs_source_prefix s)"
  have n: "?n \<le> length (address_octets (cs_address s))" using assms(1) EO_Subnet by simp
  show ?thesis
  proof (cases "cs_address s")
    case (IpV4 a)
    have r: "rd_many ?n rd_pop (be_octets 2 (1 :: u16) @ [cs_source_prefix s, cs_scope_prefix s] @ take ?n (octets4 a)) 4 =
        Inr (take ?n (octets4 a), 4 + ?n)"
      using rd_pops [of "take ?n (octets4 a)" ?n "be_octets 2 (1 :: u16) @ [cs_source_prefix s, cs_scope_prefix s]" "[]"] n IpV4
      by simp
    show ?thesis using r n IpV4 EO_Subnet rd_u16_at [of "[]" 1]
      by (simp add: option_from_def rd_client_subnet_def rd_bind_def rd_return_def rd_pop_def nth_append cut_address_def
          numeral_2_eq_2 eval_nat_numeral)
  next
    case (IpV6 a)
    have r: "rd_many ?n rd_pop (be_octets 2 (2 :: u16) @ [cs_source_prefix s, cs_scope_prefix s] @ take ?n (octets6 a)) 4 =
        Inr (take ?n (octets6 a), 4 + ?n)"
      using rd_pops [of "take ?n (octets6 a)" ?n "be_octets 2 (2 :: u16) @ [cs_source_prefix s, cs_scope_prefix s]" "[]"] n IpV6
      by simp
    show ?thesis using r n IpV6 EO_Subnet rd_u16_at [of "[]" 2]
      by (simp add: option_from_def rd_client_subnet_def rd_bind_def rd_return_def rd_pop_def nth_append cut_address_def
          numeral_2_eq_2 eval_nat_numeral)
  qed
qed (use assms in \<open>simp_all add: option_from_def\<close>)

lemma opt_data_loop:
  assumes "option_from code (collected @ data) = Inr opt" "data \<noteq> []" "len = length (collected @ data)"
    and "length pre + length data \<le> stop"
  shows "rd_while (\<lambda>i. i < stop) (opt_step rdlen) (OptData code len collected, options) (pre @ data @ rest) (length pre) =
    rd_while (\<lambda>i. i < stop) (opt_step rdlen) (ReadCode, options @ [opt]) (pre @ data @ rest) (length pre + length data)"
  using assms
proof (induction data arbitrary: pre collected)
  case Nil
  then show ?case by simp
next
  case (Cons b data)
  have go: "length pre < stop" using Cons.prems(4) by simp
  show ?case
  proof (cases "data = []")
    case True
    then show ?thesis using go Cons.prems
      by (subst rd_while.simps) (simp add: rd_bind_def rd_return_def rd_result_def)
  next
    case False
    have IH: "rd_while (\<lambda>i. i < stop) (opt_step rdlen) (OptData code len (collected @ [b]), options) ((pre @ [b]) @ data @ rest) (length (pre @ [b])) =
      rd_while (\<lambda>i. i < stop) (opt_step rdlen) (ReadCode, options @ [opt]) ((pre @ [b]) @ data @ rest) (length (pre @ [b]) + length data)"
      by (rule Cons.IH) (use Cons.prems False in simp_all)
    have "len \<noteq> length (collected @ [b])" using Cons.prems(3) False by (cases data) simp_all
    then show ?thesis using go IH
      by (subst rd_while.simps) (simp add: rd_bind_def rd_return_def)
  qed
qed

lemma opt_option_loop:
  assumes "option_ok opt" "length (option_octets opt) \<le> 65535" "length (option_octets opt) \<le> rdlen"
    and octets: "octets = be_octets 2 (option_code opt) @ be_octets 2 (option_len opt) @ option_octets opt"
    and "length pre + length octets \<le> stop"
  shows "rd_while (\<lambda>i. i < stop) (opt_step rdlen) (ReadCode, options) (pre @ octets @ rest) (length pre) =
    rd_while (\<lambda>i. i < stop) (opt_step rdlen) (ReadCode, options @ [wire_option opt]) (pre @ octets @ rest) (length pre + length octets)"
proof -
  let ?d = "option_octets opt" and ?buf = "pre @ octets @ rest"
  note len = option_len_octets [OF assms(1, 2)] and from_octets = option_from_octets [OF assms(1, 2)]
  have r1: "rd_u16 ?buf (length pre) = Inr (option_code opt, length pre + 2)"
    using rd_u16_at [of pre "option_code opt" "be_octets 2 (option_len opt) @ ?d @ rest"] octets by simp
  have r2: "rd_u16 ?buf (length pre + 2) = Inr (option_len opt, length pre + 4)"
    using rd_u16_at [of "pre @ be_octets 2 (option_code opt)" "option_len opt" "?d @ rest"] octets by simp
  have bounds: "length pre + 4 \<le> length ?buf" "length pre + 4 + length ?d \<le> stop" using octets assms(5) by simp_all
  have one: "rd_while (\<lambda>i. i < stop) (opt_step rdlen) (ReadCode, options) ?buf (length pre) =
      rd_while (\<lambda>i. i < stop) (opt_step rdlen) (OptCode (option_code opt), options) ?buf (length pre + 2)"
    using r1 bounds by (subst rd_while.simps) (simp add: rd_bind_def rd_return_def)
  show ?thesis
  proof (cases "?d = []")
    case True
    then have "option_len opt = 0" using len by (simp add: unat_eq_zero)
    then show ?thesis using one r2 bounds from_octets True octets
      by (subst (asm) (2) rd_while.simps) (simp add: rd_bind_def rd_return_def rd_result_def)
  next
    case False
    then have "option_len opt \<noteq> 0" using len by auto
    then have two: "rd_while (\<lambda>i. i < stop) (opt_step rdlen) (OptCode (option_code opt), options) ?buf (length pre + 2) =
        rd_while (\<lambda>i. i < stop) (opt_step rdlen) (OptData (option_code opt) (length ?d) [], options) ?buf (length pre + 4)"
      using r2 bounds len assms(3) by (subst rd_while.simps) (simp add: rd_bind_def rd_return_def)
    have "rd_while (\<lambda>i. i < stop) (opt_step rdlen) (OptData (option_code opt) (length ?d) [], options)
        ((pre @ be_octets 2 (option_code opt) @ be_octets 2 (option_len opt)) @ ?d @ rest)
        (length (pre @ be_octets 2 (option_code opt) @ be_octets 2 (option_len opt))) =
      rd_while (\<lambda>i. i < stop) (opt_step rdlen) (ReadCode, options @ [wire_option opt])
        ((pre @ be_octets 2 (option_code opt) @ be_octets 2 (option_len opt)) @ ?d @ rest)
        (length (pre @ be_octets 2 (option_code opt) @ be_octets 2 (option_len opt)) + length ?d)"
      by (rule opt_data_loop) (use from_octets False bounds in simp_all)
    then have three: "rd_while (\<lambda>i. i < stop) (opt_step rdlen) (OptData (option_code opt) (length ?d) [], options) ?buf (length pre + 4) =
      rd_while (\<lambda>i. i < stop) (opt_step rdlen) (ReadCode, options @ [wire_option opt]) ?buf (length pre + length octets)"
      using octets by (simp add: eval_nat_numeral)
    show ?thesis by (simp only: one two three)
  qed
qed

lemma rd_opt_octets:
  assumes "\<forall>opt \<in> set opts. option_ok opt"
    and octets: "octets = concat (List.map (\<lambda>opt. be_octets 2 (option_code opt) @ be_octets 2 (option_len opt) @ option_octets opt) opts)"
    and "length octets \<le> rdlen" "length octets \<le> 65535" "length pre + length octets = stop"
  shows "rd_while (\<lambda>i. i < stop) (opt_step rdlen) (ReadCode, options) (pre @ octets @ rest) (length pre) =
    Inr ((ReadCode, options @ List.map wire_option opts), stop)"
  using assms
proof (induction opts arbitrary: pre octets options)
  case Nil
  then show ?case by (simp add: rd_while.simps)
next
  case (Cons opt opts)
  let ?h = "\<lambda>opt. be_octets 2 (option_code opt) @ be_octets 2 (option_len opt) @ option_octets opt"
  let ?t = "concat (List.map ?h opts)"
  have o: "octets = ?h opt @ ?t" using Cons.prems(2) by simp
  have "rd_while (\<lambda>i. i < stop) (opt_step rdlen) (ReadCode, options) (pre @ ?h opt @ ?t @ rest) (length pre) =
      rd_while (\<lambda>i. i < stop) (opt_step rdlen) (ReadCode, options @ [wire_option opt]) (pre @ ?h opt @ ?t @ rest) (length pre + length (?h opt))"
    by (rule opt_option_loop [OF _ _ _ refl]) (use Cons.prems o in simp_all)
  also have "\<dots> = Inr ((ReadCode, (options @ [wire_option opt]) @ List.map wire_option opts), stop)"
    using Cons.IH [of ?t "pre @ ?h opt" "options @ [wire_option opt]"] Cons.prems o by simp
  finally show ?case using o by simp
qed

lemma emits_to_opt:
  assumes "\<forall>opt \<in> set opts. option_ok opt"
  shows "emits_to (put_opt opts) (\<lambda>stop. rd_bind rd_index (\<lambda>start. rd_opt (stop - start))) (List.map wire_option opts)"
proof -
  let ?h = "\<lambda>opt. be_octets 2 (option_code opt) @ be_octets 2 (option_len opt) @ option_octets opt"
  show ?thesis
  proof (rule emits_to_writes)
    show "writes (put_opt opts) (concat (List.map ?h opts))"
      unfolding put_opt_def by (intro writes_with_rdata_behavior writes_map writes_option)
  next
    fix pre rest
    assume le: "length (concat (List.map ?h opts)) \<le> 65535"
    have "rd_while (\<lambda>i. i < length pre + length (concat (List.map ?h opts))) (opt_step (length (concat (List.map ?h opts)))) (ReadCode, [])
        (pre @ concat (List.map ?h opts) @ rest) (length pre) =
      Inr ((ReadCode, [] @ List.map wire_option opts), length pre + length (concat (List.map ?h opts)))"
      by (rule rd_opt_octets [OF assms refl]) (use le in simp_all)
    then show "rd_bind rd_index (\<lambda>start. rd_opt (length pre + length (concat (List.map ?h opts)) - start))
        (pre @ concat (List.map ?h opts) @ rest) (length pre) =
      Inr (List.map wire_option opts, length pre + length (concat (List.map ?h opts)))"
      by (simp add: rd_opt_def rd_bind_def rd_index_def rd_return_def del: length_concat)
  qed
qed

section \<open>Data kept as octets comes back\<close>

lemma rd_slice_in: "k + n \<le> length bs \<Longrightarrow> rd_slice n (pre @ bs @ rest) (length pre + k) = Inr (take n (drop k bs), length pre + (k + n))"
  by (simp add: rd_slice_def)

lemma rd_pop_in: "k < length bs \<Longrightarrow> rd_pop (pre @ bs @ rest) (length pre + k) = Inr (bs ! k, length pre + (k + 1))"
  by (simp add: rd_pop_def nth_append)

lemma rd_u16_in: "k + 2 \<le> length bs \<Longrightarrow>
    rd_u16 (pre @ bs @ rest) (length pre + k) = Inr (from_be (take 2 (drop k bs)), length pre + (k + 2))"
  by (simp add: rd_u16_def rd_bind_def rd_return_def rd_slice_in)

lemma rd_u32_in: "k + 4 \<le> length bs \<Longrightarrow>
    rd_u32 (pre @ bs @ rest) (length pre + k) = Inr (from_be (take 4 (drop k bs)), length pre + (k + 4))"
  by (simp add: rd_u32_def rd_bind_def rd_return_def rd_slice_in)

lemmas rd_in = rd_slice_in rd_pop_in rd_u16_in rd_u32_in
lemmas rd_in0 = rd_in [where k = 0, simplified add_0_right add_0_left drop_0]

text \<open>The octets that a value of these types can have.\<close>

definition caa_ok :: "u8 list \<Rightarrow> bool" where
  "caa_ok bs =
     (case bs of
        flags # n # rest \<Rightarrow>
          n \<noteq> 0 \<and> unat n \<le> 15 \<and> unat n \<le> length rest \<and> list_all alphanumeric_octet (take (unat n) rest)
      | _ \<Rightarrow> False)"

definition hinfo_ok :: "u8 list \<Rightarrow> bool" where
  "hinfo_ok bs =
     (case bs of
        n # rest \<Rightarrow>
          unat n \<le> length rest \<and> (case drop (unat n) rest of m # os \<Rightarrow> unat m = length os | [] \<Rightarrow> False)
      | [] \<Rightarrow> False)"

definition csync_ok :: "u8 list \<Rightarrow> bool" where
  "csync_ok bs \<longleftrightarrow>
     6 \<le> length bs \<and> (from_be (take 2 (drop 4 bs)) :: u16) AND 0xFC = 0 \<and> is_ok (bit_maps BmWindow (drop 6 bs))"

definition octets_ok :: "rtype \<Rightarrow> u8 list \<Rightarrow> bool" where
  "octets_ok rt bs =
     (case rt of
        RT_CAA \<Rightarrow> caa_ok bs
      | RT_CERT \<Rightarrow> 6 \<le> length bs
      | RT_CSYNC \<Rightarrow> csync_ok bs
      | RT_HINFO \<Rightarrow> hinfo_ok bs
      | RT_SSHFP \<Rightarrow> 2 \<le> length bs
      | RT_TLSA \<Rightarrow> 3 \<le> length bs
      | _ \<Rightarrow> True)"

lemma take2_be [simp]: "k + 2 \<le> length bs \<Longrightarrow> be_octets 2 (from_be (take 2 (drop k bs)) :: u16) = take 2 (drop k bs)"
  by (rule be_octets_from_be) simp_all

lemma take4_be [simp]: "k + 4 \<le> length bs \<Longrightarrow> be_octets 4 (from_be (take 4 (drop k bs)) :: u32) = take 4 (drop k bs)"
  by (rule be_octets_from_be) simp_all

lemma rd_sshfp_at: "2 \<le> length bs \<Longrightarrow> rd_sshfp (length bs) (pre @ bs @ rest) (length pre) = Inr (bs, length pre + length bs)"
  by (cases bs rule: remdups_adj.cases)
    (simp_all add: rd_sshfp_def rd_bind_def rd_return_def rd_in rd_in0 rd_pop_def rd_slice_def nth_append)

lemma rd_tlsa_at: "3 \<le> length bs \<Longrightarrow> rd_tlsa (length bs) (pre @ bs @ rest) (length pre) = Inr (bs, length pre + length bs)"
proof -
  assume "3 \<le> length bs"
  then obtain a b c cs where "bs = a # b # c # cs"
    by (auto simp: numeral_3_eq_3 Suc_le_length_iff)
  then show ?thesis
    by (simp add: rd_tlsa_def rd_bind_def rd_return_def rd_pop_def rd_slice_def nth_append)
qed

lemma rd_cert_at: "6 \<le> length bs \<Longrightarrow> rd_cert (length bs) (pre @ bs @ rest) (length pre) = Inr (bs, length pre + length bs)"
proof -
  assume a: "6 \<le> length bs"
  have "take 2 bs @ take 2 (drop 2 bs) @ bs ! 4 # drop 5 bs = bs"
  proof -
    have "bs ! 4 # drop 5 bs = drop 4 bs" using a Cons_nth_drop_Suc [of 4 bs] by simp
    moreover have "take 2 (drop 2 bs) @ drop 4 bs = drop 2 bs" using append_take_drop_id [of 2 "drop 2 bs"] by simp
    ultimately show ?thesis by simp
  qed
  then show ?thesis using a take2_be [of 0 bs] take2_be [of 2 bs]
    by (simp add: rd_cert_def rd_bind_def rd_return_def rd_in rd_in0 del: add_2_eq_Suc add_2_eq_Suc')
qed

lemma rd_csync_at: "csync_ok bs \<Longrightarrow> rd_csync (length bs) (pre @ bs @ rest) (length pre) = Inr (bs, length pre + length bs)"
proof -
  assume a: "csync_ok bs"
  then have l: "6 \<le> length bs" by (simp add: csync_ok_def)
  obtain st where st: "bit_maps BmWindow (drop 6 bs) = Inr st"
    using a by (cases "bit_maps BmWindow (drop 6 bs)") (simp_all add: csync_ok_def)
  have "take 4 bs @ take 2 (drop 4 bs) @ drop 6 bs = bs"
  proof -
    have "take 2 (drop 4 bs) @ drop 6 bs = drop 4 bs" using append_take_drop_id [of 2 "drop 4 bs"] by simp
    then show ?thesis by simp
  qed
  then show ?thesis using a l st take4_be [of 0 bs] take2_be [of 4 bs]
    by (simp add: rd_csync_def rd_bind_def rd_return_def rd_result_def rd_in rd_in0 csync_ok_def del: add_2_eq_Suc add_2_eq_Suc')
qed

lemma rd_hinfo_at: "hinfo_ok bs \<Longrightarrow> rd_hinfo (pre @ bs @ rest) (length pre) = Inr (bs, length pre + length bs)"
proof -
  assume a: "hinfo_ok bs"
  then obtain n m tail os where b: "bs = n # tail" "unat n \<le> length tail" "drop (unat n) tail = m # os" "unat m = length os"
    by (auto simp: hinfo_ok_def split: list.splits)
  define cpu where "cpu = take (unat n) tail"
  have len: "length cpu = unat n" "length cpu \<le> 255" "length os \<le> 255"
    using b(2, 4) unsigned_less [of n, where ?'a = nat] unsigned_less [of m, where ?'a = nat] by (simp_all add: cpu_def)
  have "tail = cpu @ m # os" using b(3) append_take_drop_id [of "unat n" tail] by (simp add: cpu_def)
  moreover have "n = of_nat (length cpu)" "m = of_nat (length os)" by (simp_all add: len(1) b(4) [symmetric])
  ultimately have bs: "bs = counted cpu @ counted os" using b(1) by (simp add: counted_def)
  have c1: "rd_character_data (pre @ counted cpu @ (counted os @ rest)) (length pre) = Inr (cpu, length pre + length (counted cpu))"
    by (rule rd_character_data_at [OF len(2)])
  have c2: "rd_character_data ((pre @ counted cpu) @ counted os @ rest) (length (pre @ counted cpu)) =
      Inr (os, length (pre @ counted cpu) + length (counted os))"
    by (rule rd_character_data_at [OF len(3)])
  show ?thesis using c1 c2 bs by (simp add: rd_hinfo_def rd_bind_def rd_return_def)
qed

lemma rd_caa_at: "caa_ok bs \<Longrightarrow> rd_caa (length bs) (pre @ bs @ rest) (length pre) = Inr (bs, length pre + length bs)"
proof -
  assume a: "caa_ok bs"
  then obtain f n tail where b: "bs = f # n # tail" "n \<noteq> 0" "unat n \<le> 15" "unat n \<le> length tail"
    "list_all alphanumeric_octet (take (unat n) tail)"
    by (auto simp: caa_ok_def split: list.splits)
  let ?tag = "take (unat n) tail" and ?content = "drop (unat n) tail"
  have len: "length ?tag = unat n" using b(4) by simp
  have "rd_many (length ?tag) (rd_bind rd_pop (\<lambda>ch.
        if alphanumeric_octet ch then rd_return ch else rd_fail (RE_Message ''CAA tag character(s) out of bounds'')))
      ((pre @ [f, n]) @ concat (List.map (\<lambda>c. [c]) ?tag) @ (?content @ rest)) (length (pre @ [f, n])) =
    Inr (?tag, length (pre @ [f, n]) + length (concat (List.map (\<lambda>c. [c]) ?tag)))"
    by (rule rd_many_items) (use b(5) in \<open>simp add: rd_bind_def rd_return_def list_all_iff\<close>)
  moreover have "?tag @ ?content @ rest = tail @ rest" by (metis append.assoc append_take_drop_id)
  ultimately have "rd_caa_tag (unat n) (pre @ bs @ rest) (length pre + 2) = Inr (?tag, length pre + 2 + unat n)"
    using b len by (simp add: rd_caa_tag_def unat_eq_zero)
  then show ?thesis using b rd_slice_in [of "2 + unat n" "length tail - unat n" bs pre rest]
    by (simp add: rd_caa_def rd_bind_def rd_return_def rd_pop_def nth_append eval_nat_numeral add.assoc)
qed

lemma rd_octets_at:
  assumes "octets_ok rt bs"
  shows "rd_octets rt (length bs) (pre @ bs @ rest) (length pre) = Inr (bs, length pre + length bs)"
  using assms
  by (cases rt) (simp_all add: rd_octets_def octets_ok_def rd_caa_at rd_cert_at rd_csync_at rd_hinfo_at rd_sshfp_at rd_tlsa_at)

section \<open>The data of a record comes back\<close>

text \<open>What a reader makes of the data, and the data a record of a message can have.\<close>

fun wire_fields :: "rdata \<Rightarrow> rdata" where
  "wire_fields (RD_ANAME n) = RD_ANAME (set_fqdn True n)"
| "wire_fields (RD_CNAME n) = RD_CNAME (set_fqdn True n)"
| "wire_fields (RD_NS n) = RD_NS (set_fqdn True n)"
| "wire_fields (RD_PTR n) = RD_PTR (set_fqdn True n)"
| "wire_fields (RD_MX p n) = RD_MX p (set_fqdn True n)"
| "wire_fields (RD_HTTPS s) = RD_HTTPS (s\<lparr>svc_target_name := set_fqdn True (svc_target_name s)\<rparr>)"
| "wire_fields (RD_SVCB s) = RD_SVCB (s\<lparr>svc_target_name := set_fqdn True (svc_target_name s)\<rparr>)"
| "wire_fields (RD_NAPTR n) = RD_NAPTR (n\<lparr>nap_replacement := set_fqdn True (nap_replacement n)\<rparr>)"
| "wire_fields (RD_SOA s) =
     RD_SOA (s\<lparr>soa_mname := set_fqdn True (soa_mname s), soa_rname := set_fqdn True (soa_rname s)\<rparr>)"
| "wire_fields (RD_SRV s) = RD_SRV (s\<lparr>srv_target := set_fqdn True (srv_target s)\<rparr>)"
| "wire_fields (RD_OPT options) = RD_OPT (List.map wire_option options)"
| "wire_fields d = d"

fun no_octets :: "rdata \<Rightarrow> bool" where
  "no_octets (RD_OPT options) = (options = [])"
| "no_octets (RD_TXT ss) = (ss = [])"
| "no_octets (RD_Other t bs) = (bs = [])"
| "no_octets (RD_Update0 t) = True"
| "no_octets RD_ZERO = True"
| "no_octets d = False"

definition wire_rdata :: "rdata \<Rightarrow> rdata" where
  "wire_rdata d = (if no_octets d then RD_Update0 (rd_type d) else wire_fields d)"

definition rtype_ok :: "rtype \<Rightarrow> bool" where
  "rtype_ok t \<longleftrightarrow> rt_of_u16 (rt_to_u16 t) = t"

definition plain_type :: "rtype \<Rightarrow> bool" where
  "plain_type t \<longleftrightarrow>
     t \<notin> {RT_A, RT_AAAA, RT_ANAME, RT_CNAME, RT_HTTPS, RT_ZERO, RT_MX, RT_NAPTR, RT_NS, RT_OPT, RT_PTR, RT_SOA,
          RT_SRV, RT_SVCB, RT_TXT, RT_ANY, RT_AXFR, RT_IXFR}"

definition svcb_ok :: "svcb \<Rightarrow> bool" where
  "svcb_ok s \<longleftrightarrow> wf_name (svc_target_name s) \<and> (\<forall>p \<in> set (svc_params s). svc_param_ok p)"

fun rdata_ok :: "rdata \<Rightarrow> bool" where
  "rdata_ok (RD_ANAME n) = wf_name n"
| "rdata_ok (RD_CNAME n) = wf_name n"
| "rdata_ok (RD_NS n) = wf_name n"
| "rdata_ok (RD_PTR n) = wf_name n"
| "rdata_ok (RD_MX p n) = wf_name n"
| "rdata_ok (RD_HTTPS s) = svcb_ok s"
| "rdata_ok (RD_SVCB s) = svcb_ok s"
| "rdata_ok (RD_NAPTR n) = (wf_name (nap_replacement n) \<and> verify_flags (nap_flags n))"
| "rdata_ok (RD_SOA s) = (wf_name (soa_mname s) \<and> wf_name (soa_rname s))"
| "rdata_ok (RD_SRV s) = wf_name (srv_target s)"
| "rdata_ok (RD_OPT options) = (\<forall>opt \<in> set options. option_ok opt)"
| "rdata_ok (RD_TXT ss) = (\<forall>s \<in> set ss. length s \<le> 255)"
| "rdata_ok (RD_Other t bs) = (rtype_ok t \<and> (bs \<noteq> [] \<longrightarrow> plain_type t \<and> octets_ok t bs))"
| "rdata_ok (RD_Update0 t) = rtype_ok t"
| "rdata_ok d = True"

lemma emits_to_map:
  assumes "emits_to f (\<lambda>stop. rd_bind rd_index (\<lambda>start. r (stop - start))) v"
  shows "emits_to f (\<lambda>stop. rd_bind rd_index (\<lambda>start. rd_bind (r (stop - start)) (\<lambda>x. rd_return (h x)))) (h v)"
  using assms unfolding emits_to_def by (fastforce simp: rd_bind_def rd_index_def rd_return_def)

lemma emits_map:
  assumes "emits f r v"
  shows "emits_to f (\<lambda>stop. rd_bind rd_index (\<lambda>start. rd_bind r (\<lambda>x. rd_return (h x)))) (h v)"
  using assms unfolding emits_def emits_to_def by (fastforce simp: rd_bind_def rd_index_def rd_return_def)

lemma emits_mx: "wf_name n \<Longrightarrow> emits (put_mx p n) rd_mx (RD_MX p (set_fqdn True n))"
  unfolding put_mx_def rd_mx_def
  by (intro emits_with_rdata_behavior emits_seq [OF emits_u16] emits_seq_last emits_name)

lemma emits_soa:
  "wf_name (soa_mname s) \<Longrightarrow> wf_name (soa_rname s) \<Longrightarrow>
   emits (put_soa s) rd_soa (s\<lparr>soa_mname := set_fqdn True (soa_mname s), soa_rname := set_fqdn True (soa_rname s)\<rparr>)"
proof -
  assume wf: "wf_name (soa_mname s)" "wf_name (soa_rname s)"
  have "emits (put_soa s) rd_soa \<lparr>soa_mname = set_fqdn True (soa_mname s), soa_rname = set_fqdn True (soa_rname s),
      soa_serial = soa_serial s, soa_refresh = soa_refresh s, soa_retry = soa_retry s, soa_expire = soa_expire s,
      soa_minimum = soa_minimum s\<rparr>"
    unfolding put_soa_def rd_soa_def
    by (intro emits_with_rdata_behavior emits_seq [OF emits_name] emits_seq [OF emits_u32] emits_seq_last emits_u32 wf)
  then show ?thesis by (cases s) simp
qed

lemma emits_srv: "wf_name (srv_target s) \<Longrightarrow> emits (put_srv s) rd_srv (s\<lparr>srv_target := set_fqdn True (srv_target s)\<rparr>)"
proof -
  assume wf: "wf_name (srv_target s)"
  have "emits (put_srv s) rd_srv \<lparr>srv_priority = srv_priority s, srv_weight = srv_weight s, srv_port = srv_port s,
      srv_target = set_fqdn True (srv_target s)\<rparr>"
    unfolding put_srv_def rd_srv_def
    by (intro emits_with_rdata_behavior emits_seq [OF emits_u16] emits_seq_last emits_name wf)
  then show ?thesis by (cases s) simp
qed

lemma emits_naptr:
  assumes wf: "wf_name (nap_replacement n)" and flags: "verify_flags (nap_flags n)"
  shows "emits (put_naptr n) rd_naptr (n\<lparr>nap_replacement := set_fqdn True (nap_replacement n)\<rparr>)"
proof -
  let ?n = "\<lparr>nap_order = nap_order n, nap_preference = nap_preference n, nap_flags = nap_flags n, nap_services = nap_services n,
      nap_regexp = nap_regexp n, nap_replacement = set_fqdn True (nap_replacement n)\<rparr>"
  have tail: "emits (emit_seq [emit_character_data (nap_services n), emit_character_data (nap_regexp n), emit_name (nap_replacement n)])
      (rd_bind rd_character_data (\<lambda>services. rd_bind rd_character_data (\<lambda>regexp. rd_bind rd_name (\<lambda>replacement.
         rd_return \<lparr>nap_order = nap_order n, nap_preference = nap_preference n, nap_flags = nap_flags n, nap_services = services,
           nap_regexp = regexp, nap_replacement = replacement\<rparr>)))) ?n"
    by (intro emits_seq [OF emits_character_data] emits_seq_last emits_name wf)
  have "emits (put_naptr n) rd_naptr ?n"
    unfolding put_naptr_def rd_naptr_def
    by (intro emits_with_rdata_behavior emits_seq [OF emits_u16] emits_seq [OF emits_character_data])
      (use tail flags in simp)
  then show ?thesis by (cases n) simp
qed

lemma writes_pieces: "concat (octet_pieces t bs) = bs"
  by (cases t) (simp_all add: octet_pieces_def del: chunks.simps)

lemma emits_to_octets:
  "octets_ok t bs \<Longrightarrow>
   emits_to (write_all (octet_pieces t bs)) (\<lambda>stop. rd_bind rd_index (\<lambda>start. rd_octets t (stop - start))) bs"
  by (rule emits_to_writes [OF writes_all [of "octet_pieces t bs", unfolded writes_pieces]])
    (simp add: rd_bind_def rd_index_def rd_octets_at)

lemma emits_to_fields:
  assumes "rdata_ok d" "\<not> no_octets d"
  shows "emits_to (put_rdata d) (\<lambda>stop. rd_bind rd_index (\<lambda>start. rd_fields (rd_type d) (stop - start))) (wire_fields d)"
proof -
  note name = emits_map [OF emits_with_rdata_behavior [OF emits_name]]
  show ?thesis
  proof (cases d)
    case (RD_MX p n)
    then show ?thesis using emits_mx [of n p] assms unfolding emits_def emits_to_def
      by (simp add: rd_fields_def rd_bind_def rd_index_def)
  next
    case (RD_TXT ss)
    have "emits_to (put_txt (List.map as_bytes ss)) (\<lambda>stop. rd_bind rd_index (\<lambda>start. rd_txt (stop - start))) (List.map as_bytes ss)"
      using emits_to_txt [of "List.map as_bytes ss"] assms RD_TXT unfolding emits_to_def
      by (fastforce simp: rd_txt_def rd_bind_def rd_index_def)
    from emits_to_map [OF this, of "\<lambda>ss. RD_TXT (List.map from_bytes ss)"] show ?thesis using RD_TXT
      by (simp add: rd_fields_def comp_def)
  next
    case (RD_Other t bs)
    then have "plain_type t" "octets_ok t bs" using assms by simp_all
    then show ?thesis using RD_Other emits_to_map [OF emits_to_octets, of t bs "RD_Other t"]
      by (cases t) (simp_all add: rd_fields_def plain_type_def)
  next
    case (RD_HTTPS s)
    then show ?thesis using emits_to_map [OF emits_to_svcb, of s RD_HTTPS] assms by (simp add: rd_fields_def svcb_ok_def)
  next
    case (RD_SVCB s)
    then show ?thesis using emits_to_map [OF emits_to_svcb, of s RD_SVCB] assms by (simp add: rd_fields_def svcb_ok_def)
  next
    case (RD_OPT options)
    then show ?thesis using emits_to_map [OF emits_to_opt, of options RD_OPT] assms by (simp add: rd_fields_def)
  next
    case (RD_SOA s)
    then show ?thesis using emits_map [OF emits_soa, of s RD_SOA] assms by (simp add: rd_fields_def)
  next
    case (RD_SRV s)
    then show ?thesis using emits_map [OF emits_srv, of s RD_SRV] assms by (simp add: rd_fields_def)
  next
    case (RD_NAPTR n)
    then show ?thesis using emits_map [OF emits_naptr, of n RD_NAPTR] assms by (simp add: rd_fields_def)
  next
    case (RD_A a)
    then show ?thesis using emits_map [OF emits_a(1), of a RD_A] by (simp add: rd_fields_def)
  next
    case (RD_AAAA a)
    then show ?thesis using emits_map [OF emits_a(2), of a RD_AAAA] by (simp add: rd_fields_def)
  next
    case (RD_ANAME n)
    then show ?thesis using name [of n OtherRecord RD_ANAME] assms by (simp add: rd_fields_def)
  next
    case (RD_CNAME n)
    then show ?thesis using name [of n StandardRecord RD_CNAME] assms by (simp add: rd_fields_def)
  next
    case (RD_NS n)
    then show ?thesis using name [of n StandardRecord RD_NS] assms by (simp add: rd_fields_def)
  next
    case (RD_PTR n)
    then show ?thesis using name [of n StandardRecord RD_PTR] assms by (simp add: rd_fields_def)
  qed (use assms in simp_all)
qed

lemma emits_to_rdata:
  assumes "rdata_ok d" "\<not> no_octets d"
  shows "emits_to (put_rdata d) (\<lambda>stop. rd_bind rd_index (\<lambda>start. rd_rdata (rd_type d) (stop - start))) (wire_fields d)"
proof -
  have "rd_type d \<noteq> RT_ANY \<and> rd_type d \<noteq> RT_AXFR \<and> rd_type d \<noteq> RT_IXFR"
    using assms by (cases d) (simp_all add: plain_type_def)
  then show ?thesis using emits_to_fields [OF assms] unfolding emits_to_def
    by (fastforce simp: rd_rdata_def rd_bind_def rd_index_def rd_return_def)
qed

lemma blind_put_option [intro]: "blind (put_option opt)"
  by (cases opt) (auto intro!: blind_emit_seq blind_put blind_write_slice blind_emit_message_error
      simp: put_option_def put_client_subnet_def list_all_iff simp del: emit_seq.simps)

lemma blind_put_rdata [intro]: "blind (put_rdata d)"
proof (cases d)
  case (RD_Other t bs)
  then show ?thesis by (simp add: blind_write_all)
next
  case (RD_OPT options)
  then show ?thesis using RD_OPT by (auto intro!: blind_with_rdata_behavior blind_emit_seq blind_put_option simp: put_opt_def list_all_iff)
qed (auto intro!: blind_with_rdata_behavior blind_emit_seq blind_emit_name blind_put blind_write_all blind_emit_character_data
    blind_put_svc_params blind_Inr simp: put_a_def put_aaaa_def put_mx_def put_soa_def put_srv_def put_naptr_def put_svcb_def
    put_txt_def list_all_iff simp del: emit_seq.simps)

end
