(* ===== verification/Message_Wire.thy ===== *)
theory Message_Wire
  imports Rdata_Wire
begin

text \<open>
  Messages on the wire (\<open>op/message.rs\<close>, \<open>op/query.rs\<close>, \<open>op/edns.rs\<close>, \<open>rr/resource.rs\<close>): the reader of a
  datagram or a framed message, total on all octets, and the emitter, which leaves records out when the
  65535 octets of a message are full. What is emitted without leaving a record out is read back, up to
  the changes the format forces: names come back fully qualified, data of no octet as \<open>RD_Update0\<close>, the
  address of a client subnet cut to its prefix, a response code of more than four bits only with EDNS.
\<close>

section \<open>Classes, queries and records\<close>

definition class_of_u16 :: "u16 \<Rightarrow> dns_class" where
  "class_of_u16 v =
     (if v = 1 then DC_IN else if v = 3 then DC_CH else if v = 4 then DC_HS else if v = 254 then DC_NONE
      else if v = 255 then DC_ANY else DC_Unknown v)"

fun class_to_u16 :: "dns_class \<Rightarrow> u16" where
  "class_to_u16 DC_IN = 1"
| "class_to_u16 DC_CH = 3"
| "class_to_u16 DC_HS = 4"
| "class_to_u16 DC_NONE = 254"
| "class_to_u16 DC_ANY = 255"
| "class_to_u16 (DC_OPT max_payload) = max max_payload 512"
| "class_to_u16 (DC_Unknown v) = v"

definition class_for_opt :: "u16 \<Rightarrow> dns_class" where
  "class_for_opt v = DC_OPT (max v 512)"

text \<open>The highest bit of the class is the flag of multicast DNS.\<close>

definition put_class :: "bool \<Rightarrow> dns_class \<Rightarrow> emitter" where
  "put_class mdns c = put_u16 (if mdns then class_to_u16 c OR 0x8000 else class_to_u16 c)"

definition rd_class :: "(bool \<times> dns_class) reader" where
  "rd_class =
     rd_bind rd_u16 (\<lambda>v.
       if 0 < v AND 0x8000 then rd_return (True, class_of_u16 (v AND NOT 0x8000)) else rd_return (False, class_of_u16 v))"

definition put_query :: "query \<Rightarrow> emitter" where
  "put_query q =
     emit_seq [emit_name (q_name q), put_u16 (rt_to_u16 (q_type q)), put_class (q_unicast_response q) (q_class q)]"

definition rd_query :: "query reader" where
  "rd_query =
     rd_bind rd_name (\<lambda>n. rd_bind rd_u16 (\<lambda>t. rd_bind rd_class (\<lambda>(mdns, c).
       rd_return \<lparr>q_name = n, q_type = rt_of_u16 t, q_class = c, q_unicast_response = mdns\<rparr>)))"

definition put_record :: "rr \<Rightarrow> emitter" where
  "put_record r =
     emit_seq [emit_name (rr_name r), put_u16 (rt_to_u16 (rr_type r)), put_class (rr_cache_flush r) (rr_class r),
       put_u32 (rr_ttl r), with_length (put_rdata (rr_data r))]"

definition rd_record_class :: "rtype \<Rightarrow> dname \<Rightarrow> (bool \<times> dns_class) reader" where
  "rd_record_class t n =
     (if t = RT_OPT then
        if \<not> is_root n then rd_fail (RE_EdnsNameNotRoot n)
        else rd_bind rd_u16 (\<lambda>v. rd_return (False, class_for_opt v))
      else rd_class)"

definition rd_record :: "rr reader" where
  "rd_record =
     rd_bind rd_name (\<lambda>n. rd_bind rd_u16 (\<lambda>t. rd_bind (rd_record_class (rt_of_u16 t) n) (\<lambda>(mdns, c).
     rd_bind rd_u32 (\<lambda>ttl. rd_bind rd_u16 (\<lambda>len. rd_bind rd_len (\<lambda>left.
       if left < unat len then rd_fail (RE_RDataLengthTooLarge len left)
       else
         rd_bind (if len = 0 then rd_return (RD_Update0 (rt_of_u16 t)) else rd_rdata (rt_of_u16 t) (unat len)) (\<lambda>d.
           rd_return \<lparr>rr_name = n, rr_class = c, rr_ttl = ttl, rr_data = d, rr_cache_flush = mdns\<rparr>)))))))"

section \<open>EDNS\<close>

definition edns_flags :: "edns \<Rightarrow> u16" where
  "edns_flags e = (if ed_dnssec_ok e then 0x8000 OR ed_z e else 0x7FFF AND ed_z e)"

definition record_of_edns :: "edns \<Rightarrow> rr" where
  "record_of_edns e =
     (from_rdata name_root
        (push_bit 24 (ucast (ed_rcode_high e)) OR push_bit 16 (ucast (ed_version e)) OR ucast (edns_flags e))
        (RD_OPT (ed_options e)))\<lparr>rr_class := class_for_opt (ed_max_payload e)\<rparr>"

text \<open>A record of type OPT holds options or nothing; the code panics on other data.\<close>

definition edns_of_record :: "rr \<Rightarrow> edns" where
  "edns_of_record r =
     (let ttl = rr_ttl r; flags = ucast (ttl AND 0x0000FFFF) :: u16 in
      \<lparr>ed_rcode_high = ucast (drop_bit 24 (ttl AND 0xFF000000)),
       ed_version = ucast (drop_bit 16 (ttl AND 0x00FF0000)),
       ed_dnssec_ok = (flags AND 0x8000 = 0x8000), ed_z = flags AND 0x7FFF,
       ed_max_payload = class_to_u16 (rr_class r),
       ed_options = (case rr_data r of RD_OPT options \<Rightarrow> options | _ \<Rightarrow> [])\<rparr>)"

section \<open>Reading a message\<close>

definition rd_header :: "header reader" where
  "rd_header buf i =
     (case read_header (drop i buf) of
        None \<Rightarrow> Inl (RE_Decode DE_InsufficientBytes)
      | Some (h, rest) \<Rightarrow> Inr (h, length buf - length rest))"

fun rd_records :: "nat \<Rightarrow> bool \<Rightarrow> rr list \<Rightarrow> edns option \<Rightarrow> (rr list \<times> edns option) reader" where
  "rd_records 0 is_additional records e = rd_return (records, e)"
| "rd_records (Suc k) is_additional records e =
     rd_bind rd_record (\<lambda>r.
       let t = rr_type r in
       if \<not> is_additional \<and> (t = RT_OPT \<or> t = RT_SIG \<or> t = RT_TSIG) then rd_fail (RE_OnlyInAdditional t)
       else if \<not> is_additional then rd_records k is_additional (records @ [r]) e
       else if t = RT_OPT then
         if e \<noteq> None then rd_fail (RE_Message ''more than one edns record present'')
         else rd_records k is_additional records (Some (edns_of_record r))
       else rd_records k is_additional (records @ [r]) e)"

definition rc_high :: "rcode \<Rightarrow> u8" where
  "rc_high rc = ucast (drop_bit 4 (rc_to_u16 rc AND 0x0FF0))"

definition merge_response_code :: "u8 \<Rightarrow> header \<Rightarrow> header" where
  "merge_response_code high h =
     h\<lparr>h_response_code := rc_of_u16 (push_bit 4 (ucast high) OR (ucast (rc_low (h_response_code h)) AND 0x000F))\<rparr>"

definition rd_message :: "message reader" where
  "rd_message =
     rd_bind rd_header (\<lambda>h.
     rd_bind (rd_many (unat (h_query_count h)) rd_query) (\<lambda>queries.
     rd_bind (rd_records (unat (h_answer_count h)) False [] None) (\<lambda>(answers, e1).
     rd_bind (rd_records (unat (h_authority_count h)) False [] None) (\<lambda>(authorities, e2).
     rd_bind (rd_records (unat (h_additional_count h)) True [] None) (\<lambda>(additionals, e).
       rd_return
         \<lparr>m_header = (case e of Some ed \<Rightarrow> merge_response_code (ed_rcode_high ed) h | None \<Rightarrow> h),
          m_queries = queries, m_answers = answers, m_authorities = authorities,
          m_additionals = additionals, m_edns = e\<rparr>)))))"

definition from_vec :: "u8 list \<Rightarrow> (message, read_error) result" where
  "from_vec buf = result_bind (rd_message buf 0) (\<lambda>(m, i). Inr m)"

section \<open>Writing a message\<close>

definition other_error :: "(encoder, emit_error \<times> encoder) result \<Rightarrow> (encoder, iter_error \<times> encoder) result" where
  "other_error r = (case r of Inr en \<Rightarrow> Inr en | Inl (e, en) \<Rightarrow> Inl (IE_Other e, en))"

definition additional_records :: "message \<Rightarrow> encoder \<Rightarrow> ((nat \<times> bool) \<times> encoder, iter_error \<times> encoder) result" where
  "additional_records m en =
     result_bind (count_was_truncated (emit_all (List.map put_record (m_additionals m)) en)) (\<lambda>((ar, tr), en1).
       case m_edns m of
         None \<Rightarrow> Inr ((ar, tr), en1)
       | Some e \<Rightarrow>
           result_bind (count_was_truncated (emit_all
               [put_record (record_of_edns (e\<lparr>ed_rcode_high := rc_high (h_response_code (m_header m))\<rparr>))] en1))
             (\<lambda>((n, t), en2). Inr ((ar + n, tr \<or> t), en2)))"

definition emit_message :: "message \<Rightarrow> encoder \<Rightarrow> (header \<times> encoder, iter_error \<times> encoder) result" where
  "emit_message m en =
     (let start = en_offset en in
      result_bind (other_error (put_place 12 en)) (\<lambda>en0.
      result_bind (emit_all (List.map put_query (m_queries m)) en0) (\<lambda>(qd, en1).
      result_bind (count_was_truncated (emit_all (List.map put_record (m_answers m)) en1)) (\<lambda>((an, tan), en2).
      result_bind (count_was_truncated (emit_all (List.map put_record (m_authorities m)) en2)) (\<lambda>((ns, tns), en3).
      result_bind (additional_records m en3) (\<lambda>((ar, tar), en4).
        let final_header = update_header_counts (m_header m) (h_truncation (m_header m) \<or> tan \<or> tns \<or> tar)
              \<lparr>hc_query = qd, hc_answer = an, hc_authority = ns, hc_additional = ar\<rparr>
        in result_bind (other_error (emit_at start (emit_header final_header) en4)) (\<lambda>en5. Inr (final_header, en5))))))))"

definition to_vec :: "message \<Rightarrow> (u8 list, iter_error) result" where
  "to_vec m =
     (case emit_message m encoder_new of
        Inr (h, en) \<Rightarrow> Inr (en_buffer en)
      | Inl (e, en) \<Rightarrow> Inl e)"

section \<open>Emitters that write something\<close>

definition grows :: "emitter \<Rightarrow> bool" where
  "grows f \<longleftrightarrow> (\<forall>en en'. plain en \<and> f en = Inr en' \<longrightarrow> length (en_buffer en) < length (en_buffer en'))"

lemma plain_ready: "plain en \<Longrightarrow> ready en"
  by (simp add: plain_def en_good_def)

lemma grows_name: "wf_name n \<Longrightarrow> grows (emit_name n)"
  unfolding grows_def
proof (intro allI impI)
  fix en en' assume wf: "wf_name n" and a: "plain en \<and> emit_name n en = Inr en'"
  then have "names_at (en_buffer en') (length (en_buffer en)) (length (en_buffer en)) (n_labels n) (length (en_buffer en'))"
    using emit_name_good [of n en en' n] by (simp add: plain_def)
  then show "length (en_buffer en) < length (en_buffer en')" using names_at_end by blast
qed

lemma grows_writes: "writes f bs \<Longrightarrow> bs \<noteq> [] \<Longrightarrow> grows f"
  unfolding grows_def writes_def
proof (intro allI impI)
  fix en en' assume w: "\<forall>en en'. ready en \<and> f en = Inr en' \<longrightarrow> write_slice bs en = Inr en'" "bs \<noteq> []"
    and a: "plain en \<and> f en = Inr en'"
  then have "write_slice bs en = Inr en'" using plain_ready by blast
  then show "length (en_buffer en) < length (en_buffer en')"
    using write_slice_ok(2) [of bs en en'] a w(2) plain_ready by simp
qed

lemma grows_seq: "grows f \<Longrightarrow> blind f \<Longrightarrow> list_all blind fs \<Longrightarrow> grows (emit_seq (f # fs))"
  unfolding grows_def
proof (intro allI impI)
  fix en en' assume g: "\<forall>en en'. plain en \<and> f en = Inr en' \<longrightarrow> length (en_buffer en) < length (en_buffer en')"
    and b: "blind f" "list_all blind fs" and a: "plain en \<and> emit_seq (f # fs) en = Inr en'"
  obtain en1 where e: "f en = Inr en1" "emit_seq fs en1 = Inr en'" using a by (auto simp: result_bind_Inr_iff)
  have "\<exists>ys. en_buffer en' = en_buffer en1 @ ys"
    using blindD(2) [OF blind_emit_seq [OF b(2)] blindD(1) [OF b(1) _ e(1)] e(2)] a plain_ready by blast
  then show "length (en_buffer en) < length (en_buffer en')" using g a e(1) by fastforce
qed

lemma grows_with_rdata_behavior: "grows f \<Longrightarrow> grows (with_rdata_behavior enc f)"
  unfolding grows_def
proof (intro allI impI)
  fix en en' :: encoder
  let ?en0 = "if enc = StandardRecord then en else en\<lparr>en_name_encoding := NE_Uncompressed\<rparr>"
  assume g: "\<forall>en en'. plain en \<and> f en = Inr en' \<longrightarrow> length (en_buffer en) < length (en_buffer en')"
    and a: "plain en \<and> with_rdata_behavior enc f en = Inr en'"
  then obtain en1 where "f ?en0 = Inr en1" "en' = en1\<lparr>en_name_encoding := en_name_encoding en\<rparr>"
    by (auto simp: with_rdata_behavior_def Let_def split: sum.splits)
  moreover have "plain ?en0" "en_buffer ?en0 = en_buffer en" using a by (simp_all add: plain_def)
  ultimately show "length (en_buffer en) < length (en_buffer en')" using g by fastforce
qed

lemma grows_rdata:
  assumes "rdata_ok d" "\<not> no_octets d"
  shows "grows (put_rdata d)"
proof -
  have u16: "grows (put_u16 w)" for w by (rule grows_writes [OF writes_put(1)]) (simp add: numeral_2_eq_2)
  note seq = grows_with_rdata_behavior grows_seq [OF u16] grows_seq [OF grows_name] grows_name
  note blinds = blind_emit_name blind_put blind_emit_character_data blind_put_svc_params
  show ?thesis
  proof (cases d)
    case (RD_Other t bs)
    then show ?thesis using assms grows_writes [OF writes_all, of "octet_pieces t bs"] by (simp add: writes_pieces)
  next
    case (RD_TXT ss)
    then obtain s ss' where "ss = s # ss'" using assms by (cases ss) auto
    moreover have "grows (emit_character_data (as_bytes s))"
      by (rule grows_writes [OF writes_character_data]) (simp add: counted_def)
    ultimately show ?thesis using RD_TXT grows_seq [OF _ blind_emit_character_data, of "as_bytes s" "List.map emit_character_data (List.map as_bytes ss')"]
      by (simp add: put_txt_def list_all_iff blind_emit_character_data del: emit_seq.simps)
  next
    case (RD_OPT options)
    then obtain opt opts where "options = opt # opts" using assms by (cases options) auto
    moreover have "grows (put_option opt)"
      by (rule grows_writes [OF writes_option]) (simp add: numeral_2_eq_2)
    ultimately show ?thesis using RD_OPT grows_with_rdata_behavior grows_seq [of "put_option opt" "List.map put_option opts"]
        blind_put_option by (simp add: put_opt_def list_all_iff del: emit_seq.simps)
  next
    case (RD_A a)
    then show ?thesis using grows_writes [OF writes_address(1), of a] length_address_octets(1) [of a] by fastforce
  next
    case (RD_AAAA a)
    then show ?thesis using grows_writes [OF writes_address(2), of a] length_address_octets(2) [of a] by fastforce
  qed (use assms in \<open>auto intro!: seq blinds simp: put_mx_def put_soa_def put_srv_def put_naptr_def put_svcb_def svcb_ok_def
      simp del: emit_seq.simps\<close>)
qed

section \<open>Queries and records come back\<close>

definition class_ok :: "dns_class \<Rightarrow> bool" where
  "class_ok c \<longleftrightarrow> class_to_u16 c AND 0x8000 = 0 \<and> class_of_u16 (class_to_u16 c) = c"

definition wire_query :: "query \<Rightarrow> query" where
  "wire_query q = q\<lparr>q_name := set_fqdn True (q_name q)\<rparr>"

definition query_ok :: "query \<Rightarrow> bool" where
  "query_ok q \<longleftrightarrow> wf_name (q_name q) \<and> rtype_ok (q_type q) \<and> class_ok (q_class q)"

definition wire_record :: "rr \<Rightarrow> rr" where
  "wire_record r = r\<lparr>rr_name := set_fqdn True (rr_name r), rr_data := wire_rdata (rr_data r)\<rparr>"

text \<open>A record of type OPT has the root as its name and a payload size as its class.\<close>

definition record_ok :: "rr \<Rightarrow> bool" where
  "record_ok r \<longleftrightarrow>
     wf_name (rr_name r) \<and> rtype_ok (rr_type r) \<and> rdata_ok (rr_data r) \<and>
     (if rr_type r = RT_OPT then
        n_labels (rr_name r) = [] \<and> (\<exists>v. rr_class r = DC_OPT v \<and> 512 \<le> v) \<and> \<not> rr_cache_flush r
      else class_ok (rr_class r))"

lemma set_clear_bits:
  fixes v m :: u16
  assumes "v AND m = 0"
  shows "(v OR m) AND m = m" "(v OR m) AND NOT m = v"
proof -
  have "bit v n \<Longrightarrow> \<not> bit m n" for n
    using assms by (metis bit_0_eq bit_and_iff bot_apply bot_bool_def)
  then show "(v OR m) AND m = m" "(v OR m) AND NOT m = v"
    by (auto intro!: bit_word_eqI simp: bit_and_iff bit_or_iff bit_not_iff)
qed

lemma emits_class:
  assumes "class_ok c"
  shows "emits (put_class mdns c) rd_class (mdns, c)"
proof -
  let ?v = "class_to_u16 c" and ?w = "if mdns then class_to_u16 c OR 0x8000 else class_to_u16 c"
  have v: "?v AND 0x8000 = 0" "class_of_u16 ?v = c" using assms by (simp_all add: class_ok_def)
  note clear = set_clear_bits [OF v(1)]
  have "emits (put_u16 ?w) rd_class (mdns, c)"
    unfolding emits_def emits_to_def
  proof (intro allI impI)
    fix en en' assume a: "plain en \<and> put_u16 ?w en = Inr en'"
    note e = emits_toD [OF emits_to_if_emits [OF emits_u16] conjunct1 [OF a] conjunct2 [OF a]]
    show "plain en' \<and> en_name_encoding en' = en_name_encoding en \<and> (\<exists>ys. en_buffer en' = en_buffer en @ ys) \<and>
      (\<forall>junk. rd_class (en_buffer en' @ junk) (length (en_buffer en)) = Inr ((mdns, c), length (en_buffer en')))"
      using e v clear by (auto simp: rd_class_def rd_bind_def rd_return_def)
  qed
  then show ?thesis by (simp add: put_class_def)
qed

lemma emits_query:
  assumes "query_ok q"
  shows "emits (put_query q) rd_query (wire_query q)"
proof -
  have q: "wf_name (q_name q)" "rt_of_u16 (rt_to_u16 (q_type q)) = q_type q" "class_ok (q_class q)"
    using assms by (simp_all add: query_ok_def rtype_ok_def)
  have "emits (emit_seq [put_class (q_unicast_response q) (q_class q)])
      (rd_bind rd_class (\<lambda>(mdns, c). rd_return \<lparr>q_name = set_fqdn True (q_name q), q_type = rt_of_u16 (rt_to_u16 (q_type q)),
         q_class = c, q_unicast_response = mdns\<rparr>)) (wire_query q)"
    by (rule emits_seq [OF emits_class [OF q(3)]]) (use emits_return q(2) in \<open>cases q, simp add: wire_query_def\<close>)
  then show ?thesis unfolding put_query_def rd_query_def
    by (intro emits_seq [OF emits_name [OF q(1)]] emits_seq [OF emits_u16])
qed

definition rd_data :: "rtype \<Rightarrow> rdata reader" where
  "rd_data t =
     rd_bind rd_u16 (\<lambda>len. rd_bind rd_len (\<lambda>left.
       if left < unat len then rd_fail (RE_RDataLengthTooLarge len left)
       else if len = 0 then rd_return (RD_Update0 t) else rd_rdata t (unat len)))"

lemma emits_data:
  assumes "rdata_ok d"
  shows "emits (with_length (put_rdata d)) (rd_data (rd_type d)) (wire_rdata d)"
  unfolding emits_def emits_to_def
proof (intro allI impI)
  fix en en' assume a: "plain en \<and> with_length (put_rdata d) en = Inr en'"
  obtain len en1 where e: "put_u16 len en = Inr en1" "put_rdata d en1 = Inr en'"
    "length (en_buffer en') = length (en_buffer en) + 2 + unat len"
    using with_length_first [OF conjunct2 [OF a] plain_ready [OF conjunct1 [OF a]] blind_put_rdata] by blast
  note w = emits_toD [OF emits_to_if_emits [OF emits_u16] conjunct1 [OF a] e(1)]
  have len1: "length (en_buffer en1) = length (en_buffer en) + 2"
    using plain_write(3) [OF conjunct1 [OF a] e(1) [unfolded put_u16_def]] by simp
  obtain zs where zs: "en_buffer en' = en_buffer en1 @ zs" using blindD(2) [OF blind_put_rdata plain_ready [OF w(1)] e(2)] by blast
  have u16: "rd_u16 (en_buffer en' @ junk) (length (en_buffer en)) = Inr (len, length (en_buffer en1))" for junk
    using w(4) [of "zs @ junk"] zs by simp
  have fits: "\<not> length (en_buffer en' @ junk) - length (en_buffer en1) < unat len" for junk using e(3) len1 by simp
  show "plain en' \<and> en_name_encoding en' = en_name_encoding en \<and> (\<exists>ys. en_buffer en' = en_buffer en @ ys) \<and>
      (\<forall>junk. rd_data (rd_type d) (en_buffer en' @ junk) (length (en_buffer en)) = Inr (wire_rdata d, length (en_buffer en')))"
  proof (cases "no_octets d")
    case True
    have en': "en' = en1"
    proof -
      have "writes (put_rdata d) []"
        using True writes_all [of "octet_pieces t []" for t, unfolded writes_pieces] writes_with_rdata_behavior [OF writes_Nil(2)]
        by (cases d) (auto simp: put_opt_def put_txt_def writes_Nil emit_seq.simps(1) [abs_def])
      then have "write_slice [] en1 = Inr en'" using e(2) plain_ready [OF w(1)] by (simp add: writes_def)
      moreover have "write_slice [] en1 = Inr en1" using writes_Nil(2) plain_ready [OF w(1)] by (simp add: writes_def)
      ultimately show ?thesis by simp
    qed
    then have "len = 0" using e(3) len1 by (simp add: unat_eq_zero)
    then show ?thesis using w u16 en' True zs
      by (auto simp: rd_data_def rd_bind_def rd_len_def rd_return_def wire_rdata_def)
  next
    case False
    note b = emits_toD [OF emits_to_rdata [OF assms False] w(1) e(2)]
    have "length (en_buffer en1) < length (en_buffer en')" using grows_rdata [OF assms False] w(1) e(2) by (auto simp: grows_def)
    then have ne: "len \<noteq> 0" using e(3) len1 by auto
    have "rd_rdata (rd_type d) (unat len) (en_buffer en' @ junk) (length (en_buffer en1)) = Inr (wire_fields d, length (en_buffer en'))" for junk
      using b(4) [of junk] e(3) len1 by (simp add: rd_bind_def rd_index_def)
    then show ?thesis using w b(1-3) u16 ne fits False
      by (auto simp: rd_data_def rd_bind_def rd_len_def wire_rdata_def)
  qed
qed

lemma rd_record_alt:
  "rd_record =
     rd_bind rd_name (\<lambda>n. rd_bind rd_u16 (\<lambda>t. rd_bind (rd_record_class (rt_of_u16 t) n) (\<lambda>(mdns, c).
     rd_bind rd_u32 (\<lambda>ttl. rd_bind (rd_data (rt_of_u16 t)) (\<lambda>d.
       rd_return \<lparr>rr_name = n, rr_class = c, rr_ttl = ttl, rr_data = d, rr_cache_flush = mdns\<rparr>)))))"
proof -
  have assoc: "rd_bind (rd_bind r f) g = rd_bind r (\<lambda>x. rd_bind (f x) g)" for r :: "'x reader" and f :: "'x \<Rightarrow> 'y reader" and g :: "'y \<Rightarrow> 'z reader"
  proof (intro ext)
    fix buf i
    show "rd_bind (rd_bind r f) g buf i = rd_bind r (\<lambda>x. rd_bind (f x) g) buf i"
      by (cases "r buf i") (auto simp: rd_bind_def)
  qed
  have "rd_bind (rd_data t) g = rd_bind rd_u16 (\<lambda>len. rd_bind rd_len (\<lambda>left.
      if left < unat len then rd_fail (RE_RDataLengthTooLarge len left)
      else rd_bind (if len = 0 then rd_return (RD_Update0 t) else rd_rdata t (unat len)) g))" for t and g :: "rdata \<Rightarrow> rr reader"
    unfolding rd_data_def assoc
    by (intro ext arg_cong2 [where f = rd_bind] arg_cong [where f = "rd_bind _"])
      (auto simp: rd_bind_def rd_fail_def rd_len_def)
  then show ?thesis by (simp only: rd_record_def)
qed

lemma emits_record_class:
  assumes "record_ok r"
  shows "emits (put_class (rr_cache_flush r) (rr_class r)) (rd_record_class (rr_type r) (set_fqdn True (rr_name r)))
    (rr_cache_flush r, rr_class r)"
proof (cases "rr_type r = RT_OPT")
  case True
  then obtain v where v: "rr_class r = DC_OPT v" "512 \<le> v" "n_labels (rr_name r) = []" "\<not> rr_cache_flush r"
    using assms by (auto simp: record_ok_def)
  have "emits (put_u16 v) (rd_bind rd_u16 (\<lambda>v. rd_return (False, class_for_opt v))) (False, class_for_opt v)"
    using emits_to_if_emits [OF emits_u16, of v] unfolding emits_def emits_to_def
    by (fastforce simp: rd_bind_def rd_return_def)
  then show ?thesis using v True
    by (simp add: put_class_def rd_record_class_def is_root_def set_fqdn_def class_for_opt_def max_absorb1)
next
  case False
  then show ?thesis using emits_class assms by (simp add: record_ok_def rd_record_class_def)
qed

lemma emits_record:
  assumes "record_ok r"
  shows "emits (put_record r) rd_record (wire_record r)"
proof -
  have r: "wf_name (rr_name r)" "rt_of_u16 (rt_to_u16 (rr_type r)) = rr_type r" "rdata_ok (rr_data r)"
    using assms by (simp_all add: record_ok_def rtype_ok_def)
  have t: "rr_type r = rd_type (rr_data r)" by (simp add: rr_type_def)
  let ?n = "set_fqdn True (rr_name r)"
  have tail: "emits (emit_seq [put_u32 (rr_ttl r), with_length (put_rdata (rr_data r))])
      (rd_bind rd_u32 (\<lambda>ttl. rd_bind (rd_data (rr_type r)) (\<lambda>d.
         rd_return \<lparr>rr_name = ?n, rr_class = rr_class r, rr_ttl = ttl, rr_data = d, rr_cache_flush = rr_cache_flush r\<rparr>)))
      (wire_record r)"
    by (rule emits_seq [OF emits_u32], rule emits_seq [OF emits_data [OF r(3), folded t]])
      (use emits_return in \<open>cases r, simp add: wire_record_def\<close>)
  have "emits (emit_seq [put_class (rr_cache_flush r) (rr_class r), put_u32 (rr_ttl r), with_length (put_rdata (rr_data r))])
      (rd_bind (rd_record_class (rr_type r) ?n) (\<lambda>(mdns, c). rd_bind rd_u32 (\<lambda>ttl. rd_bind (rd_data (rr_type r)) (\<lambda>d.
         rd_return \<lparr>rr_name = ?n, rr_class = c, rr_ttl = ttl, rr_data = d, rr_cache_flush = mdns\<rparr>))))
      (wire_record r)"
    by (rule emits_seq [OF emits_record_class [OF assms]]) (use tail in simp)
  then show ?thesis unfolding put_record_def rd_record_alt
    by (intro emits_seq [OF emits_name [OF r(1)]] emits_seq [OF emits_u16]) (simp add: r(2))
qed

section \<open>Sections come back\<close>

lemma emits_many:
  assumes "\<And>x. x \<in> set xs \<Longrightarrow> emits (f x) r (g x)"
  shows "emits (emit_seq (List.map f xs)) (rd_many (length xs) r) (List.map g xs)"
  using assms
proof (induction xs)
  case Nil
  then show ?case using emits_return [of "[]"] by (simp del: emit_seq.simps)
next
  case (Cons x xs)
  have t: "emits (emit_seq (List.map f xs)) (rd_many (length xs) r) (List.map g xs)" by (rule Cons.IH) (use Cons.prems in simp)
  have h: "emits (f x) r (g x)" using Cons.prems by simp
  have "emits (emit_seq (List.map f xs)) (rd_bind (rd_many (length xs) r) (\<lambda>ys. rd_return (g x # ys))) (g x # List.map g xs)"
    using t unfolding emits_def emits_to_def by (simp add: rd_bind_def rd_return_def)
  from emits_seq [of "f x" r "g x" "List.map f xs" "\<lambda>y. rd_bind (rd_many (length xs) r) (\<lambda>ys. rd_return (y # ys))", OF h this]
  show ?case by (simp del: emit_seq.simps)
qed

definition ordinary :: "rr \<Rightarrow> bool" where
  "ordinary r \<longleftrightarrow> rr_type r \<noteq> RT_OPT \<and> rr_type r \<noteq> RT_SIG \<and> rr_type r \<noteq> RT_TSIG"

lemma rd_type_wire [simp]: "rd_type (wire_rdata d) = rd_type d"
  by (cases d) (simp_all add: wire_rdata_def)

lemma rr_type_wire [simp]: "rr_type (wire_record r) = rr_type r"
  by (simp add: rr_type_def wire_record_def)

lemma emits_records:
  assumes "\<forall>r \<in> set rs. record_ok r \<and> (if additional then rr_type r \<noteq> RT_OPT else ordinary r)"
    and "emits (emit_seq fs) (rd_records k additional (acc @ List.map wire_record rs) e) v"
  shows "emits (emit_seq (List.map put_record rs @ fs)) (rd_records (length rs + k) additional acc e) v"
  using assms
proof (induction rs arbitrary: acc)
  case Nil
  then show ?case by simp
next
  case (Cons r rs)
  have t: "emits (emit_seq (List.map put_record rs @ fs)) (rd_records (length rs + k) additional (acc @ [wire_record r]) e) v"
    by (rule Cons.IH) (use Cons.prems in simp_all)
  have "emits (emit_seq (put_record r # List.map put_record rs @ fs)) (rd_records (Suc (length rs + k)) additional acc e) v"
    unfolding rd_records.simps
    by (rule emits_seq [OF emits_record]) (use t Cons.prems(1) in \<open>simp_all add: Let_def ordinary_def split: if_splits\<close>)
  then show ?case by (simp del: emit_seq.simps rd_records.simps)
qed

lemma emits_section:
  assumes "\<forall>r \<in> set rs. record_ok r \<and> (if additional then rr_type r \<noteq> RT_OPT else ordinary r)"
  shows "emits (emit_seq (List.map put_record rs)) (rd_records (length rs) additional [] None) (List.map wire_record rs, None)"
  using emits_records [of rs additional "[]" 0 "[]" None, OF assms] emits_return [of "(List.map wire_record rs, None)"]
  by (simp del: emit_seq.simps)

section \<open>EDNS comes back\<close>

definition edns_ok :: "edns \<Rightarrow> bool" where
  "edns_ok e \<longleftrightarrow> (\<forall>opt \<in> set (ed_options e). option_ok opt)"

definition wire_edns :: "edns \<Rightarrow> edns" where
  "wire_edns e =
     e\<lparr>ed_z := ed_z e AND 0x7FFF, ed_max_payload := max (ed_max_payload e) 512,
       ed_options := List.map wire_option (ed_options e)\<rparr>"

lemma edns_ttl_fields:
  fixes high version :: u8 and flags :: u16
  defines "ttl \<equiv> push_bit 24 (ucast high) OR push_bit 16 (ucast version) OR ucast flags :: u32"
  shows "ucast (drop_bit 24 (ttl AND 0xFF000000)) = high" "ucast (drop_bit 16 (ttl AND 0x00FF0000)) = version"
    "ucast (ttl AND 0x0000FFFF) = flags"
proof -
  have m: "(0xFF000000 :: u32) = push_bit 24 (mask 8)" "(0x00FF0000 :: u32) = push_bit 16 (mask 8)" "(0x0000FFFF :: u32) = mask 16"
    by (simp_all add: mask_eq_exp_minus_1 push_bit_eq_mult)
  show "ucast (drop_bit 24 (ttl AND 0xFF000000)) = high" unfolding ttl_def m
    by (rule bit_word_eqI) (auto simp: bit_simps dest: bit_imp_le_length)
  show "ucast (drop_bit 16 (ttl AND 0x00FF0000)) = version" unfolding ttl_def m
    by (rule bit_word_eqI) (auto simp: bit_simps dest: bit_imp_le_length)
  show "ucast (ttl AND 0x0000FFFF) = flags" unfolding ttl_def m
    by (rule bit_word_eqI) (auto simp: bit_simps dest: bit_imp_le_length)
qed

lemma edns_flags_fields:
  "(edns_flags e AND 0x8000 = 0x8000) = ed_dnssec_ok e" "edns_flags e AND 0x7FFF = ed_z e AND 0x7FFF"
proof -
  have m: "(0x8000 :: u16) = push_bit 15 1" "(0x7FFF :: u16) = mask 15" by (simp_all add: mask_eq_exp_minus_1 push_bit_eq_mult)
  have b: "bit (push_bit 15 1 :: u16) 15" "\<not> bit (mask 15 :: u16) 15" by (simp_all add: bit_simps)
  have dnssec: "bit (edns_flags e) 15 = ed_dnssec_ok e"
    using b unfolding edns_flags_def m by (auto simp: bit_or_iff bit_and_iff)
  have single: "(v AND push_bit n 1 = push_bit n 1) = bit v n" if "n < 16" for v :: u16 and n
  proof
    assume "v AND push_bit n 1 = push_bit n 1"
    then have "bit (v AND push_bit n 1) n = bit (push_bit n 1 :: u16) n" by (rule arg_cong [where f = "\<lambda>w. bit w n"])
    then show "bit v n" using that by (simp add: bit_and_iff bit_exp_iff)
  next
    assume "bit v n"
    then show "v AND push_bit n 1 = push_bit n 1" by (intro bit_word_eqI) (auto simp: bit_and_iff bit_exp_iff)
  qed
  have "(edns_flags e AND push_bit 15 1 = push_bit 15 1) = bit (edns_flags e) 15" by (rule single) simp
  then show "(edns_flags e AND 0x8000 = 0x8000) = ed_dnssec_ok e" unfolding m(1) using dnssec by blast
  show "edns_flags e AND 0x7FFF = ed_z e AND 0x7FFF"
  proof -
    have "(0x8000 OR z) AND 0x7FFF = z AND 0x7FFF" for z :: u16 by (simp add: bit.conj_disj_distrib2)
    moreover have "(0x7FFF AND z) AND 0x7FFF = z AND 0x7FFF" for z :: u16 by (simp add: ac_simps)
    ultimately show ?thesis by (simp only: edns_flags_def if_distrib [where f = "\<lambda>w. w AND 0x7FFF"] if_cancel)
  qed
qed

lemma edns_comes_back: "edns_of_record (wire_record (record_of_edns e)) = wire_edns e"
proof -
  have "(case wire_rdata (RD_OPT (ed_options e)) of RD_OPT options \<Rightarrow> options | _ \<Rightarrow> []) = List.map wire_option (ed_options e)"
    by (simp add: wire_rdata_def)
  moreover have "rr_ttl (wire_record (record_of_edns e)) =
      push_bit 24 (ucast (ed_rcode_high e)) OR push_bit 16 (ucast (ed_version e)) OR ucast (edns_flags e)"
    "rr_class (wire_record (record_of_edns e)) = class_for_opt (ed_max_payload e)"
    "rr_data (wire_record (record_of_edns e)) = wire_rdata (RD_OPT (ed_options e))"
    by (simp_all add: record_of_edns_def wire_record_def from_rdata_def)
  ultimately have "edns_of_record (wire_record (record_of_edns e)) =
      \<lparr>ed_rcode_high = ed_rcode_high e, ed_version = ed_version e, ed_dnssec_ok = ed_dnssec_ok e, ed_z = ed_z e AND 0x7FFF,
       ed_max_payload = class_to_u16 (class_for_opt (ed_max_payload e)), ed_options = List.map wire_option (ed_options e)\<rparr>"
    by (simp only: edns_of_record_def Let_def edns_ttl_fields edns_flags_fields)
  then show ?thesis by (simp add: class_for_opt_def wire_edns_def)
qed

lemma record_of_edns_ok:
  assumes "edns_ok e"
  shows "record_ok (record_of_edns e)" "rr_type (record_of_edns e) = RT_OPT"
proof -
  show t: "rr_type (record_of_edns e) = RT_OPT" by (simp add: rr_type_def record_of_edns_def from_rdata_def)
  show "record_ok (record_of_edns e)"
    using assms t by (auto simp: record_ok_def record_of_edns_def from_rdata_def rtype_ok_def rt_of_u16_def edns_ok_def wf_name_def
        name_root_def name_new_def encoded_len_def data_len_def max_name_length_def class_for_opt_def)
qed

lemma emits_additional:
  assumes "\<forall>r \<in> set rs. record_ok r \<and> rr_type r \<noteq> RT_OPT" "\<forall>e \<in> set_option ed. edns_ok e"
  shows "emits (emit_seq (List.map put_record rs @ (case ed of None \<Rightarrow> [] | Some e \<Rightarrow> [put_record (record_of_edns e)])))
    (rd_records (length rs + (case ed of None \<Rightarrow> 0 | Some e \<Rightarrow> 1)) True [] None)
    (List.map wire_record rs, map_option wire_edns ed)"
proof (rule emits_records)
  show "\<forall>r \<in> set rs. record_ok r \<and> (if True then rr_type r \<noteq> RT_OPT else ordinary r)" using assms(1) by simp
  show "emits (emit_seq (case ed of None \<Rightarrow> [] | Some e \<Rightarrow> [put_record (record_of_edns e)]))
      (rd_records (case ed of None \<Rightarrow> 0 | Some e \<Rightarrow> 1) True ([] @ List.map wire_record rs) None)
      (List.map wire_record rs, map_option wire_edns ed)"
  proof (cases ed)
    case None
    then show ?thesis using emits_return [of "(List.map wire_record rs, None)"] by (simp del: emit_seq.simps)
  next
    case (Some e)
    have e: "record_ok (record_of_edns e)" "rr_type (record_of_edns e) = RT_OPT"
      using record_of_edns_ok assms(2) Some by simp_all
    have "emits (emit_seq [put_record (record_of_edns e)]) (rd_records (Suc 0) True (List.map wire_record rs) None)
        (List.map wire_record rs, Some (wire_edns e))"
      unfolding rd_records.simps
      by (rule emits_seq [OF emits_record [OF e(1)]]) (use emits_return e(2) edns_comes_back in \<open>simp add: Let_def\<close>)
    then show ?thesis using Some by (simp del: emit_seq.simps rd_records.simps)
  qed
qed

section \<open>A message comes back\<close>

text \<open>A message that can be written, and what the reader makes of it: \<open>h\<close> is the header that was written.\<close>

definition message_ok :: "message \<Rightarrow> bool" where
  "message_ok m \<longleftrightarrow>
     canonical_op (h_op_code (m_header m)) \<and>
     (\<forall>q \<in> set (m_queries m). query_ok q) \<and>
     (\<forall>r \<in> set (m_answers m) \<union> set (m_authorities m). record_ok r \<and> ordinary r) \<and>
     (\<forall>r \<in> set (m_additionals m). record_ok r \<and> rr_type r \<noteq> RT_OPT) \<and>
     (\<forall>e \<in> set_option (m_edns m). edns_ok e)"

definition written_edns :: "message \<Rightarrow> edns option" where
  "written_edns m = map_option (\<lambda>e. e\<lparr>ed_rcode_high := rc_high (h_response_code (m_header m))\<rparr>) (m_edns m)"

definition wire_header :: "message \<Rightarrow> header \<Rightarrow> header" where
  "wire_header m h =
     h\<lparr>h_response_code :=
         rc_of_u16 (rc_to_u16 (h_response_code (m_header m)) AND (if m_edns m = None then 0x000F else 0x0FFF))\<rparr>"

definition wire_message :: "message \<Rightarrow> header \<Rightarrow> message" where
  "wire_message m h =
     \<lparr>m_header = wire_header m h, m_queries = List.map wire_query (m_queries m),
      m_answers = List.map wire_record (m_answers m), m_authorities = List.map wire_record (m_authorities m),
      m_additionals = List.map wire_record (m_additionals m), m_edns = map_option wire_edns (written_edns m)\<rparr>"

text \<open>The counts of the header are those of the message: no record was left out.\<close>

definition complete :: "message \<Rightarrow> header \<Rightarrow> bool" where
  "complete m h \<longleftrightarrow>
     unat (h_query_count h) = length (m_queries m) \<and> unat (h_answer_count h) = length (m_answers m) \<and> unat (h_authority_count h) = length (m_authorities m) \<and>
     unat (h_additional_count h) = length (m_additionals m) + (case m_edns m of None \<Rightarrow> 0 | Some e \<Rightarrow> 1)"

lemma emit_iter_Inr: "emit_iter c fs en = Inr (n, en') \<Longrightarrow> emit_seq fs en = Inr en' \<and> n = c + length fs"
proof (induction fs arbitrary: c en)
  case (Cons f fs)
  then show ?case using Cons.IH [of "Suc c"] by (auto split: sum.splits emit_error.splits prod.splits)
qed simp

lemma emit_iter_NotAll: "emit_iter c fs en = Inl (IE_NotAllRecordsWritten n, en') \<Longrightarrow> n < c + length fs"
proof (induction fs arbitrary: c en)
  case (Cons f fs)
  then show ?case using Cons.IH [of "Suc c"] by (auto split: sum.splits emit_error.splits prod.splits)
qed simp

lemma count_was_truncated_Inr:
  assumes "count_was_truncated (emit_all fs en) = Inr ((n, t), en')"
  shows "n \<le> length fs" "n = length fs \<Longrightarrow> emit_seq fs en = Inr en' \<and> \<not> t"
  using assms emit_iter_Inr [of 0 fs en] emit_iter_NotAll [of 0 fs en]
  by (auto simp: count_was_truncated_def emit_all_def split: sum.splits prod.splits iter_error.splits)

lemma unat_of_nat_le: "unat (of_nat n :: u16) \<le> n"
  by (simp add: unat_of_nat)

lemma additional_records_Inr:
  assumes "additional_records m en = Inr ((n, t), en')"
  shows "n \<le> length (m_additionals m) + (case m_edns m of None \<Rightarrow> 0 | Some e \<Rightarrow> 1)"
    "n = length (m_additionals m) + (case m_edns m of None \<Rightarrow> 0 | Some e \<Rightarrow> 1) \<Longrightarrow>
     emit_seq (List.map put_record (m_additionals m) @
       (case written_edns m of None \<Rightarrow> [] | Some e \<Rightarrow> [put_record (record_of_edns e)])) en = Inr en' \<and> \<not> t"
proof -
  obtain ar tr en1 where a: "count_was_truncated (emit_all (List.map put_record (m_additionals m)) en) = Inr ((ar, tr), en1)"
    "(case m_edns m of None \<Rightarrow> Inr ((ar, tr), en1)
      | Some e \<Rightarrow> result_bind (count_was_truncated (emit_all
            [put_record (record_of_edns (e\<lparr>ed_rcode_high := rc_high (h_response_code (m_header m))\<rparr>))] en1))
          (\<lambda>((k, u), en2). Inr ((ar + k, tr \<or> u), en2))) = Inr ((n, t), en')"
    using assms by (auto simp: additional_records_def result_bind_Inr_iff)
  note h = count_was_truncated_Inr [OF a(1)]
  have append: "emit_seq (fs @ gs) en = Inr en2" if "emit_seq fs en = Inr en1" "emit_seq gs en1 = Inr en2" for fs gs en en1 en2
    using that by (induction fs arbitrary: en) (auto simp: result_bind_Inr_iff)
  show "n \<le> length (m_additionals m) + (case m_edns m of None \<Rightarrow> 0 | Some e \<Rightarrow> 1)"
    "n = length (m_additionals m) + (case m_edns m of None \<Rightarrow> 0 | Some e \<Rightarrow> 1) \<Longrightarrow>
     emit_seq (List.map put_record (m_additionals m) @
       (case written_edns m of None \<Rightarrow> [] | Some e \<Rightarrow> [put_record (record_of_edns e)])) en = Inr en' \<and> \<not> t"
  proof (atomize (full), cases "m_edns m")
    case None
    then show "n \<le> length (m_additionals m) + (case m_edns m of None \<Rightarrow> 0 | Some e \<Rightarrow> 1) \<and>
      (n = length (m_additionals m) + (case m_edns m of None \<Rightarrow> 0 | Some e \<Rightarrow> 1) \<longrightarrow>
       emit_seq (List.map put_record (m_additionals m) @
         (case written_edns m of None \<Rightarrow> [] | Some e \<Rightarrow> [put_record (record_of_edns e)])) en = Inr en' \<and> \<not> t)"
      using a h by (auto simp: written_edns_def)
  next
    case (Some e)
    let ?f = "put_record (record_of_edns (e\<lparr>ed_rcode_high := rc_high (h_response_code (m_header m))\<rparr>))"
    obtain k u where k: "count_was_truncated (emit_all [?f] en1) = Inr ((k, u), en')" "n = ar + k" "t = (tr \<or> u)"
      using a(2) Some by (auto simp: result_bind_Inr_iff)
    note g = count_was_truncated_Inr [OF k(1)]
    show "n \<le> length (m_additionals m) + (case m_edns m of None \<Rightarrow> 0 | Some e \<Rightarrow> 1) \<and>
      (n = length (m_additionals m) + (case m_edns m of None \<Rightarrow> 0 | Some e \<Rightarrow> 1) \<longrightarrow>
       emit_seq (List.map put_record (m_additionals m) @
         (case written_edns m of None \<Rightarrow> [] | Some e \<Rightarrow> [put_record (record_of_edns e)])) en = Inr en' \<and> \<not> t)"
      using h g k Some append [of "List.map put_record (m_additionals m)" en en1 "[?f]" en']
      by (auto simp: written_edns_def simp del: emit_seq.simps)
  qed
qed

lemma response_code_back:
  "rc_from_low (rc_low rc) = rc_of_u16 (rc_to_u16 rc AND 0x000F)"
  "rc_of_u16 (push_bit 4 (ucast (rc_high rc)) OR (ucast (rc_low (rc_from_low (rc_low rc))) AND 0x000F)) =
     rc_of_u16 (rc_to_u16 rc AND 0x0FFF)"
proof -
  have m: "(0x000F :: u16) = mask 4" "(0x0FF0 :: u16) = push_bit 4 (mask 8)" "(0x0FFF :: u16) = mask 12"
    by (simp_all add: mask_eq_exp_minus_1 push_bit_eq_mult)
  have low: "ucast (ucast (w AND mask 4) :: u8) AND mask 4 = w AND mask 4" for w :: u16
    by (rule bit_word_eqI) (auto simp: bit_simps)
  show l: "rc_from_low (rc_low rc) = rc_of_u16 (rc_to_u16 rc AND 0x000F)"
    using low [of "rc_to_u16 rc"] by (simp only: rc_from_low_def rc_low_def m)
  have all: "push_bit 4 (ucast (ucast (drop_bit 4 (w AND push_bit 4 (mask 8))) :: u8)) OR (w AND mask 4) = w AND mask 12" for w :: u16
    by (rule bit_word_eqI) (auto simp: bit_simps)
  have "rc_to_u16 (rc_from_low (rc_low rc)) = rc_to_u16 rc AND mask 4"
    by (simp only: l rc_to_of_u16 m)
  then have "rc_low (rc_from_low (rc_low rc)) = ucast (rc_to_u16 rc AND mask 4)"
    by (simp add: rc_low_def m and.assoc)
  then have "ucast (rc_low (rc_from_low (rc_low rc))) AND 0x000F = rc_to_u16 rc AND 0x000F"
    unfolding m using low by simp
  then show "rc_of_u16 (push_bit 4 (ucast (rc_high rc)) OR (ucast (rc_low (rc_from_low (rc_low rc))) AND 0x000F)) =
     rc_of_u16 (rc_to_u16 rc AND 0x0FFF)"
    using all [of "rc_to_u16 rc"] by (simp only: rc_high_def m)
qed

text \<open>What stands behind the header, for a header that says how many of each there are.\<close>

definition rd_body :: "header \<Rightarrow> message reader" where
  "rd_body h =
     rd_bind (rd_many (unat (h_query_count h)) rd_query) (\<lambda>queries.
     rd_bind (rd_records (unat (h_answer_count h)) False [] None) (\<lambda>(answers, e1).
     rd_bind (rd_records (unat (h_authority_count h)) False [] None) (\<lambda>(authorities, e2).
     rd_bind (rd_records (unat (h_additional_count h)) True [] None) (\<lambda>(additionals, e).
       rd_return
         \<lparr>m_header = (case e of Some ed \<Rightarrow> merge_response_code (ed_rcode_high ed) h | None \<Rightarrow> h),
          m_queries = queries, m_answers = answers, m_authorities = authorities,
          m_additionals = additionals, m_edns = e\<rparr>))))"

definition put_body :: "message \<Rightarrow> emitter" where
  "put_body m en =
     result_bind (emit_seq (List.map put_query (m_queries m)) en) (\<lambda>en1.
     result_bind (emit_seq (List.map put_record (m_answers m)) en1) (\<lambda>en2.
     result_bind (emit_seq (List.map put_record (m_authorities m)) en2) (\<lambda>en3.
       emit_seq (List.map put_record (m_additionals m) @
         (case written_edns m of None \<Rightarrow> [] | Some e \<Rightarrow> [put_record (record_of_edns e)])) en3)))"

lemma emits_image: "emits f r v \<Longrightarrow> emits f (rd_bind r (\<lambda>x. rd_return (g x))) (g v)"
  unfolding emits_def emits_to_def by (simp add: rd_bind_def rd_return_def)

lemma written_edns_ok:
  "message_ok m \<Longrightarrow> \<forall>e \<in> set_option (written_edns m). edns_ok e"
  by (auto simp: message_ok_def written_edns_def edns_ok_def)

lemma emits_body:
  assumes "message_ok m" "complete m h" "h_response_code h = h_response_code (m_header m)"
  shows "emits (put_body m) (rd_body (h\<lparr>h_response_code := rc_from_low (rc_low (h_response_code h))\<rparr>)) (wire_message m h)"
proof -
  have c: "unat (h_query_count h) = length (m_queries m)" "unat (h_answer_count h) = length (m_answers m)"
    "unat (h_authority_count h) = length (m_authorities m)"
    "unat (h_additional_count h) = length (m_additionals m) + (case written_edns m of None \<Rightarrow> 0 | Some e \<Rightarrow> 1)"
    using assms(2) by (simp_all add: complete_def written_edns_def split: option.splits)
  let ?h = "h\<lparr>h_response_code := rc_from_low (rc_low (h_response_code h))\<rparr>"
  have merged: "(case map_option wire_edns (written_edns m) of Some ed \<Rightarrow> merge_response_code (ed_rcode_high ed) ?h | None \<Rightarrow> ?h)
      = wire_header m h"
    using assms(3) response_code_back [of "h_response_code (m_header m)"]
    by (cases "m_edns m") (simp_all add: written_edns_def merge_response_code_def wire_header_def wire_edns_def)
  have q: "emits (emit_seq (List.map put_query (m_queries m))) (rd_many (length (m_queries m)) rd_query) (List.map wire_query (m_queries m))"
    by (rule emits_many [OF emits_query]) (use assms(1) in \<open>simp add: message_ok_def\<close>)
  have an: "emits (emit_seq (List.map put_record (m_answers m))) (rd_records (length (m_answers m)) False [] None)
      (List.map wire_record (m_answers m), None)"
    by (rule emits_section) (use assms(1) in \<open>simp add: message_ok_def\<close>)
  have ns: "emits (emit_seq (List.map put_record (m_authorities m))) (rd_records (length (m_authorities m)) False [] None)
      (List.map wire_record (m_authorities m), None)"
    by (rule emits_section) (use assms(1) in \<open>simp add: message_ok_def\<close>)
  note ar = emits_additional [of "m_additionals m" "written_edns m", OF _ written_edns_ok [OF assms(1)]]
  let ?result = "\<lambda>(additionals, e). \<lparr>m_header = (case e of Some ed \<Rightarrow> merge_response_code (ed_rcode_high ed) ?h | None \<Rightarrow> ?h),
      m_queries = List.map wire_query (m_queries m), m_answers = List.map wire_record (m_answers m),
      m_authorities = List.map wire_record (m_authorities m), m_additionals = additionals, m_edns = e\<rparr>"
  have "emits (emit_seq (List.map put_record (m_additionals m) @ (case written_edns m of None \<Rightarrow> [] | Some e \<Rightarrow> [put_record (record_of_edns e)])))
      (rd_bind (rd_records (unat (h_additional_count h)) True [] None) (\<lambda>p. rd_return (?result p))) (wire_message m h)"
    using emits_image [OF ar, of ?result] assms(1) merged unfolding c by (simp add: message_ok_def wire_message_def)
  note tail = this [unfolded case_prod_unfold]
  have s: "h_query_count ?h = h_query_count h" "h_answer_count ?h = h_answer_count h"
    "h_authority_count ?h = h_authority_count h" "h_additional_count ?h = h_additional_count h" by simp_all
  show ?thesis unfolding put_body_def [abs_def] rd_body_def s case_prod_unfold
    by (rule emits_bind [OF q [folded c]], rule emits_bind [OF an [folded c]], rule emits_bind [OF ns [folded c]])
      (use tail in simp)
qed

lemma other_error_Inr [simp]: "other_error r = Inr en \<longleftrightarrow> r = Inr en"
  by (auto simp: other_error_def split: sum.splits)

lemma emit_message_sections:
  assumes "emit_message m en = Inr (h, en')"
  obtains en0 qd en1 an tan en2 ns tns en3 ar tar en4 where
    "put_place 12 en = Inr en0" "emit_all (List.map put_query (m_queries m)) en0 = Inr (qd, en1)"
    "count_was_truncated (emit_all (List.map put_record (m_answers m)) en1) = Inr ((an, tan), en2)"
    "count_was_truncated (emit_all (List.map put_record (m_authorities m)) en2) = Inr ((ns, tns), en3)"
    "additional_records m en3 = Inr ((ar, tar), en4)"
    "h = update_header_counts (m_header m) (h_truncation (m_header m) \<or> tan \<or> tns \<or> tar)
       \<lparr>hc_query = qd, hc_answer = an, hc_authority = ns, hc_additional = ar\<rparr>"
    "emit_at (en_offset en) (emit_header h) en4 = Inr en'"
proof -
  have "\<exists>en0 qd en1 an tan en2 ns tns en3 ar tar en4. put_place 12 en = Inr en0 \<and>
    emit_all (List.map put_query (m_queries m)) en0 = Inr (qd, en1) \<and>
    count_was_truncated (emit_all (List.map put_record (m_answers m)) en1) = Inr ((an, tan), en2) \<and>
    count_was_truncated (emit_all (List.map put_record (m_authorities m)) en2) = Inr ((ns, tns), en3) \<and>
    additional_records m en3 = Inr ((ar, tar), en4) \<and>
    h = update_header_counts (m_header m) (h_truncation (m_header m) \<or> tan \<or> tns \<or> tar)
       \<lparr>hc_query = qd, hc_answer = an, hc_authority = ns, hc_additional = ar\<rparr> \<and>
    emit_at (en_offset en) (emit_header h) en4 = Inr en'"
    using assms by (fastforce simp: emit_message_def Let_def result_bind_Inr_iff)
  then show thesis using that by blast
qed

lemma emit_message_parts:
  assumes "emit_message m en = Inr (h, en')" "complete m h"
  obtains en0 en4 where "put_place 12 en = Inr en0" "put_body m en0 = Inr en4"
    "emit_at (en_offset en) (emit_header h) en4 = Inr en'"
    "h_response_code h = h_response_code (m_header m)" "h_op_code h = h_op_code (m_header m)"
    "h_truncation h = h_truncation (m_header m)"
proof -
  obtain en0 qd en1 an tan en2 ns tns en3 ar tar en4 where e:
    "put_place 12 en = Inr en0" "emit_all (List.map put_query (m_queries m)) en0 = Inr (qd, en1)"
    "count_was_truncated (emit_all (List.map put_record (m_answers m)) en1) = Inr ((an, tan), en2)"
    "count_was_truncated (emit_all (List.map put_record (m_authorities m)) en2) = Inr ((ns, tns), en3)"
    "additional_records m en3 = Inr ((ar, tar), en4)"
    "h = update_header_counts (m_header m) (h_truncation (m_header m) \<or> tan \<or> tns \<or> tar)
       \<lparr>hc_query = qd, hc_answer = an, hc_authority = ns, hc_additional = ar\<rparr>"
    "emit_at (en_offset en) (emit_header h) en4 = Inr en'"
    by (rule emit_message_sections [OF assms(1)])
  have h: "h_response_code h = h_response_code (m_header m)" "h_op_code h = h_op_code (m_header m)"
    "h_truncation h = (h_truncation (m_header m) \<or> tan \<or> tns \<or> tar)"
    "h_answer_count h = of_nat an" "h_authority_count h = of_nat ns" "h_additional_count h = of_nat ar"
    using e(6) by (simp_all add: update_header_counts_def)
  note le = unat_of_nat_le [of an] unat_of_nat_le [of ns] unat_of_nat_le [of ar]
  note c = assms(2) [unfolded complete_def h]
  note an = count_was_truncated_Inr [OF e(3)] and ns = count_was_truncated_Inr [OF e(4)] and ar = additional_records_Inr [OF e(5)]
  have all: "an = length (m_answers m)" "ns = length (m_authorities m)"
    "ar = length (m_additionals m) + (case m_edns m of None \<Rightarrow> 0 | Some e \<Rightarrow> 1)"
    using an(1) ns(1) ar(1) c le by simp_all
  note all = an(2) [simplified, OF all(1)] ns(2) [simplified, OF all(2)] ar(2) [OF all(3)]
  have "emit_seq (List.map put_query (m_queries m)) en0 = Inr en1"
    using emit_iter_Inr e(2) by (auto simp: emit_all_def)
  then have "put_body m en0 = Inr en4" using all by (simp add: put_body_def)
  then show thesis using that e(1, 7) h(1-3) all by blast
qed

lemma emit_header_length: "length (emit_header h) = 12"
  by (simp add: emit_header_def emit_u16_def)

lemma blind_put_record: "blind (put_record r)"
  unfolding put_record_def put_class_def
  by (intro blind_emit_seq) (auto simp: list_all_iff blind_put_rdata intro!: blind_put blind_emit_name blind_with_length)

lemma blind_put_body: "blind (put_body m)"
proof -
  have "list_all blind (List.map put_query (m_queries m))"
    by (auto simp: list_all_iff put_query_def put_class_def simp del: emit_seq.simps intro!: blind_emit_seq)
  then show ?thesis unfolding put_body_def [abs_def]
    by (intro blind_bind blind_emit_seq) (auto simp: list_all_iff blind_put_record split: option.splits)
qed

lemma rd_message_body:
  "rd_message = rd_bind rd_header rd_body"
  by (simp add: rd_message_def rd_body_def [abs_def])

text \<open>The message may stand behind other octets, which the pointers of its names then lead into.\<close>

lemma roundtrip_behind:
  assumes "message_ok m" "plain en0" "emit_message m en0 = Inr (h, en)" "complete m h"
  shows "rd_message (en_buffer en @ junk) (length (en_buffer en0)) = Inr (wire_message m h, length (en_buffer en))"
    "\<exists>ys. en_buffer en = en_buffer en0 @ ys" "plain en"
proof -
  obtain en1 en4 where e: "put_place 12 en0 = Inr en1" "put_body m en1 = Inr en4"
    "emit_at (en_offset en0) (emit_header h) en4 = Inr en"
    "h_response_code h = h_response_code (m_header m)" "h_op_code h = h_op_code (m_header m)"
    by (rule emit_message_parts [OF assms(3, 4)])
  let ?H = "emit_header h" and ?P = "en_buffer en0 @ emit_header h"
    and ?h = "h\<lparr>h_response_code := rc_from_low (rc_low (h_response_code h))\<rparr>"
  have ready: "ready en0" "en_offset en0 = length (en_buffer en0)"
    using plain_ready [OF assms(2)] by (simp_all add: ready_def)
  note p = put_place_Inr [OF e(1) ready(1)]
  have len: "length ?P = length (en_buffer en1)" and sub1: "en_buffer (sub ?P en1) = ?P"
    using p by (simp_all add: emit_header_length)
  note b = blindD [OF blind_put_body conjunct2 [OF p] e(2)]
  obtain ys where ys: "en_buffer en4 = en_buffer en0 @ replicate 12 0 @ ys" using b(2) p by auto
  have en: "en = sub ?P en4"
    using emit_at_Inr [OF e(3) b(1)] ys ready(2) by (simp add: emit_header_length)
  have body: "put_body m (sub ?P en1) = Inr en" using b(3) [of ?P] len en by simp
  have known: "known (en_buffer en0 @ zs) q" if "q \<in> set (en_name_pointers en0)" for q zs
    using assms(2) that known_append by (simp add: plain_def en_good_def)
  have "plain (sub ?P en1)"
    using assms(2) p len known by (auto simp: plain_def en_good_def ready_def emit_header_length)
  note w = emits_toD [OF emits_to_if_emits [OF emits_body [OF assms(1, 4) e(4)]] this body]
  show "plain en" by (rule w(1))
  obtain zs where zs: "en_buffer en = en_buffer en0 @ ?H @ zs" using w(3) sub1 by auto
  then show "\<exists>ys. en_buffer en = en_buffer en0 @ ys" by blast
  have reread: "rd_body ?h (en_buffer en @ junk) (length (en_buffer en0) + 12) = Inr (wire_message m h, length (en_buffer en))"
    using w(4) [of junk] sub1 by (simp add: emit_header_length)
  have "canonical_op (h_op_code h)" using assms(1) e(5) by (simp add: message_ok_def)
  then have "rd_header (en_buffer en @ junk) (length (en_buffer en0)) = Inr (?h, length (en_buffer en0) + 12)"
    using read_header_back [of h "zs @ junk"] zs by (simp add: rd_header_def emit_header_length)
  then show "rd_message (en_buffer en @ junk) (length (en_buffer en0)) = Inr (wire_message m h, length (en_buffer en))"
    using reread by (simp add: rd_message_body rd_bind_def)
qed

lemma plain_new: "plain encoder_new" "length (en_buffer encoder_new) = 0"
  by (simp_all add: plain_def en_good_def ready_def encoder_new_def)

lemma complete_roundtrip:
  assumes "message_ok m" "emit_message m encoder_new = Inr (h, en)" "complete m h"
  shows "rd_message (en_buffer en @ junk) 0 = Inr (wire_message m h, length (en_buffer en))"
  using roundtrip_behind(1) [OF assms(1) plain_new(1) assms(2, 3)] plain_new(2) by simp

section \<open>What was left out\<close>

lemma emit_iter_all: "emit_seq fs en = Inr en' \<Longrightarrow> emit_iter c fs en = Inr (c + length fs, en')"
  by (induction fs arbitrary: c en) (auto simp: result_bind_Inr_iff)

lemma not_truncated_iff:
  assumes "count_was_truncated (emit_all fs en) = Inr ((n, t), en')"
  shows "emit_seq fs en = Inr en2 \<longleftrightarrow> n = length fs \<and> \<not> t \<and> en2 = en'"
    "(\<exists>en2. emit_seq fs en = Inr en2) \<longleftrightarrow> \<not> t" "\<not> t \<Longrightarrow> n = length fs"
proof -
  have 1: "emit_seq fs en = Inr en' \<and> n = length fs" if "\<not> t"
    using that assms emit_iter_Inr [of 0 fs en]
    by (auto simp: count_was_truncated_def emit_all_def split: sum.splits prod.splits iter_error.splits)
  have 2: "n = length fs \<and> \<not> t \<and> en2 = en'" if "emit_seq fs en = Inr en2" for en2
    using that assms emit_iter_all [OF that, of 0] by (auto simp: count_was_truncated_def emit_all_def)
  show "emit_seq fs en = Inr en2 \<longleftrightarrow> n = length fs \<and> \<not> t \<and> en2 = en'" "(\<exists>en2. emit_seq fs en = Inr en2) \<longleftrightarrow> \<not> t"
    "\<not> t \<Longrightarrow> n = length fs"
    using 1 2 by blast+
qed

lemma emit_seq_append_Inr:
  "emit_seq (fs @ gs) en = Inr en' \<longleftrightarrow> (\<exists>en1. emit_seq fs en = Inr en1 \<and> emit_seq gs en1 = Inr en')"
  by (induction fs arbitrary: en) (auto simp: result_bind_Inr_iff)

lemma additional_not_truncated:
  assumes "additional_records m en = Inr ((n, t), en')"
  shows "(\<exists>en2. emit_seq (List.map put_record (m_additionals m) @
       (case written_edns m of None \<Rightarrow> [] | Some e \<Rightarrow> [put_record (record_of_edns e)])) en = Inr en2) \<longleftrightarrow> \<not> t"
    "\<not> t \<Longrightarrow> n = length (m_additionals m) + (case m_edns m of None \<Rightarrow> 0 | Some e \<Rightarrow> 1)"
proof -
  obtain ar tr en1 where a: "count_was_truncated (emit_all (List.map put_record (m_additionals m)) en) = Inr ((ar, tr), en1)"
    "(case m_edns m of None \<Rightarrow> Inr ((ar, tr), en1)
      | Some e \<Rightarrow> result_bind (count_was_truncated (emit_all
            [put_record (record_of_edns (e\<lparr>ed_rcode_high := rc_high (h_response_code (m_header m))\<rparr>))] en1))
          (\<lambda>((k, u), en2). Inr ((ar + k, tr \<or> u), en2))) = Inr ((n, t), en')"
    using assms by (auto simp: additional_records_def result_bind_Inr_iff)
  note h = not_truncated_iff [OF a(1)]
  show "(\<exists>en2. emit_seq (List.map put_record (m_additionals m) @
       (case written_edns m of None \<Rightarrow> [] | Some e \<Rightarrow> [put_record (record_of_edns e)])) en = Inr en2) \<longleftrightarrow> \<not> t"
    "\<not> t \<Longrightarrow> n = length (m_additionals m) + (case m_edns m of None \<Rightarrow> 0 | Some e \<Rightarrow> 1)"
  proof (atomize (full), cases "m_edns m")
    case None
    then show "((\<exists>en2. emit_seq (List.map put_record (m_additionals m) @
       (case written_edns m of None \<Rightarrow> [] | Some e \<Rightarrow> [put_record (record_of_edns e)])) en = Inr en2) \<longleftrightarrow> \<not> t) \<and>
      (\<not> t \<longrightarrow> n = length (m_additionals m) + (case m_edns m of None \<Rightarrow> 0 | Some e \<Rightarrow> 1))"
      using a h by (auto simp: written_edns_def)
  next
    case (Some e)
    let ?f = "put_record (record_of_edns (e\<lparr>ed_rcode_high := rc_high (h_response_code (m_header m))\<rparr>))"
    obtain k u where k: "count_was_truncated (emit_all [?f] en1) = Inr ((k, u), en')" "n = ar + k" "t = (tr \<or> u)"
      using a(2) Some by (auto simp: result_bind_Inr_iff)
    show "((\<exists>en2. emit_seq (List.map put_record (m_additionals m) @
       (case written_edns m of None \<Rightarrow> [] | Some e \<Rightarrow> [put_record (record_of_edns e)])) en = Inr en2) \<longleftrightarrow> \<not> t) \<and>
      (\<not> t \<longrightarrow> n = length (m_additionals m) + (case m_edns m of None \<Rightarrow> 0 | Some e \<Rightarrow> 1))"
    proof -
      note g = not_truncated_iff [OF k(1)]
      have "(\<exists>en2. emit_seq (List.map put_record (m_additionals m) @ [?f]) en = Inr en2) \<longleftrightarrow> \<not> tr \<and> \<not> u"
        unfolding emit_seq_append_Inr using h(3) g(2) by (auto simp: h(1) simp del: emit_seq.simps)
      moreover have "\<not> tr \<Longrightarrow> ar = length (m_additionals m)" "\<not> u \<Longrightarrow> k = 1"
        using h(3) g(3) by simp_all
      ultimately show ?thesis using k(2, 3) Some by (simp add: written_edns_def del: emit_seq.simps)
    qed
  qed
qed

lemma written_in_sequence:
  assumes "\<And>f en en'. f \<in> set fs \<Longrightarrow> plain en \<Longrightarrow> f en = Inr en' \<Longrightarrow> plain en' \<and> length (en_buffer en) < length (en_buffer en')"
    and "plain en" "emit_seq fs en = Inr en'"
  shows "plain en' \<and> length fs + length (en_buffer en) \<le> length (en_buffer en')"
  using assms
proof (induction fs arbitrary: en)
  case (Cons f fs)
  obtain en1 where e: "f en = Inr en1" "emit_seq fs en1 = Inr en'"
    using Cons.prems(3) by (auto simp: result_bind_Inr_iff)
  have s: "plain en1" "length (en_buffer en) < length (en_buffer en1)"
    using Cons.prems(1) [of f en en1] Cons.prems(2) e(1) by simp_all
  have "plain en' \<and> length fs + length (en_buffer en1) \<le> length (en_buffer en')"
    by (rule Cons.IH [OF _ s(1) e(2)]) (rule Cons.prems(1) [OF list.set_intros(2)], assumption+)
  then show ?case using s(2) by simp
qed simp

lemma grows_query: "query_ok q \<Longrightarrow> grows (put_query q)"
  unfolding put_query_def query_ok_def
  by (rule grows_seq) (auto simp: grows_name put_class_def)

lemma grows_record: "record_ok r \<Longrightarrow> grows (put_record r)"
  unfolding put_record_def record_ok_def
  by (rule grows_seq) (auto simp: grows_name put_class_def blind_put_rdata intro!: blind_with_length)

lemma emit_message_counts:
  assumes "message_ok m" "plain en00" "emit_message m en00 = Inr (h, en)" "\<not> h_truncation h"
  shows "complete m h"
proof -
  obtain en0 qd en1 an tan en2 ns tns en3 ar tar en4 where e: "put_place 12 en00 = Inr en0"
    "emit_all (List.map put_query (m_queries m)) en0 = Inr (qd, en1)"
    "count_was_truncated (emit_all (List.map put_record (m_answers m)) en1) = Inr ((an, tan), en2)"
    "count_was_truncated (emit_all (List.map put_record (m_authorities m)) en2) = Inr ((ns, tns), en3)"
    "additional_records m en3 = Inr ((ar, tar), en4)"
    "h = update_header_counts (m_header m) (h_truncation (m_header m) \<or> tan \<or> tns \<or> tar)
       \<lparr>hc_query = qd, hc_answer = an, hc_authority = ns, hc_additional = ar\<rparr>"
    by (rule emit_message_sections [OF assms(3)])
  let ?rest = "List.map put_record (m_additionals m) @
     (case written_edns m of None \<Rightarrow> [] | Some e \<Rightarrow> [put_record (record_of_edns e)])"
  have t: "\<not> tan" "\<not> tns" "\<not> tar" using assms(4) e(6) by (simp_all add: update_header_counts_def)
  have n: "qd = length (m_queries m)" "an = length (m_answers m)" "ns = length (m_authorities m)"
    "ar = length (m_additionals m) + (case m_edns m of None \<Rightarrow> 0 | Some e \<Rightarrow> 1)"
    using emit_iter_Inr [of 0 "List.map put_query (m_queries m)" en0 qd en1] e(2) not_truncated_iff(3) [OF e(3) t(1)] not_truncated_iff(3) [OF e(4) t(2)]
      additional_not_truncated(2) [OF e(5) t(3)] by (simp_all add: emit_all_def)
  obtain en5 where "emit_seq ?rest en3 = Inr en5" using additional_not_truncated(1) [OF e(5)] t(3) by blast
  then have all: "emit_seq (List.map put_query (m_queries m) @ List.map put_record (m_answers m) @
      List.map put_record (m_authorities m) @ ?rest) en0 = Inr en5"
    using emit_iter_Inr [of 0 "List.map put_query (m_queries m)" en0 qd en1] e(2) not_truncated_iff(1) [OF e(3)] not_truncated_iff(1) [OF e(4)] t n
    by (simp add: emit_seq_append_Inr emit_all_def)
  have rr: "plain b \<and> length (en_buffer a) < length (en_buffer b)"
    if r: "record_ok r" and a: "plain a" "put_record r a = Inr b" for r a b
    using emits_toD(1) [OF emits_to_if_emits [OF emits_record [OF r]] a] grows_record [OF r] a by (simp add: grows_def)
  have query: "plain b \<and> length (en_buffer a) < length (en_buffer b)"
    if q: "query_ok q" and a: "plain a" "put_query q a = Inr b" for q a b
    using emits_toD(1) [OF emits_to_if_emits [OF emits_query [OF q]] a] grows_query [OF q] a by (simp add: grows_def)
  have "known (en_buffer en00 @ zs) q" if "q \<in> set (en_name_pointers en00)" for q zs
    using assms(2) that known_append by (simp add: plain_def en_good_def)
  then have p: "plain en0" using put_place_Inr [OF e(1) plain_ready [OF assms(2)]] assms(2) by (auto simp: plain_def en_good_def)
  have "plain en5 \<and> length (List.map put_query (m_queries m) @ List.map put_record (m_answers m) @
      List.map put_record (m_authorities m) @ ?rest) + length (en_buffer en0) \<le> length (en_buffer en5)"
  proof (rule written_in_sequence [OF _ p all])
    fix f a b
    assume f: "f \<in> set (List.map put_query (m_queries m) @ List.map put_record (m_answers m) @ List.map put_record (m_authorities m) @ ?rest)"
      and ab: "plain a" "f a = Inr b"
    have "(\<exists>q. query_ok q \<and> f = put_query q) \<or> (\<exists>r. record_ok r \<and> f = put_record r)"
      using f assms(1) written_edns_ok [OF assms(1)] record_of_edns_ok(1)
      by (cases "written_edns m") (auto simp: message_ok_def, metis)
    then show "plain b \<and> length (en_buffer a) < length (en_buffer b)" using rr query ab by blast
  qed
  then have "length (m_queries m) + length (m_answers m) + length (m_authorities m) + length (m_additionals m) +
      (case m_edns m of None \<Rightarrow> 0 | Some e \<Rightarrow> 1) \<le> 65535"
    by (auto simp: plain_def en_good_def ready_def written_edns_def split: option.splits)
  then show ?thesis
    using e(6) n by (simp add: complete_def update_header_counts_def unat_of_nat del: of_nat_add)
qed

section \<open>An example\<close>

definition example_response :: message where
  "example_response =
     \<lparr>m_header = \<lparr>h_id = 0x1234, h_message_type = MResponse, h_op_code = OpQuery, h_authoritative = False,
        h_truncation = False, h_recursion_desired = True, h_recursion_available = True, h_authentic_data = False,
        h_checking_disabled = False, h_response_code = RC_NoError, h_query_count = 1, h_answer_count = 1,
        h_authority_count = 0, h_additional_count = 1\<rparr>,
      m_queries = [\<lparr>q_name = \<lparr>n_labels = [''a''], n_fqdn = True\<rparr>, q_type = RT_A, q_class = DC_IN, q_unicast_response = False\<rparr>],
      m_answers = [\<lparr>rr_name = \<lparr>n_labels = [''a''], n_fqdn = True\<rparr>, rr_class = DC_IN, rr_ttl = 60, rr_data = RD_A 0x01020304,
        rr_cache_flush = False\<rparr>],
      m_authorities = [], m_additionals = [],
      m_edns = Some \<lparr>ed_rcode_high = 0, ed_version = 0, ed_dnssec_ok = False, ed_z = 0, ed_max_payload = 1232, ed_options = []\<rparr>\<rparr>"

definition example_octets :: "u8 list" where
  "example_octets =
     [0x12, 0x34, 0x81, 0x80, 0, 1, 0, 1, 0, 0, 0, 1] @ [1, 0x61, 0, 0, 1, 0, 1] @
     [0xC0, 0x0C, 0, 1, 0, 1, 0, 0, 0, 60, 0, 4, 1, 2, 3, 4] @ [0, 0, 0x29, 0x04, 0xD0, 0, 0, 0, 0, 0, 0]"

lemma be_octets_2_4:
  "be_octets 2 w = [ucast (drop_bit 8 w), ucast w]"
  "be_octets 4 w = [ucast (drop_bit 8 (drop_bit 8 (drop_bit 8 w))), ucast (drop_bit 8 (drop_bit 8 w)), ucast (drop_bit 8 w), ucast w]"
  by (simp_all add: eval_nat_numeral)

lemmas emitting =
  be_octets_2_4 Let_def emit_name_def emit_character_data_def emit_byte_def write_slice_def buffer_write_def as_bytes_def
  get_label_pointer_def slice_of_def store_label_pointer_def trim_buffer_def emit_u16_def put_u16_def put_u32_def
  put_class_def put_place_def buffer_reserve_def emit_at_def with_rdata_behavior_def

lemma example_query:
  "put_query \<lparr>q_name = \<lparr>n_labels = [''a''], n_fqdn = True\<rparr>, q_type = RT_A, q_class = DC_IN, q_unicast_response = False\<rparr>
     \<lparr>en_offset = 12, en_buffer = replicate 12 0, en_max_size = 65535, en_name_pointers = [], en_name_encoding = NE_Compressed\<rparr> =
   Inr \<lparr>en_offset = 19, en_buffer = replicate 12 0 @ [1, 0x61, 0, 0, 1, 0, 1], en_max_size = 65535,
     en_name_pointers = [(12, [1, 0x61])], en_name_encoding = NE_Compressed\<rparr>"
  by (simp add: put_query_def emitting)

lemma example_answer:
  "put_record \<lparr>rr_name = \<lparr>n_labels = [''a''], n_fqdn = True\<rparr>, rr_class = DC_IN, rr_ttl = 60, rr_data = RD_A 0x01020304,
        rr_cache_flush = False\<rparr>
     \<lparr>en_offset = 19, en_buffer = replicate 12 0 @ [1, 0x61, 0, 0, 1, 0, 1], en_max_size = 65535,
     en_name_pointers = [(12, [1, 0x61])], en_name_encoding = NE_Compressed\<rparr> =
   Inr \<lparr>en_offset = 35, en_buffer = replicate 12 0 @ [1, 0x61, 0, 0, 1, 0, 1, 0xC0, 0x0C, 0, 1, 0, 1, 0, 0, 0, 60, 0, 4, 1, 2, 3, 4],
     en_max_size = 65535, en_name_pointers = [(12, [1, 0x61])], en_name_encoding = NE_Compressed\<rparr>"
  by (simp add: put_record_def with_length_def put_a_def write_all_def octets_be rr_type_def emitting)

lemma example_edns:
  "put_record (record_of_edns \<lparr>ed_rcode_high = 0, ed_version = 0, ed_dnssec_ok = False, ed_z = 0, ed_max_payload = 1232, ed_options = []\<rparr>)
     \<lparr>en_offset = 35, en_buffer = replicate 12 0 @ [1, 0x61, 0, 0, 1, 0, 1, 0xC0, 0x0C, 0, 1, 0, 1, 0, 0, 0, 60, 0, 4, 1, 2, 3, 4],
     en_max_size = 65535, en_name_pointers = [(12, [1, 0x61])], en_name_encoding = NE_Compressed\<rparr> =
   Inr \<lparr>en_offset = 46, en_buffer = replicate 12 0 @ [1, 0x61, 0, 0, 1, 0, 1, 0xC0, 0x0C, 0, 1, 0, 1, 0, 0, 0, 60, 0, 4, 1, 2, 3, 4,
       0, 0, 0x29, 0x04, 0xD0, 0, 0, 0, 0, 0, 0],
     en_max_size = 65535, en_name_pointers = [(12, [1, 0x61])], en_name_encoding = NE_Compressed\<rparr>"
  by (simp add: put_record_def with_length_def put_opt_def rr_type_def record_of_edns_def from_rdata_def class_for_opt_def
      name_root_def name_new_def edns_flags_def emitting)

lemma example_emitted:
  "emit_message example_response encoder_new =
     Inr (m_header example_response,
       \<lparr>en_offset = 46, en_buffer = example_octets, en_max_size = 65535, en_name_pointers = [(12, [1, 0x61])],
        en_name_encoding = NE_Compressed\<rparr>)"
proof -
  have place: "put_place 12 encoder_new =
    Inr \<lparr>en_offset = 12, en_buffer = replicate 12 0, en_max_size = 65535, en_name_pointers = [], en_name_encoding = NE_Compressed\<rparr>"
    by (simp add: encoder_new_def put_place_def buffer_reserve_def Let_def)
  have flags: "emit_flags1 MResponse OpQuery False False True = 0x81" "emit_flags2 True False False RC_NoError = 0x80"
    by (simp_all add: emit_flags1_def emit_flags2_def flag_def rc_low_def)
  have start: "en_offset encoder_new = 0" by (simp add: encoder_new_def)
  note sections = emit_all_def example_response_def example_query example_answer example_edns count_was_truncated_def
  let ?en = "\<lambda>i bs ptrs. \<lparr>en_offset = i, en_buffer = replicate 12 0 @ bs, en_max_size = 65535, en_name_pointers = ptrs,
      en_name_encoding = NE_Compressed\<rparr>"
  let ?q = "[1, 0x61, 0, 0, 1, 0, 1]" and ?a = "[1, 0x61, 0, 0, 1, 0, 1, 0xC0, 0x0C, 0, 1, 0, 1, 0, 0, 0, 60, 0, 4, 1, 2, 3, 4]"
  have f1: "emit_all (List.map put_query (m_queries example_response)) ((?en 12 [] [])\<lparr>en_buffer := replicate 12 0\<rparr>) = Inr (1, ?en 19 ?q [(12, [1, 0x61])])"
    by (simp add: sections)
  have f2: "emit_all (List.map put_record (m_answers example_response)) (?en 19 ?q [(12, [1, 0x61])]) =
      Inr (1, ?en 35 ?a [(12, [1, 0x61])])"
    by (simp add: sections)
  have f3: "emit_all (List.map put_record (m_authorities example_response)) (?en 35 ?a [(12, [1, 0x61])]) =
      Inr (0, ?en 35 ?a [(12, [1, 0x61])])"
    by (simp add: sections)
  have f4: "additional_records example_response (?en 35 ?a [(12, [1, 0x61])]) =
      Inr ((1, False), ?en 46 (?a @ [0, 0, 0x29, 0x04, 0xD0, 0, 0, 0, 0, 0, 0]) [(12, [1, 0x61])])"
    by (simp add: sections additional_records_def rc_high_def)
  have header: "update_header_counts (m_header example_response) (h_truncation (m_header example_response))
      \<lparr>hc_query = 1, hc_answer = 1, hc_authority = 0, hc_additional = 1\<rparr> =
    m_header example_response"
    "emit_header (m_header example_response) =
      [0x12, 0x34, 0x81, 0x80, 0, 1, 0, 1, 0, 0, 0, 1]"
    by (simp_all add: update_header_counts_def example_response_def emit_header_def emit_u16_def flags)
  show ?thesis
    by (simp add: emit_message_def start Let_def place other_error_def f1 [simplified] f2 f3 f4 [simplified] count_was_truncated_def
        header [simplified] emit_at_def write_slice_def buffer_write_def example_octets_def)
qed

lemma example_ok: "message_ok example_response"
proof -
  have names: "wf_name \<lparr>n_labels = [''a''], n_fqdn = True\<rparr>"
    by (simp add: wf_name_def wf_label_def encoded_len_def data_len_def max_name_length_def)
  show ?thesis
    by (simp add: message_ok_def example_response_def canonical_op_def op_from_u8_def query_ok_def record_ok_def ordinary_def
        rtype_ok_def rt_of_u16_def class_ok_def class_of_u16_def rr_type_def edns_ok_def names)
qed

lemma example_wire: "wire_message example_response (m_header example_response) = example_response"
  by (simp add: wire_message_def wire_header_def example_response_def wire_query_def wire_record_def wire_rdata_def set_fqdn_def
      written_edns_def wire_edns_def rc_high_def rc_of_u16_def)

lemma example_complete: "complete example_response (m_header example_response)"
  by (simp add: complete_def example_response_def)

text \<open>The same message in an encoder of 25 octets: the answer and the EDNS record are left out. The offset goes
  back to the end of the query, at 19; the octets behind it, written before the room was used up, stay in the buffer.\<close>

lemma tight_query:
  "put_query \<lparr>q_name = \<lparr>n_labels = [''a''], n_fqdn = True\<rparr>, q_type = RT_A, q_class = DC_IN, q_unicast_response = False\<rparr>
     \<lparr>en_offset = 12, en_buffer = replicate 12 0, en_max_size = 25, en_name_pointers = [], en_name_encoding = NE_Compressed\<rparr> =
   Inr \<lparr>en_offset = 19, en_buffer = replicate 12 0 @ [1, 0x61, 0, 0, 1, 0, 1], en_max_size = 25,
     en_name_pointers = [(12, [1, 0x61])], en_name_encoding = NE_Compressed\<rparr>"
  by (simp add: put_query_def emitting)

lemma tight_answer:
  "put_record \<lparr>rr_name = \<lparr>n_labels = [''a''], n_fqdn = True\<rparr>, rr_class = DC_IN, rr_ttl = 60, rr_data = RD_A 0x01020304,
        rr_cache_flush = False\<rparr>
     \<lparr>en_offset = 19, en_buffer = replicate 12 0 @ [1, 0x61, 0, 0, 1, 0, 1], en_max_size = 25,
     en_name_pointers = [(12, [1, 0x61])], en_name_encoding = NE_Compressed\<rparr> =
   Inl (EE_MaxBufferSizeExceeded 25,
     \<lparr>en_offset = 25, en_buffer = replicate 12 0 @ [1, 0x61, 0, 0, 1, 0, 1, 0xC0, 0x0C, 0, 1, 0, 1],
     en_max_size = 25, en_name_pointers = [(12, [1, 0x61])], en_name_encoding = NE_Compressed\<rparr>)"
  by (simp add: put_record_def with_length_def put_a_def write_all_def octets_be rr_type_def emitting)

lemma tight_edns:
  "put_record (record_of_edns \<lparr>ed_rcode_high = 0, ed_version = 0, ed_dnssec_ok = False, ed_z = 0, ed_max_payload = 1232, ed_options = []\<rparr>)
     \<lparr>en_offset = 19, en_buffer = replicate 12 0 @ [1, 0x61, 0, 0, 1, 0, 1, 0xC0, 0x0C, 0, 1, 0, 1],
     en_max_size = 25, en_name_pointers = [(12, [1, 0x61])], en_name_encoding = NE_Compressed\<rparr> =
   Inl (EE_MaxBufferSizeExceeded 25,
     \<lparr>en_offset = 24, en_buffer = replicate 12 0 @ [1, 0x61, 0, 0, 1, 0, 1, 0, 0, 0x29, 0x04, 0xD0, 1],
     en_max_size = 25, en_name_pointers = [(12, [1, 0x61])], en_name_encoding = NE_Compressed\<rparr>)"
  by (simp add: put_record_def with_length_def put_opt_def rr_type_def record_of_edns_def from_rdata_def class_for_opt_def
      name_root_def name_new_def edns_flags_def emitting)

lemma tight_emitted:
  "\<exists>en. emit_message example_response (encoder_new\<lparr>en_max_size := 25\<rparr>) =
     Inr ((m_header example_response)\<lparr>h_answer_count := 0, h_additional_count := 0, h_truncation := True\<rparr>, en) \<and>
   en_offset en = 19 \<and> length (en_buffer en) = 25"
proof -
  let ?en = "\<lambda>i bs ptrs. \<lparr>en_offset = i, en_buffer = replicate 12 0 @ bs, en_max_size = 25, en_name_pointers = ptrs,
      en_name_encoding = NE_Compressed\<rparr>"
  let ?p = "[(12 :: nat, [1, 0x61] :: u8 list)]"
  let ?q = "[1, 0x61, 0, 0, 1, 0, 1]" and ?a = "[1, 0x61, 0, 0, 1, 0, 1, 0xC0, 0x0C, 0, 1, 0, 1]"
    and ?e = "[1, 0x61, 0, 0, 1, 0, 1, 0, 0, 0x29, 0x04, 0xD0, 1]"
  note sections = emit_all_def example_response_def tight_query tight_answer tight_edns count_was_truncated_def roll_back_def
  have place: "put_place 12 (encoder_new\<lparr>en_max_size := 25\<rparr>) = Inr ((?en 12 [] [])\<lparr>en_buffer := replicate 12 0\<rparr>)"
    by (simp add: encoder_new_def put_place_def buffer_reserve_def Let_def)
  have f1: "emit_all (List.map put_query (m_queries example_response)) ((?en 12 [] [])\<lparr>en_buffer := replicate 12 0\<rparr>) =
      Inr (1, ?en 19 ?q ?p)"
    by (simp add: sections)
  have f2: "emit_all (List.map put_record (m_answers example_response)) (?en 19 ?q ?p) =
      Inl (IE_NotAllRecordsWritten 0, ?en 19 ?a ?p)"
    by (simp add: sections)
  have f3: "emit_all (List.map put_record (m_authorities example_response)) (?en 19 ?a ?p) = Inr (0, ?en 19 ?a ?p)"
    by (simp add: sections)
  have f4: "additional_records example_response (?en 19 ?a ?p) = Inr ((0, True), ?en 19 ?e ?p)"
    by (simp add: sections additional_records_def rc_high_def)
  have start: "en_offset (encoder_new\<lparr>en_max_size := 25\<rparr>) = 0" by (simp add: encoder_new_def)
  have header: "update_header_counts (m_header example_response) True
      \<lparr>hc_query = 1, hc_answer = 0, hc_authority = 0, hc_additional = 0\<rparr> =
    (m_header example_response)\<lparr>h_answer_count := 0, h_additional_count := 0, h_truncation := True\<rparr>"
    by (simp add: update_header_counts_def example_response_def)
  have length12: "length (emit_header h) = 12" for h by (rule emit_header_length)
  show ?thesis
    by (simp add: emit_message_def start Let_def place [simplified] other_error_def f1 [simplified] f2 f3 f4 [simplified] count_was_truncated_def
        header [simplified] emit_at_def write_slice_def buffer_write_def length12)
qed

section \<open>Properties\<close>

text \<open>C7: A message that came out of the emitter without the truncation flag is read back from its octets,
  whatever follows them: header, queries, the three sections and the EDNS record, with names compressed on the
  way, up to what the format cannot say.\<close>

theorem message_roundtrip:
  assumes "message_ok m" "emit_message m encoder_new = Inr (h, en)" "\<not> h_truncation h"
  shows "rd_message (en_buffer en @ junk) 0 = Inr (wire_message m h, length (en_buffer en))"
  by (rule complete_roundtrip [OF assms(1, 2) emit_message_counts [OF assms(1) plain_new(1) assms(2, 3)]])

theorem message_roundtrip_witness:
  "rd_message (example_octets @ [7]) 0 = Inr (example_response, 46)"
  using message_roundtrip [OF example_ok example_emitted, of "[7]"] example_wire
  by (simp add: example_response_def example_octets_def)

text \<open>C17: The truncation flag of a written message says that something is missing: it is set exactly if the
  message had it already, or the body does not fit in what is left of the encoder behind the header.\<close>

theorem truncation_flag:
  assumes "emit_message m en = Inr (h, en')" "put_place 12 en = Inr en0"
  shows "h_truncation h \<longleftrightarrow> h_truncation (m_header m) \<or> (\<nexists>en1. put_body m en0 = Inr en1)"
proof -
  obtain qd en1 an tan en2 ns tns en3 ar tar en4 where e:
    "emit_all (List.map put_query (m_queries m)) en0 = Inr (qd, en1)"
    "count_was_truncated (emit_all (List.map put_record (m_answers m)) en1) = Inr ((an, tan), en2)"
    "count_was_truncated (emit_all (List.map put_record (m_authorities m)) en2) = Inr ((ns, tns), en3)"
    "additional_records m en3 = Inr ((ar, tar), en4)"
    "h_truncation h = (h_truncation (m_header m) \<or> tan \<or> tns \<or> tar)"
    by (rule emit_message_sections [OF assms(1)]) (use assms(2) in \<open>auto simp: update_header_counts_def\<close>)
  have "emit_seq (List.map put_query (m_queries m)) en0 = Inr en1"
    using emit_iter_Inr [of 0 "List.map put_query (m_queries m)" en0 qd en1] e(1) by (simp add: emit_all_def)
  moreover have "(\<exists>en5. put_body m en0 = Inr en5) \<longleftrightarrow> \<not> tan \<and> \<not> tns \<and> \<not> tar" if "emit_seq (List.map put_query (m_queries m)) en0 = Inr en1"
    using that not_truncated_iff [OF e(2)] not_truncated_iff [OF e(3)] additional_not_truncated(1) [OF e(4)]
    by (auto simp: put_body_def result_bind_Inr_iff)
  ultimately show ?thesis using e(5) by blast
qed

theorem truncation_flag_witness:
  "(\<exists>en0 en1. put_place 12 encoder_new = Inr en0 \<and> put_body example_response en0 = Inr en1) \<and>
   (\<exists>en0. put_place 12 (encoder_new\<lparr>en_max_size := 25\<rparr>) = Inr en0 \<and> (\<nexists>en1. put_body example_response en0 = Inr en1))"
proof -
  have place: "\<exists>en0. put_place 12 encoder_new = Inr en0" "\<exists>en0. put_place 12 (encoder_new\<lparr>en_max_size := 25\<rparr>) = Inr en0"
    by (simp_all add: encoder_new_def put_place_def buffer_reserve_def Let_def)
  have flag: "\<not> h_truncation (m_header example_response)" by (simp add: example_response_def)
  obtain en where tight: "emit_message example_response (encoder_new\<lparr>en_max_size := 25\<rparr>) =
      Inr ((m_header example_response)\<lparr>h_answer_count := 0, h_additional_count := 0, h_truncation := True\<rparr>, en)"
    using tight_emitted by blast
  show ?thesis
    using truncation_flag [OF example_emitted] truncation_flag [OF tight] place flag by fastforce
qed

end
