(* ===== verification/Message_Read.thy ===== *)
theory Message_Read
  imports Message_Wire
begin

text \<open>
  What the reader of messages accepts. \<open>reads k r Q\<close> says of a reader that it never hangs, that it stays
  inside of the octets and takes at least \<open>k\<close> of them, and that what it returns satisfies \<open>Q\<close>; it is proved
  from the parts of a reader to the whole. It follows that the loops of the readers end, that a message
  that was read can be written, and that a message that is forwarded, read and written again, still says
  the same.
\<close>

section \<open>Readers that go forward\<close>

definition reads :: "nat \<Rightarrow> 'a reader \<Rightarrow> ('a \<Rightarrow> bool) \<Rightarrow> bool" where
  "reads k r Q \<longleftrightarrow> (\<forall>buf i. i \<le> length buf \<longrightarrow> r buf i \<noteq> Inl RE_Stuck \<and>
     (\<forall>x j. r buf i = Inr (x, j) \<longrightarrow> i + k \<le> j \<and> j \<le> length buf \<and> Q x))"

lemma readsI:
  assumes "\<And>buf i. i \<le> length buf \<Longrightarrow> r buf i \<noteq> Inl RE_Stuck"
    and "\<And>buf i x j. i \<le> length buf \<Longrightarrow> r buf i = Inr (x, j) \<Longrightarrow> i + k \<le> j \<and> j \<le> length buf \<and> Q x"
  shows "reads k r Q"
  using assms unfolding reads_def by blast

lemma readsD:
  assumes "reads k r Q" "i \<le> length buf"
  shows "r buf i \<noteq> Inl RE_Stuck" "r buf i = Inr (x, j) \<Longrightarrow> i + k \<le> j \<and> j \<le> length buf \<and> Q x"
  using assms unfolding reads_def by blast+

lemma reads_mono: "reads k r P \<Longrightarrow> l \<le> k \<Longrightarrow> (\<And>x. P x \<Longrightarrow> Q x) \<Longrightarrow> reads l r Q"
  unfolding reads_def by fastforce

lemma reads_return: "Q x \<Longrightarrow> reads 0 (rd_return x) Q"
  by (simp add: reads_def rd_return_def)

lemma reads_fail: "e \<noteq> RE_Stuck \<Longrightarrow> reads k (rd_fail e) Q"
  by (simp add: reads_def rd_fail_def)

lemma reads_add:
  assumes "reads k r P" "\<And>x. P x \<Longrightarrow> reads l (f x) Q"
  shows "reads (k + l) (rd_bind r f) Q"
proof (rule readsI)
  fix buf :: "u8 list" and i assume i: "i \<le> length buf"
  show "rd_bind r f buf i \<noteq> Inl RE_Stuck"
  proof (cases "r buf i")
    case (Inl e)
    then show ?thesis using readsD(1) [OF assms(1) i] by (simp add: rd_bind_def)
  next
    case (Inr p)
    then obtain x j where xj: "r buf i = Inr (x, j)" by (cases p) simp
    note a = readsD(2) [OF assms(1) i xj]
    show ?thesis using readsD(1) [OF assms(2), of x j buf] a xj by (simp add: rd_bind_def)
  qed
  fix y j' assume "rd_bind r f buf i = Inr (y, j')"
  then obtain x j where xj: "r buf i = Inr (x, j)" "f x buf j = Inr (y, j')" by (auto simp: rd_bind_def result_bind_Inr_iff)
  note a = readsD(2) [OF assms(1) i xj(1)]
  show "i + (k + l) \<le> j' \<and> j' \<le> length buf \<and> Q y"
    using readsD(2) [OF assms(2), of x j buf y j'] a xj(2) by simp
qed

lemma reads_bind: "reads k r P \<Longrightarrow> (\<And>x. P x \<Longrightarrow> reads 0 (f x) Q) \<Longrightarrow> reads 0 (rd_bind r f) Q"
  using reads_mono [OF reads_add [of k r P 0 f Q], of 0 Q] by simp

lemma reads_first: "reads 1 r P \<Longrightarrow> (\<And>x. P x \<Longrightarrow> reads 0 (f x) Q) \<Longrightarrow> reads 1 (rd_bind r f) Q"
  using reads_add [of 1 r P 0 f Q] by simp

lemma reads_if: "(c \<Longrightarrow> reads k r Q) \<Longrightarrow> (\<not> c \<Longrightarrow> reads k s Q) \<Longrightarrow> reads k (if c then r else s) Q"
  by simp

lemma reads_len: "reads 0 rd_len (\<lambda>x. True)"
  by (simp add: reads_def rd_len_def)

lemma reads_index: "reads 0 rd_index (\<lambda>x. True)"
  by (simp add: reads_def rd_index_def)

lemma reads_slice: "reads n (rd_slice n) (\<lambda>bs. length bs = n)"
  by (auto simp: reads_def rd_slice_def split: if_splits)

lemma reads_slice0: "reads 0 (rd_slice n) (\<lambda>bs. length bs = n)"
  by (rule reads_mono [OF reads_slice]) simp_all

lemma reads_pop: "reads 1 rd_pop (\<lambda>x. True)"
  by (auto simp: reads_def rd_pop_def split: if_splits)

lemma reads_u16: "reads 1 rd_u16 (\<lambda>x. True)"
  unfolding rd_u16_def
  by (rule reads_mono [OF reads_add [OF reads_slice reads_return]]) simp_all

lemma reads_u32: "reads 1 rd_u32 (\<lambda>x. True)"
  unfolding rd_u32_def
  by (rule reads_mono [OF reads_add [OF reads_slice reads_return]]) simp_all

lemma reads_character_data: "reads 1 rd_character_data (\<lambda>bs. length bs \<le> 255)"
  unfolding rd_character_data_def
proof (rule reads_first [OF reads_pop])
  fix n :: u8
  have "unat n < 2 ^ 8" using unsigned_less [where ?'a = nat, of n] by simp
  then show "reads 0 (rd_slice (unat n)) (\<lambda>bs. length bs \<le> 255)" by (intro reads_mono [OF reads_slice]) simp_all
qed

definition full_name :: "dname \<Rightarrow> bool" where
  "full_name n \<longleftrightarrow> wf_name n \<and> set_fqdn True n = n"

lemma read_name_ends: "read_name buf i \<noteq> None"
proof -
  obtain r where "\<forall>k. read_loop (i + 129 + k) buf i i None None name_new = Some r" using read_name_terminates by blast
  then show ?thesis unfolding read_name_def by (metis add_0_right option.distinct(1))
qed

lemma reads_name: "reads 1 rd_name full_name"
proof (rule readsI)
  fix buf :: "u8 list" and i assume i: "i \<le> length buf"
  show "rd_name buf i \<noteq> Inl RE_Stuck"
    using read_name_ends [of buf i] by (auto simp: rd_name_def split: option.split sum.split)
  fix n j assume "rd_name buf i = Inr (n, j)"
  then have "read_loop (i + 129) buf i i None None name_new = Some (Inr (n, j))"
    by (auto simp: rd_name_def read_name_def split: option.splits sum.splits)
  moreover have "wf_name name_new" by (simp add: wf_name_def name_new_def encoded_len_def data_len_def max_name_length_def)
  ultimately have "wf_name n \<and> n_fqdn n \<and> i < j \<and> j \<le> length buf" using read_loop_wf [of _ buf i i None None name_new n j i] by simp
  then show "i + 1 \<le> j \<and> j \<le> length buf \<and> full_name n" by (simp add: full_name_def set_fqdn_def)
qed

lemma reads_many: "reads l r Q \<Longrightarrow> reads 0 (rd_many k r) (\<lambda>xs. length xs = k \<and> list_all Q xs)"
proof (induction k)
  case 0
  then show ?case by (simp add: reads_return)
next
  case (Suc k)
  show ?case unfolding rd_many.simps
    by (rule reads_bind [OF Suc.prems], rule reads_bind [OF Suc.IH [OF Suc.prems]], rule reads_return) simp
qed

lemma reads_many1: "reads 1 r Q \<Longrightarrow> 0 < k \<Longrightarrow> reads 1 (rd_many k r) (\<lambda>xs. True)"
proof (cases k)
  case (Suc l)
  assume a: "reads 1 r Q"
  show ?thesis unfolding Suc rd_many.simps
    by (rule reads_first [OF a], rule reads_bind [OF reads_many [OF a]], rule reads_return) simp
qed simp

lemma reads_while:
  assumes "\<And>s. I s \<Longrightarrow> reads 1 (step s) I" "I s"
  shows "reads 0 (rd_while c step s) I"
proof -
  have "rd_while c step s buf i \<noteq> Inl RE_Stuck \<and>
      (\<forall>x j. rd_while c step s buf i = Inr (x, j) \<longrightarrow> i \<le> j \<and> j \<le> length buf \<and> I x)"
    if "i \<le> length buf" "\<And>s. I s \<Longrightarrow> reads 1 (step s) I" "I s" for buf i
    using that
  proof (induction c step s buf i rule: rd_while.induct)
    case (1 c step s buf i)
    show ?case
    proof (cases "c i")
      case True
      show ?thesis
      proof (cases "step s buf i")
        case (Inl e)
        then show ?thesis using readsD(1) [OF 1(3) [OF 1(4)] 1(2)] True by (simp add: rd_while.simps [of c step s buf i])
      next
        case (Inr p)
        then obtain s' j where sj: "step s buf i = Inr (s', j)" by (cases p) simp
        note a = readsD(2) [OF 1(3) [OF 1(4)] 1(2) sj]
        then have ij: "i < j \<and> j \<le> length buf" "I s'" by auto
        have "rd_while c step s buf i = rd_while c step s' buf j" using ij(1) True sj by (simp add: rd_while.simps [of c step s buf i])
        moreover have "rd_while c step s' buf j \<noteq> Inl RE_Stuck \<and>
            (\<forall>x k. rd_while c step s' buf j = Inr (x, k) \<longrightarrow> j \<le> k \<and> k \<le> length buf \<and> I x)"
          by (rule 1(1) [OF True sj refl ij(1) conjunct2 [OF ij(1)] _ ij(2)]) (rule 1(3))
        ultimately show ?thesis using a by auto
      qed
    next
      case False
      then show ?thesis using 1(2, 4) by (simp add: rd_while.simps [of c step s buf i])
    qed
  qed
  note w = this [OF _ assms]
  show ?thesis
  proof (rule readsI)
    fix buf :: "u8 list" and i assume i: "i \<le> length buf"
    show "rd_while c step s buf i \<noteq> Inl RE_Stuck" by (rule conjunct1 [OF w [OF i]])
    fix x j assume "rd_while c step s buf i = Inr (x, j)"
    then show "i + 0 \<le> j \<and> j \<le> length buf \<and> I x" using conjunct2 [OF w [OF i]] by simp
  qed
qed

lemma reads_result: "r \<noteq> Inl RE_Stuck \<Longrightarrow> (\<And>x. r = Inr x \<Longrightarrow> Q x) \<Longrightarrow> reads 0 (rd_result r) Q"
  by (cases r) (auto simp: reads_def rd_result_def)

lemmas reads_primitive =
  reads_len reads_index reads_slice0 reads_pop reads_u16 reads_u32 reads_character_data reads_name

lemmas reads_steps =
  reads_bind [OF reads_len] reads_bind [OF reads_index] reads_bind [OF reads_slice] reads_bind [OF reads_pop]
  reads_bind [OF reads_u16] reads_bind [OF reads_u32] reads_bind [OF reads_character_data] reads_bind [OF reads_name]

lemmas reads_firsts =
  reads_first [OF reads_pop] reads_first [OF reads_u16] reads_first [OF reads_character_data] reads_first [OF reads_name]

section \<open>Octets that come back\<close>

text \<open>A list that is collected up to the end of the octets is these octets, if each item is.\<close>

definition exact :: "('a \<Rightarrow> u8 list) \<Rightarrow> 'a reader \<Rightarrow> bool" where
  "exact enc r \<longleftrightarrow> (\<forall>buf i. i \<le> length buf \<longrightarrow> r buf i \<noteq> Inl RE_Stuck \<and> (\<forall>x j. r buf i = Inr (x, j) \<longrightarrow>
     enc x \<noteq> [] \<and> j = i + length (enc x) \<and> j \<le> length buf \<and> take (length (enc x)) (drop i buf) = enc x))"

lemma rd_while_exact:
  assumes "exact enc r" "i \<le> length bs" "concat (List.map enc acc) = take i bs"
  shows "rd_while (\<lambda>i. i < length bs) (\<lambda>acc. rd_bind r (\<lambda>x. rd_return (acc @ [x]))) acc bs i \<noteq> Inl RE_Stuck \<and>
    (\<forall>xs j. rd_while (\<lambda>i. i < length bs) (\<lambda>acc. rd_bind r (\<lambda>x. rd_return (acc @ [x]))) acc bs i = Inr (xs, j) \<longrightarrow>
       concat (List.map enc xs) = bs)"
  using assms(2, 3)
proof (induction "length bs - i" arbitrary: i acc rule: less_induct)
  case less
  let ?step = "\<lambda>acc. rd_bind r (\<lambda>x. rd_return (acc @ [x]))"
  note e = assms(1) [unfolded exact_def, rule_format, OF less.prems(1)]
  show ?case
  proof (cases "i < length bs")
    case False
    then show ?thesis using less.prems by (subst (1 2) rd_while.simps) simp
  next
    case True
    show ?thesis
    proof (cases "r bs i")
      case (Inl err)
      then have "rd_while (\<lambda>i. i < length bs) ?step acc bs i = Inl err"
        using True by (subst rd_while.simps) (simp add: rd_bind_def)
      then show ?thesis using Inl e by simp
    next
      case (Inr p)
      then obtain x j where xj: "r bs i = Inr (x, j)" by (cases p) simp
      then have a: "enc x \<noteq> []" "j = i + length (enc x)" "j \<le> length bs" "take (length (enc x)) (drop i bs) = enc x"
        using e by auto
      then have "0 < length (enc x)" by simp
      then have ij: "i < j" "length bs - j < length bs - i" using True a(2) by linarith+
      have "rd_while (\<lambda>i. i < length bs) ?step acc bs i = rd_while (\<lambda>i. i < length bs) ?step (acc @ [x]) bs j"
        using True xj ij(1) a(3) by (subst rd_while.simps) (simp add: rd_bind_def rd_return_def)
      moreover have "concat (List.map enc (acc @ [x])) = take j bs"
        using less.prems(2) a(2, 4) by (simp add: take_add)
      ultimately show ?thesis using less.hyps [OF ij(2) a(3), of "acc @ [x]"] by simp
    qed
  qed
qed

lemma collect_exact:
  assumes "exact enc r"
  shows "collect r bs \<noteq> Inl RE_Stuck" "collect r bs = Inr xs \<Longrightarrow> concat (List.map enc xs) = bs"
  using rd_while_exact [OF assms, of 0 bs "[]"]
  by (cases "rd_while (\<lambda>i. i < length bs) (\<lambda>acc. rd_bind r (\<lambda>x. rd_return (acc @ [x]))) [] bs 0"; force simp: collect_def)+

lemma collect_not_stuck:
  assumes "reads 1 r Q"
  shows "collect r bs \<noteq> Inl RE_Stuck"
proof -
  have "reads 0 (rd_while (\<lambda>i. i < length bs) (\<lambda>acc. rd_bind r (\<lambda>x. rd_return (acc @ [x]))) []) (\<lambda>xs. True)"
    by (rule reads_while [OF reads_first [OF assms reads_return]]) simp_all
  from readsD(1) [OF this, of 0 bs] show ?thesis
    by (cases "rd_while (\<lambda>i. i < length bs) (\<lambda>acc. rd_bind r (\<lambda>x. rd_return (acc @ [x]))) [] bs 0") (auto simp: collect_def)
qed

lemma exact_u16: "exact (be_octets 2) rd_u16"
  unfolding exact_def rd_u16_def
  by (auto simp: rd_bind_def rd_return_def rd_slice_def be_octets_from_be split: if_splits)

lemma exact_alpn: "exact counted rd_alpn"
  unfolding exact_def
proof (intro allI impI conjI)
  fix buf :: "u8 list" and i assume i: "i \<le> length buf"
  show "rd_alpn buf i \<noteq> Inl RE_Stuck"
    by (simp add: rd_alpn_def rd_character_data_def rd_bind_def rd_pop_def rd_slice_def rd_return_def rd_fail_def)
  fix s j assume "rd_alpn buf i = Inr (s, j)"
  then have s: "i < length buf" "s = take (unat (buf ! i)) (drop (i + 1) buf)" "j = i + 1 + unat (buf ! i)" "j \<le> length buf"
    by (auto simp: rd_alpn_def rd_character_data_def rd_bind_def rd_pop_def rd_slice_def rd_return_def rd_fail_def
        result_bind_Inr_iff split: if_splits)
  then have len: "length s = unat (buf ! i)" by simp
  then have c: "counted s = buf ! i # s" by (simp add: counted_def)
  then show "counted s \<noteq> []" "j = i + length (counted s)" "j \<le> length buf" using s len by simp_all
  have "drop i buf = buf ! i # drop (i + 1) buf" using s(1) by (simp add: Cons_nth_drop_Suc)
  then show "take (length (counted s)) (drop i buf) = counted s" unfolding c using s(2) len by simp
qed

section \<open>Data of records\<close>

lemma reads_a: "reads 1 rd_a (\<lambda>x. True)"
  unfolding rd_a_def by (rule reads_first [OF reads_many1 [OF reads_pop] reads_return]) simp_all

lemma reads_aaaa: "reads 1 rd_aaaa (\<lambda>x. True)"
  unfolding rd_aaaa_def by (rule reads_first [OF reads_many1 [OF reads_u16] reads_return]) simp_all

lemma svc_value_ok:
  "svc_value key bs \<noteq> Inl RE_Stuck" "svc_value key bs = Inr p \<Longrightarrow> svc_param_ok p"
proof -
  note addr = collect_not_stuck [OF reads_a, of bs] collect_not_stuck [OF reads_aaaa, of bs]
  note k = collect_exact [OF exact_u16, of bs] and alpn = collect_exact [OF exact_alpn, of bs]
  have port: "rd_u16 bs 0 \<noteq> Inl RE_Stuck" using readsD(1) [OF reads_u16, of 0 bs] by simp
  have port2: "rd_u16 (be_octets 2 w) 0 = Inr (w, 2)" for w using rd_u16_at [of "[]" w "[]"] by simp
  show "svc_value key bs \<noteq> Inl RE_Stuck" unfolding svc_value_def
    using k(1) alpn(1) addr port by (cases "collect rd_u16 bs"; cases "collect rd_alpn bs"; cases "rd_u16 bs 0"; cases "collect rd_a bs"; cases "collect rd_aaaa bs") auto
  assume p: "svc_value key bs = Inr p"
  have "svc_value k' bs' = Inr p" if "p = SvcParam k' bs'" for k' bs'
  proof (cases "key = 3")
    case True
    then have "\<exists>w :: u16. p = SvcParam 3 (be_octets 2 w)" using p by (auto simp: svc_value_def result_bind_Inr_iff)
    then obtain w :: u16 where "p = SvcParam 3 (be_octets 2 w)" by blast
    then show ?thesis using that port2 by (simp add: svc_value_def)
  next
    case False
    then have "k' = key \<and> bs' = bs"
      using p that k(2) alpn(2) by (auto simp: svc_value_def result_bind_Inr_iff split: if_splits)
    then show ?thesis using p by simp
  qed
  then show "svc_param_ok p" by (simp add: svc_param_ok_def split: svc_param.split)
qed

lemma reads_svc_value: "reads 1 (rd_svc_value key) svc_param_ok"
  unfolding rd_svc_value_def
  by (intro reads_firsts reads_steps reads_if reads_fail reads_result)
    (auto simp: svc_value_ok)

lemma reads_svc_param:
  assumes "\<forall>p \<in> set params. svc_param_ok p"
  shows "reads 1 (rd_svc_param stop params) (\<lambda>ps. \<forall>p \<in> set ps. svc_param_ok p)"
proof -
  have behind: "reads 0 (rd_not_behind stop) (\<lambda>u. True)"
    unfolding rd_not_behind_def by (intro reads_steps reads_if reads_fail reads_return) simp_all
  show ?thesis unfolding rd_svc_param_def
    by (intro reads_firsts reads_bind [OF reads_svc_value] reads_if reads_fail reads_bind [OF behind] reads_return)
      (use assms in auto)
qed

definition full_svcb :: "svcb \<Rightarrow> bool" where
  "full_svcb s \<longleftrightarrow> full_name (svc_target_name s) \<and> (\<forall>p \<in> set (svc_params s). svc_param_ok p)"

lemma reads_svcb: "reads 0 (rd_svcb rdlen) full_svcb"
proof -
  have behind: "reads 0 (rd_not_behind stop) (\<lambda>u. True)" for stop
    unfolding rd_not_behind_def by (intro reads_steps reads_if reads_fail reads_return) simp_all
  have loop: "reads 0 (rd_while c (rd_svc_param stop) []) (\<lambda>ps. \<forall>p \<in> set ps. svc_param_ok p)" for c stop
    by (rule reads_while [OF reads_svc_param]) simp_all
  show ?thesis unfolding rd_svcb_def
    by (intro reads_steps reads_bind [OF behind] reads_bind [OF loop] reads_return) (simp add: full_svcb_def)
qed

definition full_option :: "edns_option \<Rightarrow> bool" where
  "full_option opt \<longleftrightarrow> option_ok opt \<and> wire_option opt = opt"

lemma cut_padded:
  assumes "length bs = n"
  shows "n \<le> 4 \<Longrightarrow> cut_address n (IpV4 (from_be (padded 4 bs))) = IpV4 (from_be (padded 4 bs))"
    "n \<le> 16 \<Longrightarrow> cut_address n (IpV6 (from_be (padded 16 bs))) = IpV6 (from_be (padded 16 bs))"
proof -
  have "take n (padded k bs) = bs" for k using assms by (simp add: padded_def)
  then show "n \<le> 4 \<Longrightarrow> cut_address n (IpV4 (from_be (padded 4 bs))) = IpV4 (from_be (padded 4 bs))"
    "n \<le> 16 \<Longrightarrow> cut_address n (IpV6 (from_be (padded 16 bs))) = IpV6 (from_be (padded 16 bs))"
    using assms by (simp_all add: cut_address_def octets_be be_octets_from_be)
qed

lemma reads_client_subnet: "reads 0 rd_client_subnet (\<lambda>s. full_option (EO_Subnet s))"
  unfolding rd_client_subnet_def
  by (intro reads_steps reads_if reads_fail reads_bind [OF reads_many [OF reads_pop]] reads_return)
    (auto simp: full_option_def cut_padded)

lemma option_from_ok:
  "option_from code bs \<noteq> Inl RE_Stuck" "option_from code bs = Inr opt \<Longrightarrow> full_option opt"
proof -
  note s = readsD [OF reads_client_subnet, of 0 bs]
  show "option_from code bs \<noteq> Inl RE_Stuck"
    using s(1) by (cases "rd_client_subnet bs 0") (auto simp: option_from_def)
  show "option_from code bs = Inr opt \<Longrightarrow> full_option opt"
    using s(2) by (auto simp: option_from_def result_bind_Inr_iff full_option_def split: if_splits)
qed

lemma reads_opt: "reads 0 (rd_opt rdlen) (\<lambda>options. \<forall>opt \<in> set options. full_option opt)"
proof -
  let ?I = "\<lambda>(state :: opt_read_state, options). \<forall>opt \<in> set options. full_option opt"
  have step: "reads 1 (opt_step rdlen s) ?I" if "?I s" for s
  proof (cases "(rdlen, s)" rule: opt_step.cases)
    case (1 r options)
    then show ?thesis using that by (auto simp only: opt_step.simps prod.inject intro!: reads_firsts reads_return)
  next
    case (2 r code options)
    then have s: "r = rdlen" "s = (OptCode code, options)" by simp_all
    show ?thesis unfolding s opt_step.simps using that [unfolded s]
      by (intro reads_firsts reads_if reads_fail reads_return reads_bind [OF reads_result]) (auto simp: option_from_ok)
  next
    case (3 r code len collected options)
    then have s: "r = rdlen" "s = (OptData code len collected, options)" by simp_all
    show ?thesis unfolding s opt_step.simps using that [unfolded s]
      by (intro reads_firsts reads_if reads_fail reads_return reads_bind [OF reads_result]) (auto simp: option_from_ok)
  qed
  have "reads 0 (rd_while c (opt_step rdlen) (ReadCode, [])) ?I" for c
    by (rule reads_while [OF step]) simp_all
  then show ?thesis unfolding rd_opt_def
    by (intro reads_steps) (auto intro!: reads_bind reads_return split: prod.splits if_splits)
qed

lemma reads_txt: "reads 0 (rd_txt rdlen) (\<lambda>ss. \<forall>s \<in> set ss. length s \<le> 255)"
proof -
  have "reads 0 (rd_while c (\<lambda>strings. rd_bind rd_character_data (\<lambda>s. rd_return (strings @ [s]))) [])
      (\<lambda>ss. \<forall>s \<in> set ss. length s \<le> 255)" for c
    by (rule reads_while) (auto intro!: reads_firsts(3) [unfolded One_nat_def] reads_return)
  then show ?thesis unfolding rd_txt_def by (intro reads_steps)
qed

lemma txt_not_empty:
  assumes "rd_txt rdlen buf i = Inr ([], j)"
  shows "j = i"
proof -
  have grow: "s \<noteq> [] \<Longrightarrow> rd_while c (\<lambda>strings. rd_bind rd_character_data (\<lambda>s. rd_return (strings @ [s]))) s buf i \<noteq> Inr ([], j)" for c s i
  proof (induction "length buf - i" arbitrary: s i rule: less_induct)
    case less
    show ?case
      by (subst rd_while.simps)
        (use less in \<open>auto simp: rd_bind_def rd_return_def result_bind_Inr_iff split: sum.splits dest: less.hyps [rotated]\<close>)
  qed
  show ?thesis
    using assms grow by (auto simp: rd_txt_def rd_bind_def rd_index_def rd_return_def rd_while.simps [of _ _ "[]"]
        result_bind_Inr_iff split: if_splits sum.splits)
qed

text \<open>The octets of the types that are kept as octets pass the checks of their types again.\<close>

definition full_octets :: "rtype \<Rightarrow> nat \<Rightarrow> u8 list \<Rightarrow> bool" where
  "full_octets rt rdlen bs \<longleftrightarrow> octets_ok rt bs \<and> (bs = [] \<longrightarrow> rdlen = 0)"

lemma hinfo_octets: "length cpu \<le> 255 \<Longrightarrow> length os \<le> 255 \<Longrightarrow> hinfo_ok (counted cpu @ counted os)"
  by (simp add: hinfo_ok_def counted_def unat_of_nat)

lemma bit_maps_not_stuck: "bit_maps state bs \<noteq> Inl RE_Stuck"
proof (induction bs arbitrary: state)
  case (Cons b bs)
  have "bit_map_step state b \<noteq> Inl RE_Stuck" by (cases state) simp_all
  then show ?case using Cons.IH by (cases "bit_map_step state b") simp_all
qed simp

lemma reads_caa_tag:
  "reads 0 (rd_caa_tag n) (\<lambda>tag. n \<noteq> 0 \<and> n \<le> 15 \<and> length tag = n \<and> list_all alphanumeric_octet tag)"
proof -
  have "reads 1 (rd_bind rd_pop (\<lambda>ch. if alphanumeric_octet ch then rd_return ch
      else rd_fail (RE_Message ''CAA tag character(s) out of bounds''))) alphanumeric_octet"
    by (intro reads_firsts reads_if reads_fail reads_return) simp_all
  note many = reads_many [OF this, of n]
  show ?thesis
  proof (cases "n = 0 \<or> 15 < n")
    case True
    then show ?thesis by (simp add: rd_caa_tag_def reads_fail)
  next
    case False
    then show ?thesis using reads_mono [OF many, of 0] by (simp add: rd_caa_tag_def)
  qed
qed

lemma counted_ne: "counted s \<noteq> []"
  by (simp add: counted_def)

lemma be_octets_ne: "0 < n \<Longrightarrow> be_octets n w \<noteq> []"
  by (metis length_be_octets list.size(3) less_irrefl)

lemma reads_octets: "reads 0 (rd_octets rt rdlen) (full_octets rt rdlen)"
proof -
  have plain: "reads 0 (rd_slice rdlen) (full_octets t rdlen)" if "octets_ok t = (\<lambda>bs. True)" for t
    by (rule reads_mono [OF reads_slice]) (use that in \<open>auto simp: full_octets_def\<close>)
  show ?thesis
  proof (cases rt)
    case RT_CAA
    then show ?thesis unfolding rd_octets_def
      by (simp add: rd_caa_def) (intro reads_steps reads_if reads_fail reads_bind [OF reads_caa_tag] reads_return,
        auto simp: full_octets_def octets_ok_def caa_ok_def unat_eq_zero)
  next
    case RT_CERT
    then show ?thesis unfolding rd_octets_def
      by (simp add: rd_cert_def) (intro conjI impI reads_steps reads_fail reads_return, auto simp: full_octets_def octets_ok_def)
  next
    case RT_CSYNC
    have "reads 0 (rd_csync rdlen) (full_octets rt rdlen)" unfolding rd_csync_def
      by (intro reads_steps reads_if reads_fail reads_bind [OF reads_result] reads_return)
        (auto simp: full_octets_def octets_ok_def csync_ok_def RT_CSYNC bit_maps_not_stuck be_octets_ne)
    then show ?thesis using RT_CSYNC by (simp add: rd_octets_def)
  next
    case RT_HINFO
    have "reads 0 rd_hinfo (full_octets rt rdlen)" unfolding rd_hinfo_def
      by (intro reads_steps reads_return) (simp add: full_octets_def octets_ok_def RT_HINFO hinfo_octets counted_ne)
    then show ?thesis using RT_HINFO by (simp add: rd_octets_def)
  next
    case RT_SSHFP
    then show ?thesis unfolding rd_octets_def
      by (simp add: rd_sshfp_def) (intro reads_steps reads_if reads_fail reads_return, auto simp: full_octets_def octets_ok_def)
  next
    case RT_TLSA
    then show ?thesis unfolding rd_octets_def
      by (simp add: rd_tlsa_def) (intro reads_steps reads_if reads_fail reads_return, auto simp: full_octets_def octets_ok_def)
  qed (simp_all add: rd_octets_def plain octets_ok_def [abs_def])
qed

definition full_data :: "rtype \<Rightarrow> nat \<Rightarrow> rdata \<Rightarrow> bool" where
  "full_data t rdlen d \<longleftrightarrow>
     rdata_ok d \<and> rd_type d = t \<and> wire_fields d = d \<and>
     (no_octets d \<and> t \<noteq> RT_TXT \<and> t \<noteq> RT_OPT \<and> t \<noteq> RT_ZERO \<longrightarrow> rdlen = 0)"

lemma reads_a0: "reads 0 rd_a (\<lambda>x. True)" "reads 0 rd_aaaa (\<lambda>x. True)"
  using reads_mono [OF reads_a, of 0] reads_mono [OF reads_aaaa, of 0] by simp_all

lemma full_nameD: "full_name n \<Longrightarrow> wf_name n" "full_name n \<Longrightarrow> set_fqdn True n = n"
  by (simp_all add: full_name_def)

lemma reads_fields:
  assumes "rtype_ok t" "t \<noteq> RT_ANY" "t \<noteq> RT_AXFR" "t \<noteq> RT_IXFR"
  shows "reads 0 (rd_fields t rdlen) (full_data t rdlen)"
proof -
  note data = full_data_def full_nameD
  have octets: "reads 0 (rd_bind (rd_octets t rdlen) (\<lambda>bs. rd_return (RD_Other t bs))) (full_data t rdlen)" if "plain_type t"
    by (rule reads_bind [OF reads_octets], rule reads_return)
      (use assms(1) that in \<open>auto simp: full_data_def full_octets_def\<close>)
  have soa: "reads 0 rd_soa (\<lambda>s. full_name (soa_mname s) \<and> full_name (soa_rname s))"
    unfolding rd_soa_def by (intro reads_steps reads_return) simp
  have srv: "reads 0 rd_srv (\<lambda>s. full_name (srv_target s))"
    unfolding rd_srv_def by (intro reads_steps reads_return) simp
  have naptr: "reads 0 rd_naptr (\<lambda>n. full_name (nap_replacement n) \<and> verify_flags (nap_flags n))"
    unfolding rd_naptr_def by (intro reads_steps reads_if reads_fail reads_return) auto
  have svcb: "reads 0 (rd_bind (rd_svcb rdlen) (\<lambda>s. rd_return (f s))) (full_data t rdlen)"
    if "\<And>s. full_svcb s \<Longrightarrow> full_data t rdlen (f s)" for f
    by (rule reads_bind [OF reads_svcb], rule reads_return) (rule that)
  have name: "reads 0 (rd_bind rd_name (\<lambda>n. rd_return (f n))) (full_data t rdlen)"
    if "\<And>n. full_name n \<Longrightarrow> full_data t rdlen (f n)" for f
    by (intro reads_steps reads_return) (rule that)
  show ?thesis
  proof (cases t)
    case RT_MX
    have "reads 0 rd_mx (full_data t rdlen)" unfolding rd_mx_def
      by (intro reads_steps reads_return) (simp add: data RT_MX)
    then show ?thesis using RT_MX by (simp add: rd_fields_def)
  next
    case RT_SOA
    then show ?thesis unfolding rd_fields_def by simp (rule reads_bind [OF soa], rule reads_return, simp add: data)
  next
    case RT_SRV
    then show ?thesis unfolding rd_fields_def by simp (rule reads_bind [OF srv], rule reads_return, simp add: data)
  next
    case RT_NAPTR
    then show ?thesis unfolding rd_fields_def by simp (rule reads_bind [OF naptr], rule reads_return, simp add: data)
  next
    case RT_HTTPS
    then show ?thesis using svcb [of RD_HTTPS] by (simp add: rd_fields_def full_data_def full_svcb_def svcb_ok_def full_nameD)
  next
    case RT_SVCB
    then show ?thesis using svcb [of RD_SVCB] by (simp add: rd_fields_def full_data_def full_svcb_def svcb_ok_def full_nameD)
  next
    case RT_OPT
    have "reads 0 (rd_bind (rd_opt rdlen) (\<lambda>options. rd_return (RD_OPT options))) (full_data t rdlen)"
      by (rule reads_bind [OF reads_opt], rule reads_return)
        (simp add: full_data_def full_option_def RT_OPT map_idI)
    then show ?thesis using RT_OPT by (simp add: rd_fields_def)
  next
    case RT_TXT
    have "reads 0 (rd_bind (rd_txt rdlen) (\<lambda>ss. rd_return (RD_TXT (List.map from_bytes ss)))) (full_data t rdlen)"
      by (rule reads_bind [OF reads_txt], rule reads_return) (simp add: full_data_def RT_TXT)
    then show ?thesis using RT_TXT by (simp add: rd_fields_def)
  next
    case RT_A
    then show ?thesis unfolding rd_fields_def by simp (rule reads_bind [OF reads_a0(1)], rule reads_return, simp add: data)
  next
    case RT_AAAA
    then show ?thesis unfolding rd_fields_def by simp (rule reads_bind [OF reads_a0(2)], rule reads_return, simp add: data)
  next
    case RT_ANAME
    then show ?thesis using name [of RD_ANAME] by (simp add: rd_fields_def data)
  next
    case RT_CNAME
    then show ?thesis using name [of RD_CNAME] by (simp add: rd_fields_def data)
  next
    case RT_NS
    then show ?thesis using name [of RD_NS] by (simp add: rd_fields_def data)
  next
    case RT_PTR
    then show ?thesis using name [of RD_PTR] by (simp add: rd_fields_def data)
  next
    case RT_ZERO
    then show ?thesis unfolding rd_fields_def by simp (rule reads_return, simp add: data)
  qed (use assms octets in \<open>simp_all add: rd_fields_def plain_type_def\<close>)
qed

definition full_rdata :: "rtype \<Rightarrow> rdata \<Rightarrow> bool" where
  "full_rdata t d \<longleftrightarrow>
     rdata_ok d \<and> rd_type d = t \<and>
     (if t = RT_OPT then \<forall>options. d = RD_OPT options \<longrightarrow> List.map wire_option options = options else wire_rdata d = d)"

lemma rd_fields_empty:
  assumes "rd_fields t rdlen buf i = Inr (d, j)" "no_octets d" "rd_type d = t" "t = RT_TXT \<or> t = RT_ZERO"
  shows "j = i"
  using assms txt_not_empty [of rdlen buf i j]
  by (auto simp: rd_fields_def rd_bind_def rd_return_def result_bind_Inr_iff)

lemma reads_rdata:
  assumes "rtype_ok t" "0 < rdlen"
  shows "reads 0 (rd_rdata t rdlen) (full_rdata t)"
proof (cases "t = RT_ANY \<or> t = RT_AXFR \<or> t = RT_IXFR")
  case True
  then show ?thesis by (auto simp: rd_rdata_def intro: reads_fail)
next
  case False
  note f = reads_fields [OF assms(1), of rdlen]
  show ?thesis
  proof (rule readsI)
    fix buf :: "u8 list" and i assume i: "i \<le> length buf"
    have f: "reads 0 (rd_fields t rdlen) (full_data t rdlen)" using reads_fields [OF assms(1)] False by simp
    show "rd_rdata t rdlen buf i \<noteq> Inl RE_Stuck" using False readsD(1) [OF f i]
      by (cases "rd_fields t rdlen buf i")
        (auto simp: rd_rdata_def rd_bind_def rd_index_def rd_return_def rd_fail_def split: if_splits)
    fix d j assume "rd_rdata t rdlen buf i = Inr (d, j)"
    then have d: "rd_fields t rdlen buf i = Inr (d, j)" "j - i = rdlen"
      using False by (auto simp: rd_rdata_def rd_bind_def rd_index_def rd_return_def rd_fail_def result_bind_Inr_iff split: if_splits)
    note a = readsD(2) [OF f i d(1)]
    have "\<not> no_octets d" if "t \<noteq> RT_OPT"
      using that a assms(2) d(2) rd_fields_empty [OF d(1)] by (auto simp: full_data_def)
    then show "i + 0 \<le> j \<and> j \<le> length buf \<and> full_rdata t d"
      using a by (auto simp: full_rdata_def full_data_def wire_rdata_def)
  qed
qed

section \<open>Queries, records and messages\<close>

lemma rtype_ok_of: "rtype_ok (rt_of_u16 v)"
  by (simp add: rtype_ok_def rt_to_of_u16)

lemma class_to_of: "class_to_u16 (class_of_u16 v) = v"
  by (simp add: class_of_u16_def)

lemma class_ok_of: "class_of_u16 v = c \<Longrightarrow> v AND 0x8000 = 0 \<Longrightarrow> class_ok c"
  using class_to_of [of v] by (auto simp: class_ok_def)

lemma reads_class: "reads 1 rd_class (\<lambda>(mdns, c). class_ok c)"
proof -
  have top: "(v AND NOT 0x8000) AND 0x8000 = 0" for v :: u16 by (simp only: and.assoc bit.conj_cancel_left bit.conj_zero_right)
  show ?thesis unfolding rd_class_def
    by (intro reads_firsts reads_if reads_return) (auto simp: word_gt_0 intro!: class_ok_of [OF refl] top [simplified])
qed

definition full_query :: "query \<Rightarrow> bool" where
  "full_query q \<longleftrightarrow> query_ok q \<and> wire_query q = q"

lemma reads_query: "reads 1 rd_query full_query"
  unfolding rd_query_def
  by (intro reads_firsts reads_steps reads_bind [OF reads_class])
    (auto intro!: reads_return simp: full_query_def query_ok_def wire_query_def rtype_ok_of full_name_def)

definition full_edns :: "edns \<Rightarrow> bool" where
  "full_edns e \<longleftrightarrow> edns_ok e \<and> wire_edns e = e"

definition full_record :: "rr \<Rightarrow> bool" where
  "full_record r \<longleftrightarrow>
     (if rr_type r = RT_OPT then full_edns (edns_of_record r) else record_ok r \<and> wire_record r = r)"

lemma reads_record_class:
  "full_name n \<Longrightarrow> reads 0 (rd_record_class t n) (\<lambda>(mdns, c). if t = RT_OPT then \<exists>v. c = class_for_opt v else class_ok c)"
  unfolding rd_record_class_def
  using reads_mono [OF reads_class, of 0]
  by (auto intro!: reads_steps reads_fail reads_return)

lemma reads_data: "rtype_ok t \<Longrightarrow> reads 0 (rd_data t) (full_rdata t)"
  unfolding rd_data_def
  by (intro reads_steps reads_if reads_fail reads_return reads_rdata)
    (auto simp: full_rdata_def wire_rdata_def unat_gt_0)

lemma and_z: "(w AND 0x7FFF) AND 0x7FFF = w AND (0x7FFF :: u16)"
  by (simp add: and.assoc)

lemma full_record_read:
  assumes "full_name n" "rtype_ok t" "full_rdata t d" "if t = RT_OPT then \<exists>v. c = class_for_opt v else class_ok c"
  shows "full_record \<lparr>rr_name = n, rr_class = c, rr_ttl = ttl, rr_data = d, rr_cache_flush = mdns\<rparr>"
proof (cases "t = RT_OPT")
  case True
  then obtain v where v: "c = DC_OPT (max v 512)" using assms(4) by (auto simp: class_for_opt_def)
  have t: "rd_type d = RT_OPT" using assms(3) True by (simp add: full_rdata_def)
  have "\<forall>opt \<in> set options. option_ok opt \<and> wire_option opt = opt" if "d = RD_OPT options" for options
    using assms(3) that True by (auto simp: full_rdata_def map_eq_conv [where g = id, simplified])
  then show ?thesis using t v
    by (auto simp: full_record_def rr_type_def full_edns_def edns_of_record_def Let_def edns_ok_def wire_edns_def and_z
        map_idI split: rdata.splits)
next
  case False
  then show ?thesis using assms
    by (auto simp: full_record_def rr_type_def full_rdata_def record_ok_def wire_record_def full_name_def)
qed

lemma reads_record: "reads 1 rd_record full_record"
  unfolding rd_record_alt
  by (intro reads_firsts reads_steps reads_bind [OF reads_record_class] reads_bind [OF reads_data])
    (auto intro!: reads_bind [OF reads_record_class] reads_steps reads_bind [OF reads_data] reads_return full_record_read rtype_ok_of)

definition section_ok :: "bool \<Rightarrow> rr list \<Rightarrow> bool" where
  "section_ok additional rs \<longleftrightarrow>
     (\<forall>r \<in> set rs. record_ok r \<and> wire_record r = r \<and> (if additional then rr_type r \<noteq> RT_OPT else ordinary r))"

lemma reads_records:
  assumes "section_ok additional acc" "\<forall>e \<in> set_option ed. full_edns e"
  shows "reads 0 (rd_records k additional acc ed) (\<lambda>(rs, e). section_ok additional rs \<and> (\<forall>e \<in> set_option e. full_edns e) \<and>
     (\<not> additional \<longrightarrow> e = ed) \<and>
     length rs + (case e of None \<Rightarrow> 0 | Some _ \<Rightarrow> 1) = length acc + k + (case ed of None \<Rightarrow> 0 | Some _ \<Rightarrow> 1))"
  using assms
proof (induction k arbitrary: acc ed)
  case 0
  then show ?case by (simp add: reads_return)
next
  case (Suc k)
  show ?case unfolding rd_records.simps Let_def
  proof (intro reads_bind [OF reads_record] reads_if reads_fail)
    fix r assume r: "full_record r" and "\<not> (\<not> additional \<and> (rr_type r = RT_OPT \<or> rr_type r = RT_SIG \<or> rr_type r = RT_TSIG))"
    then have s: "section_ok additional (acc @ [r])" if "rr_type r \<noteq> RT_OPT"
      using that Suc.prems(1) by (auto simp: section_ok_def full_record_def ordinary_def)
    note IH = Suc.IH [of "acc @ [r]" ed] 
    let ?Q = "\<lambda>(rs, e). section_ok additional rs \<and> (\<forall>e \<in> set_option e. full_edns e) \<and> (\<not> additional \<longrightarrow> e = ed) \<and>
       length rs + (case e of None \<Rightarrow> 0 | Some _ \<Rightarrow> 1) = length acc + Suc k + (case ed of None \<Rightarrow> 0 | Some _ \<Rightarrow> 1)"
    show "reads 0 (rd_records k additional (acc @ [r]) ed) ?Q" if "\<not> additional"
      by (rule reads_mono [OF IH]) (use that s Suc.prems r \<open>\<not> (\<not> additional \<and> _)\<close> in auto)
    show "reads 0 (rd_records k additional (acc @ [r]) ed) ?Q" if "rr_type r \<noteq> RT_OPT"
      by (rule reads_mono [OF IH]) (use that s Suc.prems in auto)
    assume "rr_type r = RT_OPT" "\<not> ed \<noteq> None" "\<not> \<not> additional"
    then show "reads 0 (rd_records k additional acc (Some (edns_of_record r))) ?Q"
      by (intro reads_mono [OF Suc.IH [of acc "Some (edns_of_record r)"]])
        (use r Suc.prems in \<open>auto simp: full_record_def\<close>)
  qed simp_all
qed

lemma small_word: "unat (w AND mask n) < 2 ^ n" for w :: "'a::len word"
  by (metis take_bit_eq_mask take_bit_nat_less_exp unsigned_take_bit_eq)

lemma canonical_op_read: "canonical_op (flags1_op v)"
proof -
  have "drop_bit 3 (0x78 AND v) = drop_bit 3 v AND mask 4"
  proof -
    have m: "(0x78 :: u8) = push_bit 3 (mask 4)" by (simp add: mask_eq_exp_minus_1 push_bit_eq_mult)
    show ?thesis unfolding m by (rule bit_word_eqI) (auto simp: bit_simps)
  qed
  then have "drop_bit 3 (0x78 AND v) < 16" using small_word [of "drop_bit 3 v" 4] by (simp add: word_less_nat_alt)
  then show ?thesis by (simp add: flags1_op_def canonical_op_def op_to_from_u8)
qed

definition full_header :: "header \<Rightarrow> bool" where
  "full_header h \<longleftrightarrow> canonical_op (h_op_code h) \<and> (\<exists>low. h_response_code h = rc_from_low low)"

lemma read_u16_Some: "read_u16 bs = Some (w, rest) \<Longrightarrow> length bs = length rest + 2"
  by (cases bs rule: read_u16.cases) auto

lemma read_u8_Some: "read_u8 bs = Some (w, rest) \<Longrightarrow> length bs = length rest + 1"
  by (cases bs) auto

lemma read_header_Some:
  "read_header bs = Some (h, rest) \<Longrightarrow> length bs = length rest + 12 \<and> full_header h"
  by (auto simp: read_header_def full_header_def canonical_op_read split: option.splits dest!: read_u16_Some read_u8_Some, metis)

lemma reads_header: "reads 1 rd_header full_header"
proof (rule readsI)
  fix buf :: "u8 list" and i assume i: "i \<le> length buf"
  show "rd_header buf i \<noteq> Inl RE_Stuck" by (auto simp: rd_header_def split: option.splits)
  fix h j assume "rd_header buf i = Inr (h, j)"
  then obtain rest where "read_header (drop i buf) = Some (h, rest)" "j = length buf - length rest"
    by (auto simp: rd_header_def split: option.splits)
  then show "i + 1 \<le> j \<and> j \<le> length buf \<and> full_header h" using read_header_Some i by fastforce
qed

lemma section_map: "section_ok additional rs \<Longrightarrow> List.map wire_record rs = rs"
  by (simp add: section_ok_def map_idI)

text \<open>What the reader returns: a message that can be written, and that the format says in full.\<close>

definition settled :: "message \<Rightarrow> bool" where
  "settled m \<longleftrightarrow> message_ok m \<and> complete m (m_header m) \<and> wire_message m (m_header m) = m"

lemma high_bits:
  fixes high :: u8 and low :: u16
  defines "w \<equiv> push_bit 4 (ucast high) OR (low AND 0x000F) :: u16"
  shows "w AND 0x0FFF = w" "rc_high (rc_of_u16 w) = high"
proof -
  have m: "(0x000F :: u16) = mask 4" "(0x0FF0 :: u16) = push_bit 4 (mask 8)" "(0x0FFF :: u16) = mask 12"
    by (simp_all add: mask_eq_exp_minus_1 push_bit_eq_mult)
  show "w AND 0x0FFF = w" unfolding w_def m
    by (rule bit_word_eqI) (auto simp: bit_simps dest: bit_imp_le_length)
  show "rc_high (rc_of_u16 w) = high" unfolding rc_high_def rc_to_of_u16 w_def m
    by (rule bit_word_eqI) (auto simp: bit_simps dest: bit_imp_le_length)
qed

lemma settled_header:
  assumes "full_header h" "\<forall>e \<in> set_option ed. full_edns e"
    "m_header m = (case ed of Some e \<Rightarrow> merge_response_code (ed_rcode_high e) h | None \<Rightarrow> h)" "m_edns m = ed"
  shows "wire_header m (m_header m) = m_header m" "map_option wire_edns (written_edns m) = ed"
    "canonical_op (h_op_code (m_header m))"
proof -
  show "canonical_op (h_op_code (m_header m))"
    using assms(1, 3) by (cases ed) (simp_all add: full_header_def merge_response_code_def)
  show "wire_header m (m_header m) = m_header m"
  proof (cases ed)
    case None
    obtain low where "h_response_code h = rc_from_low low" using assms(1) by (auto simp: full_header_def)
    then have "rc_of_u16 (rc_to_u16 (h_response_code h) AND 0x000F) = h_response_code h"
      by (simp add: rc_from_low_def rc_to_of_u16 and.assoc)
    then show ?thesis using None assms(3, 4) by (simp add: wire_header_def)
  next
    case (Some e)
    have "rc_of_u16 (rc_to_u16 (h_response_code (m_header m)) AND 0x0FFF) = h_response_code (m_header m)"
      using Some assms(3) by (simp add: merge_response_code_def rc_to_of_u16 high_bits)
    then show ?thesis using Some assms(4) by (simp add: wire_header_def)
  qed
  show "map_option wire_edns (written_edns m) = ed"
    using assms by (cases ed) (simp_all add: written_edns_def merge_response_code_def high_bits full_edns_def wire_edns_def)
qed

lemma reads_message: "reads 1 rd_message settled"
  unfolding rd_message_def
proof (rule reads_first [OF reads_header])
  fix h assume h: "full_header h"
  have settled: "settled \<lparr>m_header = (case e of Some ed \<Rightarrow> merge_response_code (ed_rcode_high ed) h | None \<Rightarrow> h),
      m_queries = qs, m_answers = an, m_authorities = ns, m_additionals = ar, m_edns = e\<rparr>" (is "settled ?m")
    if q: "length qs = unat (h_query_count h) \<and> list_all full_query qs"
      and an: "section_ok False an" "length an = unat (h_answer_count h)"
      and ns: "section_ok False ns" "length ns = unat (h_authority_count h)"
      and ar: "section_ok True ar" "length ar + (case e of None \<Rightarrow> 0 | Some _ \<Rightarrow> 1) = unat (h_additional_count h)"
      and e: "\<forall>e \<in> set_option e. full_edns e" for qs an ns ar e
  proof -
    have counts: "h_query_count (m_header ?m) = h_query_count h" "h_answer_count (m_header ?m) = h_answer_count h"
      "h_authority_count (m_header ?m) = h_authority_count h" "h_additional_count (m_header ?m) = h_additional_count h"
      by (simp_all add: merge_response_code_def split: option.split)
    note s = settled_header [OF h e, of ?m, simplified]
    have "List.map wire_query qs = qs" using q by (simp add: full_query_def list_all_iff map_idI)
    then have "wire_message ?m (m_header ?m) = ?m"
      using s(1, 2) section_map [OF an(1)] section_map [OF ns(1)] section_map [OF ar(1)] by (simp add: wire_message_def)
    moreover have "message_ok ?m"
      using s(3) q an(1) ns(1) ar(1) e by (auto simp: message_ok_def full_query_def list_all_iff section_ok_def full_edns_def)
    moreover have "complete ?m (m_header ?m)"
      unfolding complete_def counts using q an(2) ns(2) ar(2) by (simp split: option.splits)
    ultimately show ?thesis by (simp add: settled_def)
  qed
  have start: "section_ok additional []" for additional by (simp add: section_ok_def)
  note records = reads_records [OF start, of None, simplified]
  show "reads 0 (rd_bind (rd_many (unat (h_query_count h)) rd_query) (\<lambda>queries.
     rd_bind (rd_records (unat (h_answer_count h)) False [] None) (\<lambda>(answers, e1).
     rd_bind (rd_records (unat (h_authority_count h)) False [] None) (\<lambda>(authorities, e2).
     rd_bind (rd_records (unat (h_additional_count h)) True [] None) (\<lambda>(additionals, e).
       rd_return
         \<lparr>m_header = (case e of Some ed \<Rightarrow> merge_response_code (ed_rcode_high ed) h | None \<Rightarrow> h),
          m_queries = queries, m_answers = answers, m_authorities = authorities,
          m_additionals = additionals, m_edns = e\<rparr>))))) settled"
    apply (rule reads_bind [OF reads_many [OF reads_query]])
    apply (rule reads_bind [OF records])
    apply clarsimp
    apply (rule reads_bind [OF records])
    apply clarsimp
    apply (rule reads_bind [OF records])
    apply clarsimp
    apply (rule reads_return, rule settled)
    apply simp_all
    done
qed

section \<open>Properties\<close>

text \<open>C26: Reading a message from any octets ends: the loop over the labels and pointers of a name, which has
  no bound in the code, never needs more than the fuel of the model, since a pointer has to go back to a lower
  index and a name has at most 127 labels; and no loop of the readers of texts, parameters and options goes on
  without taking octets. The other loops of the readers run over a count or over octets that were taken before.\<close>

theorem from_vec_not_stuck: "from_vec buf \<noteq> Inl RE_Stuck"
  using readsD(1) [OF reads_message, of 0 buf] by (cases "rd_message buf 0") (auto simp: from_vec_def)

text \<open>C18: What the reader accepts, from any octets, is a message in the form the rest of the program relies on:
  the names of its queries and records are fully qualified and, with the names in its data, well formed; data has
  the form of its type, classes and types have a number, and the counts of the header are those of the sections.
  Nothing in it would be changed by the normal form of the wire (\<open>wire_message\<close>), which qualifies every name, in
  the data too; and the reader has taken octets and stayed inside of the buffer.\<close>

theorem read_message_well_formed:
  assumes "rd_message buf i = Inr (m, j)" "i \<le> length buf"
  shows "message_ok m \<and> complete m (m_header m) \<and> wire_message m (m_header m) = m \<and>
    (\<forall>q \<in> set (m_queries m). n_fqdn (q_name q)) \<and>
    (\<forall>r \<in> set (m_answers m) \<union> set (m_authorities m) \<union> set (m_additionals m). n_fqdn (rr_name r)) \<and>
    i < j \<and> j \<le> length buf"
proof -
  have s: "settled m" "i < j" "j \<le> length buf"
    using readsD(2) [OF reads_message assms(2, 1)] by (auto simp: settled_def)
  then have w: "wire_message m (m_header m) = m" by (simp add: settled_def)
  have "List.map wire_query (m_queries m) = m_queries m" "List.map wire_record (m_answers m) = m_answers m"
    "List.map wire_record (m_authorities m) = m_authorities m" "List.map wire_record (m_additionals m) = m_additionals m"
    using w by (cases m; simp add: wire_message_def)+
  then have "wire_query q = q" if "q \<in> set (m_queries m)" for q
    using that by (metis map_eq_conv map_ident)
  moreover have "wire_record r = r" if "r \<in> set (m_answers m) \<union> set (m_authorities m) \<union> set (m_additionals m)" for r
    using that \<open>List.map wire_record (m_answers m) = m_answers m\<close> \<open>List.map wire_record (m_authorities m) = m_authorities m\<close>
      \<open>List.map wire_record (m_additionals m) = m_additionals m\<close> by (metis UnE map_eq_conv map_ident)
  moreover have "wire_query q = q \<Longrightarrow> n_fqdn (q_name q)" "wire_record r = r \<Longrightarrow> n_fqdn (rr_name r)" for q r
    by (cases q; cases r; auto simp: wire_query_def wire_record_def set_fqdn_def dest: arg_cong [where f = n_fqdn])+
  ultimately show ?thesis using s by (simp add: settled_def)
qed

theorem read_message_well_formed_witness:
  "message_ok example_response \<and> complete example_response (m_header example_response) \<and> 0 < (46 :: nat)"
proof -
  have "rd_message (example_octets @ [7]) 0 = Inr (example_response, 46)"
    using complete_roundtrip [OF example_ok example_emitted example_complete, of "[7]"] example_wire
    by (simp add: example_octets_def)
  from read_message_well_formed [OF this] show ?thesis by simp
qed

text \<open>C8: A message that is read and written again without the truncation flag still says the same: reading
  what was written gives the same message, although names are compressed in another way.\<close>

theorem forwarded_unchanged:
  assumes "from_vec buf = Inr m" "emit_message m encoder_new = Inr (h, en)" "\<not> h_truncation h"
  shows "h = m_header m \<and> from_vec (en_buffer en) = Inr m"
proof -
  obtain j where "rd_message buf 0 = Inr (m, j)" using assms(1) by (auto simp: from_vec_def result_bind_Inr_iff)
  then have m: "message_ok m" "complete m (m_header m)" "wire_message m (m_header m) = m"
    using readsD(2) [OF reads_message, of 0 buf] by (auto simp: settled_def)
  note c = emit_message_counts [OF m(1) plain_new(1) assms(2, 3)]
  obtain qd an tan ns tns ar tar where h: "h = update_header_counts (m_header m) (h_truncation (m_header m) \<or> tan \<or> tns \<or> tar)
       \<lparr>hc_query = qd, hc_answer = an, hc_authority = ns, hc_additional = ar\<rparr>"
    by (rule emit_message_sections [OF assms(2)])
  have t: "h_truncation (m_header m) = h_truncation h" using h assms(3) by (simp add: update_header_counts_def)
  have counts: "h_query_count h = h_query_count (m_header m)" "h_answer_count h = h_answer_count (m_header m)"
    "h_authority_count h = h_authority_count (m_header m)" "h_additional_count h = h_additional_count (m_header m)"
    using c m(2) by (simp_all add: complete_def word_unat_eq_iff)
  have eq: "h = m_header m" using h t counts assms(3)
    by (cases "m_header m"; cases h) (simp add: update_header_counts_def)
  have "rd_message (en_buffer en @ []) 0 = Inr (wire_message m h, length (en_buffer en))"
    by (rule complete_roundtrip [OF m(1) assms(2) c])
  then show ?thesis using eq m(3) by (simp add: from_vec_def)
qed

theorem forwarded_unchanged_witness:
  "from_vec example_octets = Inr example_response"
proof -
  have "from_vec (example_octets @ [7]) = Inr example_response"
    using complete_roundtrip [OF example_ok example_emitted example_complete, of "[7]"] example_wire
    by (simp add: from_vec_def)
  from forwarded_unchanged [OF this example_emitted] show ?thesis by (simp add: example_response_def)
qed

end
