(* ===== verification/Cache_Wire.thy ===== *)
theory Cache_Wire
  imports Cache_File Message_Read
begin

text \<open>
  The file of the cache with the codec of messages (\<open>impl BinEncodable for DnsCacheEntry\<close> in
  \<open>dns_mw_cache.rs\<close>). An entry is written into an encoder of its own: the octet 1, the message, whose names
  point into this encoder, and the fields behind it. What \<open>Cache_File\<close> assumes of a codec of messages holds
  for the one of \<open>Message_Wire\<close>, and the octets of an entry are those of \<open>emit_entry\<close> with this codec, as
  long as the message fits. Only the text of the answer options, JSON, remains an argument.
\<close>

section \<open>Writing an entry\<close>

definition text_pieces :: "string option \<Rightarrow> u8 list list" where
  "text_pieces t =
     (case t of
        Some s \<Rightarrow> [be_octets 2 (of_nat (length (as_bytes s)) :: u16), as_bytes s]
      | None \<Rightarrow> [be_octets 2 (0 :: u16)])"

text \<open>The writes behind the message.\<close>

definition entry_pieces :: "(answer_opts \<Rightarrow> u8 list) \<Rightarrow> int \<Rightarrow> cache_entry \<Rightarrow> u8 list list" where
  "entry_pieces emit_opts now e =
     (if now < ce_valid_until e then [[2], be_octets 4 (as_secs_u32 (ce_valid_until e - now))]
      else [[5], be_octets 4 (as_secs_u32 (now - ce_valid_until e))]) @
     [[3]] @ text_pieces (r_name_server_group (ce_data e)) @
     [[4], be_octets 4 (ucast (cs_hits (ce_stats e)) :: u32)] @
     [[6]] @ text_pieces (ce_ecs e) @
     (let opts = emit_opts (ce_opts e) in [[7], be_octets 2 (of_nat (length opts) :: u16), opts])"

definition put_entry ::
    "(answer_opts \<Rightarrow> u8 list) \<Rightarrow> int \<Rightarrow> cache_entry \<Rightarrow> encoder \<Rightarrow> (encoder, iter_error \<times> encoder) result" where
  "put_entry emit_opts now e en =
     result_bind (other_error (emit_byte 1 en)) (\<lambda>en1.
     result_bind (emit_message (r_message (ce_data e)) en1) (\<lambda>(h, en2).
       other_error (write_all (entry_pieces emit_opts now e) en2)))"

definition put_entries :: "(answer_opts \<Rightarrow> u8 list) \<Rightarrow> int \<Rightarrow> cache_entry list \<Rightarrow> u8 list" where
  "put_entries emit_opts now es =
     concat (List.map (\<lambda>e. case put_entry emit_opts now e encoder_new of Inr en \<Rightarrow> en_buffer en | Inl err \<Rightarrow> []) es)"

section \<open>The codec of messages inside of an entry\<close>

definition entry_start :: encoder where
  "entry_start = encoder_new\<lparr>en_offset := 1, en_buffer := [1]\<rparr>"

definition entry_message :: "message \<Rightarrow> u8 list option" where
  "entry_message m =
     (case emit_message m entry_start of
        Inr (h, en) \<Rightarrow> Some (drop 1 (en_buffer en))
      | Inl err \<Rightarrow> None)"

text \<open>The octet before the message is 1; the reader has just taken it.\<close>

definition read_entry_message :: "u8 list \<Rightarrow> (message \<times> u8 list) option" where
  "read_entry_message bs =
     (case rd_message (1 # bs) 1 of
        Inr (m, j) \<Rightarrow> Some (m, drop j (1 # bs))
      | Inl err \<Rightarrow> None)"

definition wire_codec ::
    "(answer_opts \<Rightarrow> u8 list) \<Rightarrow> (u8 list \<Rightarrow> answer_opts option) \<Rightarrow> answer_opts \<Rightarrow> entry_codec" where
  "wire_codec emit_opts parse_opts default_opts =
     \<lparr>ec_emit_message = entry_message, ec_read_message = read_entry_message, ec_emit_opts = emit_opts,
      ec_read_opts = parse_opts, ec_default_opts = default_opts\<rparr>"

lemma plain_entry_start: "plain entry_start" "en_buffer entry_start = [1]"
  by (simp_all add: plain_def en_good_def ready_def entry_start_def encoder_new_def)

text \<open>The form in which a message comes back from the file: with qualified names, and with the counts of its
  header set to those of its sections. In the cache the header of an answer whose aliases were flattened still has
  the old counts.\<close>

definition synced_header :: "message \<Rightarrow> header" where
  "synced_header m =
     update_header_counts (m_header m) (h_truncation (m_header m))
       \<lparr>hc_query = length (m_queries m), hc_answer = length (m_answers m), hc_authority = length (m_authorities m),
        hc_additional = length (m_additionals m) + (case m_edns m of None \<Rightarrow> 0 | Some e \<Rightarrow> 1)\<rparr>"

definition message_in_file :: "message \<Rightarrow> message" where
  "message_in_file m = wire_message m (synced_header m)"

lemma complete_counts:
  assumes "complete m h"
  shows "of_nat (length (m_queries m)) = h_query_count h" "of_nat (length (m_answers m)) = h_answer_count h"
    "of_nat (length (m_authorities m)) = h_authority_count h"
    "of_nat (length (m_additionals m) + (case m_edns m of None \<Rightarrow> 0 | Some e \<Rightarrow> 1)) = h_additional_count h"
proof -
  have "unat w = n \<Longrightarrow> of_nat n = w" for w :: u16 and n by auto
  then show "of_nat (length (m_queries m)) = h_query_count h" "of_nat (length (m_answers m)) = h_answer_count h"
    "of_nat (length (m_authorities m)) = h_authority_count h"
    "of_nat (length (m_additionals m) + (case m_edns m of None \<Rightarrow> 0 | Some e \<Rightarrow> 1)) = h_additional_count h"
    using assms unfolding complete_def by blast+
qed

lemma emitted_header:
  assumes "emit_message m en0 = Inr (h, en)" "\<not> h_truncation h" "complete m h"
  shows "h = synced_header m"
proof -
  obtain qd an tan ns tns ar tar where h: "h = update_header_counts (m_header m) (h_truncation (m_header m) \<or> tan \<or> tns \<or> tar)
       \<lparr>hc_query = qd, hc_answer = an, hc_authority = ns, hc_additional = ar\<rparr>"
    by (rule emit_message_sections [OF assms(1)])
  show ?thesis using h assms(2) complete_counts [OF assms(3)]
    by (cases "m_header m"; cases h) (simp add: update_header_counts_def synced_header_def del: of_nat_add)
qed

text \<open>A message as the reader returns it comes back as it is.\<close>

lemma settled_in_file: "settled m \<Longrightarrow> message_in_file m = m"
proof -
  assume s: "settled m"
  then have "complete m (m_header m)" by (simp add: settled_def)
  from complete_counts [OF this] have "synced_header m = m_header m"
    by (cases "m_header m") (simp add: update_header_counts_def synced_header_def del: of_nat_add)
  then show ?thesis using s by (simp add: message_in_file_def settled_def)
qed

text \<open>The law that \<open>storable_as\<close> asks for.\<close>

lemma entry_message_back:
  assumes "message_ok m" "emit_message m entry_start = Inr (h, en)" "\<not> h_truncation h"
  shows "entry_message m = Some (drop 1 (en_buffer en))"
    "read_entry_message (drop 1 (en_buffer en) @ rest) = Some (message_in_file m, rest)"
proof -
  note c = emit_message_counts [OF assms(1) plain_entry_start(1) assms(2, 3)]
  note h = emitted_header [OF assms(2, 3) c]
  note b = roundtrip_behind [OF assms(1) plain_entry_start(1) assms(2) c]
  obtain ys where ys: "en_buffer en = 1 # ys" using b(2) plain_entry_start(2) by auto
  show "entry_message m = Some (drop 1 (en_buffer en))" using assms(2) by (simp add: entry_message_def)
  have "rd_message (1 # ys @ rest) 1 = Inr (message_in_file m, Suc (length ys))"
    using b(1) [of rest] ys plain_entry_start(2) h by (simp add: message_in_file_def)
  then show "read_entry_message (drop 1 (en_buffer en) @ rest) = Some (message_in_file m, rest)"
    using ys by (simp add: read_entry_message_def)
qed

text \<open>An entry whose message is well formed, not truncated, and fits, with texts and options that can be read back.\<close>

definition fits_entry :: "message \<Rightarrow> bool" where
  "fits_entry m = (case emit_message m entry_start of Inr (h, en) \<Rightarrow> \<not> h_truncation h | Inl err \<Rightarrow> False)"

definition keepable :: "(answer_opts \<Rightarrow> u8 list) \<Rightarrow> (u8 list \<Rightarrow> answer_opts option) \<Rightarrow> cache_entry \<Rightarrow> bool" where
  "keepable emit_opts parse_opts e \<longleftrightarrow>
     message_ok (r_message (ce_data e)) \<and> fits_entry (r_message (ce_data e)) \<and>
     parse_opts (emit_opts (ce_opts e)) = Some (ce_opts e) \<and>
     storable_text (r_name_server_group (ce_data e)) \<and> storable_text (ce_ecs e)"

lemma keepable_storable:
  assumes "keepable emit_opts parse_opts e"
  shows "storable_as (wire_codec emit_opts parse_opts default_opts) (message_in_file (r_message (ce_data e))) e"
proof -
  obtain h en where "emit_message (r_message (ce_data e)) entry_start = Inr (h, en)" "\<not> h_truncation h"
    using assms by (auto simp: keepable_def fits_entry_def split: sum.splits)
  then show ?thesis using entry_message_back assms
    by (auto simp: storable_as_def wire_codec_def keepable_def intro!: exI [of _ "drop 1 (en_buffer en)"])
qed

section \<open>The octets of an entry\<close>

lemma write_all_ready:
  "ready en \<Longrightarrow>
     (if length (en_buffer en) + length (concat bss) \<le> en_max_size en
      then \<exists>en'. write_all bss en = Inr en' \<and> en_buffer en' = en_buffer en @ concat bss
      else \<exists>err. write_all bss en = Inl err)"
proof (induction bss arbitrary: en)
  case Nil
  then show ?case by (auto simp: write_all_def ready_def)
next
  case (Cons bs bss)
  show ?case
  proof (cases "length (en_buffer en) + length bs \<le> en_max_size en")
    case True
    then have w: "write_slice bs en = Inr (en\<lparr>en_buffer := en_buffer en @ bs, en_offset := length (en_buffer en) + length bs\<rparr>)"
      (is "_ = Inr ?en1") using Cons.prems by (subst write_slice_ready) (simp_all add: ready_def)
    have "ready ?en1" using True Cons.prems by (simp add: ready_def)
    from Cons.IH [OF this] show ?thesis using w by (auto simp: write_all_def add.assoc split: if_splits)
  next
    case False
    then have "\<exists>err. write_slice bs en = Inl err"
      using Cons.prems by (auto simp: write_slice_def buffer_write_def ready_def)
    then show ?thesis using False by (auto simp: write_all_def)
  qed
qed

lemma octets_emit: "be_octets 2 w = emit_u16 w" "be_octets 4 v = emit_u32 v"
  by (simp_all add: be_octets_2_4 emit_u16_def emit_u32_def drop_bit_drop_bit)

lemma concat_entry_pieces:
  "concat (entry_pieces emit_opts now e) =
     (if now < ce_valid_until e then [2] @ emit_u32 (as_secs_u32 (ce_valid_until e - now))
      else [5] @ emit_u32 (as_secs_u32 (now - ce_valid_until e))) @
     [3] @ emit_opt_text (r_name_server_group (ce_data e)) @
     [4] @ emit_u32 (ucast (cs_hits (ce_stats e))) @
     [6] @ emit_opt_text (ce_ecs e) @
     [7] @ emit_u16 (of_nat (length (emit_opts (ce_opts e)))) @ emit_opts (ce_opts e)"
  by (simp add: entry_pieces_def text_pieces_def emit_opt_text_def octets_emit Let_def split: option.split)

text \<open>No emitter changes the size of the encoder.\<close>

definition keeps :: "emitter \<Rightarrow> bool" where
  "keeps f \<longleftrightarrow> (\<forall>en en'. f en = Inr en' \<longrightarrow> en_max_size en' = en_max_size en)"

lemma keeps_slice: "keeps (write_slice bs)"
  by (auto simp: keeps_def write_slice_def buffer_write_def Let_def split: if_splits)

lemma keeps_byte: "keeps (emit_byte b)" "keeps (put_u16 w)" "keeps (put_u32 v)"
  unfolding emit_byte_def [abs_def] put_u16_def put_u32_def by (rule keeps_slice)+

lemma keeps_seq: "(\<And>f. f \<in> set fs \<Longrightarrow> keeps f) \<Longrightarrow> keeps (emit_seq fs)"
proof (induction fs)
  case Nil
  then show ?case by (simp add: keeps_def)
next
  case (Cons f fs)
  then have "keeps f" "keeps (emit_seq fs)" by simp_all
  then show ?case by (fastforce simp: keeps_def result_bind_Inr_iff)
qed

lemma keeps_fail: "keeps (\<lambda>en. Inl (e en))" "keeps (emit_message_error s)"
  by (simp_all add: keeps_def emit_message_error_def)

lemma keeps_all: "keeps (write_all bss)"
  unfolding write_all_def by (rule keeps_seq) (auto simp: keeps_slice)

lemma keeps_at: "emit_at i bs en = Inr en' \<Longrightarrow> en_max_size en' = en_max_size en"
  using keeps_slice [of bs] by (fastforce simp: emit_at_def keeps_def split: sum.splits)

lemma keeps_place: "put_place n en = Inr en' \<Longrightarrow> en_max_size en' = en_max_size en"
  by (auto simp: put_place_def buffer_reserve_def Let_def split: if_splits)

lemma keeps_length: "keeps f \<Longrightarrow> keeps (with_length f)"
  unfolding keeps_def with_length_def
  by (fastforce simp: Let_def result_bind_Inr_iff dest: keeps_at keeps_place)

lemma keeps_behavior: "keeps f \<Longrightarrow> keeps (with_rdata_behavior b f)"
  unfolding keeps_def with_rdata_behavior_def by (fastforce simp: Let_def split: sum.splits if_splits)

lemma keeps_character_data: "keeps (emit_character_data bs)"
  using keeps_slice [of bs] keeps_byte(1) [of "of_nat (length bs)"]
  by (fastforce simp: keeps_def emit_character_data_def result_bind_Inr_iff split: if_splits)

lemma keeps_labels: "write_labels ls en = Inr (starts, en') \<Longrightarrow> en_max_size en' = en_max_size en"
proof (induction ls arbitrary: en starts)
  case (Cons l ls)
  then obtain en1 starts' where "emit_character_data (as_bytes l) en = Inr en1" "write_labels ls en1 = Inr (starts', en')"
    by (auto simp: result_bind_Inr_iff split: if_splits)
  then show ?case using Cons.IH keeps_character_data by (fastforce simp: keeps_def)
qed simp

lemma keeps_compress: "compress c i ls en = Inr (p, en') \<Longrightarrow> en_max_size en' = en_max_size en"
proof (induction ls arbitrary: en)
  case (Cons l ls)
  have store: "en_max_size (store_label_pointer l i en) = en_max_size en" by (simp add: store_label_pointer_def)
  have wr: "en_max_size en1 = en_max_size en"
    if "write_slice bs (trim_buffer (en\<lparr>en_offset := l\<rparr>)) = Inr en1" for bs en1
    using that keeps_slice by (fastforce simp: keeps_def trim_buffer_def)
  show ?case using Cons.prems Cons.IH store wr
    by (fastforce simp: result_bind_Inr_iff split: option.splits if_splits)
qed simp

lemma keeps_name: "keeps (emit_name n)"
  unfolding keeps_def
proof (intro allI impI)
  fix en en' assume "emit_name n en = Inr en'"
  then obtain ls starts c i p en1 en2 where "write_labels ls en = Inr (starts, en1)" "compress c i starts en1 = Inr (p, en2)"
    "en' = en2 \<or> emit_byte 0 en2 = Inr en'"
    by (auto simp: emit_name_def Let_def result_bind_Inr_iff split: if_splits)
  then show "en_max_size en' = en_max_size en"
    using keeps_labels keeps_compress keeps_byte(1) by (fastforce simp: keeps_def)
qed

lemma keeps_svc_params: "keeps (put_svc_params k ps)"
proof (induction ps arbitrary: k)
  case Nil
  then show ?case using keeps_seq [of "[]"] by (simp del: emit_seq.simps)
next
  case (Cons p ps)
  have "keeps (put_svc_value p)"
    by (cases p) (auto intro!: keeps_seq keeps_all keeps_fail keeps_slice simp: put_a_def put_aaaa_def simp del: emit_seq.simps)
  then show ?case using Cons.IH keeps_fail keeps_byte keeps_length
    by (auto intro!: keeps_seq simp del: emit_seq.simps)
qed

lemma keeps_option: "keeps (put_option opt)"
proof -
  have "keeps (put_option_data opt)"
    by (cases opt) (auto intro!: keeps_seq keeps_slice keeps_byte keeps_fail simp: put_client_subnet_def simp del: emit_seq.simps)
  then show ?thesis unfolding put_option_def by (intro keeps_seq) (auto simp: keeps_byte)
qed

lemma keeps_rdata: "keeps (put_rdata d)"
  by (cases d)
    (auto intro!: keeps_behavior keeps_seq keeps_all
      simp: put_a_def put_aaaa_def put_svcb_def put_mx_def put_naptr_def put_opt_def put_soa_def put_srv_def put_txt_def
        keeps_name keeps_byte keeps_character_data keeps_svc_params keeps_option simp del: emit_seq.simps)

lemma keeps_body: "keeps (put_body m)"
proof -
  have "keeps (put_record r)" for r
    unfolding put_record_def put_class_def
    by (intro keeps_seq) (auto simp: keeps_byte keeps_name intro!: keeps_length keeps_rdata)
  moreover have "keeps (put_query q)" for q
    unfolding put_query_def put_class_def by (intro keeps_seq) (auto simp: keeps_byte keeps_name)
  ultimately have k: "keeps (emit_seq (List.map put_query qs))" "keeps (emit_seq (List.map put_record rs))"
    "keeps (emit_seq (List.map put_record rs @ (case ed of None \<Rightarrow> [] | Some e \<Rightarrow> [put_record (record_of_edns e)])))" for qs rs ed
    by (auto intro!: keeps_seq split: option.splits)
  show ?thesis unfolding keeps_def put_body_def
  proof (intro allI impI)
    fix en en' assume "result_bind (emit_seq (List.map put_query (m_queries m)) en) (\<lambda>en1.
     result_bind (emit_seq (List.map put_record (m_answers m)) en1) (\<lambda>en2.
     result_bind (emit_seq (List.map put_record (m_authorities m)) en2) (\<lambda>en3.
       emit_seq (List.map put_record (m_additionals m) @
         (case written_edns m of None \<Rightarrow> [] | Some e \<Rightarrow> [put_record (record_of_edns e)])) en3))) = Inr en'"
    then obtain en1 en2 en3 where "emit_seq (List.map put_query (m_queries m)) en = Inr en1"
      "emit_seq (List.map put_record (m_answers m)) en1 = Inr en2" "emit_seq (List.map put_record (m_authorities m)) en2 = Inr en3"
      "emit_seq (List.map put_record (m_additionals m) @
         (case written_edns m of None \<Rightarrow> [] | Some e \<Rightarrow> [put_record (record_of_edns e)])) en3 = Inr en'"
      by (auto simp only: result_bind_Inr_iff)
    then show "en_max_size en' = en_max_size en"
      using k(1) [unfolded keeps_def, rule_format] k(2, 3) [unfolded keeps_def, rule_format] by simp
  qed
qed

lemma entry_step: "emit_byte 1 encoder_new = Inr entry_start"
  by (simp add: emit_byte_def write_slice_def buffer_write_def entry_start_def encoder_new_def)

lemma max_size_kept:
  assumes "emit_message m en = Inr (h, en')" "complete m h"
  shows "en_max_size en' = en_max_size en"
proof -
  obtain en0 en4 where "put_place 12 en = Inr en0" "put_body m en0 = Inr en4" "emit_at (en_offset en) (emit_header h) en4 = Inr en'"
    by (rule emit_message_parts [OF assms])
  then show ?thesis using keeps_place keeps_at keeps_body by (fastforce simp: keeps_def)
qed

lemma entry_octets:
  assumes "message_ok (r_message (ce_data e))" "fits_entry (r_message (ce_data e))"
  shows "emit_entry (wire_codec emit_opts parse_opts default_opts) now e =
    (case put_entry emit_opts now e encoder_new of Inr en \<Rightarrow> Some (en_buffer en) | Inl err \<Rightarrow> None)"
proof -
  obtain h en where m: "emit_message (r_message (ce_data e)) entry_start = Inr (h, en)" "\<not> h_truncation h"
    using assms(2) by (auto simp: fits_entry_def split: sum.splits)
  note c = emit_message_counts [OF assms(1) plain_entry_start(1) m]
  note b = roundtrip_behind(2, 3) [OF assms(1) plain_entry_start(1) m(1) c]
  have max: "en_max_size en = 65535" using max_size_kept [OF m(1) c] by (simp add: entry_start_def encoder_new_def)
  obtain ys where ys: "en_buffer en = 1 # ys" using b(1) plain_entry_start(2) by auto
  let ?bss = "entry_pieces emit_opts now e"
  note w = write_all_ready [OF plain_ready [OF b(2)], of ?bss, unfolded max]
  have "emit_entry (wire_codec emit_opts parse_opts default_opts) now e =
      (if length (en_buffer en @ concat ?bss) \<le> 65535 then Some (en_buffer en @ concat ?bss) else None)"
    using m(1) ys by (simp add: emit_entry_def wire_codec_def entry_message_def concat_entry_pieces Let_def)
  then show ?thesis using w m(1)
    by (auto simp: put_entry_def entry_step other_error_def split: if_splits)
qed

text \<open>The whole file is what the code writes, entry after entry.\<close>

lemma serialize_put:
  assumes "\<forall>e \<in> set es. keepable emit_opts parse_opts e"
  shows "serialize_many (wire_codec emit_opts parse_opts default_opts) now es = put_entries emit_opts now es"
    "List.filter (\<lambda>e. emit_entry (wire_codec emit_opts parse_opts default_opts) now e \<noteq> None) es =
       List.filter (\<lambda>e. is_ok (put_entry emit_opts now e encoder_new)) es"
proof -
  have e: "emit_entry (wire_codec emit_opts parse_opts default_opts) now e =
      (case put_entry emit_opts now e encoder_new of Inr en \<Rightarrow> Some (en_buffer en) | Inl err \<Rightarrow> None)" if "e \<in> set es" for e
    using assms that by (intro entry_octets) (auto simp: keepable_def)
  show "serialize_many (wire_codec emit_opts parse_opts default_opts) now es = put_entries emit_opts now es"
    unfolding serialize_many_def put_entries_def
    by (intro arg_cong [where f = concat] map_cong refl) (simp add: e split: sum.split)
  show "List.filter (\<lambda>e. emit_entry (wire_codec emit_opts parse_opts default_opts) now e \<noteq> None) es =
       List.filter (\<lambda>e. is_ok (put_entry emit_opts now e encoder_new)) es"
    by (intro filter_cong refl) (simp add: e split: sum.split)
qed

section \<open>An example\<close>

text \<open>An answer without records, as a server sends it for a name that has no address.\<close>

definition empty_answer :: message where
  "empty_answer =
     example_response\<lparr>m_header := (m_header example_response)\<lparr>h_answer_count := 0, h_additional_count := 0\<rparr>,
       m_answers := [], m_edns := None\<rparr>"

lemma empty_answer_query:
  "put_query \<lparr>q_name = \<lparr>n_labels = [''a''], n_fqdn = True\<rparr>, q_type = RT_A, q_class = DC_IN, q_unicast_response = False\<rparr>
     \<lparr>en_offset = 13, en_buffer = 1 # replicate 12 0, en_max_size = 65535, en_name_pointers = [], en_name_encoding = NE_Compressed\<rparr> =
   Inr \<lparr>en_offset = 20, en_buffer = 1 # replicate 12 0 @ [1, 0x61, 0, 0, 1, 0, 1], en_max_size = 65535,
     en_name_pointers = [(13, [1, 0x61])], en_name_encoding = NE_Compressed\<rparr>"
  by (simp add: put_query_def emitting)

lemma empty_answer_settled: "settled empty_answer"
proof -
  have "message_ok empty_answer" using example_ok
    by (simp add: message_ok_def empty_answer_def example_response_def)
  moreover have "complete empty_answer (m_header empty_answer)"
    by (simp add: complete_def empty_answer_def example_response_def)
  moreover have "wire_message empty_answer (m_header empty_answer) = empty_answer"
    by (simp add: empty_answer_def wire_message_def wire_header_def example_response_def wire_query_def set_fqdn_def written_edns_def rc_of_u16_def)
  ultimately show ?thesis by (simp add: settled_def)
qed

lemma empty_answer_emitted:
  "\<exists>h en. emit_message empty_answer entry_start = Inr (h, en) \<and> \<not> h_truncation h \<and> length (en_buffer en) = 20"
proof -
  have place: "put_place 12 entry_start =
    Inr \<lparr>en_offset = 13, en_buffer = 1 # replicate 12 0, en_max_size = 65535, en_name_pointers = [], en_name_encoding = NE_Compressed\<rparr>"
    by (simp add: entry_start_def encoder_new_def put_place_def buffer_reserve_def Let_def)
  have start: "en_offset entry_start = 1" by (simp add: entry_start_def)
  have queries: "m_queries empty_answer =
      [\<lparr>q_name = \<lparr>n_labels = [''a''], n_fqdn = True\<rparr>, q_type = RT_A, q_class = DC_IN, q_unicast_response = False\<rparr>]"
    "m_answers empty_answer = []" "m_authorities empty_answer = []" "m_additionals empty_answer = []" "m_edns empty_answer = None"
    "\<not> h_truncation (m_header empty_answer)"
    by (simp_all add: empty_answer_def example_response_def)
  show ?thesis
    by (simp add: emit_message_def start Let_def place other_error_def queries emit_all_def empty_answer_query
        additional_records_def count_was_truncated_def emit_at_def write_slice_def buffer_write_def emit_header_length
        update_header_counts_def)
qed

lemma empty_answer_fits: "fits_entry empty_answer"
  using empty_answer_emitted by (auto simp: fits_entry_def)

definition kept_entry :: cache_entry where
  "kept_entry = demo_stored\<lparr>ce_data := (ce_data demo_stored)\<lparr>r_message := empty_answer\<rparr>\<rparr>"

lemma kept_entry_keepable: "keepable (\<lambda>opts. [9]) (\<lambda>bs. Some (ck_opts demo_key)) kept_entry"
proof -
  have "storable_text (Some ''default'')" by (simp add: storable_text_def as_bytes_def)
  moreover have "ce_opts demo_stored = ck_opts demo_key" by (simp add: demo_stored_def entry_new_def)
  ultimately show ?thesis
    using empty_answer_settled empty_answer_fits demo_stored_texts by (simp add: keepable_def kept_entry_def storable_text_def settled_def)
qed

lemma kept_entry_written: "is_ok (put_entry (\<lambda>opts. [9]) 0 kept_entry encoder_new)"
proof -
  obtain h en where m: "emit_message empty_answer entry_start = Inr (h, en)" "\<not> h_truncation h" "length (en_buffer en) = 20"
    using empty_answer_emitted by blast
  have ok: "message_ok empty_answer" using empty_answer_settled by (simp add: settled_def)
  note c = emit_message_counts [OF ok plain_entry_start(1) m(1, 2)]
  have ready: "ready en" by (rule plain_ready [OF roundtrip_behind(3) [OF ok plain_entry_start(1) m(1) c]])
  have max: "en_max_size en = 65535" using max_size_kept [OF m(1) c] by (simp add: entry_start_def encoder_new_def)
  have texts: "text_pieces (ce_ecs kept_entry) = [be_octets 2 (0 :: u16)]"
    "text_pieces (r_name_server_group (ce_data kept_entry)) = [be_octets 2 (7 :: u16), as_bytes ''default'']"
    using demo_stored_texts by (simp_all add: kept_entry_def text_pieces_def)
  have "length (concat (entry_pieces (\<lambda>opts. [9]) 0 kept_entry)) \<le> 60"
    by (simp add: entry_pieces_def texts Let_def)
  then have "\<exists>en'. write_all (entry_pieces (\<lambda>opts. [9]) 0 kept_entry) en = Inr en'"
    using write_all_ready [OF ready, of "entry_pieces (\<lambda>opts. [9]) 0 kept_entry"] m(3) max by (auto split: if_splits)
  moreover have "r_message (ce_data kept_entry) = empty_answer" by (simp add: kept_entry_def)
  ultimately show ?thesis using m(1) by (auto simp: put_entry_def entry_step other_error_def)
qed

section \<open>Properties\<close>

text \<open>C33: The file of the cache gives back the messages. Let the message of every entry be well formed and fit, not
  truncated, into the encoder of its entry, and let texts and options be readable. Then what the code writes for
  the entries of all shards, with the names of each message compressed inside of its entry, is read back as the
  same entries in the order of the shards, with the lifetimes of \<open>restored\<close> and each message in the form of
  \<open>message_in_file\<close>, which is the same message if a server sent it. An entry whose message fits, but not what is
  behind it, is left out alone, and junk behind the entries does no harm. (For a message that does not fit
  nothing is said: the code writes what fits, flagged as truncated.)\<close>

theorem cache_file_keeps_messages:
  assumes "\<forall>s \<in> set (dc_shards dc). \<forall>(k, e) \<in> set (lru_items ops s). keepable emit_opts parse_opts e"
  shows "let es = concat (List.map (\<lambda>s. List.map snd (lru_items ops s)) (dc_shards dc));
             codec = wire_codec emit_opts parse_opts default_opts;
             data = persist_bytes ops codec now dc;
             back = (\<lambda>e. restored now wall now' (with_message (message_in_file (r_message (ce_data e))) e))
    in drop CACHE_HEADER_LEN data = put_entries emit_opts now es \<and>
       parse_cache_header (data @ junk) = Some (CACHE_FORMAT_VERSION, of_nat (length es)) \<and>
       deserialize_best_effort codec wall now' (put_entries emit_opts now es @ junk) =
         (List.map back (List.filter (\<lambda>e. is_ok (put_entry emit_opts now e encoder_new)) es)
            @ fst (deserialize_best_effort codec wall now' junk),
          snd (deserialize_best_effort codec wall now' junk)) \<and>
       (\<forall>m. settled m \<longrightarrow> message_in_file m = m)"
proof -
  define es where "es = concat (List.map (\<lambda>s. List.map snd (lru_items ops s)) (dc_shards dc))"
  let ?codec = "wire_codec emit_opts parse_opts default_opts"
  have keep: "\<forall>e \<in> set es. keepable emit_opts parse_opts e" using assms by (fastforce simp: es_def)
  then have storable: "\<forall>e \<in> set es. storable_as ?codec (message_in_file (r_message (ce_data e))) e"
    using keepable_storable by blast
  have data: "drop CACHE_HEADER_LEN (persist_bytes ops ?codec now dc) = put_entries emit_opts now es"
    using persist_octets [of ops ?codec now dc] serialize_put(1) [OF keep] by (simp add: es_def)
  have header: "parse_cache_header (persist_bytes ops ?codec now dc @ junk) = Some (CACHE_FORMAT_VERSION, of_nat (length es))"
    using parse_emit_header by (simp add: persist_bytes_def es_def cache_entries_def length_concat comp_def)
  show ?thesis
    using best_effort_append [OF storable, of wall now' now junk] data header serialize_put [OF keep] settled_in_file
    unfolding Let_def es_def [symmetric] by simp
qed

theorem cache_file_keeps_messages_witness:
  "deserialize_best_effort (wire_codec (\<lambda>opts. [9]) (\<lambda>bs. Some (ck_opts demo_key)) (ck_opts demo_key)) 0 7
      (put_entries (\<lambda>opts. [9]) 0 [kept_entry] @ [255]) = ([restored 0 0 7 kept_entry], True)"
proof -
  let ?dc = "(cache_new list_lru 1000 True 86400 5 21600)\<lparr>dc_shards := [(4, [(ck_canon demo_key, kept_entry)])]\<rparr>"
  let ?codec = "wire_codec (\<lambda>opts. [9]) (\<lambda>bs. Some (ck_opts demo_key)) (ck_opts demo_key)"
  have "deserialize_best_effort ?codec 0 7 [255] = ([], True)"
    by (subst deserialize_best_effort.simps) (simp add: read_entry_def expect_def)
  moreover have "\<forall>s \<in> set (dc_shards ?dc). \<forall>(k, e) \<in> set (lru_items list_lru s).
      keepable (\<lambda>opts. [9]) (\<lambda>bs. Some (ck_opts demo_key)) e"
    using kept_entry_keepable by simp
  note cache_file_keeps_messages [OF this, where default_opts = "ck_opts demo_key" and now = 0 and junk = "[255]" and wall = 0 and now' = 7]
  moreover have "message_in_file (r_message (ce_data kept_entry)) = r_message (ce_data kept_entry)"
    using settled_in_file [OF empty_answer_settled] by (simp add: kept_entry_def)
  ultimately show ?thesis using kept_entry_written unfolding Let_def by simp
qed

end
