(* ===== verification/Upstream.thy ===== *)
theory Upstream
  imports Middleware
begin

unbundle bit_operations_syntax

text \<open>
  The upstream client (\<open>dns_client.rs\<close>): how far an answer can be trusted, the race of a group's
  servers, the second round with the fallback servers, the query message, and the repetition of a
  truncated UDP answer over TCP. What the servers answer, and in which order, are arguments; the
  transports are not modelled.
\<close>

section \<open>Trust in an answer\<close>

definition has_soa_anywhere :: "dns_response \<Rightarrow> bool" where
  "has_soa_anywhere r \<longleftrightarrow>
     list_ex (\<lambda>x. rr_type x = RT_SOA) (m_authorities (r_message r)) \<or>
     list_ex (\<lambda>x. rr_type x = RT_SOA) (r_answers r) \<or>
     list_ex (\<lambda>x. rr_type x = RT_SOA) (m_additionals (r_message r))"

definition r_code :: "dns_response \<Rightarrow> rcode" where
  "r_code r = m_response_code (r_message r)"

definition r_truncated :: "dns_response \<Rightarrow> bool" where
  "r_truncated r \<longleftrightarrow> h_truncation (m_header (r_message r))"

definition response_rank :: "dns_response \<Rightarrow> nat" where
  "response_rank r =
     (if r_code r = RC_NoError then
        (if r_answers r \<noteq> [] then 0 else if has_soa_anywhere r then 1 else 2)
      else if r_code r = RC_NXDomain then (if has_soa_anywhere r then 3 else 4)
      else 5)"

definition is_conclusive :: "dns_response \<Rightarrow> bool" where
  "is_conclusive r \<longleftrightarrow>
     (if r_truncated r then False else response_rank r = 0 \<or> response_rank r = 3)"

type_synonym lookup_result = "(dns_response, lookup_error) result"

fun is_conclusive_result :: "lookup_result \<Rightarrow> bool" where
  "is_conclusive_result (Inr r) = is_conclusive r"
| "is_conclusive_result (Inl e) = False"

definition needs_fallback :: "lookup_result \<Rightarrow> bool" where
  "needs_fallback res \<longleftrightarrow> \<not> is_conclusive_result res"

section \<open>The race of a group's servers\<close>

fun ok_of :: "('a, 'e) result \<Rightarrow> 'a option" where
  "ok_of (Inr a) = Some a"
| "ok_of (Inl e) = None"

fun err_of :: "('a, 'e) result \<Rightarrow> 'e option" where
  "err_of (Inr a) = None"
| "err_of (Inl e) = Some e"

definition pick_best :: "lookup_result list \<Rightarrow> lookup_result \<Rightarrow> dns_response option \<Rightarrow> lookup_result" where
  "pick_best held last_res truncated =
     (let candidates = held @ [last_res] in
      case min_by_key response_rank (List.map_filter ok_of candidates) of
        Some best \<Rightarrow> Inr best
      | None \<Rightarrow>
          (case truncated of
             Some t \<Rightarrow> Inr t
           | None \<Rightarrow>
               (case find_map err_of candidates of
                  Some e \<Rightarrow> Inl e
                | None \<Rightarrow> Inl request_timeout)))"

text \<open>The loop of \<open>race_servers\<close> over the results in the order in which they arrive.\<close>

fun race_loop :: "lookup_result list \<Rightarrow> dns_response option \<Rightarrow> lookup_result list \<Rightarrow> lookup_result" where
  "race_loop held truncated [] = Inl request_timeout"
| "race_loop held truncated (res # rest) =
     (if is_conclusive_result res then res
      else if rest = [] then pick_best held res truncated
      else
        (case res of
           Inr lookup \<Rightarrow>
             if r_truncated lookup then race_loop held (Some (unwrap_or truncated lookup)) rest
             else race_loop (held @ [res]) truncated rest
         | Inl e \<Rightarrow> race_loop (held @ [res]) truncated rest))"

definition race_servers :: "lookup_result list \<Rightarrow> lookup_result" where
  "race_servers arrivals = (if arrivals = [] then Inl no_connections else race_loop [] None arrivals)"

text \<open>The lookup of a group. A server is given by its fallback mark; \<open>arrive\<close> is what a round of a
  list of servers yields, in the order of arrival.\<close>

definition group_lookup :: "('s \<Rightarrow> bool) \<Rightarrow> ('s list \<Rightarrow> lookup_result list) \<Rightarrow> 's list \<Rightarrow> lookup_result" where
  "group_lookup is_fallback arrive servers =
     (let (primary0, fallback0) = List.partition (\<lambda>s. \<not> is_fallback s) servers;
          (primary, fallback) = (if primary0 = [] then (fallback0, []) else (primary0, fallback0));
          first = race_servers (arrive primary)
      in if fallback = [] \<or> \<not> needs_fallback first then first
         else
           (let second = race_servers (arrive fallback)
            in if needs_fallback second then first else second))"

section \<open>The group of a query\<close>

definition get_server_group :: "'g \<Rightarrow> (string \<times> 'g) list \<Rightarrow> string \<Rightarrow> 'g option" where
  "get_server_group default_servers groups name =
     (if name = [] \<or> lower_str name = ''default'' then Some default_servers else map_of groups name)"

section \<open>The query message\<close>

definition MAX_PAYLOAD_LEN :: u16 where
  "MAX_PAYLOAD_LEN = 4096"

definition EDNS_OPTION_TCP_KEEPALIVE :: u16 where
  "EDNS_OPTION_TCP_KEEPALIVE = 11"

definition build_message ::
    "u16 \<Rightarrow> query \<Rightarrow> bool \<Rightarrow> bool \<Rightarrow> client_subnet option \<Rightarrow> bool \<Rightarrow> u16 option \<Rightarrow> bool \<Rightarrow> message" where
  "build_message rid q recursion_desired use_edns client_subnet is_dnssec tcp_keepalive subnet_all_query_types =
     (let m0 = m_add_query q (message_query rid);
          m1 = m0\<lparr>m_header := (m_header m0)\<lparr>h_recursion_desired := recursion_desired\<rparr>\<rparr>;
          use_subnet = (client_subnet \<noteq> None \<and> (q_type q = RT_A \<or> q_type q = RT_AAAA \<or> subnet_all_query_types))
      in if use_subnet \<or> use_edns \<or> is_dnssec \<or> tcp_keepalive \<noteq> None then
           (let e0 = (unwrap_or (m_edns m1) edns_new)\<lparr>ed_max_payload := MAX_PAYLOAD_LEN, ed_version := 0\<rparr>;
                e1 = (case client_subnet of Some s \<Rightarrow> if use_subnet then ed_insert (EO_Subnet s) e0 else e0 | None \<Rightarrow> e0);
                e2 = (case tcp_keepalive of
                        Some v \<Rightarrow> ed_insert (EO_Unknown EDNS_OPTION_TCP_KEEPALIVE (if v = 0 then [] else emit_u16 v)) e1
                      | None \<Rightarrow> e1);
                e3 = (if is_dnssec then e2\<lparr>ed_dnssec_ok := is_dnssec\<rparr> else e2)
            in m1\<lparr>m_edns := Some e3\<rparr>)
         else m1)"

section \<open>One server\<close>

text \<open>What a server sends: the answer over its main connection, and what each of the two attempts over
  TCP yields within its deadline.\<close>

record ns_outcome =
  no_main :: "(message, lookup_error) result"
  no_tcp_first :: "message option"
  no_tcp_retry :: "message option"

definition ns_lookup :: "int \<Rightarrow> bool \<Rightarrow> ns_outcome \<Rightarrow> lookup_result" where
  "ns_lookup now has_tcp_fallback out =
     (case no_main out of
        Inl e \<Rightarrow> Inl e
      | Inr res \<Rightarrow>
          if h_truncation (m_header res) \<and> has_tcp_fallback then
            (case no_tcp_first out of
               Some full \<Rightarrow> Inr (response_of_message now full)
             | None \<Rightarrow>
                 (case no_tcp_retry out of
                    Some full \<Rightarrow> Inr (response_of_message now full)
                  | None \<Rightarrow> Inr (response_of_message now res)))
          else Inr (response_of_message now res))"

section \<open>Lemmas\<close>

text \<open>What the loop computes, without its accumulators: the first conclusive answer to arrive; without one, of
  the complete answers and the last arrival the first with the least rank; without any, the first truncated
  answer; without any, the first error.\<close>

definition race_value :: "lookup_result list \<Rightarrow> lookup_result" where
  "race_value arrivals =
     (case List.find is_conclusive_result arrivals of
        Some res \<Rightarrow> res
      | None \<Rightarrow>
          (let kept = List.filter (\<lambda>res. case res of Inr r \<Rightarrow> \<not> r_truncated r | Inl e \<Rightarrow> True) (butlast arrivals)
                      @ [List.last arrivals]
           in case min_by_key response_rank (List.map_filter ok_of kept) of
                Some best \<Rightarrow> Inr best
              | None \<Rightarrow>
                  (case find_map ok_of arrivals of
                     Some t \<Rightarrow> Inr t
                   | None \<Rightarrow> Inl (unwrap_or (find_map err_of arrivals) request_timeout))))"

abbreviation complete_or_error :: "lookup_result \<Rightarrow> bool" where
  "complete_or_error res \<equiv> (case res of Inr r \<Rightarrow> \<not> r_truncated r | Inl e \<Rightarrow> True)"

lemma race_loop_spec:
  assumes "arrivals \<noteq> []"
  shows "race_loop held truncated arrivals =
    (case List.find is_conclusive_result arrivals of
       Some res \<Rightarrow> res
     | None \<Rightarrow> pick_best (held @ List.filter complete_or_error (butlast arrivals)) (List.last arrivals)
         (or_else truncated
            (find_map (\<lambda>res. case res of Inr r \<Rightarrow> if r_truncated r then Some r else None | Inl e \<Rightarrow> None) (butlast arrivals))))"
  using assms
proof (induction arrivals arbitrary: held truncated)
  case Nil
  then show ?case by simp
next
  case (Cons res rest)
  show ?case
  proof (cases "rest = []")
    case True
    then show ?thesis by simp
  next
    case False
    show ?thesis
    proof (cases "is_conclusive_result res")
      case True
      then show ?thesis by simp
    next
      case f: False
      show ?thesis
        using False f Cons.IH [OF False]
        by (cases res; cases truncated) (auto split: option.split)
    qed
  qed
qed

lemma map_filter_ok: "r \<in> set (List.map_filter ok_of xs) \<longleftrightarrow> Inr r \<in> set xs"
proof -
  have "x = Inr r" if "ok_of x = Some r" for x :: "('a, 'b) result" using that by (cases x) auto
  then show ?thesis by (fastforce simp: List.map_filter_def image_iff)
qed

lemma find_map_err_filter:
  "find_map err_of (List.filter complete_or_error xs) = find_map err_of xs"
  by (induction xs) (auto split: option.splits sum.splits)

lemma kept_sub:
  "xs \<noteq> [] \<Longrightarrow> set (List.filter P (butlast xs) @ [List.last xs]) \<subseteq> set xs"
  by (auto dest: in_set_butlastD)

lemma race_servers_eq:
  assumes "arrivals \<noteq> []"
  shows "race_servers arrivals =
    (case List.find is_conclusive_result arrivals of
       Some res \<Rightarrow> res
     | None \<Rightarrow> pick_best (List.filter complete_or_error (butlast arrivals)) (List.last arrivals)
         (find_map (\<lambda>res. case res of Inr r \<Rightarrow> if r_truncated r then Some r else None | Inl e \<Rightarrow> None) (butlast arrivals)))"
  using race_loop_spec [OF assms, of "[]" None] assms by (simp add: race_servers_def split: option.split)

section \<open>Properties\<close>

lemma find_map_ok: "find_map ok_of xs = Some r \<Longrightarrow> Inr r \<in> set xs"
proof -
  have "ok_of x = Some r \<Longrightarrow> x = Inr r" for x :: "('a, 'b) result" by (cases x) auto
  then show "find_map ok_of xs = Some r \<Longrightarrow> Inr r \<in> set xs" by (auto dest!: find_map_SomeD)
qed

lemma find_map_ok_None: "find_map ok_of xs = None \<Longrightarrow> Inr r \<notin> set xs"
  unfolding find_map_None_iff by auto

lemma find_map_err: "xs \<noteq> [] \<Longrightarrow> \<forall>r. Inr r \<notin> set xs \<Longrightarrow> \<exists>e. find_map err_of xs = Some e \<and> Inl e \<in> set xs"
proof -
  assume a: "xs \<noteq> []" "\<forall>r. Inr r \<notin> set xs"
  then obtain x ys where "xs = x # ys" by (cases xs) auto
  moreover from this a(2) obtain e where "x = Inl e" by (cases x) auto
  ultimately show ?thesis by simp
qed

lemma race_servers_value:
  assumes "arrivals \<noteq> []"
  shows "race_servers arrivals = race_value arrivals"
proof (cases "List.find is_conclusive_result arrivals")
  case (Some res)
  then show ?thesis by (simp add: race_servers_eq [OF assms] race_value_def)
next
  case None
  define kept where "kept = List.filter complete_or_error (butlast arrivals) @ [List.last arrivals]"
  have split: "arrivals = butlast arrivals @ [List.last arrivals]" using assms by simp
  show ?thesis
  proof (cases "min_by_key response_rank (List.map_filter ok_of kept)")
    case (Some best)
    then show ?thesis using None
      by (simp add: race_servers_eq [OF assms] race_value_def pick_best_def kept_def)
  next
    case none: None
    then have "List.map_filter ok_of kept = []" by simp
    then have no_ok: "Inr r \<notin> set kept" for r using map_filter_ok [of r kept] by auto
    then have l: "\<exists>e. List.last arrivals = Inl e" by (cases "List.last arrivals") (auto simp: kept_def)
    have t: "r_truncated r" if "Inr r \<in> set (butlast arrivals)" for r
      using no_ok [of r] that by (auto simp: kept_def)
    have "find_map (\<lambda>res. case res of Inr r \<Rightarrow> if r_truncated r then Some r else None | Inl e \<Rightarrow> None) xs =
        find_map ok_of xs"
      if "\<forall>r. Inr r \<in> set xs \<longrightarrow> r_truncated r" for xs :: "lookup_result list"
      using that by (induction xs) (auto split: sum.splits)
    then have trunc: "find_map (\<lambda>res. case res of Inr r \<Rightarrow> if r_truncated r then Some r else None | Inl e \<Rightarrow> None) (butlast arrivals) =
        find_map ok_of arrivals"
      using t l by (subst split) (auto simp: find_map_append)
    have err: "find_map err_of kept = find_map err_of arrivals"
      using arg_cong [OF split, of "find_map err_of"] by (simp add: kept_def find_map_append find_map_err_filter)
    have e: "find_map err_of kept \<noteq> None"
      using l by (auto simp: kept_def find_map_append)
    show ?thesis
      using None none trunc err e
      by (simp add: race_servers_eq [OF assms] race_value_def pick_best_def kept_def [symmetric])
        (auto split: option.split)
  qed
qed

definition demo_reply :: "rcode \<Rightarrow> bool \<Rightarrow> rr list \<Rightarrow> rr list \<Rightarrow> dns_response" where
  "demo_reply rc tc an ns =
     (let r = response_empty 7 0; m = r_message r
      in r\<lparr>r_message := m\<lparr>m_header := (m_header m)\<lparr>h_response_code := rc, h_truncation := tc\<rparr>, m_answers := an,
             m_authorities := ns\<rparr>\<rparr>)"

abbreviation demo_nodata :: dns_response where
  "demo_nodata \<equiv> demo_reply RC_NoError False [] [forge_soa_record 5 name_root 30]"

abbreviation demo_cut :: dns_response where
  "demo_cut \<equiv> demo_reply RC_NoError True [from_rdata name_root 60 (RD_A 1)] []"

text \<open>What the race may return, given the set of results that arrived, whatever their order. An answer arrived,
  and it is conclusive, or nothing conclusive arrived and no complete answer has a better rank. An error means
  that there was no answer at all, and is one of the errors that arrived.\<close>

definition may_return :: "lookup_result set \<Rightarrow> lookup_result \<Rightarrow> bool" where
  "may_return arrived res \<longleftrightarrow>
     (case res of
        Inr r \<Rightarrow> Inr r \<in> arrived \<and>
          (is_conclusive r \<or>
           (\<forall>r'. Inr r' \<in> arrived \<longrightarrow> \<not> is_conclusive r' \<and> (r_truncated r' \<or> response_rank r \<le> response_rank r')))
      | Inl e \<Rightarrow> (\<forall>r. Inr r \<notin> arrived) \<and> (arrived \<noteq> {} \<longrightarrow> Inl e \<in> arrived))"

abbreviation kept_of :: "lookup_result list \<Rightarrow> lookup_result list" where
  "kept_of arrivals \<equiv> List.filter complete_or_error (butlast arrivals) @ [List.last arrivals]"

abbreviation keeps_promise :: "lookup_result list \<Rightarrow> bool" where
  "keeps_promise arrivals \<equiv> may_return (set arrivals) (race_servers arrivals) \<and>
     (\<forall>r. race_servers arrivals = Inr r \<and> r_truncated r \<longrightarrow>
        (\<forall>r'. Inr r' \<in> set arrivals \<longrightarrow> r_truncated r') \<or> last arrivals = Inr r)"

lemma complete_kept:
  assumes "Inr r \<in> set arrivals" "\<not> r_truncated r"
  shows "Inr r \<in> set (kept_of arrivals)"
proof -
  have "Inr r \<in> set (butlast arrivals @ [List.last arrivals])" using assms(1) by (cases arrivals rule: rev_cases) auto
  then show ?thesis using assms(2) by (auto split: sum.split)
qed

lemma conclusive_promise:
  assumes "arrivals \<noteq> []" "List.find is_conclusive_result arrivals = Some res"
  shows "keeps_promise arrivals"
proof -
  have res: "res \<in> set arrivals" "is_conclusive_result res" using assms(2) by (auto simp: find_Some_iff)
  obtain r where "res = Inr r" "is_conclusive r" using res(2) by - (cases res, auto)
  then show ?thesis
    using assms(2) res(1) race_servers_value [OF assms(1)]
    by (simp add: race_value_def may_return_def is_conclusive_def split: if_splits)
qed

lemma best_promise:
  assumes "arrivals \<noteq> []" "List.find is_conclusive_result arrivals = None"
    and "min_by_key response_rank (List.map_filter ok_of (kept_of arrivals)) = Some best"
  shows "keeps_promise arrivals"
proof -
  have nc: "\<not> is_conclusive r" if "Inr r \<in> set arrivals" for r
    using that assms(2) by (auto simp: find_None_iff)
  have best: "Inr best \<in> set (kept_of arrivals)" "\<forall>r. Inr r \<in> set (kept_of arrivals) \<longrightarrow> response_rank best \<le> response_rank r"
    using min_by_key_least [OF assms(3)] map_filter_ok by fastforce+
  have "race_servers arrivals = Inr best"
    using assms(2,3) race_servers_value [OF assms(1)] by (simp add: race_value_def Let_def)
  moreover have "Inr best \<in> set arrivals" using best(1) kept_sub [OF assms(1)] by auto
  moreover have "r_truncated best \<longrightarrow> last arrivals = Inr best" using best(1) by auto
  ultimately show ?thesis using nc complete_kept [of _ arrivals] best(2) by (auto simp: may_return_def)
qed

lemma last_resort_promise:
  assumes "arrivals \<noteq> []" "List.find is_conclusive_result arrivals = None"
    and "min_by_key response_rank (List.map_filter ok_of (kept_of arrivals)) = None"
  shows "keeps_promise arrivals"
proof -
  have nc: "\<not> is_conclusive r" if "Inr r \<in> set arrivals" for r
    using that assms(2) by (auto simp: find_None_iff)
  have "List.map_filter ok_of (kept_of arrivals) = []" using assms(3) by simp
  then have "Inr r \<notin> set (kept_of arrivals)" for r using map_filter_ok [of r "kept_of arrivals"] by auto
  then have cut: "r_truncated r" if "Inr r \<in> set arrivals" for r using complete_kept that by blast
  have eq: "race_servers arrivals = (case find_map ok_of arrivals of
      Some t \<Rightarrow> Inr t | None \<Rightarrow> Inl (unwrap_or (find_map err_of arrivals) request_timeout))"
    using assms(2,3) race_servers_value [OF assms(1)] by (simp add: race_value_def Let_def)
  show ?thesis
  proof (cases "find_map ok_of arrivals")
    case (Some t)
    then have "Inr t \<in> set arrivals" by (rule find_map_ok)
    then show ?thesis using Some eq cut nc by (auto simp: may_return_def)
  next
    case no_ok: None
    then have no: "Inr r \<notin> set arrivals" for r by (rule find_map_ok_None)
    then obtain e where "find_map err_of arrivals = Some e" "Inl e \<in> set arrivals"
      using find_map_err [OF assms(1)] by auto
    then show ?thesis using no_ok eq no by (simp add: may_return_def)
  qed
qed

text \<open>C15: The race of a group's servers meets an order-free specification: in whatever order the results arrive, a
  conclusive answer wins if there is one; otherwise the answer has the best rank among the complete answers, so
  that a name error without an SOA record never wins against an answer with data, an empty answer or a proper
  name error; and an error, one that arrived, is returned only if no server answered. A truncated answer is
  returned only if no complete one arrived, or if it was the last to arrive: this exception, where the code ranks
  it with the others, is \<open>truncated_answer_wins_when_last\<close>.\<close>

theorem race_meets_specification:
  "may_return (set arrivals) (race_servers arrivals) \<and>
   (\<forall>r. race_servers arrivals = Inr r \<and> r_truncated r \<longrightarrow>
      (\<forall>r'. Inr r' \<in> set arrivals \<longrightarrow> r_truncated r') \<or> last arrivals = Inr r)"
proof (cases "arrivals = []")
  case True
  then show ?thesis by (simp add: race_servers_def may_return_def)
next
  case False
  then show ?thesis
    using conclusive_promise best_promise last_resort_promise
    by (cases "List.find is_conclusive_result arrivals";
        cases "min_by_key response_rank (List.map_filter ok_of (kept_of arrivals))") blast+
qed

theorem race_meets_specification_witness:
  "response_rank demo_nodata \<le> response_rank (demo_reply RC_NXDomain False [] []) \<and>
   race_servers [Inr demo_cut, Inl request_timeout] = Inr demo_cut"
proof -
  let ?as = "[Inr (demo_reply RC_NXDomain False [] []), Inl request_timeout, Inr demo_nodata]"
  have r: "race_servers ?as = Inr demo_nodata" "race_servers [Inr demo_cut, Inl request_timeout] = Inr demo_cut"
    by code_simp+
  have "\<not> is_conclusive demo_nodata" "\<not> r_truncated (demo_reply RC_NXDomain False [] [])" by code_simp+
  then show ?thesis using conjunct1 [OF race_meets_specification [of ?as]] r by (auto simp: may_return_def)
qed

text \<open>A truncated answer is kept out of the ranking only while other servers are still out. As the last
  to arrive it is ranked like a complete one: the same two answers give the empty answer with its SOA
  record in one order and the truncated answer in the other.\<close>

theorem truncated_answer_wins_when_last:
  assumes "r_truncated part" "response_rank part = 0" "\<not> r_truncated r" "response_rank r \<in> {1, 2, 4, 5}"
  shows "race_servers [Inr r, Inr part] = Inr part \<and> race_servers [Inr part, Inr r] = Inr r"
  using assms
  by (auto simp: race_servers_def is_conclusive_def pick_best_def List.map_filter_def)

theorem truncated_answer_wins_when_last_witness:
  "race_servers [Inr demo_nodata, Inr demo_cut] = Inr demo_cut \<and> race_servers [Inr demo_cut, Inr demo_nodata] = Inr demo_nodata"
  by (rule truncated_answer_wins_when_last) code_simp+

text \<open>When no regular server of a group answers, an answer of the fallback servers is thrown away
  unless it is conclusive: an empty answer with its SOA record, the proper reply to a question for a
  record type a name does not have, reaches the client as the error of the first round.\<close>

theorem fallback_answer_discarded:
  assumes "\<not> is_fallback s" "is_fallback s'" "arrive [s] = [Inl e]" "arrive [s'] = [Inr r]" "\<not> is_conclusive r"
  shows "group_lookup is_fallback arrive [s, s'] = Inl e"
  using assms
  by (auto simp: group_lookup_def Let_def race_servers_def needs_fallback_def pick_best_def List.map_filter_def)

theorem fallback_answer_discarded_witness:
  "group_lookup id (\<lambda>ss. if ss = [False] then [Inl request_timeout] else [Inr demo_nodata]) [False, True] = Inl request_timeout"
  by (rule fallback_answer_discarded) (simp, simp, simp, simp, code_simp)

text \<open>An upstream learns the subnet of a client only with an address query, unless the server is
  configured to send it always, and never one the caller did not pass; the question itself is sent
  unchanged.\<close>

theorem subnet_sent_only_for_addresses:
  "m_queries (build_message rid q rd use_edns cs dnssec ka all_types) = [q] \<and>
   (\<forall>e. m_edns (build_message rid q rd use_edns cs dnssec ka all_types) = Some e \<longrightarrow>
      ed_subnet e = (if is_ip_addr (q_type q) \<or> all_types then cs else None) \<and>
      ed_max_payload e = 4096 \<and> ed_dnssec_ok e = dnssec \<and> (ed_keepalive e = None \<longleftrightarrow> ka = None)) \<and>
   (m_edns (build_message rid q rd use_edns cs dnssec ka all_types) = None \<longleftrightarrow>
      \<not> use_edns \<and> \<not> dnssec \<and> ka = None \<and> (cs = None \<or> \<not> is_ip_addr (q_type q) \<and> \<not> all_types))"
  by (auto simp: build_message_def Let_def m_add_query_def message_query_def message_new_def edns_new_def
      MAX_PAYLOAD_LEN_def EDNS_OPTION_TCP_KEEPALIVE_def ed_insert_def ed_subnet_def ed_keepalive_def ed_option_def
      is_ip_addr_def split: option.split)

theorem subnet_sent_only_for_addresses_witness:
  "ed_subnet (the (m_edns (build_message 1 (query_query name_root RT_MX) True True
      (Some \<lparr>cs_address = IpV4 1, cs_source_prefix = 24, cs_scope_prefix = 0\<rparr>) False None False))) = None"
  using subnet_sent_only_for_addresses [of 1 "query_query name_root RT_MX" True True
      "Some \<lparr>cs_address = IpV4 1, cs_source_prefix = 24, cs_scope_prefix = 0\<rparr>" False None False]
  by (auto simp: query_query_def is_ip_addr_def)

end
