(* ===== verification/Ping_Race.thy ===== *)
theory Ping_Race
  imports Config
begin

text \<open>
  The race of probes that finds the fastest address (\<open>dns_mw_ns.rs\<close>, \<open>dynamic_tier_ping\<close> and
  \<open>multi_mode_ping_fastest\<close>). Every destination is probed three times at once; the results arrive in
  any order. The race is on for the highest number of successes that is still possible: the first
  destination to reach it ends the race, and the destination with the best score wins. After 600 ms the
  race is settled with what has arrived. Durations are in nanoseconds. The probes themselves and the
  order in which they end are arguments.
\<close>

section \<open>State of the race\<close>

definition PINGS_PER_IP :: u8 where
  "PINGS_PER_IP = 3"

definition DURATION_MAX :: nat where
  "DURATION_MAX = (2 ^ 64 - 1) * 1000000000 + 999999999"

record ip_state =
  is_dest :: ping_addr
  is_successes :: u8
  is_failures :: u8
  is_sum_latency :: nat
  is_min_latency :: nat

definition ip_state_new :: "ping_addr \<Rightarrow> ip_state" where
  "ip_state_new d =
     \<lparr>is_dest = d, is_successes = 0, is_failures = 0, is_sum_latency = 0, is_min_latency = DURATION_MAX\<rparr>"

definition average :: "ip_state \<Rightarrow> nat" where
  "average s = is_sum_latency s div unat (is_successes s)"

definition score :: "ip_state \<Rightarrow> nat" where
  "score s =
     (if is_successes s = 0 then 60 * 1000000000
      else
        (let base_score = (average s + is_min_latency s) div 2;
             penalty = 50 * 1000000 * unat (3 - ucast (is_successes s) :: u32)
         in base_score + penalty))"

definition winner :: "ip_state list \<Rightarrow> (ping_addr \<times> nat) option" where
  "winner states =
     map_option (\<lambda>s. (is_dest s, average s))
       (min_by_key score (List.filter (\<lambda>s. 0 < is_successes s) states))"

text \<open>\<open>states.iter_mut().find(..)\<close> gives the first state of a destination.\<close>

fun update_first :: "('a \<Rightarrow> bool) \<Rightarrow> ('a \<Rightarrow> 'a) \<Rightarrow> 'a list \<Rightarrow> 'a list" where
  "update_first P f [] = []"
| "update_first P f (x # xs) = (if P x then f x # xs else x # update_first P f xs)"

definition record_success :: "nat \<Rightarrow> ip_state \<Rightarrow> ip_state" where
  "record_success latency s =
     s\<lparr>is_successes := is_successes s + 1, is_sum_latency := is_sum_latency s + latency,
       is_min_latency := min (is_min_latency s) latency\<rparr>"

definition record_failure :: "ip_state \<Rightarrow> ip_state" where
  "record_failure s = s\<lparr>is_failures := is_failures s + 1\<rparr>"

definition reachable_score :: "ip_state list \<Rightarrow> u8" where
  "reachable_score states = foldl max 0 (List.map (\<lambda>s. PINGS_PER_IP - is_failures s) states)"

section \<open>The race\<close>

datatype race = Racing "ip_state list" u8 | Decided "(ping_addr \<times> nat) option"

fun race_step :: "ip_state list \<Rightarrow> u8 \<Rightarrow> ping_addr \<times> nat option \<Rightarrow> race" where
  "race_step states target_score (dest, Some latency) =
     (let states' = update_first (\<lambda>s. is_dest s = dest) (record_success latency) states
      in case List.find (\<lambda>s. is_dest s = dest) states' of
           Some state \<Rightarrow>
             if is_successes state = target_score then Decided (winner states')
             else Racing states' target_score
         | None \<Rightarrow> Racing states' target_score)"
| "race_step states target_score (dest, None) =
     (let states' = update_first (\<lambda>s. is_dest s = dest) record_failure states;
          new_target = reachable_score states'
      in if new_target < target_score then
           if new_target = 0 then Decided None
           else if list_ex (\<lambda>s. new_target \<le> is_successes s) states' then Decided (winner states')
           else Racing states' new_target
         else Racing states' target_score)"

fun race_logic :: "ip_state list \<Rightarrow> u8 \<Rightarrow> (ping_addr \<times> nat option) list \<Rightarrow> race" where
  "race_logic states target_score [] = Racing states target_score"
| "race_logic states target_score (event # events) =
     (case race_step states target_score event of
        Racing states' target' \<Rightarrow> race_logic states' target' events
      | Decided r \<Rightarrow> Decided r)"

text \<open>The events are those that arrive before the deadline; \<open>expired\<close> says that it passed before the
  last probe ended.\<close>

definition tier_race :: "ping_addr list \<Rightarrow> (ping_addr \<times> nat option) list \<Rightarrow> bool \<Rightarrow> (ping_addr \<times> nat) option" where
  "tier_race dests events expired =
     (case race_logic (List.map ip_state_new dests) PINGS_PER_IP events of
        Decided r \<Rightarrow> r
      | Racing states target_score \<Rightarrow> if expired then winner states else None)"

fun ping_ip :: "ping_addr \<Rightarrow> ip_addr" where
  "ping_ip (PA_Icmp ip) = ip"
| "ping_ip (PA_Tcp ip port) = ip"
| "ping_ip (PA_Https ip port) = ip"

text \<open>\<open>probes mode\<close> is what the probes of a mode yield within the deadline, and whether it passed.\<close>

definition dynamic_tier_ping ::
    "ip_addr list \<Rightarrow> speed_mode \<Rightarrow> (ping_addr \<times> nat option) list \<times> bool \<Rightarrow> (ip_addr \<times> nat) option" where
  "dynamic_tier_ping ip_addrs mode probes =
     (if ip_addrs = [] then None
      else
        (let dests = to_ping_addrs mode ip_addrs
         in if dests = [] then None
            else map_option (\<lambda>(d, l). (ping_ip d, l)) (tier_race dests (fst probes) (snd probes))))"

definition multi_mode_ping_fastest ::
    "ip_addr list \<Rightarrow> speed_mode list \<Rightarrow> (speed_mode \<Rightarrow> (ping_addr \<times> nat option) list \<times> bool) \<Rightarrow> ip_addr option" where
  "multi_mode_ping_fastest ip_addrs modes probes =
     find_map (\<lambda>mode. map_option fst (dynamic_tier_ping ip_addrs mode (probes mode))) modes"

section \<open>What the events say about a destination\<close>

definition hits :: "(ping_addr \<times> nat option) list \<Rightarrow> ping_addr \<Rightarrow> nat list" where
  "hits events d = List.map_filter (\<lambda>e. if fst e = d then snd e else None) events"

definition misses :: "(ping_addr \<times> nat option) list \<Rightarrow> ping_addr \<Rightarrow> nat" where
  "misses events d = length (List.filter (\<lambda>e. e = (d, None)) events)"

definition tally :: "(ping_addr \<times> nat option) list \<Rightarrow> ping_addr \<Rightarrow> ip_state" where
  "tally events d =
     \<lparr>is_dest = d, is_successes = of_nat (length (hits events d)), is_failures = of_nat (misses events d),
      is_sum_latency = sum_list (hits events d), is_min_latency = foldl min DURATION_MAX (hits events d)\<rparr>"

definition probes_within :: "ping_addr list \<Rightarrow> (ping_addr \<times> nat option) list \<Rightarrow> bool" where
  "probes_within dests events \<longleftrightarrow>
     (\<forall>e \<in> set events. fst e \<in> set dests) \<and> (\<forall>d. length (List.filter (\<lambda>e. fst e = d) events) \<le> 3)"

lemma hits_append: "hits (xs @ ys) d = hits xs d @ hits ys d"
  by (simp add: hits_def map_filter_def)

lemma hits_single: "hits [(d', r)] d = (case r of Some l \<Rightarrow> if d' = d then [l] else [] | None \<Rightarrow> [])"
  by (simp add: hits_def map_filter_simps split: option.split)

lemma misses_append: "misses (xs @ ys) d = misses xs d + misses ys d"
  by (simp add: misses_def)

lemma misses_single: "misses [(d', r)] d = (if d' = d \<and> r = None then 1 else 0)"
  by (simp add: misses_def)

lemma hits_misses: "length (hits events d) + misses events d = length (List.filter (\<lambda>e. fst e = d) events)"
proof (induction events)
  case Nil
  show ?case by (simp add: hits_def misses_def map_filter_simps)
next
  case (Cons e events)
  obtain d' r where "e = (d', r)" by fastforce
  then show ?case using Cons hits_append [of "[e]" events d] misses_append [of "[e]" events d]
    by (cases r) (auto simp: hits_single misses_single)
qed

lemma hits_Nil_iff: "(\<forall>d. hits events d = []) \<longleftrightarrow> (\<forall>e \<in> set events. snd e = None)"
proof (induction events)
  case Nil
  show ?case by (simp add: hits_def map_filter_simps)
next
  case (Cons e events)
  obtain d' r where "e = (d', r)" by fastforce
  then show ?case using Cons hits_append [of "[e]" events]
    by (cases r) (auto simp: hits_single)
qed

lemma hits_elsewhere: "probes_within dests events \<Longrightarrow> d \<notin> set dests \<Longrightarrow> hits events d = []"
  by (auto simp: probes_within_def hits_def map_filter_def filter_empty_conv)

lemma within_prefix: "probes_within dests (xs @ ys) \<Longrightarrow> probes_within dests xs"
  by (auto simp: probes_within_def) (meson add_leD1)

lemma within_count:
  "probes_within dests events \<Longrightarrow> length (hits events d) + misses events d \<le> 3"
  by (simp add: hits_misses probes_within_def)

lemma tally_start: "tally [] d = ip_state_new d"
  by (simp add: tally_def ip_state_new_def hits_def misses_def map_filter_simps)

lemma tally_dest [simp]: "is_dest (tally events d) = d"
  by (simp add: tally_def)

lemma tally_success: "record_success l (tally events d) = tally (events @ [(d, Some l)]) d"
  by (simp add: record_success_def tally_def hits_append hits_single misses_append misses_single add.commute)

lemma tally_failure: "record_failure (tally events d) = tally (events @ [(d, None)]) d"
  by (simp add: record_failure_def tally_def hits_append hits_single misses_append misses_single add.commute)

lemma tally_other: "d' \<noteq> d \<Longrightarrow> tally (events @ [(d', r)]) d = tally events d"
  by (simp add: tally_def hits_append hits_single misses_append misses_single split: option.split)

lemma update_first_map:
  assumes "distinct dests" "\<And>x. is_dest (g x) = x"
  shows "update_first (\<lambda>s. is_dest s = d) f (List.map g dests) =
    List.map (\<lambda>x. if x = d then f (g x) else g x) dests"
  using assms by (induction dests) auto

lemma find_tally: "d \<in> set dests \<Longrightarrow> List.find (\<lambda>s. is_dest s = d) (List.map (tally events) dests) = Some (tally events d)"
  by (induction dests) auto

text \<open>A step of the race keeps the states equal to the tallies.\<close>

lemma step_states:
  assumes "distinct dests"
  shows "update_first (\<lambda>s. is_dest s = d) (record_success l) (List.map (tally events) dests) =
      List.map (tally (events @ [(d, Some l)])) dests"
    "update_first (\<lambda>s. is_dest s = d) record_failure (List.map (tally events) dests) =
      List.map (tally (events @ [(d, None)])) dests"
  by (simp_all add: update_first_map [OF assms] tally_success tally_failure tally_other)

section \<open>The highest score that is still possible\<close>

lemma foldl_max_bounds:
  fixes xs :: "'a::linorder list"
  shows "a \<le> foldl max a xs" "x \<in> set xs \<Longrightarrow> x \<le> foldl max a xs" "foldl max a xs \<in> insert a (set xs)"
proof (induction xs arbitrary: a)
  case Nil
  { case 1 show ?case by simp }
  { case 2 then show ?case by simp }
  { case 3 show ?case by simp }
next
  case (Cons y xs)
  { case 1 show ?case using Cons(1) [of "max a y"] by simp }
  { case 2 then show ?case using Cons(1) [of "max a y"] Cons(2) [of "max a y"] by auto }
  { case 3 show ?case using Cons(3) [of "max a y"] by (auto simp: max_def split: if_splits) }
qed

definition still_possible :: "(ping_addr \<times> nat option) list \<Rightarrow> ping_addr \<Rightarrow> u8" where
  "still_possible events d = PINGS_PER_IP - of_nat (misses events d)"

lemma reachable_tally:
  "reachable_score (List.map (tally events) dests) = foldl max 0 (List.map (still_possible events) dests)"
  by (simp add: reachable_score_def tally_def still_possible_def [abs_def] comp_def)

lemma unat_still_possible: "misses events d \<le> 3 \<Longrightarrow> unat (still_possible events d) = 3 - misses events d"
  by (simp add: still_possible_def PINGS_PER_IP_def unat_sub word_le_nat_alt unat_of_nat)

lemma unat_hits: "length (hits events d) \<le> 3 \<Longrightarrow> unat (of_nat (length (hits events d)) :: u8) = length (hits events d)"
  by (simp add: unat_of_nat)

section \<open>The invariant of the race\<close>

definition race_inv :: "ping_addr list \<Rightarrow> (ping_addr \<times> nat option) list \<Rightarrow> u8 \<Rightarrow> bool" where
  "race_inv dests events t \<longleftrightarrow>
     t = reachable_score (List.map (tally events) dests) \<and> t \<noteq> 0 \<and>
     (\<forall>d \<in> set dests. is_successes (tally events d) < t)"

text \<open>What a decision rests on.\<close>

definition race_outcome :: "ping_addr list \<Rightarrow> (ping_addr \<times> nat option) list \<Rightarrow> (ping_addr \<times> nat) option \<Rightarrow> bool" where
  "race_outcome dests events r \<longleftrightarrow>
     r = None \<and> (\<forall>d \<in> set dests. misses events d = 3) \<or>
     r = winner (List.map (tally events) dests) \<and> (\<exists>d \<in> set dests. hits events d \<noteq> [])"

lemma race_inv_start: "dests \<noteq> [] \<Longrightarrow> race_inv dests [] PINGS_PER_IP"
proof -
  assume "dests \<noteq> []"
  moreover have "foldl max 3 (List.map (\<lambda>d. 3 :: u8) xs) = 3" for xs :: "ping_addr list"
    by (induction xs) simp_all
  ultimately have "reachable_score (List.map (tally []) dests) = 3"
    by (cases dests) (simp_all add: reachable_tally still_possible_def [abs_def] misses_def PINGS_PER_IP_def del: list.map(2), simp_all)
  then show ?thesis by (simp add: race_inv_def PINGS_PER_IP_def tally_start ip_state_new_def)
qed

lemma race_step_success:
  assumes "distinct dests" "race_inv dests seen t" "probes_within dests (seen @ [(d, Some l)])"
  shows "case race_step (List.map (tally seen) dests) t (d, Some l) of
      Racing states t' \<Rightarrow> states = List.map (tally (seen @ [(d, Some l)])) dests \<and> race_inv dests (seen @ [(d, Some l)]) t'
    | Decided r \<Rightarrow> race_outcome dests (seen @ [(d, Some l)]) r"
proof -
  let ?e = "seen @ [(d, Some l)]"
  have d: "d \<in> set dests" using assms(3) by (auto simp: probes_within_def)
  have len: "length (hits ?e d) = Suc (length (hits seen d))" by (simp add: hits_append hits_single)
  have le: "Suc (length (hits seen d)) \<le> 3" using within_count [OF assms(3), of d] len by simp
  have same: "reachable_score (List.map (tally ?e) dests) = reachable_score (List.map (tally seen) dests)"
    by (simp add: reachable_tally still_possible_def [abs_def] misses_append misses_single)
  have old: "is_successes (tally seen d) < t" using assms(2) d unfolding race_inv_def by blast
  have new: "is_successes (tally ?e d) = is_successes (tally seen d) + 1"
    by (simp add: tally_def len add.commute)
  show ?thesis
  proof (cases "is_successes (tally ?e d) = t")
    case True
    then show ?thesis using d
      by (auto simp: step_states [OF assms(1)] find_tally Let_def race_outcome_def hits_append hits_single)
  next
    case False
    have "is_successes (tally ?e d) < t"
    proof -
      have "is_successes (tally seen d) + 1 \<le> t" using old by (rule inc_le)
      then show ?thesis using False new by simp
    qed
    then have "\<forall>x \<in> set dests. is_successes (tally ?e x) < t"
      using assms(2) tally_other [of d] unfolding race_inv_def by metis
    then have "race_inv dests ?e t" using assms(2) same unfolding race_inv_def by metis
    then show ?thesis using False d
      by (simp add: step_states [OF assms(1)] find_tally Let_def)
  qed
qed

lemma race_step_failure:
  assumes "distinct dests" "race_inv dests seen t" "probes_within dests (seen @ [(d, None)])"
  shows "case race_step (List.map (tally seen) dests) t (d, None) of
      Racing states t' \<Rightarrow> states = List.map (tally (seen @ [(d, None)])) dests \<and> race_inv dests (seen @ [(d, None)]) t'
    | Decided r \<Rightarrow> race_outcome dests (seen @ [(d, None)]) r"
proof -
  let ?e = "seen @ [(d, None)]"
  let ?new = "reachable_score (List.map (tally ?e) dests)"
  have m: "misses ?e x \<le> 3" for x using within_count [OF assms(3), of x] by simp
  have sub: "still_possible ?e x \<le> still_possible seen x" for x
  proof -
    have "misses seen x \<le> misses ?e x" by (simp add: misses_append)
    then show ?thesis using m [of x] by (simp add: word_le_nat_alt unat_still_possible)
  qed
  have succ: "is_successes (tally ?e x) = is_successes (tally seen x)" for x
    by (simp add: tally_def hits_append hits_single)
  have t: "t = reachable_score (List.map (tally seen) dests)" "t \<noteq> 0"
    "\<And>x. x \<in> set dests \<Longrightarrow> is_successes (tally seen x) < t"
    using assms(2) by (auto simp: race_inv_def)
  have le: "?new \<le> t"
  proof -
    consider "?new = 0" | x where "x \<in> set dests" "?new = still_possible ?e x"
      using foldl_max_bounds(3) [of 0 "List.map (still_possible ?e) dests"] by (auto simp: reachable_tally)
    then show ?thesis
    proof cases
      case 2
      have "still_possible seen x \<le> t" unfolding t(1) reachable_tally
        by (rule foldl_max_bounds(2)) (use 2 in simp)
      then show ?thesis using 2(2) sub [of x] by simp
    qed simp
  qed
  have zero: "\<forall>x \<in> set dests. misses ?e x = 3" if "?new = 0"
  proof
    fix x assume "x \<in> set dests"
    then have "still_possible ?e x \<le> 0"
      using foldl_max_bounds(2) [of "still_possible ?e x" "List.map (still_possible ?e) dests" 0] that
      by (simp add: reachable_tally)
    then have "unat (still_possible ?e x) = 0" by simp
    then show "misses ?e x = 3" using unat_still_possible [OF m, of x] m [of x] by simp
  qed
  have some: "\<exists>x \<in> set dests. hits ?e x \<noteq> []"
    if nz: "?new \<noteq> 0" and ex: "list_ex (\<lambda>s. ?new \<le> is_successes s) (List.map (tally ?e) dests)"
  proof -
    obtain x where x: "x \<in> set dests" "?new \<le> is_successes (tally ?e x)" using ex by (auto simp: list_ex_iff)
    then have "is_successes (tally ?e x) \<noteq> 0" using nz by auto
    then have "hits ?e x \<noteq> []" by (auto simp: tally_def)
    then show ?thesis using x by blast
  qed
  show ?thesis
  proof (cases "?new < t")
    case False
    then have "?new = t" using le by simp
    then have "race_inv dests ?e t" using t by (simp add: race_inv_def succ)
    then show ?thesis using False by (simp add: step_states [OF assms(1)] Let_def)
  next
    case True
    show ?thesis
    proof (cases "?new = 0 \<or> list_ex (\<lambda>s. ?new \<le> is_successes s) (List.map (tally ?e) dests)")
      case dec: True
      then show ?thesis using True zero some by (auto simp: step_states [OF assms(1)] Let_def race_outcome_def)
    next
      case False
      then have "race_inv dests ?e ?new" by (auto simp: race_inv_def list_ex_iff not_le)
      then show ?thesis using True False by (simp add: step_states [OF assms(1)] Let_def)
    qed
  qed
qed

lemma race_logic_inv:
  assumes "distinct dests" "race_inv dests seen t" "probes_within dests (seen @ events)"
  shows "case race_logic (List.map (tally seen) dests) t events of
      Racing states t' \<Rightarrow> states = List.map (tally (seen @ events)) dests \<and> race_inv dests (seen @ events) t'
    | Decided r \<Rightarrow> \<exists>p q. events = p @ q \<and> race_outcome dests (seen @ p) r"
  using assms(2, 3)
proof (induction events arbitrary: seen t)
  case Nil
  then show ?case by simp
next
  case (Cons e events)
  obtain d r where e: "e = (d, r)" by fastforce
  have w: "probes_within dests (seen @ [e])" using Cons.prems(2) within_prefix [of dests "seen @ [e]" events] by simp
  have step: "case race_step (List.map (tally seen) dests) t e of
      Racing states t' \<Rightarrow> states = List.map (tally (seen @ [e])) dests \<and> race_inv dests (seen @ [e]) t'
    | Decided r \<Rightarrow> race_outcome dests (seen @ [e]) r"
  proof (cases r)
    case None
    show ?thesis unfolding e None by (rule race_step_failure [OF assms(1) Cons.prems(1)]) (use w e None in simp)
  next
    case (Some l)
    show ?thesis unfolding e Some by (rule race_step_success [OF assms(1) Cons.prems(1)]) (use w e Some in simp)
  qed
  show ?case
  proof (cases "race_step (List.map (tally seen) dests) t e")
    case (Racing states t')
    then have "states = List.map (tally (seen @ [e])) dests" "race_inv dests (seen @ [e]) t'" using step by simp_all
    then show ?thesis using Cons.IH [of "seen @ [e]" t'] Cons.prems(2) Racing
      by (auto split: race.splits) (metis append_Cons)
  next
    case (Decided r')
    then have "race_outcome dests (seen @ [e]) r'" using step by simp
    then show ?thesis using Decided by (intro exI [of _ "[e]"] exI [of _ events] | simp)+
  qed
qed

section \<open>What the race should deliver\<close>

text \<open>The score of a destination from its latencies: the mean of its average and its best latency, and
  50 ms for every probe that is missing.\<close>

definition latency_average :: "nat list \<Rightarrow> nat" where
  "latency_average ls = sum_list ls div length ls"

definition latency_score :: "nat list \<Rightarrow> nat" where
  "latency_score ls = (latency_average ls + Min (set ls)) div 2 + 50000000 * (3 - length ls)"

definition best_of :: "ping_addr list \<Rightarrow> (ping_addr \<times> nat option) list \<Rightarrow> ping_addr \<times> nat \<Rightarrow> bool" where
  "best_of dests events r \<longleftrightarrow>
     (case r of (d, l) \<Rightarrow>
        d \<in> set dests \<and> hits events d \<noteq> [] \<and> l = latency_average (hits events d) \<and>
        (\<forall>d' \<in> set dests. hits events d' \<noteq> [] \<longrightarrow> latency_score (hits events d) \<le> latency_score (hits events d')))"

definition plausible :: "(ping_addr \<times> nat option) list \<Rightarrow> bool" where
  "plausible events \<longleftrightarrow> (\<forall>(d, r) \<in> set events. \<forall>l. r = Some l \<longrightarrow> l \<le> DURATION_MAX)"

lemma foldl_min_Min: "ls \<noteq> [] \<Longrightarrow> \<forall>l \<in> set ls. l \<le> m \<Longrightarrow> foldl min m ls = Min (set ls)" for m :: nat
proof (induction ls arbitrary: m)
  case Nil
  then show ?case by simp
next
  case (Cons l ls)
  show ?case
  proof (cases "ls = []")
    case True
    then show ?thesis using Cons.prems by simp
  next
    case False
    have "foldl min k xs = min k (foldl min k' xs)" if "k \<le> k'" for k k' :: nat and xs
      using that by (induction xs arbitrary: k k') (auto, smt (verit) min.assoc min.commute min.absorb1 min.mono order_refl)
    then have "foldl min l ls = min l (foldl min m ls)" using Cons.prems by simp
    then show ?thesis using Cons False by (simp add: min.absorb2)
  qed
qed

lemma tally_score:
  assumes "probes_within dests events" "plausible events" "hits events d \<noteq> []"
  shows "score (tally events d) = latency_score (hits events d)" "average (tally events d) = latency_average (hits events d)"
    "0 < is_successes (tally events d)"
proof -
  have le: "length (hits events d) \<le> 3" using within_count [OF assms(1), of d] by simp
  have pos: "0 < length (hits events d)" using assms(3) by simp
  have all: "\<forall>l \<in> set (hits events d). l \<le> DURATION_MAX"
    using assms(2) by (fastforce simp: hits_def map_filter_def plausible_def split: if_splits)
  have ne: "(of_nat (length (hits events d)) :: u8) \<noteq> 0"
    using unat_hits [OF le] pos by (metis less_irrefl unat_0)
  have pen: "unat (3 - ucast (of_nat (length (hits events d)) :: u8) :: u32) = 3 - length (hits events d)"
  proof -
    have "length (hits events d) = 1 \<or> length (hits events d) = 2 \<or> length (hits events d) = 3" using le pos by linarith
    then show ?thesis by (elim disjE) simp_all
  qed
  show av: "average (tally events d) = latency_average (hits events d)"
    using unat_hits [OF le] by (simp add: average_def latency_average_def tally_def)
  show "0 < is_successes (tally events d)" using ne by (simp add: tally_def word_gt_0)
  show "score (tally events d) = latency_score (hits events d)"
    unfolding score_def latency_score_def using ne pen av foldl_min_Min [OF assms(3) all]
    by (simp add: tally_def Let_def)
qed

lemma winner_tally:
  assumes "probes_within dests events" "plausible events"
  shows "case winner (List.map (tally events) dests) of
      Some r \<Rightarrow> best_of dests events r
    | None \<Rightarrow> \<forall>d \<in> set dests. hits events d = []"
proof -
  have ran: "0 < is_successes (tally events d) \<longleftrightarrow> hits events d \<noteq> []" for d
    using tally_score(3) [OF assms, of d] by (auto simp: tally_def)
  show ?thesis
  proof (cases "min_by_key score (List.filter (\<lambda>s. 0 < is_successes s) (List.map (tally events) dests))")
    case None
    then show ?thesis by (simp add: winner_def filter_empty_conv ran)
  next
    case (Some s)
    from min_by_key_least [OF Some] obtain d where d: "s = tally events d" "d \<in> set dests" "hits events d \<noteq> []"
      and least: "\<And>d'. d' \<in> set dests \<Longrightarrow> hits events d' \<noteq> [] \<Longrightarrow> score s \<le> score (tally events d')"
      by (auto simp: ran)
    show ?thesis unfolding winner_def Some
      using d least tally_score [OF assms] by (auto simp: best_of_def)
  qed
qed

section \<open>Properties\<close>

lemma plausible_prefix: "plausible (p @ q) \<Longrightarrow> plausible p"
  by (simp add: plausible_def)

lemma none_possible:
  assumes "probes_within dests events" "\<forall>d \<in> set dests. misses events d = 3"
  shows "\<forall>d. hits events d = []"
proof
  fix d show "hits events d = []"
  proof (cases "d \<in> set dests")
    case True
    then show ?thesis using within_count [OF assms(1), of d] assms(2) by auto
  qed (rule hits_elsewhere [OF assms(1)])
qed

lemma race_result:
  assumes "distinct dests" "dests \<noteq> []" "probes_within dests events"
  shows "case race_logic (List.map ip_state_new dests) PINGS_PER_IP events of
      Racing states t' \<Rightarrow> states = List.map (tally events) dests \<and> race_inv dests events t'
    | Decided r \<Rightarrow> \<exists>p q. events = p @ q \<and> race_outcome dests p r"
  using race_logic_inv [OF assms(1) race_inv_start [OF assms(2)], of events] assms(3)
  by (simp add: tally_start [abs_def] split: race.splits)

text \<open>What a race that was decided after the events \<open>p\<close> says about all events.\<close>

lemma outcome_decides:
  assumes "probes_within dests (p @ q)" "plausible (p @ q)" "race_outcome dests p r"
  shows "(r = None \<longleftrightarrow> (\<forall>e \<in> set (p @ q). snd e = None)) \<and> (\<forall>r'. r = Some r' \<longrightarrow> best_of dests p r')"
proof -
  have w: "probes_within dests p" "plausible p" using assms(1, 2) within_prefix plausible_prefix by blast+
  from assms(3) consider "r = None" "\<forall>d \<in> set dests. misses p d = 3"
    | "r = winner (List.map (tally p) dests)" "\<exists>d \<in> set dests. hits p d \<noteq> []"
    by (auto simp: race_outcome_def)
  then show ?thesis
  proof cases
    case 1
    have "misses p d \<le> misses (p @ q) d" for d by (simp add: misses_append)
    moreover have "misses (p @ q) d \<le> 3" for d using within_count [OF assms(1), of d] by simp
    ultimately have "\<forall>d \<in> set dests. misses (p @ q) d = 3" using 1(2) by (metis le_antisym)
    then show ?thesis using none_possible [OF assms(1)] 1(1) by (simp add: hits_Nil_iff)
  next
    case 2
    then obtain r' where r': "r = Some r'" "best_of dests p r'"
      using winner_tally [OF w] by (cases "winner (List.map (tally p) dests)") auto
    have "\<not> (\<forall>e \<in> set (p @ q). snd e = None)"
      using 2(2) unfolding hits_Nil_iff [symmetric] by (auto simp: hits_append)
    then show ?thesis using r' by auto
  qed
qed

text \<open>A race is not running any more when all probes have ended.\<close>

lemma full_race_is_over:
  assumes "race_inv dests events t" "probes_within dests events"
  shows "\<exists>d \<in> set dests. length (hits events d) + misses events d \<noteq> 3"
proof (rule ccontr)
  assume "\<not> ?thesis"
  then have full: "\<forall>d \<in> set dests. length (hits events d) + misses events d = 3" by blast
  have t: "t = foldl max 0 (List.map (still_possible events) dests)" "t \<noteq> 0"
    "\<And>d. d \<in> set dests \<Longrightarrow> is_successes (tally events d) < t"
    using assms(1) unfolding race_inv_def reachable_tally by blast+
  then obtain d where d: "d \<in> set dests" "t = still_possible events d"
    using foldl_max_bounds(3) [of 0 "List.map (still_possible events) dests"] by auto
  have "unat (is_successes (tally events d)) = length (hits events d)"
    using within_count [OF assms(2), of d] unat_hits [of events d] by (simp add: tally_def)
  moreover have "unat t = 3 - misses events d"
    using within_count [OF assms(2), of d] unat_still_possible [of events d] d by simp
  moreover have "unat (is_successes (tally events d)) < unat t" using t(3) [OF d(1)] by (simp add: word_less_nat_alt)
  ultimately show False using full [rule_format, OF d(1)] by linarith
qed

lemma winner_decides:
  assumes "probes_within dests events" "plausible events"
  shows "(winner (List.map (tally events) dests) = None \<longleftrightarrow> (\<forall>e \<in> set events. snd e = None)) \<and>
    (\<forall>r. winner (List.map (tally events) dests) = Some r \<longrightarrow> best_of dests events r)"
proof (cases "winner (List.map (tally events) dests)")
  case None
  then have "\<forall>d. hits events d = []" using winner_tally [OF assms] hits_elsewhere [OF assms(1)] by auto
  then show ?thesis using None by (simp add: hits_Nil_iff)
next
  case (Some r)
  then have b: "best_of dests events r" using winner_tally [OF assms] by simp
  then have "\<not> (\<forall>e \<in> set events. snd e = None)" by (auto simp: best_of_def hits_Nil_iff [symmetric])
  then show ?thesis using Some b by simp
qed

text \<open>C16: the probes decide between different destinations. When each destination of a list without repetitions
  was probed three times and all probes have ended, or the deadline has passed, the race names an address exactly
  when some probe succeeded; and what it names
  is the destination with the best score, the mean of average and best latency plus 50 ms for each missing
  probe, at the moment the race ended. So a race that gives up, and lets the next mode be tried, has not
  thrown away an address that answered. The code does not remove repetitions from the list of an answer, and for
  one that is listed twice this is not so: see \<open>duplicate_address_never_wins\<close>.\<close>

theorem tier_race_decides:
  assumes "distinct dests" "dests \<noteq> []" "probes_within dests events" "plausible events"
    and "expired \<or> (\<forall>d \<in> set dests. length (List.filter (\<lambda>e. fst e = d) events) = 3)"
  shows "(tier_race dests events expired = None \<longleftrightarrow> (\<forall>e \<in> set events. snd e = None)) \<and>
    (\<forall>r. tier_race dests events expired = Some r \<longrightarrow> (\<exists>p q. events = p @ q \<and> best_of dests p r))"
proof (cases "race_logic (List.map ip_state_new dests) PINGS_PER_IP events")
  case (Decided r)
  then obtain p q where pq: "events = p @ q" "race_outcome dests p r"
    using race_result [OF assms(1-3)] by auto
  moreover have "tier_race dests events expired = r" using Decided by (simp add: tier_race_def)
  moreover note outcome_decides [of dests p q r, folded pq(1), OF assms(3, 4) pq(2)]
  ultimately show ?thesis by auto
next
  case (Racing states t)
  then have st: "states = List.map (tally events) dests" "race_inv dests events t"
    using race_result [OF assms(1-3)] by simp_all
  then have "expired" using full_race_is_over [OF _ assms(3)] assms(5) by (auto simp: hits_misses)
  then have "tier_race dests events expired = winner (List.map (tally events) dests)"
    using Racing st(1) by (simp add: tier_race_def)
  then show ?thesis using winner_decides [OF assms(3, 4)] by (metis append_Nil2)
qed

text \<open>Six probes on two addresses: the slow one is clean, the fast one lost a probe. The race ends when the
  slow one has its third success, but the loss costs the fast one only 50 ms.\<close>

theorem tier_race_decides_witness:
  "tier_race [PA_Icmp (IpV4 1), PA_Icmp (IpV4 2)]
     [(PA_Icmp (IpV4 2), Some 9000000), (PA_Icmp (IpV4 2), None), (PA_Icmp (IpV4 1), Some 90000000),
      (PA_Icmp (IpV4 2), Some 11000000), (PA_Icmp (IpV4 1), Some 90000000), (PA_Icmp (IpV4 1), Some 90000000)] False
     = Some (PA_Icmp (IpV4 2), 10000000) \<and>
   best_of [PA_Icmp (IpV4 1)] [(PA_Icmp (IpV4 1), Some 5)] (PA_Icmp (IpV4 1), 5)"
proof -
  let ?d = "PA_Icmp (IpV4 1)"
  have "\<exists>p q. [(?d, Some 5)] = p @ q \<and> best_of [?d] p (?d, 5)"
    by (rule conjunct2 [OF tier_race_decides [of "[?d]" "[(?d, Some 5)]" True], rule_format])
      (simp_all add: probes_within_def plausible_def DURATION_MAX_def tier_race_def ip_state_new_def
        PINGS_PER_IP_def record_success_def winner_def average_def)
  then have "best_of [?d] [(?d, Some 5)] (?d, 5)"
    by (auto simp: append_eq_Cons_conv Cons_eq_append_conv best_of_def hits_def map_filter_simps)
  moreover have "tier_race [PA_Icmp (IpV4 1), PA_Icmp (IpV4 2)]
     [(PA_Icmp (IpV4 2), Some 9000000), (PA_Icmp (IpV4 2), None), (PA_Icmp (IpV4 1), Some 90000000),
      (PA_Icmp (IpV4 2), Some 11000000), (PA_Icmp (IpV4 1), Some 90000000), (PA_Icmp (IpV4 1), Some 90000000)] False
     = Some (PA_Icmp (IpV4 2), 10000000)"
    by (simp add: tier_race_def ip_state_new_def PINGS_PER_IP_def record_success_def record_failure_def winner_def
        average_def reachable_score_def Let_def score_def DURATION_MAX_def)
  ultimately show ?thesis by simp
qed

lemma twin_race:
  fixes s s' :: ip_state
  assumes "\<forall>e \<in> set events. fst e = d" "is_dest s = d" "is_dest s' = d" "is_failures s' = 0"
    and "unat (is_successes s) + length (hits events d) < 3"
  shows "\<exists>r t. race_logic [s, s'] 3 events = Racing r t"
  using assms
proof (induction events arbitrary: s)
  case Nil
  then show ?case by simp
next
  case (Cons e events)
  obtain r where e: "e = (d, r)" using Cons.prems by (metis list.set_intros(1) prod.collapse)
  show ?case
  proof (cases r)
    case None
    have "\<not> reachable_score [record_failure s, s'] < 3"
      using Cons.prems(4) foldl_max_bounds(2) [of "3 :: u8" "[3 - is_failures (record_failure s), 3]" 0]
      by (simp add: reachable_score_def PINGS_PER_IP_def not_less)
    then show ?thesis
      using Cons.IH [of "record_failure s"] Cons.prems hits_append [of "[e]" events d]
      by (simp add: e None Let_def hits_single record_failure_def)
  next
    case (Some l)
    have n: "unat (is_successes s) + Suc (length (hits events d)) < 3"
      using Cons.prems(5) hits_append [of "[e]" events d] by (simp add: e Some hits_single)
    then have u: "unat (is_successes s + 1) = Suc (unat (is_successes s))" by (simp add: unat_word_ariths)
    have "is_successes s + 1 \<noteq> 3"
    proof
      assume "is_successes s + 1 = 3"
      then have "unat (is_successes s + 1) = 3" by simp
      then show False using u n by simp
    qed
    then show ?thesis
      using Cons.IH [of "record_success l s"] Cons.prems n u
      by (simp add: e Some Let_def record_success_def)
  qed
qed

text \<open>An address that the answer lists twice can lose although it answers. All six results are booked
  on the first of its two states, so the score that is still possible never falls below three; with fewer
  than three successes among the six probes the race ends with all probes back and names nobody. The same
  successes, had the address been listed once, would have won.\<close>

theorem duplicate_address_never_wins:
  assumes "\<forall>e \<in> set events. fst e = d" "length (hits events d) < 3"
  shows "tier_race [d, d] events False = None"
proof -
  have "unat (is_successes (ip_state_new d)) + length (hits events d) < 3"
    using assms(2) by (simp add: ip_state_new_def)
  from twin_race [OF assms(1) _ _ _ this, of "ip_state_new d"] show ?thesis
    by (auto simp: tier_race_def PINGS_PER_IP_def ip_state_new_def)
qed

theorem duplicate_address_never_wins_witness:
  "tier_race [PA_Icmp (IpV4 1), PA_Icmp (IpV4 1)]
     [(PA_Icmp (IpV4 1), Some 9000000), (PA_Icmp (IpV4 1), None), (PA_Icmp (IpV4 1), None),
      (PA_Icmp (IpV4 1), None), (PA_Icmp (IpV4 1), None), (PA_Icmp (IpV4 1), Some 9000000)] False = None \<and>
   tier_race [PA_Icmp (IpV4 1)]
     [(PA_Icmp (IpV4 1), Some 9000000), (PA_Icmp (IpV4 1), None), (PA_Icmp (IpV4 1), None)] False
     = Some (PA_Icmp (IpV4 1), 9000000)"
proof
  show "tier_race [PA_Icmp (IpV4 1), PA_Icmp (IpV4 1)]
     [(PA_Icmp (IpV4 1), Some 9000000), (PA_Icmp (IpV4 1), None), (PA_Icmp (IpV4 1), None),
      (PA_Icmp (IpV4 1), None), (PA_Icmp (IpV4 1), None), (PA_Icmp (IpV4 1), Some 9000000)] False = None"
    by (rule duplicate_address_never_wins) (simp_all add: hits_def map_filter_simps)
  show "tier_race [PA_Icmp (IpV4 1)]
     [(PA_Icmp (IpV4 1), Some 9000000), (PA_Icmp (IpV4 1), None), (PA_Icmp (IpV4 1), None)] False
     = Some (PA_Icmp (IpV4 1), 9000000)"
    by (simp add: tier_race_def ip_state_new_def PINGS_PER_IP_def record_success_def record_failure_def winner_def
        average_def reachable_score_def Let_def score_def DURATION_MAX_def)
qed

text \<open>The modes are tried in order, and an address that is named belongs to the addresses that were
  asked.\<close>

lemma ping_ip_to_ping_addr: "to_ping_addr m ip = Some d \<Longrightarrow> ping_ip d = ip"
  by (cases m) auto

lemma winner_dest: "\<forall>s \<in> set xs. is_dest s \<in> D \<Longrightarrow> winner xs = Some (d, l) \<Longrightarrow> d \<in> D"
  unfolding winner_def by (auto dest!: min_by_key_least)

lemma race_logic_dest:
  assumes "\<forall>s \<in> set states. is_dest s \<in> D"
  shows "case race_logic states t events of
      Racing states' t' \<Rightarrow> \<forall>s \<in> set states'. is_dest s \<in> D
    | Decided r \<Rightarrow> \<forall>d l. r = Some (d, l) \<longrightarrow> d \<in> D"
proof -
  have up: "\<forall>s \<in> set (update_first P f xs). is_dest s \<in> D"
    if "\<forall>s \<in> set xs. is_dest s \<in> D" "\<And>s. is_dest (f s) = is_dest s" for P f and xs :: "ip_state list"
    using that by (induction xs) auto
  note win = winner_dest
  have f: "is_dest (record_success l s) = is_dest s" "is_dest (record_failure s) = is_dest s" for l s
    by (simp_all add: record_success_def record_failure_def)
  show ?thesis using assms
  proof (induction events arbitrary: states t)
    case Nil
    then show ?case by simp
  next
    case (Cons e events)
    have "case race_step states t e of
        Racing states' t' \<Rightarrow> \<forall>s \<in> set states'. is_dest s \<in> D
      | Decided r \<Rightarrow> \<forall>d l. r = Some (d, l) \<longrightarrow> d \<in> D"
    proof -
      obtain d r where e: "e = (d, r)" by fastforce
      show ?thesis
      proof (cases r)
        case None
        let ?S = "update_first (\<lambda>s. is_dest s = d) record_failure states"
        have S: "\<forall>s \<in> set ?S. is_dest s \<in> D" by (rule up [OF Cons.prems f(2)])
        then show ?thesis using win [OF S] by (simp only: e None race_step.simps Let_def split: if_split) simp
      next
        case (Some l)
        let ?S = "update_first (\<lambda>s. is_dest s = d) (record_success l) states"
        have S: "\<forall>s \<in> set ?S. is_dest s \<in> D" by (rule up [OF Cons.prems f(1)])
        then show ?thesis using win [OF S]
          by (simp only: e Some race_step.simps Let_def split: option.split if_split) simp
      qed
    qed
    then show ?case using Cons.IH by (cases "race_step states t e") simp_all
  qed
qed

lemma multi_mode_names_member:
  assumes "multi_mode_ping_fastest ips modes probes = Some ip"
  shows "ip \<in> set ips"
proof -
  from find_map_SomeD [OF assms [unfolded multi_mode_ping_fastest_def]] obtain mode d l where
    m: "tier_race (to_ping_addrs mode ips) (fst (probes mode)) (snd (probes mode)) = Some (d, l)" "ip = ping_ip d"
    by (auto simp: dynamic_tier_ping_def Let_def split: if_splits)
  have start: "\<forall>s \<in> set (List.map ip_state_new (to_ping_addrs mode ips)). is_dest s \<in> set (to_ping_addrs mode ips)"
    by (auto simp: ip_state_new_def)
  have "d \<in> set (to_ping_addrs mode ips)"
    using race_logic_dest [OF start, of PINGS_PER_IP "fst (probes mode)"] m(1)
    by (auto simp: tier_race_def split: race.splits if_splits dest: winner_dest)
  then obtain ip' where "to_ping_addr mode ip' = Some d" "ip' \<in> set ips"
    by (auto simp: to_ping_addrs_def map_filter_def)
  then show ?thesis using ping_ip_to_ping_addr m(2) by auto
qed

end
