(* ===== verification/Lookup_Ip.thy ===== *)
theory Lookup_Ip
  imports Upstream Ping_Race Mw_Cname
begin

text \<open>
  The lookup of addresses at a group of servers (\<open>dns_mw_ns.rs\<close>): what one server's answer becomes
  (\<open>per_nameserver_lookup_ip\<close>), the choice among the answers by response strategy (\<open>lookup_ip_with\<close>), and
  the second round with the fallback servers (\<open>lookup_ip\<close>). What the servers send is an argument; so are,
  in the record \<open>schedule\<close>, the order in which concurrent tasks end, how many answers arrive before the
  deadline of the gathering phase, the iteration order of a hash map and the outcome of the probes.
\<close>

section \<open>One server\<close>

record lookup_options =
  lo_is_dnssec :: bool
  lo_record_type :: rtype
  lo_client_subnet :: "client_subnet option"
  lo_query_class :: dns_class

record lookup_ip_options =
  li_response_strategy :: response_mode
  li_speed_check_mode :: "speed_mode list option"
  li_no_speed_check :: bool
  li_ignore_ip :: "unit ip_map"
  li_whitelist_ip :: "unit ip_map"
  li_blacklist_ip :: "unit ip_map"
  li_ip_alias :: "(nat \<times> ip_addr list) ip_map"
  li_lookup_options :: lookup_options

record name_server =
  sv_name :: string
  sv_blacklist_ip :: bool
  sv_whitelist_ip :: bool
  sv_client_subnet :: "client_subnet option"
  sv_recursion_desired :: bool
  sv_edns0 :: bool
  sv_is_fallback :: bool
  sv_tcp_keepalive :: "u16 option"
  sv_subnet_all_query_types :: bool
  sv_has_tcp_fallback :: bool

definition request_message :: "u16 \<Rightarrow> dname \<Rightarrow> lookup_options \<Rightarrow> name_server \<Rightarrow> message" where
  "request_message rid name options s =
     (let q = (query_query name (lo_record_type options))\<lparr>q_class := lo_query_class options\<rparr>;
          subnet = or_else (lo_client_subnet options) (sv_client_subnet s);
          use_edns = (sv_edns0 s \<or> subnet \<noteq> None)
      in build_message rid q (sv_recursion_desired s) use_edns subnet (lo_is_dnssec options)
           (sv_tcp_keepalive s) (sv_subnet_all_query_types s))"

definition server_lookup ::
    "env \<Rightarrow> (name_server \<Rightarrow> message \<Rightarrow> ns_outcome) \<Rightarrow> dname \<Rightarrow> lookup_options \<Rightarrow> name_server \<Rightarrow> lookup_result" where
  "server_lookup ev send name options s =
     ns_lookup (ev_now ev) (sv_has_tcp_fallback s) (send s (request_message (ev_rid ev) name options s))"

fun rdata_of_ip :: "ip_addr \<Rightarrow> rdata" where
  "rdata_of_ip (IpV4 a) = RD_A a"
| "rdata_of_ip (IpV6 a) = RD_AAAA a"

text \<open>An alias that does not fit the question goes to the additional section.\<close>

fun alias_fits :: "rtype \<Rightarrow> ip_addr \<Rightarrow> bool" where
  "alias_fits t (IpV4 a) = (t = RT_A)"
| "alias_fits t (IpV6 a) = (t = RT_AAAA)"

definition ip_filter ::
    "(ip_net \<Rightarrow> ip_addr \<Rightarrow> bool) \<Rightarrow> lookup_ip_options \<Rightarrow> name_server \<Rightarrow> ip_addr \<Rightarrow> bool" where
  "ip_filter net_contains options s ip =
     (if sv_whitelist_ip s \<and> im_contains net_contains (li_whitelist_ip options) ip then True
      else if sv_blacklist_ip s \<and> im_contains net_contains (li_blacklist_ip options) ip then False
      else \<not> im_contains net_contains (li_ignore_ip options) ip)"

text \<open>The loop over the answers: the new answers, and the records for the additional section.\<close>

fun rewrite_answers ::
    "(ip_addr \<Rightarrow> bool) \<Rightarrow> (ip_addr \<Rightarrow> (nat \<times> ip_addr list) option) \<Rightarrow> rtype \<Rightarrow> rr list \<Rightarrow> nat list \<Rightarrow>
     rr list \<times> rr list" where
  "rewrite_answers keep alias t [] alias_set = ([], [])"
| "rewrite_answers keep alias t (r # rs) alias_set =
     (case rd_ip_addr (rr_data r) of
        None \<Rightarrow> (let (new_ans, extra) = rewrite_answers keep alias t rs alias_set in (r # new_ans, extra))
      | Some ip \<Rightarrow>
          if \<not> keep ip then rewrite_answers keep alias t rs alias_set
          else
            (case alias ip of
               None \<Rightarrow> (let (new_ans, extra) = rewrite_answers keep alias t rs alias_set in (r # new_ans, extra))
             | Some (ptr, alias_ips) \<Rightarrow>
                 if ptr \<in> set alias_set then rewrite_answers keep alias t rs alias_set
                 else
                   (let (new_ans, extra) = rewrite_answers keep alias t rs (alias_set @ [ptr]);
                        of_ip = (\<lambda>ip. r\<lparr>rr_data := rdata_of_ip ip\<rparr>)
                    in (List.map of_ip (List.filter (alias_fits t) alias_ips) @ new_ans,
                        List.map of_ip (List.filter (\<lambda>ip. \<not> alias_fits t ip) alias_ips) @ extra))))"

definition rewrite_lookup ::
    "int \<Rightarrow> (ip_addr \<Rightarrow> bool) \<Rightarrow> (ip_addr \<Rightarrow> (nat \<times> ip_addr list) option) \<Rightarrow> rtype \<Rightarrow> dns_response \<Rightarrow> dns_response" where
  "rewrite_lookup now keep alias t lookup =
     (let (new_ans, extra) = rewrite_answers keep alias t (r_answers lookup) [];
          taken = foldl (\<lambda>l x. r_add_additional x l) (set_answers [] lookup) extra
      in r_set_valid_until now MAX_TTL (set_answers new_ans taken))"

text \<open>An error that carries an SOA record is an answer.\<close>

definition pardon_soa :: "env \<Rightarrow> dname \<Rightarrow> rtype \<Rightarrow> lookup_result \<Rightarrow> lookup_result" where
  "pardon_soa ev name t res =
     (case res of
        Inr r \<Rightarrow> Inr r
      | Inl e \<Rightarrow>
          (case as_soa (ev_rid ev) (ev_now ev) (query_query name t) e of
             Some soa_resp \<Rightarrow> Inr soa_resp
           | None \<Rightarrow> Inl e))"

definition per_nameserver_lookup_ip ::
    "env \<Rightarrow> (ip_net \<Rightarrow> ip_addr \<Rightarrow> bool) \<Rightarrow> (name_server \<Rightarrow> lookup_result) \<Rightarrow> dname \<Rightarrow> lookup_ip_options \<Rightarrow>
     name_server \<Rightarrow> lookup_result" where
  "per_nameserver_lookup_ip ev net_contains lookup name options s =
     (let t = lo_record_type (li_lookup_options options) in
      if \<not> is_ip_addr t then Inl no_connections
      else
        (let res = pardon_soa ev name t (lookup s) in
         if \<not> sv_whitelist_ip s \<and> \<not> sv_blacklist_ip s \<and> im_is_empty (li_ignore_ip options) \<and>
           im_is_empty (li_ip_alias options)
         then res
         else
           (case res of
              Inr r \<Rightarrow>
                Inr (rewrite_lookup (ev_now ev) (ip_filter net_contains options s)
                       (im_get net_contains (li_ip_alias options)) t r)
            | Inl e \<Rightarrow> Inl e)))"

section \<open>Concurrent tasks\<close>

record schedule =
  sd_choices :: "nat list"
  sd_gathered :: nat
  sd_hash :: "(ip_addr \<times> nat) list \<Rightarrow> (ip_addr \<times> nat) list"
  sd_probes :: "ip_addr list \<Rightarrow> speed_mode \<Rightarrow> (ping_addr \<times> nat option) list \<times> bool"

text \<open>Which of the pending tasks ends next: any of them, as the choices say, the first when they are used up.\<close>

definition next_task :: "nat list \<Rightarrow> nat \<Rightarrow> nat" where
  "next_task choices n = (case choices of [] \<Rightarrow> 0 | c # _ \<Rightarrow> c mod n)"

definition remove_nth :: "nat \<Rightarrow> 'a list \<Rightarrow> 'a list" where
  "remove_nth i xs = take i xs @ drop (Suc i) xs"

lemma next_task_less: "0 < n \<Longrightarrow> next_task choices n < n"
  by (simp add: next_task_def split: list.split)

lemma length_remove_nth: "i < length xs \<Longrightarrow> length (remove_nth i xs) = length xs - 1"
  by (simp add: remove_nth_def)

section \<open>The choice among the answers\<close>

text \<open>Answers and errors so far, and what a strategy ends with: the address it selects.\<close>

record gathered =
  ga_ok :: "dns_response list"
  ga_err :: "lookup_error list"

fun gather :: "lookup_result \<Rightarrow> gathered \<Rightarrow> gathered" where
  "gather (Inr r) g = g\<lparr>ga_ok := ga_ok g @ [r]\<rparr>"
| "gather (Inl e) g = g\<lparr>ga_err := ga_err g @ [e]\<rparr>"

definition ip_addr_stats :: "dns_response list \<Rightarrow> (ip_addr \<times> nat) list" where
  "ip_addr_stats ok =
     (let ips = concat (List.map r_ip_addrs ok) in List.map (\<lambda>ip. (ip, count_list ips ip)) (remdups ips))"

definition most_returned :: "((ip_addr \<times> nat) list \<Rightarrow> (ip_addr \<times> nat) list) \<Rightarrow> dns_response list \<Rightarrow> ip_addr option" where
  "most_returned hash ok = map_option fst (max_by_key snd (hash (ip_addr_stats ok)))"

text \<open>First ping: pending queries and pending probes run side by side; an answer with addresses starts a
  probe of them, and the first probe that names an address ends the loop.\<close>

function (sequential) first_ping ::
    "(ip_addr list \<Rightarrow> ip_addr option) \<Rightarrow> lookup_result list \<Rightarrow> ip_addr option list \<Rightarrow> nat list \<Rightarrow> gathered \<Rightarrow>
     ip_addr option \<times> gathered" where
  "first_ping ping query_tasks ping_tasks choices g =
     (if query_tasks = [] \<and> ping_tasks = [] then (None, g)
      else
        (let i = next_task choices (length ping_tasks + length query_tasks) in
         if i < length ping_tasks then
           (case ping_tasks ! i of
              Some ip \<Rightarrow> (Some ip, g)
            | None \<Rightarrow> first_ping ping query_tasks (remove_nth i ping_tasks) (tl choices) g)
         else
           (let j = i - length ping_tasks; res = query_tasks ! j in
            first_ping ping (remove_nth j query_tasks)
              (case res of
                 Inr lookup \<Rightarrow>
                   if r_ip_addrs lookup = [] then ping_tasks else ping_tasks @ [ping (r_ip_addrs lookup)]
               | Inl e \<Rightarrow> ping_tasks)
              (tl choices) (gather res g))))"
  by pat_completeness auto
termination
proof (relation "measure (\<lambda>(ping, qs, ps, choices, g). 2 * length qs + length ps)", goal_cases)
  case 1
  show ?case by simp
next
  case (2 ping qs ps choices g i)
  then show ?case by (simp add: length_remove_nth)
next
  case (3 ping qs ps choices g i j res)
  have "i < length ps + length qs"
    using 3(1,2) next_task_less [of "length ps + length qs" choices] by (cases qs; cases ps) simp_all
  then have "j < length qs" using 3(3,4) by simp
  then show ?case by (auto simp: length_remove_nth split: sum.split)
qed

text \<open>Fastest address: the answers that arrive before the deadline, then one probe of all their addresses.\<close>

fun gather_until :: "lookup_result list \<Rightarrow> nat list \<Rightarrow> nat \<Rightarrow> gathered \<Rightarrow> gathered" where
  "gather_until query_tasks choices 0 g = g"
| "gather_until query_tasks choices (Suc n) g =
     (if query_tasks = [] then g
      else
        (let i = next_task choices (length query_tasks)
         in gather_until (remove_nth i query_tasks) (tl choices) n (gather (query_tasks ! i) g)))"

definition fastest_ip ::
    "(ip_addr list \<Rightarrow> ip_addr option) \<Rightarrow> ((ip_addr \<times> nat) list \<Rightarrow> (ip_addr \<times> nat) list) \<Rightarrow> dns_response list \<Rightarrow> ip_addr option" where
  "fastest_ip ping hash ok =
     (let all_ips = List.map fst (hash (ip_addr_stats ok))
      in or_else (if all_ips = [] then None else ping all_ips) (most_returned hash ok))"

text \<open>Fastest response: the first answer with data ends the loop at once.\<close>

function (sequential) fastest_response ::
    "lookup_result list \<Rightarrow> nat list \<Rightarrow> gathered \<Rightarrow> dns_response option \<times> gathered" where
  "fastest_response query_tasks choices g =
     (if query_tasks = [] then (None, g)
      else
        (let i = next_task choices (length query_tasks); rest = remove_nth i query_tasks in
         case query_tasks ! i of
           Inr response \<Rightarrow>
             if r_code response = RC_NoError \<and> r_answers response \<noteq> [] then (Some response, g)
             else fastest_response rest (tl choices) (gather (Inr response) g)
         | Inl e \<Rightarrow> fastest_response rest (tl choices) (gather (Inl e) g)))"
  by pat_completeness auto
termination
  by (relation "measure (\<lambda>(qs, choices, g). length qs)") (auto simp: length_remove_nth next_task_less)

definition retain_ip :: "ip_addr \<Rightarrow> dns_response \<Rightarrow> dns_response" where
  "retain_ip selected_ip res =
     set_answers
       (List.filter (\<lambda>x. case rd_ip_addr (rr_data x) of Some ip \<Rightarrow> ip = selected_ip | None \<Rightarrow> True) (r_answers res)) res"

definition take_selected :: "ip_addr \<Rightarrow> dns_response list \<Rightarrow> dns_response option" where
  "take_selected selected_ip ok =
     map_option (retain_ip selected_ip)
       (List.find (\<lambda>r. list_ex (\<lambda>x. rd_ip_addr (rr_data x) = Some selected_ip) (r_answers r)) ok)"

definition conclude :: "ip_addr option \<Rightarrow> gathered \<Rightarrow> lookup_result" where
  "conclude selected_ip g =
     (case Option.bind selected_ip (\<lambda>ip. take_selected ip (ga_ok g)) of
        Some res \<Rightarrow> Inr res
      | None \<Rightarrow>
          (case min_by_key response_rank (ga_ok g) of
             Some lookup \<Rightarrow> Inr lookup
           | None \<Rightarrow> (case ga_err g of e # _ \<Rightarrow> Inl e | [] \<Rightarrow> Inl request_timeout)))"

definition strategy_of :: "lookup_ip_options \<Rightarrow> response_mode \<times> speed_mode list" where
  "strategy_of options =
     (let strategy = (if li_no_speed_check options then FastestResponse else li_response_strategy options);
          modes = unwrap_or (li_speed_check_mode options) []
      in if list_ex (\<lambda>m. m = SM_None) modes then (FastestResponse, []) else (strategy, modes))"

definition choose_answer :: "schedule \<Rightarrow> response_mode \<times> speed_mode list \<Rightarrow> lookup_result list \<Rightarrow> lookup_result" where
  "choose_answer sd strategy_modes query_tasks =
     (let g0 = \<lparr>ga_ok = [], ga_err = []\<rparr>;
          ping = (\<lambda>ips. multi_mode_ping_fastest ips (snd strategy_modes) (sd_probes sd ips))
      in case fst strategy_modes of
           FirstPing \<Rightarrow>
             (let (fastest, g) = first_ping ping query_tasks [] (sd_choices sd) g0
              in conclude (or_else fastest (most_returned (sd_hash sd) (ga_ok g))) g)
         | FastestIp \<Rightarrow>
             (let g = gather_until query_tasks (sd_choices sd) (sd_gathered sd) g0
              in conclude (fastest_ip ping (sd_hash sd) (ga_ok g)) g)
         | FastestResponse \<Rightarrow>
             (case fastest_response query_tasks (sd_choices sd) g0 of
                (Some response, g) \<Rightarrow> Inr response
              | (None, g) \<Rightarrow> conclude None g))"

definition lookup_ip_with ::
    "(name_server list \<Rightarrow> schedule) \<Rightarrow> (name_server \<Rightarrow> lookup_result) \<Rightarrow> lookup_ip_options \<Rightarrow> name_server list \<Rightarrow> lookup_result" where
  "lookup_ip_with sched ask options servers =
     (if \<not> is_ip_addr (lo_record_type (li_lookup_options options)) then Inl no_connections
      else if servers = [] then Inl no_connections
      else choose_answer (sched servers) (strategy_of options) (List.map ask servers))"

definition lookup_ip ::
    "(name_server list \<Rightarrow> schedule) \<Rightarrow> (name_server \<Rightarrow> lookup_result) \<Rightarrow> lookup_ip_options \<Rightarrow> name_server list \<Rightarrow> lookup_result" where
  "lookup_ip sched ask options servers =
     (let (primary, fallback) = List.partition (\<lambda>s. \<not> sv_is_fallback s) servers in
      if primary = [] then lookup_ip_with sched ask options fallback
      else
        (let first = lookup_ip_with sched ask options primary in
         if fallback = [] \<or> \<not> needs_fallback first then first
         else
           (let second = lookup_ip_with sched ask options fallback
            in if needs_fallback second then first else second)))"

section \<open>Lemmas\<close>

declare first_ping.simps [simp del] fastest_response.simps [simp del]

lemma set_remove_nth: "i < length xs \<Longrightarrow> set xs = insert (xs ! i) (set (remove_nth i xs))"
  by (subst id_take_nth_drop [of i xs]) (auto simp: remove_nth_def)

lemma gather_sets:
  "set (ga_ok (gather res g)) = set (ga_ok g) \<union> {r. res = Inr r}"
  "set (ga_err (gather res g)) = set (ga_err g) \<union> {e. res = Inl e}"
  by (cases res; auto)+

lemma next_task_among:
  "\<not> (qs = [] \<and> ps = []) \<Longrightarrow> next_task cs (length ps + length qs) < length ps + length qs"
  by (rule next_task_less) auto

definition probed :: "(ip_addr list \<Rightarrow> ip_addr option) \<Rightarrow> gathered \<Rightarrow> ip_addr option set" where
  "probed ping g = (\<lambda>r. ping (r_ip_addrs r)) ` {r \<in> set (ga_ok g). r_ip_addrs r \<noteq> []}"

lemma first_ping_inv:
  assumes "first_ping ping qs ps cs g = (sel, g')" "set ps \<subseteq> probed ping g"
  shows "set (ga_ok g) \<subseteq> set (ga_ok g') \<and> (\<forall>r \<in> set (ga_ok g'). r \<in> set (ga_ok g) \<or> Inr r \<in> set qs) \<and>
    (case sel of
       Some ip \<Rightarrow> Some ip \<in> probed ping g'
     | None \<Rightarrow> (\<forall>r. Inr r \<in> set qs \<longrightarrow> r \<in> set (ga_ok g') \<and> (r_ip_addrs r \<noteq> [] \<longrightarrow> ping (r_ip_addrs r) = None)) \<and>
         set ps \<subseteq> {None})"
  using assms
proof (induction ping qs ps cs g rule: first_ping.induct)
  case (1 ping qs ps cs g)
  show ?case
  proof (cases "qs = [] \<and> ps = []")
    case True
    then show ?thesis using 1(3) by (auto simp: first_ping.simps [of ping "[]" "[]"])
  next
    case False
    define i where "i = next_task cs (length ps + length qs)"
    have i: "i < length ps + length qs" using next_task_among [OF False] by (simp add: i_def)
    show ?thesis
    proof (cases "i < length ps")
      case p: True
      show ?thesis
      proof (cases "ps ! i")
        case (Some ip)
        then have "sel = Some ip" "g' = g"
          using 1(3) False p by (auto simp: first_ping.simps [of ping qs ps cs g] i_def Let_def)
        moreover have "Some ip \<in> probed ping g" using 1(4) nth_mem [OF p] Some by (metis subsetD)
        ultimately show ?thesis by simp
      next
        case None
        have run: "first_ping ping qs (remove_nth i ps) (tl cs) g = (sel, g')"
          using 1(3) False p None by (simp add: first_ping.simps [of ping qs ps cs g] i_def Let_def)
        show ?thesis
          using 1(1) [OF False i_def p None run] 1(4) set_remove_nth [OF p] None
          by (auto split: option.splits)
      qed
    next
      case q: False
      define j where "j = i - length ps"
      define res where "res = qs ! j"
      define ps' where "ps' = (case res of
          Inr lookup \<Rightarrow> if r_ip_addrs lookup = [] then ps else ps @ [ping (r_ip_addrs lookup)] | Inl e \<Rightarrow> ps)"
      have j: "j < length qs" using i q by (simp add: j_def)
      have run: "first_ping ping (remove_nth j qs) ps' (tl cs) (gather res g) = (sel, g')"
        using 1(3) False q
        by (simp add: first_ping.simps [of ping qs ps cs g] i_def [symmetric] Let_def j_def [symmetric] res_def [symmetric] ps'_def)
      have sub: "set ps' \<subseteq> probed ping (gather res g)"
        using 1(4) by (auto simp: ps'_def probed_def gather_sets split: sum.splits if_splits)
      note IH = 1(2) [OF False i_def q j_def res_def, folded ps'_def, OF run sub]
      have s: "set qs = insert res (set (remove_nth j qs))" using set_remove_nth [OF j] by (simp add: res_def)
      show ?thesis
        using IH by (auto simp: s gather_sets ps'_def split: option.splits sum.splits if_splits)
    qed
  qed
qed

lemma gather_until_inv:
  "set (ga_ok g) \<subseteq> set (ga_ok (gather_until qs cs n g)) \<and>
   (\<forall>r \<in> set (ga_ok (gather_until qs cs n g)). r \<in> set (ga_ok g) \<or> Inr r \<in> set qs) \<and>
   (length qs \<le> n \<longrightarrow> (\<forall>r. Inr r \<in> set qs \<longrightarrow> r \<in> set (ga_ok (gather_until qs cs n g))))"
proof (induction qs cs n g rule: gather_until.induct)
  case (2 qs cs n g)
  show ?case
  proof (cases "qs = []")
    case False
    define i where "i = next_task cs (length qs)"
    have i: "i < length qs" using False by (simp add: i_def next_task_less)
    have s: "set qs = insert (qs ! i) (set (remove_nth i qs))" by (rule set_remove_nth [OF i])
    show ?thesis
      using 2 [OF False i_def] False
      by (auto simp: i_def [symmetric] Let_def s gather_sets length_remove_nth i)
  qed simp
qed simp

lemma fastest_response_inv:
  assumes "fastest_response qs cs g = (res, g')"
  shows "set (ga_ok g) \<subseteq> set (ga_ok g') \<and> (\<forall>r \<in> set (ga_ok g'). r \<in> set (ga_ok g) \<or> Inr r \<in> set qs) \<and>
    (case res of
       Some r \<Rightarrow> Inr r \<in> set qs \<and> r_code r = RC_NoError \<and> r_answers r \<noteq> []
     | None \<Rightarrow> (\<forall>r. Inr r \<in> set qs \<longrightarrow> r \<in> set (ga_ok g') \<and> \<not> (r_code r = RC_NoError \<and> r_answers r \<noteq> [])))"
  using assms
proof (induction qs cs g rule: fastest_response.induct)
  case (1 qs cs g)
  show ?case
  proof (cases "qs = []")
    case True
    then show ?thesis using 1(3) by (auto simp: fastest_response.simps [of "[]"])
  next
    case False
    define i where "i = next_task cs (length qs)"
    have i: "i < length qs" using False by (simp add: i_def next_task_less)
    have s: "set qs = insert (qs ! i) (set (remove_nth i qs))" by (rule set_remove_nth [OF i])
    show ?thesis
    proof (cases "qs ! i")
      case (Inl e)
      have run: "fastest_response (remove_nth i qs) (tl cs) (gather (Inl e) g) = (res, g')"
        using 1(3) False Inl by (simp add: fastest_response.simps [of qs cs g] i_def [symmetric] Let_def)
      show ?thesis using 1(1) [OF False i_def refl Inl run] Inl
        by (auto simp: s split: option.splits)
    next
      case (Inr r)
      show ?thesis
      proof (cases "r_code r = RC_NoError \<and> r_answers r \<noteq> []")
        case True
        then have "res = Some r" "g' = g"
          using 1(3) False Inr by (simp_all add: fastest_response.simps [of qs cs g] i_def [symmetric] Let_def)
        then show ?thesis using True Inr s by auto
      next
        case f: False
        have run: "fastest_response (remove_nth i qs) (tl cs) (gather (Inr r) g) = (res, g')"
          using 1(3) False Inr f by (auto simp: fastest_response.simps [of qs cs g] i_def [symmetric] Let_def)
        show ?thesis using 1(2) [OF False i_def refl Inr f run] Inr f
          by (auto simp: s gather_sets split: option.splits)
      qed
    qed
  qed
qed

lemma r_ip_addrs_retain: "r_ip_addrs (retain_ip ip r) = List.filter (\<lambda>a. a = ip) (r_ip_addrs r)"
proof -
  have "List.map_filter (\<lambda>x. rd_ip_addr (rr_data x))
      (List.filter (\<lambda>x. case rd_ip_addr (rr_data x) of Some a \<Rightarrow> a = ip | None \<Rightarrow> True) xs) =
    List.filter (\<lambda>a. a = ip) (List.map_filter (\<lambda>x. rd_ip_addr (rr_data x)) xs)" for xs
    by (induction xs) (auto simp: map_filter_simps split: option.split)
  then show ?thesis by (simp add: retain_ip_def r_ip_addrs_def set_answers_def r_answers_def)
qed

lemma answer_with_ip: "list_ex (\<lambda>x. rd_ip_addr (rr_data x) = Some ip) (r_answers r) \<longleftrightarrow> ip \<in> set (r_ip_addrs r)"
  by (force simp: r_ip_addrs_def List.map_filter_def list_ex_iff)

lemma take_selected_Some:
  "take_selected ip ok = Some r \<Longrightarrow> \<exists>r0 \<in> set ok. ip \<in> set (r_ip_addrs r0) \<and> r = retain_ip ip r0"
  by (auto simp: take_selected_def answer_with_ip find_Some_iff)

lemma take_selected_None: "take_selected ip ok = None \<longleftrightarrow> (\<forall>r \<in> set ok. ip \<notin> set (r_ip_addrs r))"
  by (auto simp: take_selected_def answer_with_ip find_None_iff)

text \<open>The reply of a lookup is an answer that arrived, as it was or reduced to one of its addresses.\<close>

definition reply_from :: "dns_response \<Rightarrow> dns_response \<Rightarrow> bool" where
  "reply_from r0 r \<longleftrightarrow> r = r0 \<or> (\<exists>ip \<in> set (r_ip_addrs r0). r = retain_ip ip r0)"

lemma conclude_Inr: "conclude sel g = Inr r \<Longrightarrow> \<exists>r0 \<in> set (ga_ok g). reply_from r0 r"
  by (auto simp: conclude_def reply_from_def bind_eq_Some_conv split: option.splits list.splits
      dest!: take_selected_Some min_by_key_least)

lemma conclude_Inl: "conclude sel g = Inl e \<Longrightarrow> ga_ok g = []"
  by (auto simp: conclude_def split: option.splits list.splits)

lemma choose_answer_cases:
  obtains (selected) sel g where "choose_answer sd sm tasks = conclude sel g"
      "\<forall>r \<in> set (ga_ok g). Inr r \<in> set tasks"
      "fst sm = FastestIp \<longrightarrow> length tasks \<le> sd_gathered sd \<Longrightarrow> ga_ok g = [] \<Longrightarrow> \<forall>r. Inr r \<notin> set tasks"
  | (early) r where "choose_answer sd sm tasks = Inr r" "Inr r \<in> set tasks"
proof (cases "fst sm")
  case FirstPing
  define g0 :: gathered where "g0 = \<lparr>ga_ok = [], ga_err = []\<rparr>"
  define ping where "ping = (\<lambda>ips. multi_mode_ping_fastest ips (snd sm) (sd_probes sd ips))"
  obtain sel g where run: "first_ping ping tasks [] (sd_choices sd) g0 = (sel, g)" by fastforce
  have "choose_answer sd sm tasks = conclude (or_else sel (most_returned (sd_hash sd) (ga_ok g))) g"
    using run by (simp add: choose_answer_def FirstPing g0_def ping_def Let_def)
  moreover have "\<forall>r \<in> set (ga_ok g). Inr r \<in> set tasks" "ga_ok g = [] \<Longrightarrow> \<forall>r. Inr r \<notin> set tasks"
    using first_ping_inv [OF run] by (auto simp: g0_def probed_def split: option.splits)
  ultimately show ?thesis using selected by blast
next
  case FastestIp
  define g where "g = gather_until tasks (sd_choices sd) (sd_gathered sd) \<lparr>ga_ok = [], ga_err = []\<rparr>"
  have "choose_answer sd sm tasks = conclude (fastest_ip
      (\<lambda>ips. multi_mode_ping_fastest ips (snd sm) (sd_probes sd ips)) (sd_hash sd) (ga_ok g)) g"
    by (simp add: choose_answer_def FastestIp g_def Let_def)
  moreover have "\<forall>r \<in> set (ga_ok g). Inr r \<in> set tasks"
    "length tasks \<le> sd_gathered sd \<Longrightarrow> ga_ok g = [] \<Longrightarrow> \<forall>r. Inr r \<notin> set tasks"
    using gather_until_inv [of "\<lparr>ga_ok = [], ga_err = []\<rparr>" tasks "sd_choices sd" "sd_gathered sd", folded g_def]
    by auto
  ultimately show ?thesis using selected FastestIp by blast
next
  case FastestResponse
  obtain res g where run: "fastest_response tasks (sd_choices sd) \<lparr>ga_ok = [], ga_err = []\<rparr> = (res, g)" by fastforce
  note inv = fastest_response_inv [OF run]
  show ?thesis
  proof (cases res)
    case None
    then have "choose_answer sd sm tasks = conclude None g" using run by (simp add: choose_answer_def FastestResponse)
    moreover have "\<forall>r \<in> set (ga_ok g). Inr r \<in> set tasks" "ga_ok g = [] \<Longrightarrow> \<forall>r. Inr r \<notin> set tasks"
      using inv None by auto
    ultimately show ?thesis using selected by blast
  next
    case (Some r)
    then show ?thesis using early run inv by (simp add: choose_answer_def FastestResponse)
  qed
qed

lemma choose_answer_sound:
  assumes "choose_answer sd sm tasks = Inr r"
  shows "\<exists>r0. Inr r0 \<in> set tasks \<and> reply_from r0 r"
proof (cases rule: choose_answer_cases [of sd sm tasks])
  case (selected sel g)
  then have "conclude sel g = Inr r" using assms by simp
  from conclude_Inr [OF this] show ?thesis using selected(2) by blast
next
  case (early r')
  then show ?thesis using assms by (auto simp: reply_from_def)
qed

lemma choose_answer_complete:
  assumes "choose_answer sd sm tasks = Inl e" "fst sm = FastestIp \<longrightarrow> length tasks \<le> sd_gathered sd"
  shows "Inr r \<notin> set tasks"
proof (cases rule: choose_answer_cases [of sd sm tasks])
  case (selected sel g)
  then have "conclude sel g = Inl e" using assms(1) by simp
  from selected(3) [OF assms(2) conclude_Inl [OF this]] show ?thesis by blast
next
  case (early r')
  then show ?thesis using assms by simp
qed

lemma lookup_ip_round:
  "\<exists>ss. set ss \<subseteq> set servers \<and> lookup_ip sched ask options servers = lookup_ip_with sched ask options ss"
proof -
  let ?p = "List.filter (\<lambda>s. \<not> sv_is_fallback s) servers" and ?f = "List.filter sv_is_fallback servers"
  have "lookup_ip sched ask options servers = lookup_ip_with sched ask options ?p \<or>
      lookup_ip sched ask options servers = lookup_ip_with sched ask options ?f"
    by (simp add: lookup_ip_def Let_def comp_def)
  then show ?thesis by (metis filter_is_subset)
qed

lemma lookup_ip_sound:
  assumes "lookup_ip sched ask options servers = Inr r"
  shows "\<exists>s \<in> set servers. \<exists>r0. ask s = Inr r0 \<and> reply_from r0 r"
proof -
  have reply: "\<exists>s \<in> set ss. \<exists>r0. ask s = Inr r0 \<and> reply_from r0 r"
    if l: "lookup_ip_with sched ask options ss = Inr r" for ss
  proof -
    have "choose_answer (sched ss) (strategy_of options) (List.map ask ss) = Inr r"
      using l by (auto simp: lookup_ip_with_def split: if_splits)
    from choose_answer_sound [OF this] show ?thesis by (auto simp: image_iff) (metis)
  qed
  have "\<exists>ss. set ss \<subseteq> set servers \<and> lookup_ip_with sched ask options ss = Inr r"
    using assms lookup_ip_round [of servers sched ask options] by auto
  then show ?thesis using reply by blast
qed

text \<open>C22: Whatever the order in which servers and probes answer, the reply to an address query is what one
  of the servers sent, as it was or reduced to one of its addresses: the records that are not addresses
  all stay, and of the addresses only the selected one.\<close>

theorem address_reply_arrived:
  assumes "lookup_ip sched ask options servers = Inr r"
  shows "\<exists>s \<in> set servers. \<exists>r0. ask s = Inr r0 \<and>
    (r = r0 \<or>
     (\<exists>ip. ip \<in> set (r_ip_addrs r0) \<and> set (r_ip_addrs r) = {ip} \<and>
        List.filter (\<lambda>x. rd_ip_addr (rr_data x) = None) (r_answers r) =
        List.filter (\<lambda>x. rd_ip_addr (rr_data x) = None) (r_answers r0)))"
proof -
  from lookup_ip_sound [OF assms] obtain s r0 where "s \<in> set servers" "ask s = Inr r0" "reply_from r0 r" by blast
  moreover have "set (r_ip_addrs (retain_ip ip r0)) = {ip}" if "ip \<in> set (r_ip_addrs r0)" for ip
    using that by (auto simp: r_ip_addrs_retain)
  moreover have "List.filter (\<lambda>x. rd_ip_addr (rr_data x) = None) (r_answers (retain_ip ip r0)) =
      List.filter (\<lambda>x. rd_ip_addr (rr_data x) = None) (r_answers r0)" for ip
    by (auto simp: retain_ip_def set_answers_def r_answers_def intro!: filter_cong split: option.splits)
  ultimately show ?thesis unfolding reply_from_def by blast
qed

text \<open>C34: An answer is never lost: when a lookup of addresses ends in an error, none of the servers of the
  round sent an answer, unless the deadline of the gathering phase cut one off.\<close>

theorem address_error_means_no_answer:
  assumes "lookup_ip_with sched ask options servers = Inl e"
    and "is_ip_addr (lo_record_type (li_lookup_options options))"
    and "fst (strategy_of options) = FastestIp \<longrightarrow> length servers \<le> sd_gathered (sched servers)"
    and "s \<in> set servers"
  shows "\<exists>e'. ask s = Inl e'"
proof -
  have "choose_answer (sched servers) (strategy_of options) (List.map ask servers) = Inl e"
    using assms(1,2,4) by (auto simp: lookup_ip_with_def split: if_splits)
  from choose_answer_complete [OF this] assms(3) have "Inr r \<notin> set (List.map ask servers)" for r
    by simp
  then show ?thesis using assms(4) by (cases "ask s") force+
qed

text \<open>C23: First ping keeps its promise: when the probe of some answer's addresses would name one, the reply
  has exactly one address, it was named by the probe of an answer, and the servers' other records stay;
  only when no probe names an address does the count of the answers decide.\<close>

theorem first_ping_selects_probed:
  assumes "Inr r0 \<in> set tasks" "multi_mode_ping_fastest (r_ip_addrs r0) modes (sd_probes sd (r_ip_addrs r0)) \<noteq> None"
  shows "\<exists>r ip r1. choose_answer sd (FirstPing, modes) tasks = Inr r \<and> set (r_ip_addrs r) = {ip} \<and>
    Inr r1 \<in> set tasks \<and> multi_mode_ping_fastest (r_ip_addrs r1) modes (sd_probes sd (r_ip_addrs r1)) = Some ip"
proof -
  define g0 :: gathered where "g0 = \<lparr>ga_ok = [], ga_err = []\<rparr>"
  define ping where "ping = (\<lambda>ips. multi_mode_ping_fastest ips modes (sd_probes sd ips))"
  have p: "r_ip_addrs r0 \<noteq> []" "ping (r_ip_addrs r0) \<noteq> None"
    using assms(2) multi_mode_names_member [of "r_ip_addrs r0"] by (fastforce simp: ping_def)+
  obtain sel g where run: "first_ping ping tasks [] (sd_choices sd) g0 = (sel, g)" by fastforce
  note inv = first_ping_inv [OF run]
  then obtain ip where ip: "sel = Some ip" "Some ip \<in> probed ping g"
    using assms(1) p by (cases sel) (auto simp: g0_def)
  then obtain r1 where r1: "r1 \<in> set (ga_ok g)" "ping (r_ip_addrs r1) = Some ip" by (auto simp: probed_def)
  have sub: "\<forall>r \<in> set (ga_ok g). Inr r \<in> set tasks" using inv by (auto simp: g0_def)
  have "ip \<in> set (r_ip_addrs r1)" using multi_mode_names_member r1(2) by (simp add: ping_def)
  then have "take_selected ip (ga_ok g) \<noteq> None" using r1(1) by (auto simp: take_selected_None)
  then obtain r where r: "take_selected ip (ga_ok g) = Some r" by blast
  from take_selected_Some [OF this] have "set (r_ip_addrs r) = {ip}" by (auto simp: r_ip_addrs_retain)
  moreover have "choose_answer sd (FirstPing, modes) tasks = Inr r"
    using run r ip(1) by (simp add: choose_answer_def g0_def ping_def conclude_def)
  ultimately show ?thesis using sub r1 by (auto simp: ping_def)
qed

text \<open>Fastest response takes the first answer with data, a truncated one included: it is returned while
  complete answers of other servers are still out, although the same answer counts as the last resort in
  the race of the other record types.\<close>

theorem fastest_response_takes_truncated:
  assumes "r_truncated part" "response_rank part = 0" "sd_choices sd = []"
  shows "choose_answer sd (FastestResponse, modes) (Inr part # rest) = Inr part \<and>
    (response_rank full = 0 \<longrightarrow> \<not> r_truncated full \<longrightarrow> race_servers [Inr part, Inr full] = Inr full)"
  using assms
  by (auto simp: choose_answer_def fastest_response.simps [of "Inr part # rest"] Let_def next_task_def response_rank_def
      race_servers_def is_conclusive_def split: if_splits)

section \<open>Filters and aliases\<close>

lemma rewrite_other_records:
  "List.filter (\<lambda>x. rd_ip_addr (rr_data x) = None) (fst (rewrite_answers keep alias t rs seen)) =
   List.filter (\<lambda>x. rd_ip_addr (rr_data x) = None) rs"
proof (induction rs arbitrary: seen)
  case (Cons r rs)
  have "rd_ip_addr (rdata_of_ip ip) = Some ip" for ip by (cases ip) simp_all
  then show ?case using Cons by (auto simp: case_prod_unfold Let_def split: option.splits)
qed simp

lemma rewrite_addresses:
  assumes "x \<in> set (fst (rewrite_answers keep alias t rs seen))" "rd_ip_addr (rr_data x) = Some ip"
  shows "\<exists>r \<in> set rs. \<exists>ip0. rd_ip_addr (rr_data r) = Some ip0 \<and> keep ip0 \<and>
    (case alias ip0 of None \<Rightarrow> ip = ip0 | Some (ptr, ips) \<Rightarrow> ip \<in> set ips \<and> alias_fits t ip)"
  using assms
proof (induction rs arbitrary: seen)
  case (Cons r rs)
  have ip: "rd_ip_addr (rdata_of_ip a) = Some a" for a by (cases a) simp_all
  show ?case
  proof (cases "x \<in> set (fst (rewrite_answers keep alias t rs seen)) \<or>
      (\<exists>p. x \<in> set (fst (rewrite_answers keep alias t rs (seen @ [p]))))")
    case True
    then show ?thesis using Cons.IH Cons.prems(2) by fastforce
  next
    case False
    then show ?thesis using Cons.prems ip
      by (auto simp: case_prod_unfold Let_def split: option.splits if_splits)
  qed
qed simp

lemma foldl_additional_answers:
  "r_answers (foldl (\<lambda>l x. r_add_additional x l) l xs) = r_answers l"
  by (induction xs arbitrary: l)
    (auto simp: r_add_additional_def r_sync_header_counts_def m_add_additional_def r_answers_def Let_def)

lemma rewrite_lookup_answers:
  "r_answers (rewrite_lookup now keep alias t r) = fst (rewrite_answers keep alias t (r_answers r) [])"
  by (simp add: rewrite_lookup_def case_prod_unfold Let_def r_set_valid_until_def set_answers_def r_answers_def)

lemma server_filter:
  assumes "per_nameserver_lookup_ip ev net_contains lookup name options s = Inr r"
  shows "\<exists>r0. pardon_soa ev name (lo_record_type (li_lookup_options options)) (lookup s) = Inr r0 \<and>
    List.filter (\<lambda>x. rd_ip_addr (rr_data x) = None) (r_answers r) =
      List.filter (\<lambda>x. rd_ip_addr (rr_data x) = None) (r_answers r0) \<and>
    (\<forall>ip \<in> set (r_ip_addrs r). \<exists>ip0 \<in> set (r_ip_addrs r0). ip_filter net_contains options s ip0 \<and>
       (case im_get net_contains (li_ip_alias options) ip0 of
          None \<Rightarrow> ip = ip0
        | Some (ptr, ips) \<Rightarrow> ip \<in> set ips \<and> alias_fits (lo_record_type (li_lookup_options options)) ip))"
proof -
  define t where "t = lo_record_type (li_lookup_options options)"
  have ips: "ip \<in> set (r_ip_addrs r) \<longleftrightarrow> (\<exists>x \<in> set (r_answers r). rd_ip_addr (rr_data x) = Some ip)" for ip r
    by (force simp: r_ip_addrs_def List.map_filter_def)
  have t: "is_ip_addr t" using assms by (auto simp: per_nameserver_lookup_ip_def t_def Let_def split: if_splits)
  obtain r0 where r0: "pardon_soa ev name t (lookup s) = Inr r0"
    using assms t by (auto simp: per_nameserver_lookup_ip_def t_def Let_def split: if_splits sum.splits)
  show ?thesis
  proof (cases "\<not> sv_whitelist_ip s \<and> \<not> sv_blacklist_ip s \<and> im_is_empty (li_ignore_ip options) \<and> im_is_empty (li_ip_alias options)")
    case True
    then have "r = r0" using assms t r0 by (simp add: per_nameserver_lookup_ip_def t_def)
    then show ?thesis using r0 True
      by (auto simp: t_def ip_filter_def im_contains_def im_get_def im_is_empty_def)
  next
    case False
    then have "r = rewrite_lookup (ev_now ev) (ip_filter net_contains options s)
        (im_get net_contains (li_ip_alias options)) t r0"
      using assms t r0 by (auto simp: per_nameserver_lookup_ip_def t_def)
    then have a: "r_answers r = fst (rewrite_answers (ip_filter net_contains options s)
        (im_get net_contains (li_ip_alias options)) t (r_answers r0) [])"
      by (simp add: rewrite_lookup_answers)
    show ?thesis
    proof (intro exI conjI ballI)
      show "pardon_soa ev name (lo_record_type (li_lookup_options options)) (lookup s) = Inr r0"
        using r0 by (simp add: t_def)
      show "List.filter (\<lambda>x. rd_ip_addr (rr_data x) = None) (r_answers r) =
          List.filter (\<lambda>x. rd_ip_addr (rr_data x) = None) (r_answers r0)"
        unfolding a by (rule rewrite_other_records)
      fix ip assume "ip \<in> set (r_ip_addrs r)"
      then obtain x where "x \<in> set (r_answers r)" "rd_ip_addr (rr_data x) = Some ip" using ips by blast
      from rewrite_addresses [OF this(1) [unfolded a] this(2)] obtain x0 ip0
        where 0: "x0 \<in> set (r_answers r0)" "rd_ip_addr (rr_data x0) = Some ip0" "ip_filter net_contains options s ip0"
          "case im_get net_contains (li_ip_alias options) ip0 of
             None \<Rightarrow> ip = ip0 | Some (ptr, ips) \<Rightarrow> ip \<in> set ips \<and> alias_fits t ip"
        by blast
      have "ip0 \<in> set (r_ip_addrs r0)" using 0(1,2) ips by blast
      then show "\<exists>ip0 \<in> set (r_ip_addrs r0). ip_filter net_contains options s ip0 \<and>
         (case im_get net_contains (li_ip_alias options) ip0 of
            None \<Rightarrow> ip = ip0
          | Some (ptr, ips) \<Rightarrow> ip \<in> set ips \<and> alias_fits (lo_record_type (li_lookup_options options)) ip)"
        using 0(3,4) unfolding t_def by blast
    qed
  qed
qed

text \<open>The filters of a server and the aliases decide over every address it sends: an address of the
  result either is one the server sent, passes the server's filter and has no alias, or is an alias of the
  family that was asked for of such an address; and all records that are not addresses stay in place. So
  an address on the black list reaches the client only when it is on the white list of a server that uses
  both.\<close>

theorem server_filter_respected:
  assumes "per_nameserver_lookup_ip ev net_contains lookup name options s = Inr r"
  shows "\<exists>r0. pardon_soa ev name (lo_record_type (li_lookup_options options)) (lookup s) = Inr r0 \<and>
    List.filter (\<lambda>x. rd_ip_addr (rr_data x) = None) (r_answers r) =
      List.filter (\<lambda>x. rd_ip_addr (rr_data x) = None) (r_answers r0) \<and>
    (\<forall>ip \<in> set (r_ip_addrs r). \<exists>ip0 \<in> set (r_ip_addrs r0). ip_filter net_contains options s ip0 \<and>
       (case im_get net_contains (li_ip_alias options) ip0 of
          None \<Rightarrow> ip = ip0
        | Some (ptr, ips) \<Rightarrow> ip \<in> set ips \<and> alias_fits (lo_record_type (li_lookup_options options)) ip))"
  by (rule server_filter [OF assms])

section \<open>Witnesses\<close>

definition demo_server :: "string \<Rightarrow> bool \<Rightarrow> name_server" where
  "demo_server n fb =
     \<lparr>sv_name = n, sv_blacklist_ip = True, sv_whitelist_ip = False, sv_client_subnet = None, sv_recursion_desired = True,
      sv_edns0 = True, sv_is_fallback = fb, sv_tcp_keepalive = None, sv_subnet_all_query_types = False,
      sv_has_tcp_fallback = False\<rparr>"

definition demo_options :: "response_mode \<Rightarrow> lookup_ip_options" where
  "demo_options mode =
     \<lparr>li_response_strategy = mode, li_speed_check_mode = Some [SM_Ping], li_no_speed_check = False,
      li_ignore_ip = [], li_whitelist_ip = [], li_blacklist_ip = [(\<lparr>net_addr = IpV4 9, net_prefix = 32\<rparr>, ())],
      li_ip_alias = [(\<lparr>net_addr = IpV4 2, net_prefix = 32\<rparr>, (0, [IpV4 7, IpV6 7]))],
      li_lookup_options = \<lparr>lo_is_dnssec = False, lo_record_type = RT_A, lo_client_subnet = None, lo_query_class = DC_IN\<rparr>\<rparr>"

text \<open>Two probes of every address; the address 2 answers and no other.\<close>

definition demo_schedule :: "nat list \<Rightarrow> schedule" where
  "demo_schedule choices =
     \<lparr>sd_choices = choices, sd_gathered = 5, sd_hash = id,
      sd_probes = (\<lambda>ips m. (concat (List.map (\<lambda>ip. let d = PA_Icmp ip; v = (if ip = IpV4 2 then Some 5 else None)
                                                 in [(d, v), (d, v), (d, v)]) ips), False))\<rparr>"

definition demo_addresses :: "32 word list \<Rightarrow> dns_response" where
  "demo_addresses ips = demo_reply RC_NoError False (List.map (\<lambda>a. from_rdata name_root 60 (RD_A a)) ips) []"

lemmas ping_defs =
  multi_mode_ping_fastest_def dynamic_tier_ping_def to_ping_addrs_def map_filter_simps tier_race_def ip_state_new_def
  PINGS_PER_IP_def record_success_def record_failure_def winner_def average_def score_def reachable_score_def DURATION_MAX_def Let_def

lemma demo_pings:
  "multi_mode_ping_fastest [IpV4 1] [SM_Ping] (sd_probes (demo_schedule cs) [IpV4 1]) = None"
  "multi_mode_ping_fastest [IpV4 1, IpV4 2] [SM_Ping] (sd_probes (demo_schedule cs) [IpV4 1, IpV4 2]) = Some (IpV4 2)"
  by (simp_all add: demo_schedule_def ping_defs)

lemma demo_answers: "r_answers (demo_addresses ips) = List.map (\<lambda>a. from_rdata name_root 60 (RD_A a)) ips"
  by (simp add: demo_addresses_def demo_reply_def Let_def r_answers_def)

lemma demo_ips: "r_ip_addrs (demo_addresses ips) = List.map IpV4 ips"
  by (induction ips) (simp_all add: demo_addresses_def demo_reply_def Let_def r_ip_addrs_def r_answers_def from_rdata_def map_filter_simps)

theorem first_ping_selects_probed_witness:
  "\<exists>r. choose_answer (demo_schedule [1]) (FirstPing, [SM_Ping])
     [Inr (demo_addresses [1]), Inl request_timeout, Inr (demo_addresses [1, 2])] = Inr r \<and>
     set (r_ip_addrs r) = {IpV4 2}"
proof -
  let ?tasks = "[Inr (demo_addresses [1]), Inl request_timeout, Inr (demo_addresses [1, 2])]"
  obtain r ip r1 where r: "choose_answer (demo_schedule [1]) (FirstPing, [SM_Ping]) ?tasks = Inr r"
      "set (r_ip_addrs r) = {ip}" "Inr r1 \<in> set ?tasks"
      "multi_mode_ping_fastest (r_ip_addrs r1) [SM_Ping] (sd_probes (demo_schedule [1]) (r_ip_addrs r1)) = Some ip"
    using first_ping_selects_probed [of "demo_addresses [1, 2]" ?tasks "[SM_Ping]" "demo_schedule [1]"] demo_pings
    by (auto simp: demo_ips)
  then have "ip = IpV4 2" using demo_pings by (auto simp: demo_ips)
  then show ?thesis using r by blast
qed

theorem address_reply_arrived_witness:
  "\<exists>r. lookup_ip (\<lambda>ss. demo_schedule []) (\<lambda>s. Inr (demo_addresses (if sv_name s = ''a'' then [1, 2] else [1])))
     (demo_options FastestResponse) [demo_server ''b'' False, demo_server ''a'' True] = Inr r \<and>
   set (r_ip_addrs r) = {IpV4 1}"
proof -
  let ?ask = "\<lambda>s. Inr (demo_addresses (if sv_name s = ''a'' then [1, 2] else [1]))"
  have eq: "lookup_ip (\<lambda>ss. demo_schedule []) ?ask (demo_options FastestResponse)
      [demo_server ''b'' False, demo_server ''a'' True] = Inr (demo_addresses [1])"
    by code_simp
  from address_reply_arrived [OF eq] show ?thesis using eq by (auto simp: demo_ips)
qed

theorem address_error_means_no_answer_witness:
  "\<exists>e. lookup_ip_with (\<lambda>ss. demo_schedule []) (\<lambda>s. Inl request_timeout) (demo_options FastestIp) [demo_server ''b'' False] = Inl e \<and>
     (\<lambda>s. Inl request_timeout :: lookup_result) (demo_server ''b'' False) = Inl e"
proof -
  have eq: "lookup_ip_with (\<lambda>ss. demo_schedule []) (\<lambda>s. Inl request_timeout) (demo_options FastestIp) [demo_server ''b'' False] =
      Inl request_timeout"
    by code_simp
  have "\<exists>e'. (Inl request_timeout :: lookup_result) = Inl e'"
    by (rule address_error_means_no_answer [OF eq, where s = "demo_server ''b'' False"]) code_simp+
  then show ?thesis using eq by auto
qed

theorem fastest_response_takes_truncated_witness:
  "choose_answer (demo_schedule []) (FastestResponse, []) [Inr demo_cut, Inr (demo_addresses [1])] = Inr demo_cut \<and>
   race_servers [Inr demo_cut, Inr (demo_addresses [1])] = Inr (demo_addresses [1])"
proof -
  have "r_truncated demo_cut" "response_rank demo_cut = 0" "sd_choices (demo_schedule []) = []"
    "response_rank (demo_addresses [1]) = 0" "\<not> r_truncated (demo_addresses [1])"
    by code_simp+
  then show ?thesis using fastest_response_takes_truncated by blast
qed

text \<open>The server sends three addresses: 9 is on its black list, 2 has an alias, 1 is passed on.\<close>

theorem server_filter_respected_witness:
  "\<exists>r. per_nameserver_lookup_ip \<lparr>ev_now = 0, ev_rid = 7, ev_build = 0\<rparr> (\<lambda>net ip. net_addr net = ip)
     (\<lambda>s. Inr (demo_addresses [9, 2, 1])) name_root (demo_options FirstPing) (demo_server ''a'' False) = Inr r \<and>
   r_ip_addrs r = [IpV4 7, IpV4 1] \<and>
   ip_filter (\<lambda>net ip. net_addr net = ip) (demo_options FirstPing) (demo_server ''a'' False) (IpV4 1)"
proof -
  let ?nc = "\<lambda>net ip. net_addr net = ip"
  let ?options = "demo_options FirstPing" and ?s = "demo_server ''a'' False"
  define r where "r = rewrite_lookup 0 (ip_filter ?nc ?options ?s) (im_get ?nc (li_ip_alias ?options)) RT_A (demo_addresses [9, 2, 1])"
  have eq: "per_nameserver_lookup_ip \<lparr>ev_now = 0, ev_rid = 7, ev_build = 0\<rparr> ?nc
     (\<lambda>s. Inr (demo_addresses [9, 2, 1])) name_root ?options ?s = Inr r"
    by (simp add: per_nameserver_lookup_ip_def pardon_soa_def demo_options_def demo_server_def is_ip_addr_def
        im_is_empty_def r_def)
  have ips: "r_ip_addrs r = [IpV4 7, IpV4 1]"
    by (simp add: r_def r_ip_addrs_def rewrite_lookup_answers demo_answers from_rdata_def im_get_def ip_filter_def im_contains_def demo_options_def demo_server_def map_filter_simps Let_def)
  from server_filter_respected [OF eq] have "ip_filter ?nc ?options ?s (IpV4 1)"
    by (auto simp: ips im_get_def demo_options_def split: option.splits if_splits)
  then show ?thesis using eq ips by blast
qed


end
