(* ===== verification/Bootstrap.thy ===== *)
theory Bootstrap
  imports Lookup_Ip
begin

text \<open>
  The resolver of the upstream servers' own names (\<open>dns_client.rs\<close>, module \<open>bootstrap\<close> and
  \<open>GenericResolverExt::lookup_ip\<close>): the store of the addresses it has found with their deadlines, the
  lookup that fills it, and the order in which the two address families are asked for. What the servers
  answer and the conversion of a host text to an address or a name are arguments.
\<close>

section \<open>The store\<close>

definition query_eq :: "query \<Rightarrow> query \<Rightarrow> bool" where
  "query_eq a b \<longleftrightarrow> name_eq (q_name a) (q_name b) \<and> q_type a = q_type b \<and> q_class a = q_class b"

type_synonym ip_store = "(query \<times> int \<times> rr list) list"

definition store_get :: "query \<Rightarrow> ip_store \<Rightarrow> (int \<times> rr list) option" where
  "store_get q store = map_option snd (List.find (\<lambda>(k, _). query_eq k q) store)"

definition store_insert :: "query \<Rightarrow> int \<times> rr list \<Rightarrow> ip_store \<Rightarrow> ip_store" where
  "store_insert q v store = (q, v) # List.filter (\<lambda>(k, _). \<not> query_eq k q) store"

definition local_lookup :: "env \<Rightarrow> ip_store \<Rightarrow> dname \<Rightarrow> rtype \<Rightarrow> dns_response option" where
  "local_lookup ev store name t =
     (let q = query_query name t in
      case store_get q store of
        Some (valid_until, records) \<Rightarrow>
          if ev_now ev < valid_until then Some (new_with_deadline (ev_rid ev) q records valid_until) else None
      | None \<Rightarrow> None)"

text \<open>\<open>now'\<close> is the clock when the answer has come.\<close>

definition bootstrap_lookup ::
    "env \<Rightarrow> int \<Rightarrow> (dname \<Rightarrow> lookup_options \<Rightarrow> lookup_result) \<Rightarrow> dname \<Rightarrow> lookup_options \<Rightarrow> ip_store \<Rightarrow>
     lookup_result \<times> ip_store" where
  "bootstrap_lookup ev now' resolver name options store =
     (let t = lo_record_type options in
      case local_lookup ev store name t of
        Some lookup \<Rightarrow> (Inr lookup, store)
      | None \<Rightarrow>
          (case resolver name options of
             Inr lookup \<Rightarrow>
               (let records = r_answers lookup in
                (Inr lookup,
                 if records \<noteq> [] then
                   (let min_ttl = unwrap_or (r_min_ttl lookup) 60
                    in store_insert (query_query (set_fqdn True name) t) (now' + secs (unat min_ttl), records) store)
                 else store))
           | Inl e \<Rightarrow> (Inl e, store)))"

section \<open>The two address families\<close>

datatype lookup_ip_strategy = Ipv4Only | Ipv6Only | Ipv4AndIpv6 | Ipv6thenIpv4 | Ipv4thenIpv6

definition has_records :: "lookup_result \<Rightarrow> bool" where
  "has_records res = (case res of Inr lookup \<Rightarrow> r_answers lookup \<noteq> [] | Inl e \<Rightarrow> False)"

text \<open>The loop over the results in the order in which they arrive.\<close>

fun first_with_records :: "lookup_result list \<Rightarrow> lookup_result option" where
  "first_with_records [] = None"
| "first_with_records (res # rest) =
     (if has_records res then Some res else if rest = [] then Some res else first_with_records rest)"

definition ask_families :: "lookup_ip_strategy \<Rightarrow> bool \<Rightarrow> (rtype \<Rightarrow> lookup_result) \<Rightarrow> lookup_result" where
  "ask_families strategy v6_first lookup =
     (case strategy of
        Ipv4Only \<Rightarrow> lookup RT_A
      | Ipv6Only \<Rightarrow> lookup RT_AAAA
      | Ipv4AndIpv6 \<Rightarrow>
          unwrap_or
            (first_with_records (if v6_first then [lookup RT_AAAA, lookup RT_A] else [lookup RT_A, lookup RT_AAAA]))
            (Inl no_connections)
      | Ipv6thenIpv4 \<Rightarrow> (if has_records (lookup RT_AAAA) then lookup RT_AAAA else lookup RT_A)
      | Ipv4thenIpv6 \<Rightarrow> (if has_records (lookup RT_A) then lookup RT_A else lookup RT_AAAA))"

text \<open>A host that is an address is answered without a lookup; \<open>maybe_ip\<close> and \<open>maybe_name\<close> are what the host
  text converts to.\<close>

definition host_lookup_ip ::
    "env \<Rightarrow> nat \<Rightarrow> lookup_ip_strategy \<Rightarrow> bool \<Rightarrow> ip_addr option \<Rightarrow> (dname, proto_kind) result \<Rightarrow>
     (dname \<Rightarrow> rtype \<Rightarrow> lookup_result) \<Rightarrow> lookup_result" where
  "host_lookup_ip ev ndots strategy v6_first maybe_ip maybe_name lookup =
     (let ask = (\<lambda>finally_ip_addr.
            case maybe_name of
              Inr name \<Rightarrow> ask_families strategy v6_first (lookup name)
            | Inl err \<Rightarrow>
                (case finally_ip_addr of
                   Some x \<Rightarrow>
                     Inr (new_with_max_ttl (ev_rid ev) (ev_now ev) (query_query (rr_name x) (rr_type x)) [x])
                 | None \<Rightarrow> Inl (LE_Proto err)))
      in case maybe_ip of
           None \<Rightarrow> ask None
         | Some ip \<Rightarrow>
             (let name = (case maybe_name of Inr n \<Rightarrow> n | Inl e \<Rightarrow> name_new);
                  x = from_rdata name MAX_TTL (rdata_of_ip ip)
              in if 4 < ndots then ask (Some x)
                 else
                   Inr (new_with_max_ttl (ev_rid ev) (ev_now ev)
                          (query_query name (rd_type (rdata_of_ip ip))) [x])))"

section \<open>Lemmas\<close>

lemma name_eq_fqdn: "name_eq a b \<Longrightarrow> n_fqdn a = n_fqdn b"
  by (auto simp: name_eq_def split: if_splits)

lemma name_eq_self [simp]: "name_eq n n"
  by (simp add: name_eq_iff)

lemma store_get_insert:
  "store_get q (store_insert k v store) = (if query_eq k q then Some v else store_get q (List.filter (\<lambda>(k', _). \<not> query_eq k' k) store))"
  by (simp add: store_get_def store_insert_def)

lemma store_get_key: "store_get q store = Some v \<Longrightarrow> \<exists>k. (k, v) \<in> set store \<and> query_eq k q"
  by (fastforce simp: store_get_def find_Some_iff in_set_conv_nth)

definition keys_qualified :: "ip_store \<Rightarrow> bool" where
  "keys_qualified store \<longleftrightarrow> list_all (\<lambda>(k, _). n_fqdn (q_name k)) store"

lemma keys_qualified_insert:
  "keys_qualified store \<Longrightarrow> n_fqdn (q_name k) \<Longrightarrow> keys_qualified (store_insert k v store)"
  by (auto simp: keys_qualified_def store_insert_def list_all_iff)

lemma bootstrap_keeps_qualified:
  "keys_qualified store \<Longrightarrow> keys_qualified (snd (bootstrap_lookup ev now' resolver name options store))"
  by (auto simp: bootstrap_lookup_def Let_def query_query_def set_fqdn_def intro!: keys_qualified_insert
      split: option.splits sum.splits)

lemma relative_not_found:
  assumes "keys_qualified store" "\<not> n_fqdn name"
  shows "local_lookup ev store name t = None"
proof -
  have "store_get (query_query name t) store = None"
  proof (rule ccontr)
    assume "store_get (query_query name t) store \<noteq> None"
    then obtain v k where "(k, v) \<in> set store" "query_eq k (query_query name t)" using store_get_key by blast
    then show False using assms name_eq_fqdn by (fastforce simp: keys_qualified_def list_all_iff query_eq_def query_query_def)
  qed
  then show ?thesis by (simp add: local_lookup_def)
qed

section \<open>Properties\<close>

text \<open>A run of lookups of host names, with what is asked, the clocks and the servers of each.\<close>

fun bootstrap_run ::
    "(env \<times> int \<times> (dname \<Rightarrow> lookup_options \<Rightarrow> lookup_result) \<times> dname \<times> lookup_options) list \<Rightarrow> ip_store \<Rightarrow> ip_store" where
  "bootstrap_run [] store = store"
| "bootstrap_run ((ev, now', resolver, name, options) # rest) store =
     bootstrap_run rest (snd (bootstrap_lookup ev now' resolver name options store))"

text \<open>The store never answers a name that is not fully qualified, whatever was looked up before: the
  entries are made under the fully qualified form and looked for under the form that was given, and names
  that differ in the final dot differ. The host of a server's address has no final dot, so every connection
  looks its name up again.\<close>

theorem relative_name_never_stored:
  assumes "\<not> n_fqdn name"
  shows "bootstrap_lookup ev now' resolver name options (bootstrap_run past []) =
    (resolver name options, snd (bootstrap_lookup ev now' resolver name options (bootstrap_run past [])))"
proof -
  have "keys_qualified store \<Longrightarrow> keys_qualified (bootstrap_run past store)" for store
    by (induction past store rule: bootstrap_run.induct) (auto intro: bootstrap_keeps_qualified)
  then have "keys_qualified (bootstrap_run past [])" by (simp add: keys_qualified_def)
  from relative_not_found [OF this assms]
  show ?thesis by (auto simp: bootstrap_lookup_def Let_def split: sum.splits)
qed

text \<open>What was found for a name is answered from the store for the same name fully qualified, in any
  spelling, until its smallest lifetime has passed, and not after.\<close>

theorem stored_name_answered:
  fixes now' :: int
  assumes "resolver name options = Inr lookup" "r_answers lookup \<noteq> []"
    and "local_lookup ev store name (lo_record_type options) = None"
    and "name_eq (set_fqdn True name) name2"
  defines "until \<equiv> now' + secs (unat (unwrap_or (r_min_ttl lookup) 60))"
  shows "local_lookup ev2 (snd (bootstrap_lookup ev now' resolver name options store)) name2 (lo_record_type options) =
    (if ev_now ev2 < until
     then Some (new_with_deadline (ev_rid ev2) (query_query name2 (lo_record_type options)) (r_answers lookup) until)
     else None)"
proof -
  let ?t = "lo_record_type options"
  have "snd (bootstrap_lookup ev now' resolver name options store) =
      store_insert (query_query (set_fqdn True name) ?t) (until, r_answers lookup) store"
    using assms(1-3) by (simp add: bootstrap_lookup_def until_def Let_def)
  moreover have "query_eq (query_query (set_fqdn True name) ?t) (query_query name2 ?t)"
    using assms(4) by (simp add: query_eq_def query_query_def)
  ultimately show ?thesis by (simp add: local_lookup_def store_get_insert Let_def)
qed

text \<open>When both families are asked for, an empty answer or an error of one never hides the addresses of
  the other, whichever comes first.\<close>

theorem family_with_records_wins:
  assumes "strategy \<in> {Ipv4AndIpv6, Ipv6thenIpv4, Ipv4thenIpv6}"
    and "has_records (lookup RT_A) \<or> has_records (lookup RT_AAAA)"
  shows "has_records (ask_families strategy v6_first lookup)"
  using assms by (auto simp: ask_families_def)

theorem relative_name_never_stored_witness:
  "bootstrap_lookup \<lparr>ev_now = 0, ev_rid = 7, ev_build = 0\<rparr> 0 (\<lambda>n opts. Inr (demo_addresses [1])) (pqdn [''dns'', ''org''])
     (li_lookup_options (demo_options FirstPing))
     (bootstrap_run [(\<lparr>ev_now = 0, ev_rid = 7, ev_build = 0\<rparr>, 0, \<lambda>n opts. Inr (demo_addresses [1]), pqdn [''dns'', ''org''],
        li_lookup_options (demo_options FirstPing))] []) =
   (Inr (demo_addresses [1]), snd (bootstrap_lookup \<lparr>ev_now = 0, ev_rid = 7, ev_build = 0\<rparr> 0
     (\<lambda>n opts. Inr (demo_addresses [1])) (pqdn [''dns'', ''org'']) (li_lookup_options (demo_options FirstPing))
     (bootstrap_run [(\<lparr>ev_now = 0, ev_rid = 7, ev_build = 0\<rparr>, 0, \<lambda>n opts. Inr (demo_addresses [1]), pqdn [''dns'', ''org''],
        li_lookup_options (demo_options FirstPing))] [])))"
  by (rule relative_name_never_stored) (simp add: pqdn_def)

theorem stored_name_answered_witness:
  "local_lookup \<lparr>ev_now = 60000000004, ev_rid = 3, ev_build = 0\<rparr>
     (snd (bootstrap_lookup \<lparr>ev_now = 0, ev_rid = 7, ev_build = 0\<rparr> 5 (\<lambda>n opts. Inr (demo_addresses [1]))
        (pqdn [''dns'', ''org'']) (li_lookup_options (demo_options FirstPing)) []))
     (fqdn [''DNS'', ''org'']) RT_A =
   Some (new_with_deadline 3 (query_query (fqdn [''DNS'', ''org'']) RT_A) (r_answers (demo_addresses [1])) 60000000005)"
proof -
  have "lo_record_type (li_lookup_options (demo_options FirstPing)) = RT_A" "r_min_ttl (demo_addresses [1]) = Some 60"
    "r_answers (demo_addresses [1]) \<noteq> []" "name_eq (set_fqdn True (pqdn [''dns'', ''org''])) (fqdn [''DNS'', ''org''])"
    by code_simp+
  then show ?thesis
    using stored_name_answered [of "\<lambda>n opts. Inr (demo_addresses [1])" "pqdn [''dns'', ''org'']"
        "li_lookup_options (demo_options FirstPing)" "demo_addresses [1]" "\<lparr>ev_now = 0, ev_rid = 7, ev_build = 0\<rparr>" "[]"
        "fqdn [''DNS'', ''org'']" "\<lparr>ev_now = 60000000004, ev_rid = 3, ev_build = 0\<rparr>" 5]
    by (simp add: local_lookup_def store_get_def secs_def)
qed

theorem family_with_records_wins_witness:
  "has_records (ask_families Ipv4AndIpv6 True (\<lambda>t. if t = RT_A then Inr (demo_addresses [1]) else Inr demo_nodata))"
  by (rule family_with_records_wins) code_simp+

end
