(* ===== verification/Name_Text.thy ===== *)
theory Name_Text
  imports Domain_Name Fmt
begin

text \<open>
  Domain names as text (\<open>Name::from_encoded_str\<close>, \<open>to_ascii\<close> in
  \<open>hickory-dns/crates/proto/src/rr/domain/name.rs\<close> and \<open>Label::from_ascii\<close>, \<open>write_ascii\<close> in
  \<open>label.rs\<close>): the parser with its escapes as a state machine over the characters, the printer, and
  that the parser reads back what the printer writes. The conversion of a label's text is an argument of
  the parser, as it is in the code: the ASCII one is modelled, the IDNA one calls a library. A character
  of the model is an octet, so only ASCII text is in the model.
\<close>

section \<open>Labels\<close>

definition char_code :: "char \<Rightarrow> nat" where
  "char_code c = of_char c"

definition is_alphanumeric :: "char \<Rightarrow> bool" where
  "is_alphanumeric c \<longleftrightarrow>
     48 \<le> char_code c \<and> char_code c \<le> 57 \<or> 65 \<le> char_code c \<and> char_code c \<le> 90 \<or>
     97 \<le> char_code c \<and> char_code c \<le> 122"

definition is_ascii :: "char \<Rightarrow> bool" where
  "is_ascii c \<longleftrightarrow> char_code c < 128"

definition is_safe_ascii :: "char \<Rightarrow> bool \<Rightarrow> bool \<Rightarrow> bool" where
  "is_safe_ascii c is_first for_encoding \<longleftrightarrow>
     (if \<not> is_ascii c then False
      else if is_alphanumeric c then True
      else if c = CHR ''-'' \<and> \<not> is_first then True
      else if c = CHR ''_'' then True
      else if c = CHR ''*'' \<and> is_first then True
      else if c = CHR ''.'' \<and> \<not> for_encoding then True
      else False)"

datatype text_error =
    TE_Label proto_error
  | TE_MalformedLabel string
  | TE_UnrecognizedChar char
  | TE_IllegalChar char
  | TE_EscapeOutOfRange nat

definition label_from_ascii :: "string \<Rightarrow> (label, text_error) result" where
  "label_from_ascii s =
     (if 63 < length s then Inl (TE_Label (LabelBytesTooLong (length s)))
      else if s = ''*'' then Inr ''*''
      else if s \<noteq> [] \<and> list_all is_ascii s \<and> list_all (\<lambda>c. is_safe_ascii c True False) (take 1 s) \<and>
        list_all (\<lambda>c. is_safe_ascii c False False) (drop 1 s)
      then (case label_from_raw_bytes s of Inr l \<Rightarrow> Inr l | Inl e \<Rightarrow> Inl (TE_Label e))
      else Inl (TE_MalformedLabel s))"

definition escape_non_ascii :: "bool \<Rightarrow> char \<Rightarrow> string" where
  "escape_non_ascii is_first c =
     (if is_safe_ascii c is_first True then [c]
      else if 0x20 < char_code c \<and> char_code c < 0x7F then [CHR 0x5C, c]
      else CHR 0x5C # (let t = show_dec (char_code c) in replicate (3 - length t) (CHR ''0'') @ t))"

fun write_ascii :: "label \<Rightarrow> string" where
  "write_ascii [] = []"
| "write_ascii (c # cs) = escape_non_ascii True c @ concat (List.map (escape_non_ascii False) cs)"

section \<open>Printing\<close>

definition to_ascii :: "dname \<Rightarrow> string" where
  "to_ascii n =
     join ''.'' (List.map write_ascii (n_labels n)) @ (if is_root n \<or> n_fqdn n then ''.'' else [])"

section \<open>Parsing\<close>

datatype parse_state = PS_Label | PS_Escape1 | PS_Escape2 nat | PS_Escape3 nat nat

definition is_numeric :: "char \<Rightarrow> bool" where
  "is_numeric c \<longleftrightarrow> 48 \<le> char_code c \<and> char_code c \<le> 57"

definition to_digit :: "char \<Rightarrow> nat" where
  "to_digit c = char_code c - 48"

definition is_control :: "char \<Rightarrow> bool" where
  "is_control c \<longleftrightarrow> char_code c < 32 \<or> char_code c = 127"

definition is_whitespace :: "char \<Rightarrow> bool" where
  "is_whitespace c \<longleftrightarrow> 9 \<le> char_code c \<and> char_code c \<le> 13 \<or> char_code c = 32"

text \<open>One character: the name so far, the label so far and the state.\<close>

definition append_text ::
    "(string \<Rightarrow> (label, text_error) result) \<Rightarrow> string \<Rightarrow> dname \<Rightarrow> (dname, text_error) result" where
  "append_text to_label label name =
     (case to_label label of
        Inl e \<Rightarrow> Inl e
      | Inr l \<Rightarrow> (case append_label l name of Inr n \<Rightarrow> Inr n | Inl e \<Rightarrow> Inl (TE_Label e)))"

fun parse_step ::
    "(string \<Rightarrow> (label, text_error) result) \<Rightarrow> char \<Rightarrow> dname \<times> string \<times> parse_state \<Rightarrow>
     (dname \<times> string \<times> parse_state, text_error) result" where
  "parse_step to_label ch (name, label, PS_Label) =
     (if ch = CHR ''.'' then
        (case append_text to_label label name of Inr name' \<Rightarrow> Inr (name', [], PS_Label) | Inl e \<Rightarrow> Inl e)
      else if ch = CHR 0x5C then Inr (name, label, PS_Escape1)
      else if \<not> is_control ch \<and> \<not> is_whitespace ch then Inr (name, label @ [ch], PS_Label)
      else Inl (TE_UnrecognizedChar ch))"
| "parse_step to_label ch (name, label, PS_Escape1) =
     (if is_numeric ch then Inr (name, label, PS_Escape2 (to_digit ch))
      else Inr (name, label @ [ch], PS_Label))"
| "parse_step to_label ch (name, label, PS_Escape2 i) =
     (if is_numeric ch then Inr (name, label, PS_Escape3 i (to_digit ch))
      else Inl (TE_UnrecognizedChar ch))"
| "parse_step to_label ch (name, label, PS_Escape3 i ii) =
     (if is_numeric ch then
        (let val = i * 100 + ii * 10 + to_digit ch
         in if 255 < val then Inl (TE_EscapeOutOfRange val) else Inr (name, label @ [char_of val], PS_Label))
      else Inl (TE_UnrecognizedChar ch))"

fun parse_chars ::
    "(string \<Rightarrow> (label, text_error) result) \<Rightarrow> string \<Rightarrow> dname \<times> string \<times> parse_state \<Rightarrow>
     (dname \<times> string \<times> parse_state, text_error) result" where
  "parse_chars to_label [] st = Inr st"
| "parse_chars to_label (ch # chs) st = result_bind (parse_step to_label ch st) (parse_chars to_label chs)"

definition from_encoded_str ::
    "(string \<Rightarrow> (label, text_error) result) \<Rightarrow> string \<Rightarrow> dname option \<Rightarrow> (dname, text_error) result" where
  "from_encoded_str to_label local origin =
     (if local = ''.'' then Inr (set_fqdn True name_new)
      else
        result_bind (parse_chars to_label local (name_new, [], PS_Label))
          (\<lambda>(name, label, state).
             result_bind (if label \<noteq> [] then append_text to_label label name else Inr name)
               (\<lambda>name'.
                  if label = [] \<and> local \<noteq> [] then Inr (set_fqdn True name')
                  else
                    (case origin of
                       Some other \<Rightarrow>
                         (case append_domain name' other of Inr n \<Rightarrow> Inr n | Inl e \<Rightarrow> Inl (TE_Label e))
                     | None \<Rightarrow> Inr name'))))"

definition from_ascii :: "string \<Rightarrow> (dname, text_error) result" where
  "from_ascii s = from_encoded_str label_from_ascii s None"

section \<open>Lemmas\<close>

lemma code_char: "c = char_of n \<longleftrightarrow> n mod 256 = char_code c"
  by (metis char_code_def char_of_eq_iff of_char_mod_256 of_char_of)

lemma safe_char:
  assumes "is_safe_ascii c f b"
  shows "c \<noteq> CHR 0x5C" "\<not> is_control c" "\<not> is_whitespace c" "b \<Longrightarrow> c \<noteq> CHR ''.''"
  using assms
  by (auto simp: is_safe_ascii_def is_alphanumeric_def is_control_def is_whitespace_def char_code_def split: if_splits)

text \<open>A character that a label may have is printed as itself, or as an escaped dot.\<close>

lemma parse_printed_char:
  assumes "is_safe_ascii c f False"
  shows "parse_chars f0 (escape_non_ascii f c @ rest) (name, label, PS_Label) =
    parse_chars f0 rest (name, label @ [c], PS_Label)"
proof (cases "c = CHR ''.''")
  case True
  then show ?thesis
    by (simp add: escape_non_ascii_def is_safe_ascii_def is_alphanumeric_def char_code_def is_numeric_def)
next
  case False
  then have safe: "is_safe_ascii c f True" using assms by (auto simp: is_safe_ascii_def split: if_splits)
  show ?thesis using safe safe_char [OF safe] by (simp add: escape_non_ascii_def)
qed

lemma parse_printed_chars:
  assumes "list_all (\<lambda>c. is_safe_ascii c False False) cs"
  shows "parse_chars f0 (concat (List.map (escape_non_ascii False) cs) @ rest) (name, label, PS_Label) =
    parse_chars f0 rest (name, label @ cs, PS_Label)"
  using assms
proof (induction cs arbitrary: label)
  case Nil
  then show ?case by simp
next
  case (Cons c cs)
  have "is_safe_ascii c False False" "list_all (\<lambda>c. is_safe_ascii c False False) cs" using Cons.prems by simp_all
  then show ?case using Cons.IH [of "label @ [c]"] by (simp only: list.map concat.simps append_assoc parse_printed_char) simp
qed

lemma label_from_ascii_safe:
  assumes "label_from_ascii l = Inr l"
  shows "\<exists>c cs. l = c # cs \<and> is_safe_ascii c True False \<and> list_all (\<lambda>c. is_safe_ascii c False False) cs"
proof (cases l)
  case Nil
  then show ?thesis using assms by (simp add: label_from_ascii_def)
next
  case (Cons c cs)
  show ?thesis
  proof (cases "l = ''*''")
    case True
    then show ?thesis by (simp add: is_safe_ascii_def is_ascii_def char_code_def)
  next
    case False
    then show ?thesis using assms Cons by (simp add: label_from_ascii_def split: if_splits)
  qed
qed

lemma parse_printed_label:
  assumes "label_from_ascii l = Inr l"
  shows "parse_chars f0 (write_ascii l @ rest) (name, [], PS_Label) = parse_chars f0 rest (name, l, PS_Label)"
proof -
  obtain c cs where l: "l = c # cs" "is_safe_ascii c True False" "list_all (\<lambda>c. is_safe_ascii c False False) cs"
    using label_from_ascii_safe [OF assms] by blast
  show ?thesis unfolding l(1) write_ascii.simps append_assoc parse_printed_char [OF l(2)] parse_printed_chars [OF l(3)]
    by simp
qed

lemma append_text_ok:
  assumes "label_from_ascii l = Inr l" "encoded_len n + length l + 1 \<le> 255"
  shows "append_text label_from_ascii l n = Inr (n\<lparr>n_labels := n_labels n @ [l]\<rparr>)"
proof -
  have "l \<noteq> []" using label_from_ascii_safe [OF assms(1)] by auto
  moreover have "length l \<le> 63" using assms(1) by (auto simp: label_from_ascii_def split: if_splits)
  ultimately have "append_label l n = Inr (n\<lparr>n_labels := n_labels n @ [l]\<rparr>)"
    using assms(2) by (simp add: append_label_def label_from_raw_bytes_def extend_name_def max_name_length_def)
  then show ?thesis using assms(1) by (simp add: append_text_def)
qed

text \<open>All labels but the last are ended by a dot.\<close>

lemma parse_joined:
  assumes "list_all (\<lambda>l. label_from_ascii l = Inr l) (ls @ [l])" "encoded_len (n\<lparr>n_labels := n_labels n @ ls @ [l]\<rparr>) \<le> 255"
  shows "parse_chars label_from_ascii (join ''.'' (List.map write_ascii (ls @ [l])) @ rest) (n, [], PS_Label) =
    parse_chars label_from_ascii rest (n\<lparr>n_labels := n_labels n @ ls\<rparr>, l, PS_Label)"
  using assms
proof (induction ls arbitrary: n)
  case Nil
  then show ?case by (simp add: parse_printed_label)
next
  case (Cons k ls)
  have k: "label_from_ascii k = Inr k" "list_all (\<lambda>l. label_from_ascii l = Inr l) (ls @ [l])" using Cons.prems(1) by simp_all
  have len: "encoded_len n + length k + 1 \<le> 255" using Cons.prems(2) by (simp add: encoded_len_def data_len_def)
  obtain m ms where ms: "List.map write_ascii (ls @ [l]) = m # ms" by (cases "List.map write_ascii (ls @ [l])") auto
  have "join ''.'' (List.map write_ascii ((k # ls) @ [l])) = write_ascii k @ ''.'' @ join ''.'' (List.map write_ascii (ls @ [l]))"
    using ms by simp
  moreover have "parse_chars label_from_ascii (join ''.'' (List.map write_ascii (ls @ [l])) @ rest)
      (n\<lparr>n_labels := n_labels n @ [k]\<rparr>, [], PS_Label) =
    parse_chars label_from_ascii rest (n\<lparr>n_labels := n_labels n @ k # ls\<rparr>, l, PS_Label)"
    using Cons.IH [OF k(2), of "n\<lparr>n_labels := n_labels n @ [k]\<rparr>"] Cons.prems(2) by simp
  ultimately show ?case using parse_printed_label [OF k(1)] append_text_ok [OF k(1) len] by simp
qed

section \<open>Properties\<close>

text \<open>Text and names agree: the parser reads back what the printer writes, for every name whose labels
  the ASCII conversion accepts, a label with a dot in it included; the dot at the end of the text, and
  nothing else, says that the name is fully qualified.\<close>

theorem name_text_roundtrip:
  assumes "wf_name n" "list_all (\<lambda>l. label_from_ascii l = Inr l) (n_labels n)"
  shows "from_ascii (to_ascii n) = Inr n"
proof (cases "n_labels n = []")
  case True
  then have "n = (if n_fqdn n then set_fqdn True name_new else name_new)"
    by (simp add: set_fqdn_def name_new_def dname_eqI)
  moreover have "from_ascii (to_ascii (set_fqdn True name_new)) = Inr (set_fqdn True name_new)"
    "from_ascii (to_ascii name_new) = Inr name_new"
    by (simp_all add: from_ascii_def from_encoded_str_def to_ascii_def set_fqdn_def name_new_def is_root_def)
  ultimately show ?thesis by metis
next
  case False
  then obtain ls l where n: "n_labels n = ls @ [l]" by (metis rev_exhaust)
  have l: "label_from_ascii l = Inr l" using assms(2) n by simp
  have len: "encoded_len (name_new\<lparr>n_labels := n_labels name_new @ ls @ [l]\<rparr>) \<le> 255"
    "encoded_len (name_new\<lparr>n_labels := ls\<rparr>) + length l + 1 \<le> 255"
    using assms(1) n by (simp_all add: wf_name_def encoded_len_def data_len_def name_new_def max_name_length_def)
  have pre: "\<And>rest. parse_chars label_from_ascii (join ''.'' (List.map write_ascii (ls @ [l])) @ rest) (name_new, [], PS_Label) =
      parse_chars label_from_ascii rest (name_new\<lparr>n_labels := ls\<rparr>, l, PS_Label)"
    using parse_joined [of ls l name_new] assms(2) n len by (simp add: name_new_def)
  have printed: "to_ascii n = join ''.'' (List.map write_ascii (ls @ [l])) @ (if n_fqdn n then ''.'' else [])"
    using n by (simp add: to_ascii_def is_root_def)
  have ne: "to_ascii n \<noteq> []" "to_ascii n \<noteq> ''.''"
  proof -
    have first: "parse_chars label_from_ascii (to_ascii n) (name_new, [], PS_Label) \<noteq>
        parse_chars label_from_ascii [] (name_new, [], PS_Label)"
      "parse_chars label_from_ascii (to_ascii n) (name_new, [], PS_Label) \<noteq>
        parse_chars label_from_ascii ''.'' (name_new, [], PS_Label)"
      using pre l label_from_ascii_safe [OF l] append_text_ok [OF l, of "name_new\<lparr>n_labels := ls\<rparr>"] len(2) unfolding printed
      by (auto simp: append_text_def label_from_ascii_def [of "[]"] name_new_def)
    then show "to_ascii n \<noteq> []" "to_ascii n \<noteq> ''.''" by metis+
  qed
  have app: "append_text label_from_ascii l (name_new\<lparr>n_labels := ls\<rparr>) = Inr (name_new\<lparr>n_labels := ls @ [l]\<rparr>)"
    using append_text_ok [OF l, of "name_new\<lparr>n_labels := ls\<rparr>"] len(2) by simp
  have l_ne: "l \<noteq> []" using label_from_ascii_safe [OF l] by auto
  show ?thesis
  proof (cases "n_fqdn n")
    case True
    then have "parse_chars label_from_ascii (to_ascii n) (name_new, [], PS_Label) =
        Inr (name_new\<lparr>n_labels := ls @ [l]\<rparr>, [], PS_Label)"
      unfolding printed using pre [of "''.''"] app by simp
    then show ?thesis using ne True n
      by (simp add: from_ascii_def from_encoded_str_def set_fqdn_def name_new_def dname_eqI)
  next
    case False
    then have "parse_chars label_from_ascii (to_ascii n) (name_new, [], PS_Label) =
        Inr (name_new\<lparr>n_labels := ls\<rparr>, l, PS_Label)"
      unfolding printed using pre [of "[]"] by simp
    then show ?thesis using ne False n app l_ne
      by (simp add: from_ascii_def from_encoded_str_def set_fqdn_def name_new_def dname_eqI)
  qed
qed

theorem name_text_roundtrip_witness:
  "from_ascii (to_ascii \<lparr>n_labels = [''_a'', ''first.last'', ''org''], n_fqdn = True\<rparr>) =
     Inr \<lparr>n_labels = [''_a'', ''first.last'', ''org''], n_fqdn = True\<rparr> \<and>
   to_ascii \<lparr>n_labels = [''_a'', ''first.last'', ''org''], n_fqdn = True\<rparr> =
     ''_a.first'' @ [CHR 0x5C] @ ''.last.org.''"
proof
  show "from_ascii (to_ascii \<lparr>n_labels = [''_a'', ''first.last'', ''org''], n_fqdn = True\<rparr>) =
     Inr \<lparr>n_labels = [''_a'', ''first.last'', ''org''], n_fqdn = True\<rparr>"
    by (rule name_text_roundtrip)
      (simp_all add: wf_name_def wf_label_def encoded_len_def data_len_def max_name_length_def label_from_ascii_def
        is_safe_ascii_def is_ascii_def is_alphanumeric_def char_code_def label_from_raw_bytes_def)
  show "to_ascii \<lparr>n_labels = [''_a'', ''first.last'', ''org''], n_fqdn = True\<rparr> =
     ''_a.first'' @ [CHR 0x5C] @ ''.last.org.''"
    by (simp add: to_ascii_def escape_non_ascii_def is_safe_ascii_def is_ascii_def is_alphanumeric_def char_code_def)
qed


section \<open>Unfinished escapes\<close>

lemma parse_chars_append:
  "parse_chars f (xs @ ys) st = result_bind (parse_chars f xs st) (parse_chars f ys)"
proof (induction xs arbitrary: st)
  case (Cons x xs)
  then show ?case by (cases "parse_step f x st") simp_all
qed simp

definition unfinished_escape :: "string \<Rightarrow> bool" where
  "unfinished_escape t \<longleftrightarrow>
     (case t of c # ds \<Rightarrow> c = CHR 0x5C \<and> length ds \<le> 2 \<and> list_all is_numeric ds | [] \<Rightarrow> False)"

lemma parse_unfinished:
  assumes "unfinished_escape t"
  shows "\<exists>state. parse_chars f t (n, l, PS_Label) = Inr (n, l, state)"
proof -
  from assms obtain ds where "t = CHR 0x5C # ds" "length ds \<le> 2" "list_all is_numeric ds"
    by (auto simp: unfinished_escape_def split: list.splits)
  then show ?thesis
    by (cases ds; cases "tl ds") auto
qed

text \<open>A text that ends in the middle of an escape is not refused: the escape is dropped, and the name is
  the one of the text before it, fully qualified when that text ends with a dot.\<close>

theorem unfinished_escape_ignored:
  assumes "parse_chars label_from_ascii s (name_new, [], PS_Label) = Inr (n, l, PS_Label)" "s \<noteq> []" "s \<noteq> ''.''"
    and "unfinished_escape t"
  shows "from_ascii (s @ t) = from_ascii s"
proof -
  have "s @ t \<noteq> ''.''" using assms(2,3,4) by (cases s) (auto simp: unfinished_escape_def)
  then show ?thesis
    using assms(1-3) parse_unfinished [OF assms(4), of label_from_ascii n l]
    by (auto simp: from_ascii_def from_encoded_str_def parse_chars_append split: sum.splits)
qed

theorem unfinished_escape_ignored_witness:
  "from_ascii (''org.'' @ [CHR 0x5C, CHR ''0'', CHR ''4'']) = from_ascii ''org.'' \<and>
   from_ascii ''org.'' = Inr \<lparr>n_labels = [''org''], n_fqdn = True\<rparr>"
proof -
  have p: "parse_chars label_from_ascii ''org.'' (name_new, [], PS_Label) =
      Inr (\<lparr>n_labels = [''org''], n_fqdn = False\<rparr>, [], PS_Label)"
    by code_simp
  have "from_ascii ''org.'' = Inr \<lparr>n_labels = [''org''], n_fqdn = True\<rparr>" by code_simp
  moreover have "unfinished_escape [CHR 0x5C, CHR ''0'', CHR ''4'']" by code_simp
  then have "from_ascii (''org.'' @ [CHR 0x5C, CHR ''0'', CHR ''4'']) = from_ascii ''org.''"
    by (rule unfinished_escape_ignored [OF p, rotated 2]) simp_all
  ultimately show ?thesis by blast
qed

end
