(* ===== verification/Mw_Nameserver.thy ===== *)
theory Mw_Nameserver
  imports Bootstrap Name_Text
begin

text \<open>
  The last middleware of the chain (\<open>dns_mw_ns.rs\<close>, \<open>NameServerMiddleware::handle\<close>): it answers the names
  of the upstream servers from the bootstrap store, chooses the group of servers, folds equal queries that
  run at the same time into one, asks the group, and limits the lifetimes of the records it got. The state
  is the map of the queries in flight and the results that were sent to the waiting ones. The servers, the
  order of events, the result a waiting query receives and two hash functions are arguments.
\<close>

section \<open>Local domains\<close>

definition trim_end_dots :: "string \<Rightarrow> string" where
  "trim_end_dots s = rev (dropWhile (\<lambda>c. c = CHR ''.'') (rev s))"

definition ends_with :: "string \<Rightarrow> string \<Rightarrow> bool" where
  "ends_with s t \<longleftrightarrow> length t \<le> length s \<and> drop (length s - length t) s = t"

definition is_local_domain :: "rt_config \<Rightarrow> dname \<Rightarrow> bool" where
  "is_local_domain c n =
     (if cf_local_domains c = [] then False
      else
        (let name = trim_end_dots (lower_str (to_ascii n))
         in list_ex (\<lambda>d. name = d \<or> ends_with name (''.'' @ d)) (cf_local_domains c)))"

definition LOCAL :: dname where
  "LOCAL = fqdn [''local'']"

definition mdns_lookup :: "rt_config \<Rightarrow> bool" where
  "mdns_lookup c = unwrap_or (cf_mdns_lookup c) False"

section \<open>The group of servers\<close>

record dns_client =
  up_default :: "name_server list"
  up_servers :: "(string \<times> name_server list) list"
  up_ip_store :: ip_store

definition choose_group :: "dns_context \<Rightarrow> dns_client \<Rightarrow> dname \<Rightarrow> (name_server list, lookup_error) result" where
  "choose_group ctx client name =
     (let group_name = server_group_name ctx;
          get = get_server_group (up_default client) (up_servers client);
          want_mdns = (mdns_lookup (cx_cfg ctx) \<and> (zone_of LOCAL name \<or> is_local_domain (cx_cfg ctx) name))
      in case or_else (if want_mdns then get ''mdns'' else None) (get group_name) of
           Some ns \<Rightarrow> Inr ns
         | None \<Rightarrow>
             if has_server_group (cx_cfg ctx) group_name then Inl no_connections
             else (case get ''default'' of Some ns \<Rightarrow> Inr ns | None \<Rightarrow> Inl no_connections))"

section \<open>Options of the lookup\<close>

definition lookup_options_of :: "dns_context \<Rightarrow> request \<Rightarrow> lookup_options" where
  "lookup_options_of ctx req =
     \<lparr>lo_is_dnssec = False,
      lo_record_type = q_type (rq_query req),
      lo_client_subnet =
        or_else (or_else (case m_edns (rq_message req) of Some e \<Rightarrow> ed_subnet e | None \<Rightarrow> None)
                   (rule_get dr_subnet ctx))
          (map_option
             (\<lambda>net. \<lparr>cs_address = net_addr net, cs_source_prefix = of_nat (net_prefix net), cs_scope_prefix = 0\<rparr>)
             (cx_edns_client_subnet ctx)),
      lo_query_class = (case m_queries (rq_message req) of q # _ \<Rightarrow> q_class q | [] \<Rightarrow> DC_IN)\<rparr>"

definition lookup_ip_options_of :: "dns_context \<Rightarrow> lookup_options \<Rightarrow> lookup_ip_options" where
  "lookup_ip_options_of ctx options =
     (let cfg = cx_cfg ctx in
      \<lparr>li_response_strategy =
         (if so_is_background (cx_server_opts ctx) then FastestIp
          else unwrap_or (rule_get dr_response_mode ctx) (cx_response_mode ctx)),
       li_speed_check_mode =
         Some (resolve_speed_check_mode (rule_get dr_speed_check_mode ctx) (cx_speed_check_mode ctx)),
       li_no_speed_check = unwrap_or (so_no_speed_check (cx_server_opts ctx)) False,
       li_ignore_ip = cf_ignore_ip cfg, li_whitelist_ip = cf_whitelist_ip cfg,
       li_blacklist_ip = cf_blacklist_ip cfg, li_ip_alias = cf_ip_alias cfg,
       li_lookup_options = options\<rparr>)"

section \<open>The key of a query in flight\<close>

fun show_rtype :: "rtype \<Rightarrow> string" where
  "show_rtype RT_A = ''A''"
| "show_rtype RT_AAAA = ''AAAA''"
| "show_rtype RT_ANAME = ''ANAME''"
| "show_rtype RT_ANY = ''ANY''"
| "show_rtype RT_AXFR = ''AXFR''"
| "show_rtype RT_CAA = ''CAA''"
| "show_rtype RT_CDNSKEY = ''CDNSKEY''"
| "show_rtype RT_CERT = ''CERT''"
| "show_rtype RT_CDS = ''CDS''"
| "show_rtype RT_CNAME = ''CNAME''"
| "show_rtype RT_CSYNC = ''CSYNC''"
| "show_rtype RT_DNSKEY = ''DNSKEY''"
| "show_rtype RT_DS = ''DS''"
| "show_rtype RT_HINFO = ''HINFO''"
| "show_rtype RT_HTTPS = ''HTTPS''"
| "show_rtype RT_KEY = ''KEY''"
| "show_rtype RT_IXFR = ''IXFR''"
| "show_rtype RT_MX = ''MX''"
| "show_rtype RT_NAPTR = ''NAPTR''"
| "show_rtype RT_NS = ''NS''"
| "show_rtype RT_NSEC = ''NSEC''"
| "show_rtype RT_NSEC3 = ''NSEC3''"
| "show_rtype RT_NSEC3PARAM = ''NSEC3PARAM''"
| "show_rtype RT_NULL = ''NULL''"
| "show_rtype RT_OPENPGPKEY = ''OPENPGPKEY''"
| "show_rtype RT_OPT = ''OPT''"
| "show_rtype RT_PTR = ''PTR''"
| "show_rtype RT_RRSIG = ''RRSIG''"
| "show_rtype RT_SIG = ''SIG''"
| "show_rtype RT_SOA = ''SOA''"
| "show_rtype RT_SRV = ''SRV''"
| "show_rtype RT_SSHFP = ''SSHFP''"
| "show_rtype RT_SVCB = ''SVCB''"
| "show_rtype RT_TLSA = ''TLSA''"
| "show_rtype RT_TSIG = ''TSIG''"
| "show_rtype RT_TXT = ''TXT''"
| "show_rtype RT_ZERO = ''ZERO''"
| "show_rtype (RT_Unknown v) = ''Unknown''"

definition build_inflight_key :: "string \<Rightarrow> rtype \<Rightarrow> string \<Rightarrow> string \<Rightarrow> u64 \<Rightarrow> string \<Rightarrow> string" where
  "build_inflight_key name t grp ecs fold_proc rule_group =
     name @ '':'' @ show_rtype t @ '':'' @ grp @ '':'' @ ecs @ '':'' @ rule_group @ '':'' @ show_hex (unat fold_proc)"

text \<open>The switches of the servers in the order of their values.\<close>

definition switch_rank :: "bool \<times> bool \<Rightarrow> nat" where
  "switch_rank p = (if fst p then 2 else 0) + (if snd p then 1 else 0)"

definition fold_nameserver_filter :: "((bool \<times> bool) list \<Rightarrow> u64) \<Rightarrow> name_server list \<Rightarrow> u64" where
  "fold_nameserver_filter hash servers =
     hash (sort_key switch_rank (List.map (\<lambda>s. (sv_blacklist_ip s, sv_whitelist_ip s)) servers))"

record hashers =
  hs_switches :: "(bool \<times> bool) list \<Rightarrow> u64"
  hs_proc :: "(response_mode \<times> speed_mode list option \<times> bool) option \<Rightarrow> u64 \<Rightarrow> u64"

definition inflight_key ::
    "hashers \<Rightarrow> (dname \<Rightarrow> string) \<Rightarrow> dns_context \<Rightarrow> request \<Rightarrow> name_server list \<Rightarrow> string" where
  "inflight_key hs show_name ctx req servers =
     (let name = q_name (rq_query req);
          t = q_type (rq_query req);
          options = lookup_options_of ctx req;
          ip_opts = (if is_ip_addr t then Some (lookup_ip_options_of ctx options) else None);
          fold_ecs = unwrap_or (map_option (\<lambda>s. show_ip (cs_address s) @ ''/'' @ show_dec (unat (cs_source_prefix s)))
                       (lo_client_subnet options)) [];
          fold_proc = hs_proc hs
            (map_option (\<lambda>o'. (li_response_strategy o', li_speed_check_mode o', li_no_speed_check o')) ip_opts)
            (fold_nameserver_filter (hs_switches hs) servers)
      in build_inflight_key (show_name name) t (server_group_name ctx) fold_ecs fold_proc (effective_rule_group ctx))"

section \<open>Lifetimes\<close>

definition clamp_record_ttl :: "u32 option \<Rightarrow> u32 \<Rightarrow> u32 \<Rightarrow> rr \<Rightarrow> rr" where
  "clamp_record_ttl rr_ttl' ttl_min ttl_max record =
     rr_set_ttl
       (case rr_ttl' of
          Some exact_ttl \<Rightarrow> exact_ttl
        | None \<Rightarrow>
            if ttl_max < ttl_min then clamp ttl_max ttl_max (rr_ttl record) else clamp ttl_min ttl_max (rr_ttl record))
       record"

definition ttl_limits :: "dns_context \<Rightarrow> u32 option \<times> u32 \<times> u32" where
  "ttl_limits ctx =
     (or_else (map_option ucast (rule_get dr_rr_ttl ctx)) (map_option ucast (cx_rr_ttl ctx)),
      unwrap_or (map_option ucast (rule_get dr_rr_ttl_min ctx)) (ucast (unwrap_or (cx_rr_ttl_min ctx) 0)),
      unwrap_or (map_option ucast (rule_get dr_rr_ttl_max ctx)) (ucast (unwrap_or (cx_rr_ttl_max ctx) 86400)))"

definition limit_ttls :: "dns_context \<Rightarrow> dns_response \<Rightarrow> dns_response" where
  "limit_ttls ctx =
     (case ttl_limits ctx of (exact, lo, hi) \<Rightarrow> map_records (clamp_record_ttl exact lo hi))"

section \<open>The handler\<close>

text \<open>What the outside does: the transports, the order in which answers arrive, whether the limit of five
  seconds strikes, and what a waiting query receives.\<close>

record upstream_env =
  ue_send :: "name_server \<Rightarrow> message \<Rightarrow> ns_outcome"
  ue_arrive :: "name_server list \<Rightarrow> name_server list"
  ue_schedule :: "name_server list \<Rightarrow> schedule"
  ue_expired :: bool
  ue_receive :: "string \<Rightarrow> lookup_result option"

record ns_world =
  nw_inflight :: "string list"
  nw_broadcasts :: "(string \<times> lookup_result) list"

definition group_lookup_of ::
    "env \<Rightarrow> upstream_env \<Rightarrow> dname \<Rightarrow> lookup_options \<Rightarrow> name_server list \<Rightarrow> lookup_result" where
  "group_lookup_of ev ue name options servers =
     group_lookup sv_is_fallback
       (\<lambda>ss. List.map (server_lookup ev (ue_send ue) name options) (ue_arrive ue ss)) servers"

definition ask_upstream ::
    "env \<Rightarrow> (ip_net \<Rightarrow> ip_addr \<Rightarrow> bool) \<Rightarrow> upstream_env \<Rightarrow> dns_context \<Rightarrow> request \<Rightarrow> name_server list \<Rightarrow> lookup_result" where
  "ask_upstream ev net_contains ue ctx req servers =
     (let name = q_name (rq_query req);
          t = q_type (rq_query req);
          options = lookup_options_of ctx req;
          ip_opts = lookup_ip_options_of ctx options;
          res =
            (if is_ip_addr t then
               lookup_ip (ue_schedule ue)
                 (per_nameserver_lookup_ip ev net_contains (server_lookup ev (ue_send ue) name options) name ip_opts)
                 ip_opts servers
             else pardon_soa ev name t (group_lookup_of ev ue name options servers))
      in case res of
           Inr r \<Rightarrow> Inr (r\<lparr>r_name_server_group := Some (server_group_name ctx)\<rparr>)
         | Inl e \<Rightarrow> Inl e)"

definition upstream_timeout :: lookup_error where
  "upstream_timeout = LE_Io ''upstream request timeout (5s)''"

definition leader_result ::
    "env \<Rightarrow> (ip_net \<Rightarrow> ip_addr \<Rightarrow> bool) \<Rightarrow> upstream_env \<Rightarrow> dns_context \<Rightarrow> request \<Rightarrow> name_server list \<Rightarrow> lookup_result" where
  "leader_result ev net_contains ue ctx req servers =
     (case (if ue_expired ue then Inl upstream_timeout else ask_upstream ev net_contains ue ctx req servers) of
        Inr r \<Rightarrow> Inr (limit_ttls ctx r)
      | Inl e \<Rightarrow> Inl e)"

definition nameserver_mw ::
    "env \<Rightarrow> (ip_net \<Rightarrow> ip_addr \<Rightarrow> bool) \<Rightarrow> hashers \<Rightarrow> (dname \<Rightarrow> string) \<Rightarrow> upstream_env \<Rightarrow> dns_client \<Rightarrow> ns_world handler" where
  "nameserver_mw ev net_contains hs show_name ue client ctx req w =
     (let name = q_name (rq_query req);
          t = q_type (rq_query req)
      in case (if is_ip_addr t then local_lookup ev (up_ip_store client) name t else None) of
           Some lookup \<Rightarrow> (Inr lookup, ctx\<lparr>cx_no_cache := True\<rparr>, w)
         | None \<Rightarrow>
             if unwrap_or (so_no_rule_nameserver (cx_server_opts ctx)) False then
               (group_lookup_of ev ue name (lookup_options_of ctx req) (up_default client), ctx, w)
             else
               (case choose_group ctx client name of
                  Inl e \<Rightarrow> (Inl e, ctx, w)
                | Inr servers \<Rightarrow>
                    (let ctx' = ctx\<lparr>cx_source := LF_Server (server_group_name ctx)\<rparr>;
                         key = inflight_key hs show_name ctx req servers
                     in if key \<in> set (nw_inflight w) then
                          (unwrap_or (ue_receive ue key) (Inl no_connections), ctx', w)
                        else
                          (let w1 = w\<lparr>nw_inflight := key # nw_inflight w\<rparr>;
                               res = leader_result ev net_contains ue ctx req servers;
                               w2 = w1\<lparr>nw_inflight := List.filter (\<lambda>k. k \<noteq> key) (nw_inflight w1),
                                       nw_broadcasts := (key, res) # nw_broadcasts w1\<rparr>
                           in (res, ctx', w2)))))"

text \<open>A leading query that is dropped before it has its result gives its key back and tells the waiting ones.\<close>

definition inflight_guard_drop :: "string \<Rightarrow> ns_world \<Rightarrow> ns_world" where
  "inflight_guard_drop key w =
     (if key \<in> set (nw_inflight w) then
        w\<lparr>nw_inflight := List.filter (\<lambda>k. k \<noteq> key) (nw_inflight w),
          nw_broadcasts := (key, Inl no_connections) # nw_broadcasts w\<rparr>
      else w)"

section \<open>Lemmas\<close>

lemma leader_result_Inr:
  assumes "leader_result ev net_contains ue ctx req servers = Inr r"
  obtains r0 where "ask_upstream ev net_contains ue ctx req servers = Inr r0" "r = limit_ttls ctx r0"
  using assms by (auto simp: leader_result_def split: sum.splits if_splits)

lemma data_limit_ttls: "r_ip_addrs (limit_ttls ctx r) = r_ip_addrs r"
  by (simp add: limit_ttls_def case_prod_unfold r_ip_addrs_def r_answers_def map_records_def Let_def
      clamp_record_ttl_def List.map_filter_def comp_def filter_map)

lemma r_ip_addrs_group [simp]: "r_ip_addrs (r\<lparr>r_name_server_group := g\<rparr>) = r_ip_addrs r"
  by (simp add: r_ip_addrs_def r_answers_def)

lemma colon_split:
  "c \<notin> set a \<Longrightarrow> c \<notin> set b \<Longrightarrow> a @ c # x = b @ c # y \<Longrightarrow> a = b \<and> x = y"
proof (induction a arbitrary: b)
  case Nil
  then show ?case by (cases b) auto
next
  case (Cons d a)
  then show ?case by (cases b) auto
qed

lemma colon_split_end:
  assumes "c \<notin> set x" "c \<notin> set y" "a @ c # x = b @ c # y"
  shows "a = b \<and> x = y"
proof -
  have "rev x @ c # rev a = rev y @ c # rev b" using arg_cong [OF assms(3), of rev] by simp
  from colon_split [OF _ _ this] assms(1,2) show ?thesis by simp
qed

lemma show_rtype_no_colon: "CHR '':'' \<notin> set (show_rtype t)"
  by (cases t) simp_all

lemma digit_char_no_colon: "d < 16 \<Longrightarrow> digit_char d \<noteq> CHR '':''"
  by (auto simp: digit_char_def dest: arg_cong [of _ _ "of_char :: char \<Rightarrow> nat"])

lemma show_hex_no_colon: "CHR '':'' \<notin> set (show_hex n)"
proof -
  have "CHR '':'' \<notin> set (digits_rev b n)" if "2 \<le> b" "b \<le> 16" for b
    using that
  proof (induction b n rule: digits_rev.induct)
    case (1 b n)
    have "n mod b < 16" using 1(2, 3) mod_less_divisor [of b n] by linarith
    then show ?case using 1 digit_char_no_colon by (subst digits_rev.simps) (auto dest!: digit_char_no_colon)
  qed
  then show ?thesis by (simp add: show_hex_def show_base_def)
qed

lemma show_rtype_inject:
  "show_rtype t = show_rtype t' \<Longrightarrow> t = t' \<or> (\<exists>u v. t = RT_Unknown u \<and> t' = RT_Unknown v)"
  by (cases t; cases t') simp_all

section \<open>Leading and waiting queries\<close>

text \<open>A query is asked of a group when the store of the upstream servers has no answer and the switch
  \<open>-no-rule-nameserver\<close> is not set.\<close>

definition asks_group ::
    "env \<Rightarrow> dns_client \<Rightarrow> dns_context \<Rightarrow> request \<Rightarrow> name_server list \<Rightarrow> bool" where
  "asks_group ev client ctx req servers \<longleftrightarrow>
     \<not> unwrap_or (so_no_rule_nameserver (cx_server_opts ctx)) False \<and>
     (is_ip_addr (q_type (rq_query req)) \<longrightarrow> local_lookup ev (up_ip_store client) (q_name (rq_query req)) (q_type (rq_query req)) = None) \<and>
     choose_group ctx client (q_name (rq_query req)) = Inr servers"

text \<open>It leads if no equal one is in flight. Later queries with its key that arrive while it runs wait for what it
  broadcasts.\<close>

definition waits_for ::
    "env \<Rightarrow> hashers \<Rightarrow> (dname \<Rightarrow> string) \<Rightarrow> upstream_env \<Rightarrow> dns_client \<Rightarrow> dns_context \<Rightarrow> request \<Rightarrow> ns_world \<Rightarrow> string \<Rightarrow> ns_world \<Rightarrow> bool" where
  "waits_for ev hs show_name ue client ctx req w key w_end \<longleftrightarrow>
     (\<exists>servers. asks_group ev client ctx req servers \<and> inflight_key hs show_name ctx req servers = key) \<and>
     key \<in> set (nw_inflight w) \<and> ue_receive ue key = map_of (nw_broadcasts w_end) key"

lemma nameserver_mw_asks:
  assumes "asks_group ev client ctx req servers"
  shows "nameserver_mw ev net_contains hs show_name ue client ctx req w =
    (let key = inflight_key hs show_name ctx req servers; ctx' = ctx\<lparr>cx_source := LF_Server (server_group_name ctx)\<rparr>;
         res = leader_result ev net_contains ue ctx req servers
     in if key \<in> set (nw_inflight w) then (unwrap_or (ue_receive ue key) (Inl no_connections), ctx', w)
        else (res, ctx', w\<lparr>nw_broadcasts := (key, res) # nw_broadcasts w\<rparr>))"
proof -
  have "List.filter (\<lambda>k. k \<noteq> key) ks = ks" if "key \<notin> set ks" for key :: string and ks
    using that by (induction ks) auto
  then show ?thesis using assms by (auto simp: nameserver_mw_def asks_group_def Let_def)
qed

lemma follower_gets_broadcast:
  assumes "waits_for ev hs show_name ue client ctx req w key w_end" "map_of (nw_broadcasts w_end) key = Some res"
  shows "fst (nameserver_mw ev net_contains hs show_name ue client ctx req w) = res"
  using assms by (auto simp: waits_for_def nameserver_mw_asks Let_def)

section \<open>Properties\<close>

text \<open>C30: When a query asks the servers of its group, the lifetimes of all records of the answer, in all three
  sections, are within the limits of the domain rule, the rule group and the global settings before anything else
  sees it: a fixed lifetime wins, the upper limit wins over a larger lower one. Equal queries that wait for it
  get the same answer. Under \<open>-no-rule-nameserver\<close> the code returns before this step, see
  \<open>unlimited_without_rules\<close>.\<close>

theorem upstream_ttls_limited:
  assumes "asks_group ev client ctx req servers" "inflight_key hs show_name ctx req servers \<notin> set (nw_inflight w)"
    and "nameserver_mw ev net_contains hs show_name ue client ctx req w = (Inr r, ctx', w')"
    and "ttl_limits ctx = (exact, lo, hi)"
  shows "(\<forall>x \<in> set (all_records r). case exact of Some t \<Rightarrow> rr_ttl x = t | None \<Rightarrow> min lo hi \<le> rr_ttl x \<and> rr_ttl x \<le> hi) \<and>
    (\<forall>ue2 ctx2 req2 w2. waits_for ev hs show_name ue2 client ctx2 req2 w2 (inflight_key hs show_name ctx req servers) w' \<longrightarrow>
       fst (nameserver_mw ev net_contains hs show_name ue2 client ctx2 req2 w2) = Inr r)"
proof -
  have lead: "leader_result ev net_contains ue ctx req servers = Inr r"
    "map_of (nw_broadcasts w') (inflight_key hs show_name ctx req servers) = Some (Inr r)"
    using nameserver_mw_asks [OF assms(1), of net_contains hs show_name ue w] assms(2,3) by (auto simp: Let_def)
  obtain r0 where "r = limit_ttls ctx r0" by (rule leader_result_Inr [OF lead(1)])
  then have "\<exists>x0. x = clamp_record_ttl exact lo hi x0" if "x \<in> set (all_records r)" for x
    using assms(4) that by (auto simp: limit_ttls_def all_records_map)
  moreover have "case exact of Some t \<Rightarrow> rr_ttl (clamp_record_ttl exact lo hi x0) = t
      | None \<Rightarrow> min lo hi \<le> rr_ttl (clamp_record_ttl exact lo hi x0) \<and> rr_ttl (clamp_record_ttl exact lo hi x0) \<le> hi" for x0
    using clamp_bounds [of lo hi "rr_ttl x0"] by (auto simp: clamp_record_ttl_def clamp_def split: option.split)
  ultimately show ?thesis using follower_gets_broadcast lead(2) by blast
qed

text \<open>C20: No unwanted address comes through. When an address query asks the servers of its group and no alias
  is configured, every address of the reply passes the filter of a server of this group, whatever the response
  mode, the order of the answers and the outcome of the probes, and also in the round of the fallback servers; and
  equal queries that wait for it get the same reply. Under \<open>-no-rule-nameserver\<close> no filter is applied, see
  \<open>unlimited_without_rules\<close>.\<close>

theorem forwarded_addresses_pass_filters:
  assumes "asks_group ev client ctx req servers" "inflight_key hs show_name ctx req servers \<notin> set (nw_inflight w)"
    and "nameserver_mw ev net_contains hs show_name ue client ctx req w = (Inr r, ctx', w')"
    and "is_ip_addr (q_type (rq_query req))" "cf_ip_alias (cx_cfg ctx) = []"
  shows "(\<forall>ip \<in> set (r_ip_addrs r). \<exists>s \<in> set servers.
       ip_filter net_contains (lookup_ip_options_of ctx (lookup_options_of ctx req)) s ip) \<and>
    (\<forall>ue2 ctx2 req2 w2. waits_for ev hs show_name ue2 client ctx2 req2 w2 (inflight_key hs show_name ctx req servers) w' \<longrightarrow>
       fst (nameserver_mw ev net_contains hs show_name ue2 client ctx2 req2 w2) = Inr r)"
proof -
  let ?name = "q_name (rq_query req)" and ?opts = "lookup_options_of ctx req"
  let ?ip_opts = "lookup_ip_options_of ctx ?opts"
  let ?ask = "per_nameserver_lookup_ip ev net_contains (server_lookup ev (ue_send ue) ?name ?opts) ?name ?ip_opts"
  have lead: "leader_result ev net_contains ue ctx req servers = Inr r"
    "map_of (nw_broadcasts w') (inflight_key hs show_name ctx req servers) = Some (Inr r)"
    using nameserver_mw_asks [OF assms(1), of net_contains hs show_name ue w] assms(2,3) by (auto simp: Let_def)
  obtain r0 where r0: "ask_upstream ev net_contains ue ctx req servers = Inr r0" "r = limit_ttls ctx r0"
    by (rule leader_result_Inr [OF lead(1)])
  then obtain r1 where r1: "lookup_ip (ue_schedule ue) ?ask ?ip_opts servers = Inr r1" "r_ip_addrs r0 = r_ip_addrs r1"
    using assms(4) by (auto simp: ask_upstream_def Let_def split: sum.splits)
  obtain s r2 where s2: "s \<in> set servers" "?ask s = Inr r2" "reply_from r2 r1"
    using lookup_ip_sound [OF r1(1)] by blast
  have "im_get net_contains (li_ip_alias ?ip_opts) a = None" for a
    using assms(5) by (simp add: lookup_ip_options_of_def Let_def im_get_def)
  then have "ip_filter net_contains ?ip_opts s ip" if "ip \<in> set (r_ip_addrs r2)" for ip
    using server_filter [OF s2(2)] that by auto
  moreover have "ip \<in> set (r_ip_addrs r2)" if "ip \<in> set (r_ip_addrs r)" for ip
    using that r0(2) r1(2) s2(3) by (auto simp: data_limit_ttls reply_from_def r_ip_addrs_retain)
  ultimately show ?thesis using s2(1) follower_gets_broadcast lead(2) by blast
qed

text \<open>With \<open>-no-rule-nameserver\<close> a query is not only sent to the default servers instead of those of its rule: what
  they answer is returned as it is, past the address filters, the aliases and the limits of lifetimes.\<close>

theorem unlimited_without_rules:
  assumes "unwrap_or (so_no_rule_nameserver (cx_server_opts ctx)) False"
    and "is_ip_addr (q_type (rq_query req)) \<longrightarrow> local_lookup ev (up_ip_store client) (q_name (rq_query req)) (q_type (rq_query req)) = None"
  shows "nameserver_mw ev net_contains hs show_name ue client ctx req w =
    (group_lookup_of ev ue (q_name (rq_query req)) (lookup_options_of ctx req) (up_default client), ctx, w)"
  using assms by (auto simp: nameserver_mw_def Let_def)

text \<open>The subnet a server is told with an address query comes from the client's own request, else from the
  domain rule, else from the rule group, else from the server's configuration.\<close>

theorem subnet_priority:
  assumes "is_ip_addr (q_type (rq_query req))"
  shows "Option.bind (m_edns (request_message rid (q_name (rq_query req)) (lookup_options_of ctx req) s)) ed_subnet =
    or_else (Option.bind (m_edns (rq_message req)) ed_subnet)
      (or_else (rule_get dr_subnet ctx)
        (or_else (map_option (\<lambda>net. \<lparr>cs_address = net_addr net, cs_source_prefix = of_nat (net_prefix net), cs_scope_prefix = 0\<rparr>)
                    (cx_edns_client_subnet ctx))
          (sv_client_subnet s)))"
proof -
  have t: "q_type (rq_query req) = RT_A \<or> q_type (rq_query req) = RT_AAAA"
    using assms by (auto simp: is_ip_addr_def)
  have b: "(case e of Some e \<Rightarrow> ed_subnet e | None \<Rightarrow> None) = Option.bind e ed_subnet" for e :: "edns option"
    by (cases e) simp_all
  have m: "m_edns (message_query rid) = None" by (simp add: message_query_def message_new_def)
  have "Option.bind (m_edns (request_message rid (q_name (rq_query req)) (lookup_options_of ctx req) s)) ed_subnet =
      or_else (lo_client_subnet (lookup_options_of ctx req)) (sv_client_subnet s)"
    using t by (auto simp: request_message_def build_message_def Let_def lookup_options_of_def query_query_def m
        m_add_query_def edns_new_def EDNS_OPTION_TCP_KEEPALIVE_def ed_insert_def ed_subnet_def ed_option_def
        split: option.splits if_splits)
  then show ?thesis by (simp add: lookup_options_of_def b or_else_assoc)
qed

text \<open>The key under which queries are folded keeps apart what it is made of: as long as names and groups
  have no colon, two queries with the same key agree in the text of the name, the record type, both groups,
  the subnet and the hash of the options; only record types the program does not know are the same to it.\<close>

theorem inflight_key_separates:
  assumes "build_inflight_key n t g e p r = build_inflight_key n' t' g' e' p' r'"
    and "CHR '':'' \<notin> set (n @ g @ r @ n' @ g' @ r')"
  shows "n = n' \<and> g = g' \<and> e = e' \<and> p = p' \<and> r = r' \<and> (t = t' \<or> (\<exists>u v. t = RT_Unknown u \<and> t' = RT_Unknown v))"
proof -
  have c: "''::'' = [CHR '':'', CHR '':'']" "'':'' = [CHR '':'']" by simp_all
  have 1: "n = n' \<and> show_rtype t @ '':'' @ g @ '':'' @ e @ '':'' @ r @ '':'' @ show_hex (unat p) =
      show_rtype t' @ '':'' @ g' @ '':'' @ e' @ '':'' @ r' @ '':'' @ show_hex (unat p')"
    using assms by (intro colon_split) (auto simp: build_inflight_key_def)
  then have 2: "show_rtype t = show_rtype t' \<and> g @ '':'' @ e @ '':'' @ r @ '':'' @ show_hex (unat p) =
      g' @ '':'' @ e' @ '':'' @ r' @ '':'' @ show_hex (unat p')"
    by (intro colon_split [where c = "CHR '':''"] show_rtype_no_colon) simp
  then have 3: "g = g' \<and> e @ '':'' @ r @ '':'' @ show_hex (unat p) = e' @ '':'' @ r' @ '':'' @ show_hex (unat p')"
    using assms(2) by (intro colon_split [where c = "CHR '':''"]) auto
  then have 4: "e @ '':'' @ r = e' @ '':'' @ r' \<and> show_hex (unat p) = show_hex (unat p')"
    by (intro colon_split_end [where c = "CHR '':''"] show_hex_no_colon) simp
  then have 5: "e = e' \<and> r = r'"
    using assms(2) by (intro colon_split_end [where c = "CHR '':''"]) auto
  have "unat p = unat p'" using 4 show_base_inj [of 16] by (auto simp: show_hex_def)
  then show ?thesis using 1 2 3 5 show_rtype_inject by (auto simp: word_unat_eq_iff)
qed

text \<open>C28: The key does not know the whole question: all record types without a name of their own have the
  text Unknown in it, and the class is not in it at all. Such a query waits for the answer to another
  question that is in flight for the same name, and gets it.\<close>

theorem answer_of_another_question:
  assumes "q_type (rq_query req1) = RT_Unknown u" "q_type (rq_query req2) = RT_Unknown v"
    and "q_name (rq_query req1) = q_name (rq_query req2)" "m_edns (rq_message req1) = m_edns (rq_message req2)"
    and "\<not> unwrap_or (so_no_rule_nameserver (cx_server_opts ctx)) False"
    and "choose_group ctx client (q_name (rq_query req2)) = Inr servers"
    and "inflight_key hs show_name ctx req1 servers \<in> set (nw_inflight w)"
    and "ue_receive ue (inflight_key hs show_name ctx req1 servers) = Some res"
  shows "fst (nameserver_mw ev net_contains hs show_name ue client ctx req2 w) = res"
proof -
  have "inflight_key hs show_name ctx req2 servers = inflight_key hs show_name ctx req1 servers"
    using assms(1-4) by (simp add: inflight_key_def Let_def lookup_options_of_def is_ip_addr_def build_inflight_key_def)
  then show ?thesis using assms by (simp add: nameserver_mw_def Let_def is_ip_addr_def)
qed

text \<open>The order of a group's servers, which comes from a hash set, does not matter for the key.\<close>

theorem fold_filter_order_independent:
  assumes "mset servers = mset servers'"
  shows "fold_nameserver_filter hash servers = fold_nameserver_filter hash servers'"
proof -
  let ?f = "\<lambda>s. (sv_blacklist_ip s, sv_whitelist_ip s)"
  have inj: "inj switch_rank" by (rule injI) (auto simp: switch_rank_def split: if_splits)
  have "mset (List.map ?f servers) = mset (List.map ?f servers')" using assms by simp
  then have "sort_key switch_rank (List.map ?f servers) = sort_key switch_rank (List.map ?f servers')"
    by (intro sort_key_inj_key_eq) (auto intro: inj_on_subset [OF inj])
  then show ?thesis by (simp add: fold_nameserver_filter_def)
qed

section \<open>Witnesses\<close>

text \<open>One server with the black list on, which sends the addresses 9, on the list, and 1.\<close>

definition demo_upstream :: upstream_env where
  "demo_upstream =
     \<lparr>ue_send = (\<lambda>s m. \<lparr>no_main = Inr (r_message (demo_addresses [9, 1])), no_tcp_first = None, no_tcp_retry = None\<rparr>),
      ue_arrive = id, ue_schedule = (\<lambda>ss. demo_schedule []), ue_expired = False,
      ue_receive = (\<lambda>k. Some (Inr demo_nodata))\<rparr>"

definition demo_client :: dns_client where
  "demo_client = \<lparr>up_default = [demo_server ''a'' False], up_servers = [], up_ip_store = []\<rparr>"

definition demo_ns_ctx :: dns_context where
  "demo_ns_ctx =
     \<lparr>cx_cfg = rt_config_default\<lparr>cf_blacklist_ip := [(\<lparr>net_addr = IpV4 9, net_prefix = 32\<rparr>, ())], cf_rr_ttl_max := Some 50\<rparr>,
      cx_server_opts = server_opts_default\<lparr>so_no_speed_check := Some True\<rparr>, cx_domain_rule = None, cx_fastest_speed = 0,
      cx_source = LF_None, cx_no_cache = False, cx_extra_cache_records = []\<rparr>"

definition demo_hashers :: hashers where
  "demo_hashers = \<lparr>hs_switches = (\<lambda>_. 0), hs_proc = (\<lambda>_ _. 0)\<rparr>"

abbreviation demo_ev :: env where
  "demo_ev \<equiv> \<lparr>ev_now = 0, ev_rid = 7, ev_build = 0\<rparr>"

abbreviation demo_contains :: "ip_net \<Rightarrow> ip_addr \<Rightarrow> bool" where
  "demo_contains net ip \<equiv> net_addr net = ip"

abbreviation demo_question :: "rtype \<Rightarrow> request" where
  "demo_question t \<equiv> request_of_query 7 (query_query name_root t)"

lemmas demo_context_defs =
  demo_ns_ctx_def rt_config_default_def server_opts_default_def server_group_name_def rule_get_def opt_get_def
  effective_rule_group_def

lemma lower_default: "lower_str ''default'' = ''default''"
  by code_simp

lemma demo_group: "choose_group demo_ns_ctx demo_client name_root = Inr [demo_server ''a'' False]"
  by (simp add: choose_group_def demo_client_def get_server_group_def lower_default mdns_lookup_def demo_context_defs Let_def)

lemma demo_limits: "ttl_limits demo_ns_ctx = (None, 0, 50)"
  by (simp add: ttl_limits_def cx_rr_ttl_def cx_rr_ttl_min_def cx_rr_ttl_max_def rr_ttl_in_group_def rr_ttl_min_in_group_def
      rr_ttl_max_in_group_def g_rr_ttl_min_def g_rr_ttl_max_def group_params_def the_rule_group_def
      rule_group_empty_def group_params_default_def demo_context_defs)

lemma demo_run:
  obtains r w' where "nameserver_mw demo_ev demo_contains demo_hashers to_ascii demo_upstream demo_client demo_ns_ctx
      (demo_question RT_A) \<lparr>nw_inflight = [], nw_broadcasts = []\<rparr> = (Inr r, demo_ns_ctx\<lparr>cx_source := LF_Server ''default''\<rparr>, w')"
    "nw_broadcasts w' \<noteq> []" "r_ip_addrs r = [IpV4 1]" "rr_ttl (hd (r_answers r)) = 50"
proof -
  let ?s = "demo_server ''a'' False" and ?req = "demo_question RT_A"
  define opts where "opts = lookup_options_of demo_ns_ctx ?req"
  define ip_opts where "ip_opts = lookup_ip_options_of demo_ns_ctx opts"
  define ask where "ask = per_nameserver_lookup_ip demo_ev demo_contains
    (server_lookup demo_ev (ue_send demo_upstream) name_root opts) name_root ip_opts"
  define R where "R = rewrite_lookup 0 (ip_filter demo_contains ip_opts ?s) (im_get demo_contains (li_ip_alias ip_opts)) RT_A
    (response_of_message 0 (r_message (demo_addresses [9, 1])))"
  have q: "q_name (rq_query ?req) = name_root" "q_type (rq_query ?req) = RT_A"
    by (simp_all add: request_of_query_def query_query_def)
  have t: "lo_record_type opts = RT_A" "li_lookup_options ip_opts = opts"
    by (simp_all add: opts_def ip_opts_def lookup_options_of_def lookup_ip_options_of_def q Let_def)
  have m: "h_truncation (m_header (r_message (demo_addresses [9, 1]))) = False"
    "m_answers (r_message (demo_addresses [9, 1])) = List.map (\<lambda>a. from_rdata name_root 60 (RD_A a)) [9, 1]"
    "h_response_code (m_header (r_message (demo_addresses [9, 1]))) = RC_NoError"
    by (simp_all add: demo_addresses_def demo_reply_def Let_def)
  have l: "server_lookup demo_ev (ue_send demo_upstream) name_root opts ?s =
      Inr (response_of_message 0 (r_message (demo_addresses [9, 1])))"
    by (simp add: server_lookup_def demo_upstream_def ns_lookup_def m)
  have sv: "sv_blacklist_ip ?s" "\<not> sv_whitelist_ip ?s" "\<not> sv_is_fallback ?s" by (simp_all add: demo_server_def)
  have ask: "ask ?s = Inr R"
    using sv by (simp add: ask_def per_nameserver_lookup_ip_def t l pardon_soa_def is_ip_addr_def R_def)
  have lists: "li_blacklist_ip ip_opts = [(\<lparr>net_addr = IpV4 9, net_prefix = 32\<rparr>, ())]" "li_ignore_ip ip_opts = []"
    "li_ip_alias ip_opts = []" "li_no_speed_check ip_opts = True"
    by (simp_all add: ip_opts_def lookup_ip_options_of_def Let_def demo_context_defs)
  have a: "r_answers R = [from_rdata name_root 60 (RD_A 1)]" "r_code R = RC_NoError"
    by (simp_all add: R_def rewrite_lookup_def r_answers_def response_of_message_def m ip_filter_def im_contains_def
        im_get_def lists sv from_rdata_def r_set_valid_until_def set_answers_def r_code_def
        m_response_code_def Let_def)
  have "lookup_ip (ue_schedule demo_upstream) ask ip_opts [?s] = Inr R"
    using a by (simp add: lookup_ip_def lookup_ip_with_def sv t is_ip_addr_def
        choose_answer_def strategy_of_def lists fastest_response.simps [of "[_]"] next_task_def Let_def
        ask demo_upstream_def demo_schedule_def)
  then have up: "ask_upstream demo_ev demo_contains demo_upstream demo_ns_ctx ?req [?s] =
      Inr (R\<lparr>r_name_server_group := Some (server_group_name demo_ns_ctx)\<rparr>)"
    unfolding ask_upstream_def Let_def q opts_def [symmetric] ip_opts_def [symmetric] ask_def [symmetric]
    by (simp add: is_ip_addr_def)
  define r where "r = limit_ttls demo_ns_ctx (R\<lparr>r_name_server_group := Some (server_group_name demo_ns_ctx)\<rparr>)"
  have lead: "leader_result demo_ev demo_contains demo_upstream demo_ns_ctx ?req [?s] = Inr r"
    by (simp add: leader_result_def up r_def) (simp add: demo_upstream_def)
  have g: "server_group_name demo_ns_ctx = ''default''" "unwrap_or (so_no_rule_nameserver (cx_server_opts demo_ns_ctx)) False = False"
    by (simp_all add: demo_context_defs)
  have "local_lookup demo_ev (up_ip_store demo_client) name_root RT_A = None"
    by (simp add: local_lookup_def store_get_def demo_client_def)
  then have run: "nameserver_mw demo_ev demo_contains demo_hashers to_ascii demo_upstream demo_client demo_ns_ctx ?req
      \<lparr>nw_inflight = [], nw_broadcasts = []\<rparr> = (Inr r, demo_ns_ctx\<lparr>cx_source := LF_Server ''default''\<rparr>,
      \<lparr>nw_inflight = [], nw_broadcasts = [(inflight_key demo_hashers to_ascii demo_ns_ctx ?req [?s], Inr r)]\<rparr>)"
    by (simp add: nameserver_mw_def q demo_group lead g Let_def is_ip_addr_def)
  have "r_ip_addrs R = [IpV4 1]" using a by (simp add: r_ip_addrs_def from_rdata_def map_filter_simps)
  then have "r_ip_addrs r = [IpV4 1]" by (simp add: r_def data_limit_ttls)
  moreover have "rr_ttl (hd (r_answers r)) = 50"
    using a by (simp add: r_def limit_ttls_def demo_limits map_records_def r_answers_def Let_def clamp_record_ttl_def
        clamp_def from_rdata_def)
  ultimately show ?thesis using that [OF run] by simp
qed

lemma demo_asks: "asks_group demo_ev demo_client demo_ns_ctx (demo_question RT_A) [demo_server ''a'' False]"
  by (simp add: asks_group_def request_of_query_def query_query_def demo_group)
    (simp add: demo_context_defs local_lookup_def store_get_def demo_client_def)

theorem upstream_ttls_limited_witness:
  "\<exists>r ctx' w'. nameserver_mw demo_ev demo_contains demo_hashers to_ascii demo_upstream demo_client demo_ns_ctx (demo_question RT_A)
      \<lparr>nw_inflight = [], nw_broadcasts = []\<rparr> = (Inr r, ctx', w') \<and> r_answers r \<noteq> [] \<and> rr_ttl (hd (r_answers r)) \<le> 50"
proof -
  obtain r w' where r: "nameserver_mw demo_ev demo_contains demo_hashers to_ascii demo_upstream demo_client demo_ns_ctx
      (demo_question RT_A) \<lparr>nw_inflight = [], nw_broadcasts = []\<rparr> = (Inr r, demo_ns_ctx\<lparr>cx_source := LF_Server ''default''\<rparr>, w')"
    "nw_broadcasts w' \<noteq> []" "r_ip_addrs r = [IpV4 1]" by (rule demo_run)
  have "hd (r_answers r) \<in> set (all_records r)" "r_answers r \<noteq> []"
    using r(3) by (cases "r_answers r"; simp add: r_ip_addrs_def all_records_def r_answers_def map_filter_simps)+
  then show ?thesis using upstream_ttls_limited [OF demo_asks _ r(1) demo_limits] r by auto
qed

theorem forwarded_addresses_pass_filters_witness:
  "ip_filter demo_contains (lookup_ip_options_of demo_ns_ctx (lookup_options_of demo_ns_ctx (demo_question RT_A)))
     (demo_server ''a'' False) (IpV4 1)"
proof -
  obtain r w' where r: "nameserver_mw demo_ev demo_contains demo_hashers to_ascii demo_upstream demo_client demo_ns_ctx
      (demo_question RT_A) \<lparr>nw_inflight = [], nw_broadcasts = []\<rparr> = (Inr r, demo_ns_ctx\<lparr>cx_source := LF_Server ''default''\<rparr>, w')"
    "nw_broadcasts w' \<noteq> []" "r_ip_addrs r = [IpV4 1]" by (rule demo_run)
  have "is_ip_addr (q_type (rq_query (demo_question RT_A)))" "cf_ip_alias (cx_cfg demo_ns_ctx) = []"
    by (simp_all add: request_of_query_def query_query_def is_ip_addr_def demo_context_defs)
  from conjunct1 [OF forwarded_addresses_pass_filters [OF demo_asks _ r(1) this]] r(3) show ?thesis by simp
qed

theorem subnet_priority_witness:
  "Option.bind (m_edns (request_message 7 name_root (lookup_options_of demo_ns_ctx (demo_question RT_AAAA))
      ((demo_server ''a'' False)\<lparr>sv_client_subnet := Some \<lparr>cs_address = IpV4 5, cs_source_prefix = 24, cs_scope_prefix = 0\<rparr>\<rparr>))) ed_subnet =
    Some \<lparr>cs_address = IpV4 5, cs_source_prefix = 24, cs_scope_prefix = 0\<rparr>"
proof -
  have q: "q_name (rq_query (demo_question RT_AAAA)) = name_root" "q_type (rq_query (demo_question RT_AAAA)) = RT_AAAA"
    "m_edns (rq_message (demo_question RT_AAAA)) = None"
    by (simp_all add: request_of_query_def query_query_def m_add_query_def message_query_def message_new_def Let_def)
  have "rule_get dr_subnet demo_ns_ctx = None" "cx_edns_client_subnet demo_ns_ctx = None"
    by (simp_all add: demo_context_defs cx_edns_client_subnet_def edns_client_subnet_in_group_def group_params_def
        the_rule_group_def rule_group_empty_def group_params_default_def)
  then show ?thesis
    using subnet_priority [of "demo_question RT_AAAA" 7 demo_ns_ctx
        "(demo_server ''a'' False)\<lparr>sv_client_subnet := Some \<lparr>cs_address = IpV4 5, cs_source_prefix = 24, cs_scope_prefix = 0\<rparr>\<rparr>"]
    by (simp add: q is_ip_addr_def)
qed

theorem inflight_key_separates_witness:
  "build_inflight_key ''a.'' RT_A ''g'' ''1::/32'' 255 [] = build_inflight_key ''a.'' RT_A ''g'' ''1::/32'' 0xFF [] \<and>
   RT_A = RT_A"
  using inflight_key_separates [of "''a.''" RT_A "''g''" "''1::/32''" 255 "[]" "''a.''" RT_A "''g''" "''1::/32''" 255 "[]"]
  by simp

text \<open>A question for TYPE99 is answered with the empty answer to the question for TYPE29.\<close>

theorem answer_of_another_question_witness:
  "fst (nameserver_mw demo_ev demo_contains demo_hashers to_ascii demo_upstream demo_client demo_ns_ctx
     (demo_question (RT_Unknown 99))
     \<lparr>nw_inflight = [inflight_key demo_hashers to_ascii demo_ns_ctx (demo_question (RT_Unknown 29)) [demo_server ''a'' False]],
      nw_broadcasts = []\<rparr>) = Inr demo_nodata"
  by (rule answer_of_another_question [where servers = "[demo_server ''a'' False]" and ?req1.0 = "demo_question (RT_Unknown 29)"
        and u = 29 and v = 99])
    (simp_all add: request_of_query_def query_query_def demo_group demo_upstream_def m_add_query_def message_query_def
      message_new_def Let_def, simp add: demo_context_defs)

theorem fold_filter_order_independent_witness:
  "fold_nameserver_filter (\<lambda>xs. of_nat (length xs)) [demo_server ''a'' False, demo_server ''b'' True] =
   fold_nameserver_filter (\<lambda>xs. of_nat (length xs)) [demo_server ''b'' True, demo_server ''a'' False]"
  by (rule fold_filter_order_independent) simp

end
