(* ===== verification/Mw_Dualstack.thy ===== *)
theory Mw_Dualstack
  imports Mw_Dns64 Ping_Race
begin

text \<open>
  The dual-stack selection (\<open>dns_mw_dualstack.rs\<close>): a query for one address family is answered together
  with the query for the other family, a race of probes decides whether one family is to be withheld, the
  lifetimes of both answers are aligned, and the other answer is handed to the cache. The order in which the
  two queries run, what the probes of a list of destinations yield and when, and how a tie of two events
  falls, are arguments.
\<close>

section \<open>The race of the families\<close>

text \<open>A probe ends at a time, in nanoseconds after its start, with an address and its latency or without.\<close>

record race_env =
  re_probe :: "ping_addr list \<Rightarrow> (ping_addr \<times> nat) option \<times> nat"
  re_tie :: "speed_mode \<Rightarrow> bool"

definition PROBE_DEADLINE :: nat where
  "PROBE_DEADLINE = 600 * 1000000"

definition single_mode_ping_fastest ::
    "race_env \<Rightarrow> ip_addr list \<Rightarrow> speed_mode \<Rightarrow> (ip_addr \<times> nat) option \<times> nat" where
  "single_mode_ping_fastest re ip_addrs mode =
     (if ip_addrs = [] then (None, 0)
      else
        (let dests = to_ping_addrs mode ip_addrs in
         if dests = [] then (None, 0)
         else
           (case re_probe re dests of
              (res, t) \<Rightarrow>
                if t \<le> PROBE_DEADLINE then (map_option (\<lambda>(d, l). (ping_ip d, l)) res, t)
                else (None, PROBE_DEADLINE))))"

text \<open>One mode: the first of the two to end wins unless the other one ends well within the grace period; when
  the first one fails the other decides; when both fail the next mode is tried.\<close>

definition faster_in_mode ::
    "bool \<Rightarrow> nat \<Rightarrow> (ip_addr \<times> nat) option \<times> nat \<Rightarrow> (ip_addr \<times> nat) option \<times> nat \<Rightarrow> bool option option" where
  "faster_in_mode tie threshold aaaa a =
     (let is_aaaa_first = (snd aaaa < snd a \<or> snd aaaa = snd a \<and> tie);
          (first, second) = (if is_aaaa_first then (aaaa, a) else (a, aaaa))
      in if fst first \<noteq> None then
           (let grace_end = snd first + threshold;
                in_time = (snd second < grace_end \<or> snd second = grace_end \<and> tie)
            in if in_time \<and> fst second \<noteq> None then Some None else Some (Some is_aaaa_first))
         else if fst second \<noteq> None then Some (Some (\<not> is_aaaa_first))
         else None)"

fun which_faster ::
    "race_env \<Rightarrow> ip_addr list \<Rightarrow> ip_addr list \<Rightarrow> nat \<Rightarrow> speed_mode list \<Rightarrow> bool option" where
  "which_faster re aaaa_ips a_ips threshold [] = None"
| "which_faster re aaaa_ips a_ips threshold (mode # modes) =
     (case faster_in_mode (re_tie re mode) threshold
             (single_mode_ping_fastest re aaaa_ips mode) (single_mode_ping_fastest re a_ips mode) of
        Some r \<Rightarrow> r
      | None \<Rightarrow> which_faster re aaaa_ips a_ips threshold modes)"

section \<open>The answers\<close>

definition aligned_ttl_for :: "dns_response \<Rightarrow> dns_response \<Rightarrow> u32 \<Rightarrow> u32" where
  "aligned_ttl_for aaaa_resp a_resp cfg_min_ttl =
     (case (r_min_ttl aaaa_resp, r_min_ttl a_resp) of
        (Some t1, Some t2) \<Rightarrow> min t1 t2
      | (Some t, None) \<Rightarrow> t
      | (None, Some t) \<Rightarrow> t
      | (None, None) \<Rightarrow> cfg_min_ttl)"

definition should_skip_speed_race :: "bool \<Rightarrow> speed_mode list \<Rightarrow> bool" where
  "should_skip_speed_race no_speed_check modes \<longleftrightarrow> no_speed_check \<or> list_ex (\<lambda>m. m = SM_None) modes"

definition should_bypass_for_force_aaaa_soa :: "rtype \<Rightarrow> bool \<Rightarrow> bool" where
  "should_bypass_for_force_aaaa_soa t force_soa \<longleftrightarrow> force_soa \<and> t = RT_AAAA"

definition take_answers :: "dns_response \<Rightarrow> dns_response" where
  "take_answers r = r\<lparr>r_message := (r_message r)\<lparr>m_answers := []\<rparr>\<rparr>"

definition process_resp :: "env \<Rightarrow> bool \<Rightarrow> u32 \<Rightarrow> dns_response \<Rightarrow> dns_response" where
  "process_resp ev blocked ttl resp =
     (let r1 = r_set_new_ttl ttl (if blocked then take_answers resp else resp);
          has_soa = list_ex (\<lambda>x. rr_type x = RT_SOA) (all_records r1);
          is_empty = (all_records r1 = [])
      in if \<not> has_soa \<and> (blocked \<or> is_empty) then
           r_add_authority (forge_soa_record (ev_build ev) (q_name (r_query r1)) ttl) (take_answers r1)
         else r1)"

text \<open>The answer that stands for a family whose query failed.\<close>

definition placeholder :: "env \<Rightarrow> query \<Rightarrow> dns_response" where
  "placeholder ev q =
     (let r = response_empty (ev_rid ev) (ev_now ev) in r\<lparr>r_message := m_add_query q (r_message r)\<rparr>)"

fun other_family :: "rtype \<Rightarrow> rtype" where
  "other_family RT_A = RT_AAAA"
| "other_family RT_AAAA = RT_A"
| "other_family t = t"

definition has_addresses :: "dns_response \<Rightarrow> bool" where
  "has_addresses r \<longleftrightarrow> list_ex (\<lambda>x. is_ip_addr (rr_type x)) (r_answers r)"

definition both_answers ::
    "env \<Rightarrow> query \<Rightarrow> query \<Rightarrow> (dns_response, lookup_error) result \<Rightarrow> (dns_response, lookup_error) result \<Rightarrow>
     (dns_response \<times> dns_response, lookup_error) result" where
  "both_answers ev this_q that_q this_res that_res =
     (case this_res of
        Inr this \<Rightarrow>
          (case that_res of
             Inr that \<Rightarrow> Inr (this, that)
           | Inl e \<Rightarrow> Inr (this, placeholder ev that_q))
      | Inl e \<Rightarrow>
          (case that_res of
             Inr that \<Rightarrow> if has_addresses that then Inr (placeholder ev this_q, that) else Inl e
           | Inl e' \<Rightarrow> Inl e))"

section \<open>The handler\<close>

definition dualstack_enabled :: "dns_context \<Rightarrow> bool" where
  "dualstack_enabled ctx \<longleftrightarrow>
     \<not> unwrap_or (so_no_dualstack_selection (cx_server_opts ctx)) False \<and>
     resolve_dualstack_selection
       (map_option (\<lambda>_. rule_get dr_dualstack_ip_selection ctx) (cx_domain_rule ctx))
       (gp_dualstack_ip_selection (group_params (cx_cfg ctx) (effective_rule_group ctx)))
       (cf_dualstack_ip_selection (cx_cfg ctx))"

definition speed_modes_of :: "dns_context \<Rightarrow> speed_mode list" where
  "speed_modes_of ctx = resolve_speed_check_mode (rule_get dr_speed_check_mode ctx) (cx_speed_check_mode ctx)"

definition floor_ttl :: "dns_context \<Rightarrow> u32" where
  "floor_ttl ctx =
     unwrap_or (map_option ucast (rule_get dr_rr_ttl_min ctx)) (ucast (unwrap_or (cx_rr_ttl_min ctx) 60))"

text \<open>Which families are withheld: first that of AAAA, then that of A.\<close>

definition blocked_families :: "race_env \<Rightarrow> dns_context \<Rightarrow> dns_response \<Rightarrow> dns_response \<Rightarrow> bool \<times> bool" where
  "blocked_families re ctx aaaa_resp a_resp =
     (let modes = speed_modes_of ctx in
      if dualstack_enabled ctx \<and>
         \<not> should_skip_speed_race (unwrap_or (so_no_speed_check (cx_server_opts ctx)) False) modes
      then
        (case which_faster re (r_ip_addrs aaaa_resp) (r_ip_addrs a_resp)
                (unat (cx_dualstack_ip_selection_threshold ctx) * 1000000) modes of
           Some False \<Rightarrow> (True, False)
         | Some True \<Rightarrow> (False, cx_dualstack_ip_allow_force_aaaa ctx)
         | None \<Rightarrow> (False, False))
      else (False, False))"

definition select_families ::
    "env \<Rightarrow> (dns_response \<Rightarrow> dns_response \<Rightarrow> bool \<times> bool) \<Rightarrow> u32 \<Rightarrow> rtype \<Rightarrow> dns_response \<Rightarrow> dns_response \<Rightarrow>
     dns_response \<times> dns_response" where
  "select_families ev blocked cfg_min_ttl t this_resp that_resp =
     (let (aaaa_resp, a_resp) = (if t = RT_AAAA then (this_resp, that_resp) else (that_resp, this_resp));
          final_ttl = aligned_ttl_for aaaa_resp a_resp cfg_min_ttl;
          (aaaa_blocked, a_blocked) = blocked aaaa_resp a_resp;
          (this_blocked, that_blocked) = (if t = RT_AAAA then (aaaa_blocked, a_blocked) else (a_blocked, aaaa_blocked));
          mark = (\<lambda>r. if aaaa_blocked then set_aaaa_suppressed True r else r)
      in (mark (process_resp ev this_blocked final_ttl this_resp),
          mark (process_resp ev that_blocked final_ttl that_resp)))"

text \<open>The two runs of the rest of the chain; \<open>that_first\<close> says which one the shared state sees first.\<close>

definition run_both ::
    "bool \<Rightarrow> 'w handler \<Rightarrow> dns_context \<Rightarrow> request \<Rightarrow> request \<Rightarrow> 'w \<Rightarrow>
     (dns_response, lookup_error) result \<times> (dns_response, lookup_error) result \<times> dns_context \<times> 'w" where
  "run_both that_first run_next ctx req that_req w =
     (if that_first then
        (case run_next ctx that_req w of
           (that_res, _, w1) \<Rightarrow> (case run_next ctx req w1 of (this_res, ctx1, w2) \<Rightarrow> (this_res, that_res, ctx1, w2)))
      else
        (case run_next ctx req w of
           (this_res, ctx1, w1) \<Rightarrow> (case run_next ctx that_req w1 of (that_res, _, w2) \<Rightarrow> (this_res, that_res, ctx1, w2))))"

definition dualstack_mw :: "env \<Rightarrow> race_env \<Rightarrow> bool \<Rightarrow> 'w middleware" where
  "dualstack_mw ev re that_first run_next ctx req w =
     (let t = q_type (rq_query req) in
      if \<not> is_ip_addr t then run_next ctx req w
      else if should_bypass_for_force_aaaa_soa t (cx_force_aaaa_soa ctx) then run_next ctx req w
      else
        (let that_req = rq_set_query_type (other_family t) req in
         case run_both that_first run_next ctx req that_req w of
           (this_res, that_res, ctx1, w1) \<Rightarrow>
             (case both_answers ev (rq_query req) (rq_query that_req) this_res that_res of
                Inl e \<Rightarrow> (Inl e, ctx1, w1)
              | Inr (this_resp, that_resp) \<Rightarrow>
                  (let (this', that') =
                       select_families ev (blocked_families re ctx) (floor_ttl ctx1) t this_resp that_resp in
                   (Inr this',
                    ctx1\<lparr>cx_extra_cache_records := cx_extra_cache_records ctx1 @ [(r_query that', that')]\<rparr>,
                    w1)))))"

section \<open>Lemmas\<close>

lemma probe_names_nothing [simp]: "single_mode_ping_fastest re [] mode = (None, 0)"
  by (simp add: single_mode_ping_fastest_def)

lemma faster_in_mode_Some:
  "faster_in_mode tie threshold aaaa a = Some (Some b) \<Longrightarrow> fst (if b then aaaa else a) \<noteq> None"
  by (auto simp: faster_in_mode_def Let_def split: if_splits)

lemma which_faster_Some:
  "which_faster re aaaa_ips a_ips threshold modes = Some b \<Longrightarrow>
   \<exists>m \<in> set modes. fst (single_mode_ping_fastest re (if b then aaaa_ips else a_ips) m) \<noteq> None"
proof (induction modes)
  case (Cons m ms)
  then show ?case
    by (cases "faster_in_mode (re_tie re m) threshold (single_mode_ping_fastest re aaaa_ips m) (single_mode_ping_fastest re a_ips m)")
      (auto dest: faster_in_mode_Some)
qed simp

lemma which_faster_one_family:
  assumes "fst (single_mode_ping_fastest re a_ips m) \<noteq> None"
  shows "which_faster re [] a_ips threshold (m # ms) = Some False"
  using assms by (cases "single_mode_ping_fastest re a_ips m") (auto simp: faster_in_mode_def Let_def)

lemma take_answers_sections [simp]:
  "r_answers (take_answers r) = []" "m_authorities (r_message (take_answers r)) = m_authorities (r_message r)"
  "m_additionals (r_message (take_answers r)) = m_additionals (r_message r)"
  "r_query (take_answers r) = r_query r" "m_header (r_message (take_answers r)) = m_header (r_message r)"
  by (simp_all add: take_answers_def r_answers_def r_query_def)

lemma add_authority_data:
  "r_answers (r_add_authority x r) = r_answers r" "r_query (r_add_authority x r) = r_query r"
  "m_response_code (r_message (r_add_authority x r)) = m_response_code (r_message r)"
  "all_records (r_add_authority x r) = r_answers r @ m_authorities (r_message r) @ [x] @ m_additionals (r_message r)"
  by (simp_all add: r_add_authority_def r_sync_header_counts_def m_add_authority_def r_answers_def r_query_def Let_def
      m_response_code_def update_header_counts_def all_records_def)

lemma map_records_data:
  "r_answers (map_records f r) = List.map f (r_answers r)" "r_query (map_records f r) = r_query r"
  "m_header (r_message (map_records f r)) = m_header (r_message r)"
  by (simp_all add: map_records_def r_answers_def r_query_def Let_def)

lemma r_ip_addrs_set_ttl: "r_ip_addrs (r_set_new_ttl t r) = r_ip_addrs r"
  by (simp add: r_ip_addrs_def r_set_new_ttl_def map_records_data List.map_filter_def comp_def filter_map)

lemma r_ip_addrs_suppressed [simp]: "r_ip_addrs (set_aaaa_suppressed b r) = r_ip_addrs r"
  by (simp add: set_aaaa_suppressed_def r_ip_addrs_def r_answers_def)

lemma suppressed_set [simp]: "r_aaaa_suppressed (set_aaaa_suppressed b r) = b"
  by (simp add: set_aaaa_suppressed_def)

lemma all_records_suppressed [simp]: "all_records (set_aaaa_suppressed b r) = all_records r"
  by (simp add: set_aaaa_suppressed_def all_records_def)

lemma r_ip_addrs_no_answers: "r_answers r = [] \<Longrightarrow> r_ip_addrs r = []"
  by (simp add: r_ip_addrs_def map_filter_simps)

lemma process_resp_ips: "r_ip_addrs (process_resp ev blocked ttl r) = (if blocked then [] else r_ip_addrs r)"
proof (cases blocked)
  case True
  have "r_answers (process_resp ev True ttl r) = []"
    by (simp add: process_resp_def Let_def add_authority_data r_set_new_ttl_def map_records_data)
  then show ?thesis using True by (simp add: r_ip_addrs_no_answers)
next
  case False
  have "all_records (r_set_new_ttl ttl r) = [] \<longleftrightarrow> all_records r = []"
    by (simp add: r_set_new_ttl_def all_records_map)
  moreover have "r_ip_addrs r = []" if "all_records r = []"
    using that by (simp add: all_records_def r_answers_def r_ip_addrs_no_answers)
  ultimately show ?thesis
    using False by (auto simp: process_resp_def Let_def r_ip_addrs_set_ttl r_ip_addrs_no_answers add_authority_data)
qed

lemma process_resp_empty:
  assumes "all_records r = []"
  shows "r_answers (process_resp ev b ttl r) = [] \<and>
    m_response_code (r_message (process_resp ev b ttl r)) = m_response_code (r_message r) \<and>
    List.map rr_type (m_authorities (r_message (process_resp ev b ttl r))) = [RT_SOA] \<and>
    r_query (process_resp ev b ttl r) = r_query r"
proof -
  have soa: "rr_type (forge_soa_record build n t) = RT_SOA" for build n t
    by (simp add: forge_soa_record_def from_rdata_def rr_type_def)
  have e: "m_authorities (r_message r) = []" using assms by (simp add: all_records_def)
  define r1 where "r1 = r_set_new_ttl ttl (if b then take_answers r else r)"
  have r1: "all_records r1 = []" "m_authorities (r_message r1) = []" "r_query r1 = r_query r"
    "m_header (r_message r1) = m_header (r_message r)"
    using assms by (auto simp: r1_def r_set_new_ttl_def all_records_map map_records_data) (simp_all add: all_records_def
      map_records_def take_answers_def Let_def)
  have "process_resp ev b ttl r =
      r_add_authority (forge_soa_record (ev_build ev) (q_name (r_query r)) ttl) (take_answers r1)"
    using r1 by (simp add: process_resp_def r1_def [symmetric] Let_def)
  moreover have "m_authorities (r_message (r_add_authority x r')) = m_authorities (r_message r') @ [x]" for x r'
    by (simp add: r_add_authority_def r_sync_header_counts_def m_add_authority_def Let_def)
  ultimately show ?thesis
    using r1 soa by (simp add: add_authority_data) (simp add: m_response_code_def)
qed

lemma process_resp_ttl: "x \<in> set (all_records (process_resp ev blocked ttl r)) \<Longrightarrow> rr_ttl x = ttl"
proof -
  have "rr_ttl x = ttl" if "x \<in> set (all_records (r_set_new_ttl ttl r'))" for r'
    using that by (auto simp: r_set_new_ttl_def all_records_map)
  moreover have "set (m_authorities (r_message r')) \<union> set (m_additionals (r_message r')) \<subseteq> set (all_records r')" for r'
    by (auto simp: all_records_def)
  ultimately show "x \<in> set (all_records (process_resp ev blocked ttl r)) \<Longrightarrow> rr_ttl x = ttl"
    by (fastforce simp: process_resp_def Let_def add_authority_data forge_soa_record_def from_rdata_def split: if_splits)
qed

lemma select_families_eqs:
  fixes t :: rtype and this that :: dns_response
  defines "aaaa \<equiv> if t = RT_AAAA then this else that" and "a \<equiv> if t = RT_AAAA then that else this"
  assumes "select_families ev blocked lo t this that = (this', that')"
  shows "r_ip_addrs this' = (if (if t = RT_AAAA then fst (blocked aaaa a) else snd (blocked aaaa a)) then [] else r_ip_addrs this)"
    and "r_ip_addrs that' = (if (if t = RT_AAAA then snd (blocked aaaa a) else fst (blocked aaaa a)) then [] else r_ip_addrs that)"
    and "x \<in> set (all_records this') \<union> set (all_records that') \<Longrightarrow> rr_ttl x = aligned_ttl_for aaaa a lo"
    and "fst (blocked aaaa a) \<Longrightarrow> r_aaaa_suppressed this' \<and> r_aaaa_suppressed that'"
  using assms(3)
  by (auto simp: aaaa_def a_def select_families_def Let_def case_prod_unfold process_resp_ips process_resp_ttl split: if_splits)

text \<open>What is withheld: never both families, and one only when the other has an address that answered.\<close>

lemma blocked_families_sound:
  assumes "blocked_families re ctx aaaa a = (b6, b4)"
  shows "\<not> (b6 \<and> b4) \<and>
    (b6 \<longrightarrow> (\<exists>m \<in> set (speed_modes_of ctx). fst (single_mode_ping_fastest re (r_ip_addrs a) m) \<noteq> None)) \<and>
    (b4 \<longrightarrow> (\<exists>m \<in> set (speed_modes_of ctx). fst (single_mode_ping_fastest re (r_ip_addrs aaaa) m) \<noteq> None))"
  using assms which_faster_Some [of re "r_ip_addrs aaaa" "r_ip_addrs a"]
  by (fastforce simp: blocked_families_def Let_def split: if_splits option.splits bool.splits)

lemma min_ttl_lower:
  assumes "r_min_ttl r = Some t" "x \<in> set (all_records r)"
  shows "t \<le> rr_ttl x"
proof -
  have "rr_ttl x \<in> set (concat (section_ttls r))" using assms(2) by (simp add: concat_section_ttls)
  then obtain ys where ys: "ys \<in> set (section_ttls r)" "rr_ttl x \<in> set ys" by auto
  then obtain z where z: "min_list_opt ys = Some z" by (cases "min_list_opt ys") auto
  then have "z \<in> set (List.map_filter min_list_opt (section_ttls r))" using ys by (auto simp: set_map_filter)
  then have "t \<le> z" using assms(1) min_list_opt_Some unfolding r_min_ttl_def by blast
  then show ?thesis using min_list_opt_Some [OF z] ys(2) by (meson order_trans)
qed

lemma no_min_ttl: "r_min_ttl r = None \<Longrightarrow> all_records r = []"
proof (rule ccontr)
  assume n: "r_min_ttl r = None" "all_records r \<noteq> []"
  then obtain ys where "ys \<in> set (section_ttls r)" "ys \<noteq> []"
    using concat_section_ttls [of r] by (metis concat_eq_Nil_conv list.map_disc_iff)
  then obtain z where "min_list_opt ys = Some z" by (cases "min_list_opt ys") auto
  then have "z \<in> set (List.map_filter min_list_opt (section_ttls r))"
    using \<open>ys \<in> set (section_ttls r)\<close> by (auto simp: set_map_filter)
  then show False using n(1) by (auto simp: r_min_ttl_def)
qed

lemma aligned_lower:
  "x \<in> set (all_records aaaa) \<union> set (all_records a) \<Longrightarrow> aligned_ttl_for aaaa a lo \<le> rr_ttl x"
  using min_ttl_lower [of aaaa _ x] min_ttl_lower [of a _ x] no_min_ttl [of aaaa] no_min_ttl [of a]
  by (auto simp: aligned_ttl_for_def min_def split: option.splits)

section \<open>Properties\<close>

text \<open>Both queries succeed: the reply and the record for the cache are the two answers of the selection.\<close>

lemma dualstack_runs:
  assumes "is_ip_addr (q_type (rq_query req))" "\<not> should_bypass_for_force_aaaa_soa (q_type (rq_query req)) (cx_force_aaaa_soa ctx)"
    and "run_both that_first run_next ctx req (rq_set_query_type (other_family (q_type (rq_query req))) req) w =
      (this_res, that_res, ctx1, w1)"
    and "both_answers ev (rq_query req) (rq_query (rq_set_query_type (other_family (q_type (rq_query req))) req))
      this_res that_res = Inr (this, that)"
  obtains this' that' where
    "select_families ev (blocked_families re ctx) (floor_ttl ctx1) (q_type (rq_query req)) this that = (this', that')"
    "dualstack_mw ev re that_first run_next ctx req w =
       (Inr this', ctx1\<lparr>cx_extra_cache_records := cx_extra_cache_records ctx1 @ [(r_query that', that')]\<rparr>, w1)"
proof -
  obtain this' that' where s:
    "select_families ev (blocked_families re ctx) (floor_ttl ctx1) (q_type (rq_query req)) this that = (this', that')"
    by fastforce
  then show ?thesis using that [OF s] assms by (simp add: dualstack_mw_def Let_def)
qed

text \<open>C24: The selection never leaves a client without addresses it could use: either the addresses of the
  family that was asked for come through unchanged, or they are withheld while those of the other family
  stay, one of which answered a probe.\<close>

theorem withheld_only_for_reachable_family:
  assumes "is_ip_addr (q_type (rq_query req))" "\<not> should_bypass_for_force_aaaa_soa (q_type (rq_query req)) (cx_force_aaaa_soa ctx)"
    and "run_both that_first run_next ctx req (rq_set_query_type (other_family (q_type (rq_query req))) req) w =
      (Inr this, Inr that, ctx1, w1)"
  shows "\<exists>this' that'. dualstack_mw ev re that_first run_next ctx req w =
      (Inr this', ctx1\<lparr>cx_extra_cache_records := cx_extra_cache_records ctx1 @ [(r_query that', that')]\<rparr>, w1) \<and>
    (r_ip_addrs this' = r_ip_addrs this \<or>
     r_ip_addrs this' = [] \<and> r_ip_addrs that' = r_ip_addrs that \<and>
     (\<exists>m \<in> set (speed_modes_of ctx). fst (single_mode_ping_fastest re (r_ip_addrs that) m) \<noteq> None))"
proof -
  let ?t = "q_type (rq_query req)"
  obtain this' that' where s:
    "select_families ev (blocked_families re ctx) (floor_ttl ctx1) ?t this that = (this', that')"
    "dualstack_mw ev re that_first run_next ctx req w =
       (Inr this', ctx1\<lparr>cx_extra_cache_records := cx_extra_cache_records ctx1 @ [(r_query that', that')]\<rparr>, w1)"
    by (rule dualstack_runs [OF assms(1,2,3)]) (simp_all add: both_answers_def)
  let ?aaaa = "if ?t = RT_AAAA then this else that" and ?a = "if ?t = RT_AAAA then that else this"
  obtain b6 b4 where b: "blocked_families re ctx ?aaaa ?a = (b6, b4)" by fastforce
  note eqs = select_families_eqs(1,2) [OF s(1), unfolded b fst_conv snd_conv]
  show ?thesis
  proof (cases "if ?t = RT_AAAA then b6 else b4")
    case False
    then have "r_ip_addrs this' = r_ip_addrs this" using eqs(1) by simp
    then show ?thesis using s(2) by blast
  next
    case True
    then have "r_ip_addrs this' = []" "r_ip_addrs that' = r_ip_addrs that"
      using eqs blocked_families_sound [OF b] by (simp_all split: if_splits)
    moreover have "\<exists>m \<in> set (speed_modes_of ctx). fst (single_mode_ping_fastest re (r_ip_addrs that) m) \<noteq> None"
      using True blocked_families_sound [OF b] by (cases "?t = RT_AAAA") simp_all
    ultimately show ?thesis using s(2) by blast
  qed
qed

text \<open>The selection never makes a record live longer: all records of both answers get the same lifetime,
  and it is no longer than that of any record of either answer.\<close>

theorem dualstack_never_extends_ttl:
  assumes "is_ip_addr (q_type (rq_query req))" "\<not> should_bypass_for_force_aaaa_soa (q_type (rq_query req)) (cx_force_aaaa_soa ctx)"
    and "run_both that_first run_next ctx req (rq_set_query_type (other_family (q_type (rq_query req))) req) w =
      (Inr this, Inr that, ctx1, w1)"
  shows "\<exists>this' that' ttl. dualstack_mw ev re that_first run_next ctx req w =
      (Inr this', ctx1\<lparr>cx_extra_cache_records := cx_extra_cache_records ctx1 @ [(r_query that', that')]\<rparr>, w1) \<and>
    (\<forall>x \<in> set (all_records this') \<union> set (all_records that'). rr_ttl x = ttl) \<and>
    (\<forall>x \<in> set (all_records this) \<union> set (all_records that). ttl \<le> rr_ttl x)"
proof -
  let ?t = "q_type (rq_query req)"
  obtain this' that' where s:
    "select_families ev (blocked_families re ctx) (floor_ttl ctx1) ?t this that = (this', that')"
    "dualstack_mw ev re that_first run_next ctx req w =
       (Inr this', ctx1\<lparr>cx_extra_cache_records := cx_extra_cache_records ctx1 @ [(r_query that', that')]\<rparr>, w1)"
    by (rule dualstack_runs [OF assms(1,2,3)]) (simp_all add: both_answers_def)
  let ?ttl = "aligned_ttl_for (if ?t = RT_AAAA then this else that) (if ?t = RT_AAAA then that else this) (floor_ttl ctx1)"
  have "\<forall>x \<in> set (all_records this') \<union> set (all_records that'). rr_ttl x = ?ttl"
    using select_families_eqs(3) [OF s(1)] by blast
  moreover have "\<forall>x \<in> set (all_records this) \<union> set (all_records that). ?ttl \<le> rr_ttl x"
    by (auto intro!: aligned_lower)
  ultimately show ?thesis using s(2) by blast
qed

text \<open>DNS64 and the selection do not work together: for a name with IPv4 addresses only, the probes of the
  A records win against nothing, the empty AAAA answer is marked as withheld on purpose, and the DNS64
  middleware in front of it synthesises no address. With the default settings of the selection, a client
  with IPv6 only cannot reach such a name exactly when the server can.\<close>

theorem race_disables_dns64:
  assumes "cx_dns64_prefix ctx = Some net" "\<not> is_ipv4only_arpa (q_name (rq_query req))"
    and "q_type (rq_query req) = RT_AAAA" "\<not> cx_force_aaaa_soa ctx" "dualstack_enabled ctx"
    and "\<not> should_skip_speed_race (unwrap_or (so_no_speed_check (cx_server_opts ctx)) False) (speed_modes_of ctx)"
    and "run_both that_first run_next ctx req (rq_set_query_type RT_A req) w = (Inr aaaa, Inr a, ctx1, w1)"
    and "r_ip_addrs aaaa = []"
    and "speed_modes_of ctx = m # ms" "fst (single_mode_ping_fastest re (r_ip_addrs a) m) \<noteq> None"
  shows "\<exists>r ctx'. dns64_mw ev (dualstack_mw ev re that_first run_next) ctx req w = (Inr r, ctx', w1) \<and> r_ip_addrs r = []"
proof -
  have t: "is_ip_addr (q_type (rq_query req))" "\<not> should_bypass_for_force_aaaa_soa (q_type (rq_query req)) (cx_force_aaaa_soa ctx)"
    using assms(3,4) by (simp_all add: is_ip_addr_def should_bypass_for_force_aaaa_soa_def)
  have run: "run_both that_first run_next ctx req (rq_set_query_type (other_family (q_type (rq_query req))) req) w =
      (Inr aaaa, Inr a, ctx1, w1)"
    using assms(3,7) by simp
  obtain this' that' where s:
    "select_families ev (blocked_families re ctx) (floor_ttl ctx1) (q_type (rq_query req)) aaaa a = (this', that')"
    "dualstack_mw ev re that_first run_next ctx req w =
       (Inr this', ctx1\<lparr>cx_extra_cache_records := cx_extra_cache_records ctx1 @ [(r_query that', that')]\<rparr>, w1)"
    by (rule dualstack_runs [OF t run]) (simp_all add: both_answers_def)
  have "blocked_families re ctx aaaa a = (True, False)"
    using assms(5,6,8,9,10) which_faster_one_family [of re "r_ip_addrs a" m]
    by (simp add: blocked_families_def Let_def)
  then have "r_ip_addrs this' = []" "r_aaaa_suppressed this'"
    using select_families_eqs(1,4) [OF s(1)] assms(3) by simp_all
  then show ?thesis
    using s(2) assms(1-3) by (simp add: dns64_mw_def dns64_fallback_needed_def Let_def)
qed

text \<open>C31: A failed query for the other family becomes an empty answer for the cache: when the query that was
  asked for succeeds and the one for the other family fails, what is handed to the cache under the question
  of the other family is a NOERROR answer without data and with a made-up SOA record.\<close>

theorem failed_family_cached_as_empty:
  assumes "is_ip_addr (q_type (rq_query req))" "\<not> should_bypass_for_force_aaaa_soa (q_type (rq_query req)) (cx_force_aaaa_soa ctx)"
    and "run_both that_first run_next ctx req (rq_set_query_type (other_family (q_type (rq_query req))) req) w =
      (Inr this, Inl e, ctx1, w1)"
  shows "\<exists>this' that'. dualstack_mw ev re that_first run_next ctx req w =
      (Inr this', ctx1\<lparr>cx_extra_cache_records := cx_extra_cache_records ctx1 @
        [(rq_query (rq_set_query_type (other_family (q_type (rq_query req))) req), that')]\<rparr>, w1) \<and>
    r_answers that' = [] \<and> m_response_code (r_message that') = RC_NoError \<and>
    List.map rr_type (m_authorities (r_message that')) = [RT_SOA]"
proof -
  let ?that_q = "rq_query (rq_set_query_type (other_family (q_type (rq_query req))) req)"
  obtain this' that' where s:
    "select_families ev (blocked_families re ctx) (floor_ttl ctx1) (q_type (rq_query req)) this (placeholder ev ?that_q) = (this', that')"
    "dualstack_mw ev re that_first run_next ctx req w =
       (Inr this', ctx1\<lparr>cx_extra_cache_records := cx_extra_cache_records ctx1 @ [(r_query that', that')]\<rparr>, w1)"
    by (rule dualstack_runs [OF assms(1,2,3)]) (simp_all add: both_answers_def)
  obtain b ttl where "that' = process_resp ev b ttl (placeholder ev ?that_q) \<or>
      that' = set_aaaa_suppressed True (process_resp ev b ttl (placeholder ev ?that_q))"
    using s(1) by (auto simp: select_families_def Let_def case_prod_unfold split: if_splits)
  moreover have "all_records (placeholder ev ?that_q) = []" "r_query (placeholder ev ?that_q) = ?that_q"
    "m_response_code (r_message (placeholder ev ?that_q)) = RC_NoError"
    by (simp_all add: placeholder_def response_empty_def message_query_def message_new_def m_add_query_def header_new_def
        all_records_def r_query_def m_response_code_def Let_def)
  note process_resp_empty [OF this(1), of ev b ttl, unfolded this(2,3)]
  ultimately show ?thesis
    using s(2) by (auto simp: set_aaaa_suppressed_def r_answers_def r_query_def)
qed

section \<open>Witnesses\<close>

text \<open>A name with one IPv4 address, which answers a probe, and no IPv6 address.\<close>

definition v4_only :: "unit handler" where
  "v4_only ctx req w =
     (Inr (if q_type (rq_query req) = RT_A then demo_response [RD_A 1] 600 else demo_response [] 0), ctx, w)"

definition demo_race :: race_env where
  "demo_race = \<lparr>re_probe = (\<lambda>dests. (Some (hd dests, 5), 5)), re_tie = (\<lambda>m. True)\<rparr>"

definition nat64_context :: dns_context where
  "nat64_context = demo_context (rt_config_default\<lparr>cf_dns64_prefix := Some (nat64_net 96)\<rparr>)"

lemma demo_types:
  "q_type (rq_query (demo_request t)) = t"
  "rq_query (rq_set_query_type t' (demo_request t)) = (query_query name_root t')"
  by (simp_all add: demo_request_def request_of_query_def query_query_def rq_set_query_type_def Let_def)

lemma v4_only_runs:
  "run_both False v4_only c (demo_request RT_AAAA) (rq_set_query_type RT_A (demo_request RT_AAAA)) () =
     (Inr (demo_response [] 0), Inr (demo_response [RD_A 1] 600), c, ())"
  by (simp add: run_both_def v4_only_def demo_types query_query_def)

lemma v4_only_ips: "r_ip_addrs (demo_response [] 0) = []" "r_ip_addrs (demo_response [RD_A 1] 600) = [IpV4 1]"
  by (simp_all add: demo_response_def r_ip_addrs_def r_answers_def new_with_deadline_def r_sync_header_counts_def
      m_add_answers_def m_add_query_def m_to_response_def message_query_def message_new_def from_rdata_def Let_def
      map_filter_simps)

lemma nat64_settings:
  "cx_dns64_prefix nat64_context = Some (nat64_net 96)" "\<not> cx_force_aaaa_soa nat64_context"
  "dualstack_enabled nat64_context" "speed_modes_of nat64_context = [SM_Ping, SM_Tcp 443]"
  "\<not> should_skip_speed_race (unwrap_or (so_no_speed_check (cx_server_opts nat64_context)) False) (speed_modes_of nat64_context)"
  by code_simp+

lemma demo_probe: "fst (single_mode_ping_fastest demo_race [IpV4 1] SM_Ping) \<noteq> None"
  by (simp add: single_mode_ping_fastest_def demo_race_def to_ping_addrs_def map_filter_simps PROBE_DEADLINE_def Let_def)

lemma not_bypassed:
  "is_ip_addr (q_type (rq_query (demo_request RT_AAAA)))"
  "\<not> should_bypass_for_force_aaaa_soa (q_type (rq_query (demo_request RT_AAAA))) (cx_force_aaaa_soa nat64_context)"
  by (simp_all add: demo_types is_ip_addr_def should_bypass_for_force_aaaa_soa_def nat64_settings)

theorem race_disables_dns64_witness:
  "\<exists>r ctx'. dns64_mw demo_env (dualstack_mw demo_env demo_race False v4_only) nat64_context (demo_request RT_AAAA) () =
     (Inr r, ctx', ()) \<and> r_ip_addrs r = []"
  by (rule race_disables_dns64 [where net = "nat64_net 96" and aaaa = "demo_response [] 0" and a = "demo_response [RD_A 1] 600"
        and m = SM_Ping and ms = "[SM_Tcp 443]", OF nat64_settings(1) _ demo_types(1) nat64_settings(2,3,5) v4_only_runs
        v4_only_ips(1) nat64_settings(4)])
    (code_simp, simp add: v4_only_ips demo_probe)

theorem withheld_only_for_reachable_family_witness:
  "\<exists>this' that' c. dualstack_mw demo_env demo_race False v4_only nat64_context (demo_request RT_AAAA) () = (Inr this', c, ()) \<and>
     (r_ip_addrs this' = [] \<or> r_ip_addrs this' = r_ip_addrs that')"
  using withheld_only_for_reachable_family [OF not_bypassed, of False v4_only "()"] v4_only_runs [of nat64_context]
  by (fastforce simp: demo_types v4_only_ips)

theorem dualstack_never_extends_ttl_witness:
  "\<exists>this' c (ttl :: u32). dualstack_mw demo_env demo_race False v4_only nat64_context (demo_request RT_AAAA) () = (Inr this', c, ()) \<and>
     ttl \<le> 600"
proof -
  have "\<forall>x \<in> set (all_records (demo_response [RD_A 1] 600)). rr_ttl x = 600" "all_records (demo_response [RD_A 1] 600) \<noteq> []"
    by (simp_all add: demo_response_def all_records_def new_with_deadline_def r_sync_header_counts_def
      m_add_answers_def m_add_query_def m_to_response_def message_query_def message_new_def from_rdata_def Let_def)
  then show ?thesis
    using dualstack_never_extends_ttl [OF not_bypassed, of False v4_only "()" "demo_response [] 0" "demo_response [RD_A 1] 600"
        nat64_context "()" demo_env demo_race] v4_only_runs [of nat64_context]
    by (auto simp: demo_types)
qed

theorem failed_family_cached_as_empty_witness:
  "\<exists>this' that' c. dualstack_mw demo_env demo_race False
     (\<lambda>c q w. (if q_type (rq_query q) = RT_A then Inl request_timeout else Inr (demo_response [RD_AAAA 1] 600), c, w))
     nat64_context (demo_request RT_AAAA) () = (Inr this', c, ()) \<and>
   cx_extra_cache_records c = cx_extra_cache_records nat64_context @ [(query_query name_root RT_A, that')] \<and> r_answers that' = []"
proof -
  have "run_both False (\<lambda>c q w. (if q_type (rq_query q) = RT_A then Inl request_timeout else Inr (demo_response [RD_AAAA 1] 600), c, w))
      nat64_context (demo_request RT_AAAA)
      (rq_set_query_type (other_family (q_type (rq_query (demo_request RT_AAAA)))) (demo_request RT_AAAA)) () =
    (Inr (demo_response [RD_AAAA 1] 600), Inl request_timeout, nat64_context, ())"
    by (simp add: run_both_def demo_types query_query_def)
  from failed_family_cached_as_empty [OF not_bypassed this, of demo_env demo_race] show ?thesis
    by (auto simp: demo_types)
qed

end
