(* ===== verification/Listeners.thy ===== *)
theory Listeners
  imports Config "HOL-Library.AList"
begin

unbundle bit_operations_syntax

text \<open>
  The listeners of the server (\<open>app.rs\<close>): which addresses are served, the queue of addresses that
  could not be bound and are tried again, the check that keeps the management console from being
  exposed (\<open>api/mod.rs\<close>), and the reloading of the configuration. Binding an address is the function
  \<open>serve\<close> of each operation: what \<open>server::serve\<close> returned for the address, with the time at which it
  returned. A handle is a value of the type variable \<open>'h\<close>; shutting it down puts it into \<open>as_closed\<close>.
  The order of the hash maps is the order of the association lists. The number of failures is a
  natural number; at one attempt a minute its 32 bits last for eight thousand years.
\<close>

section \<open>Bind addresses\<close>

datatype bind_addr = BA_Localhost | BA_All | BA_V4 "32 word" | BA_V6 "128 word"

fun bind_ip_addr :: "bind_addr \<Rightarrow> ip_addr" where
  "bind_ip_addr BA_Localhost = IpV6 1"
| "bind_ip_addr BA_All = IpV6 0"
| "bind_ip_addr (BA_V4 ip) = IpV4 ip"
| "bind_ip_addr (BA_V6 ip) = IpV6 ip"

record ssl_config =
  ssl_server_name :: "string option"
  ssl_certificate :: "string option"
  ssl_certificate_key :: "string option"
  ssl_certificate_key_pass :: "string option"

record bind_fields =
  bf_addr :: bind_addr
  bf_port :: u16
  bf_device :: "string option"
  bf_opts :: server_opts
  bf_enabled :: "bool option"

datatype bind_addr_config =
    BindUdp bind_fields
  | BindTcp bind_fields
  | BindTls bind_fields ssl_config
  | BindHttp bind_fields
  | BindHttps bind_fields ssl_config
  | BindH3 bind_fields ssl_config
  | BindQuic bind_fields ssl_config

fun bind_fields_of :: "bind_addr_config \<Rightarrow> bind_fields" where
  "bind_fields_of (BindUdp f) = f"
| "bind_fields_of (BindTcp f) = f"
| "bind_fields_of (BindTls f ssl) = f"
| "bind_fields_of (BindHttp f) = f"
| "bind_fields_of (BindHttps f ssl) = f"
| "bind_fields_of (BindH3 f ssl) = f"
| "bind_fields_of (BindQuic f ssl) = f"

definition sock_addr :: "bind_addr_config \<Rightarrow> ip_addr \<times> u16" where
  "sock_addr b = (bind_ip_addr (bf_addr (bind_fields_of b)), bf_port (bind_fields_of b))"

text \<open>The listeners of a configuration (\<open>dns_conf.rs\<close>): those that are enabled, the default one if there is
  none, each with the address of its network device, and of several with the same address the last.\<close>

definition bind_enabled :: "bind_addr_config \<Rightarrow> bool" where
  "bind_enabled b = unwrap_or (bf_enabled (bind_fields_of b)) True"

definition default_bind :: bind_addr_config where
  "default_bind = BindUdp
     \<lparr>bf_addr = BA_V6 0, bf_port = 53, bf_device = None, bf_opts = server_opts_default, bf_enabled = None\<rparr>"

fun map_bind_fields :: "(bind_fields \<Rightarrow> bind_fields) \<Rightarrow> bind_addr_config \<Rightarrow> bind_addr_config" where
  "map_bind_fields g (BindUdp f) = BindUdp (g f)"
| "map_bind_fields g (BindTcp f) = BindTcp (g f)"
| "map_bind_fields g (BindTls f ssl) = BindTls (g f) ssl"
| "map_bind_fields g (BindHttp f) = BindHttp (g f)"
| "map_bind_fields g (BindHttps f ssl) = BindHttps (g f) ssl"
| "map_bind_fields g (BindH3 f ssl) = BindH3 (g f) ssl"
| "map_bind_fields g (BindQuic f ssl) = BindQuic (g f) ssl"

fun bind_addr_of_ip :: "ip_addr \<Rightarrow> bind_addr" where
  "bind_addr_of_ip (IpV4 ip) = BA_V4 ip"
| "bind_addr_of_ip (IpV6 ip) = BA_V6 ip"

fun device_ip_fits :: "bind_addr \<Rightarrow> ip_addr \<Rightarrow> bool" where
  "device_ip_fits (BA_V4 a) ip = is_v4 ip"
| "device_ip_fits (BA_V6 a) ip = (case ip of IpV6 w \<Rightarrow> drop_bit 112 w AND 0xffc0 \<noteq> 0xfe80 | IpV4 v \<Rightarrow> False)"
| "device_ip_fits _ ip = True"

definition resolve_device :: "(string \<times> ip_addr) list \<Rightarrow> bind_addr_config \<Rightarrow> bind_addr_config" where
  "resolve_device interfaces b =
     (case bf_device (bind_fields_of b) of
        None \<Rightarrow> b
      | Some device \<Rightarrow>
          (let ips = List.map snd (List.filter (\<lambda>(dev, ip). dev = device) interfaces)
           in case List.find (device_ip_fits (bf_addr (bind_fields_of b))) ips of
                Some ip \<Rightarrow> map_bind_fields (\<lambda>f. f\<lparr>bf_addr := bind_addr_of_ip ip\<rparr>) b
              | None \<Rightarrow> b))"

fun over_datagrams :: "bind_addr_config \<Rightarrow> bool" where
  "over_datagrams (BindUdp f) = True"
| "over_datagrams (BindQuic f ssl) = True"
| "over_datagrams (BindH3 f ssl) = True"
| "over_datagrams _ = False"

definition bind_key :: "bind_addr_config \<Rightarrow> bool \<times> ip_addr \<times> u16" where
  "bind_key b = (over_datagrams b, sock_addr b)"

fun keep_first :: "(bool \<times> ip_addr \<times> u16) list \<Rightarrow> bind_addr_config list \<Rightarrow> bind_addr_config list" where
  "keep_first seen [] = []"
| "keep_first seen (b # bs) =
     (if bind_key b \<in> set seen then keep_first seen bs else b # keep_first (bind_key b # seen) bs)"

definition dedup_binds :: "bind_addr_config list \<Rightarrow> bind_addr_config list" where
  "dedup_binds binds = rev (keep_first [] (rev binds))"

definition configured_binds :: "(string \<times> ip_addr) list option \<Rightarrow> bind_addr_config list \<Rightarrow> bind_addr_config list" where
  "configured_binds interfaces listed =
     (let enabled = List.filter bind_enabled listed;
          binds = (if enabled = [] then [default_bind] else enabled)
      in dedup_binds (case interfaces of Some ifs \<Rightarrow> List.map (resolve_device ifs) binds | None \<Rightarrow> binds))"

section \<open>The exposure of the management console\<close>

text \<open>White space of \<open>str::trim\<close> within ASCII; a token is a string of octets.\<close>

definition is_blank :: "string \<Rightarrow> bool" where
  "is_blank t \<longleftrightarrow> list_all (\<lambda>c. c = CHR '' '' \<or> (9 \<le> (of_char c :: nat) \<and> (of_char c :: nat) \<le> 13)) t"

definition has_configured_token :: "string option \<Rightarrow> string option \<Rightarrow> bool" where
  "has_configured_token env_token config_token \<longleftrightarrow>
     (case config_token of Some t \<Rightarrow> \<not> is_blank t | None \<Rightarrow> False) \<or>
     (case env_token of Some t \<Rightarrow> \<not> is_blank t | None \<Rightarrow> False)"

fun serves_api :: "bind_addr_config \<Rightarrow> bool" where
  "serves_api (BindHttp f) = (\<not> unwrap_or (so_no_api (bf_opts f)) False)"
| "serves_api (BindHttps f ssl) = (\<not> unwrap_or (so_no_api (bf_opts f)) False)"
| "serves_api (BindH3 f ssl) = (\<not> unwrap_or (so_no_api (bf_opts f)) False)"
| "serves_api _ = False"

text \<open>\<open>None\<close> is \<open>Ok\<close>; an error names the addresses that are exposed.\<close>

definition check_exposure ::
    "string option \<Rightarrow> bind_addr_config list \<Rightarrow> string option \<Rightarrow> (ip_addr \<times> u16) list option" where
  "check_exposure env_token binds config_token =
     (let exposed = List.filter (\<lambda>addr. \<not> is_loopback (fst addr)) (List.map sock_addr (List.filter serves_api binds))
      in if exposed = [] \<or> has_configured_token env_token config_token then None else Some exposed)"

section \<open>The retry of a bind\<close>

record bind_retry =
  br_attempts :: nat
  br_next_at :: int
  br_first_failed_at :: int
  br_last_failed_at :: int
  br_last_error :: "(ip_addr \<times> u16) \<times> string"

definition second :: int where
  "second = 1000000000"

text \<open>The delay in seconds.\<close>

definition retry_backoff :: "nat \<Rightarrow> nat" where
  "retry_backoff attempts = (let shift = min (attempts - 1) 6 in min (2 ^ shift) 60)"

definition bind_retry_new :: "int \<Rightarrow> (ip_addr \<times> u16) \<times> string \<Rightarrow> bind_retry" where
  "bind_retry_new now err =
     \<lparr>br_attempts = 1, br_next_at = now + int (retry_backoff 1) * second, br_first_failed_at = now,
      br_last_failed_at = now, br_last_error = err\<rparr>"

definition failed_again :: "int \<Rightarrow> (ip_addr \<times> u16) \<times> string \<Rightarrow> bind_retry \<Rightarrow> bind_retry" where
  "failed_again now err r =
     (let attempts = br_attempts r + 1 in
      r\<lparr>br_attempts := attempts, br_next_at := now + int (retry_backoff attempts) * second,
        br_last_failed_at := now, br_last_error := err\<rparr>)"

definition is_due :: "int \<Rightarrow> bind_retry \<Rightarrow> bool" where
  "is_due now r \<longleftrightarrow> br_next_at r \<le> now"

section \<open>The operations\<close>

record 'h app_state =
  as_listeners :: "(bind_addr_config \<times> 'h) list"
  as_retry :: "(bind_addr_config \<times> bind_retry) list"
  as_closed :: "'h list"

type_synonym 'h serving = "bind_addr_config \<Rightarrow> int \<times> (string + 'h)"

definition insert_listener :: "bind_addr_config \<Rightarrow> 'h \<Rightarrow> 'h app_state \<Rightarrow> 'h app_state" where
  "insert_listener b h st =
     st\<lparr>as_listeners := AList.update b h (as_listeners st),
        as_closed := as_closed st @ (case map_of (as_listeners st) b of Some prev \<Rightarrow> [prev] | None \<Rightarrow> [])\<rparr>"

definition schedule_bind_retry :: "int \<Rightarrow> bind_addr_config \<Rightarrow> string \<Rightarrow> 'h app_state \<Rightarrow> 'h app_state" where
  "schedule_bind_retry now b err st =
     st\<lparr>as_retry := AList.update b
        (case map_of (as_retry st) b of
           None \<Rightarrow> bind_retry_new now (sock_addr b, err)
         | Some r \<Rightarrow> failed_again now (sock_addr b, err) r)
        (as_retry st)\<rparr>"

definition start_listener :: "'h serving \<Rightarrow> 'h app_state \<Rightarrow> bind_addr_config \<Rightarrow> 'h app_state" where
  "start_listener serve st b =
     (case serve b of
        (now, Inr server) \<Rightarrow> insert_listener b server (st\<lparr>as_retry := AList.delete b (as_retry st)\<rparr>)
      | (now, Inl err) \<Rightarrow> schedule_bind_retry now b err st)"

definition close_listener :: "'h app_state \<Rightarrow> bind_addr_config \<Rightarrow> 'h app_state" where
  "close_listener st b =
     st\<lparr>as_listeners := AList.delete b (as_listeners st),
        as_closed := as_closed st @ (case map_of (as_listeners st) b of Some h \<Rightarrow> [h] | None \<Rightarrow> [])\<rparr>"

definition update_listeners ::
    "string option \<Rightarrow> bind_addr_config list \<Rightarrow> string option \<Rightarrow> 'h serving \<Rightarrow> 'h app_state \<Rightarrow> 'h app_state" where
  "update_listeners env_token binds token serve st =
     (let new_bind_addrs = List.filter (\<lambda>l. map_of (as_listeners st) l = None) binds;
          shutdowns = List.filter (\<lambda>l. l \<notin> set binds) (List.map fst (as_listeners st));
          st1 = foldl close_listener st shutdowns;
          safe_bind_addrs = List.filter (\<lambda>b. check_exposure env_token [b] token = None) new_bind_addrs
      in foldl (start_listener serve) st1 safe_bind_addrs)"

definition retry_one ::
    "bind_addr_config list \<Rightarrow> int \<Rightarrow> 'h serving \<Rightarrow> 'h app_state \<Rightarrow> bind_addr_config \<Rightarrow> 'h app_state" where
  "retry_one binds now serve st b =
     (if b \<notin> set binds then st\<lparr>as_retry := AList.delete b (as_retry st)\<rparr>
      else
        (case snd (serve b) of
           Inr server \<Rightarrow> insert_listener b server (st\<lparr>as_retry := AList.delete b (as_retry st)\<rparr>)
         | Inl err \<Rightarrow>
             (case map_of (as_retry st) b of
                Some r \<Rightarrow> st\<lparr>as_retry := AList.update b (failed_again now (sock_addr b, err) r) (as_retry st)\<rparr>
              | None \<Rightarrow> st)))"

definition retry_pending_binds_at ::
    "bind_addr_config list \<Rightarrow> int \<Rightarrow> 'h serving \<Rightarrow> 'h app_state \<Rightarrow> 'h app_state" where
  "retry_pending_binds_at binds now serve st =
     (let due = List.map fst (List.filter (\<lambda>(b, r). is_due now r) (as_retry st))
      in foldl (retry_one binds now serve) st due)"

definition bind_retry_status :: "'h app_state \<Rightarrow> nat \<times> ((ip_addr \<times> u16) \<times> string) option" where
  "bind_retry_status st =
     (length (as_retry st), map_option br_last_error (max_by_key br_last_failed_at (List.map snd (as_retry st))))"

section \<open>Runs of the server\<close>

text \<open>The configuration in force and the state. A reload installs a new configuration and updates the
  listeners; a tick of the retry clock tries the addresses that are due. The first reload is the start.
  Reloads and ticks are steps that do not overlap. The code takes no lock for that: it reads the due addresses
  and the configuration first and awaits locks in between. What can happen when one overtakes the
  other is shown by \<open>overtaken_retry_serves_unconfigured\<close> and \<open>overtaken_reload_queues_served\<close>.\<close>

record 'h app =
  ap_binds :: "bind_addr_config list"
  ap_token :: "string option"
  ap_state :: "'h app_state"

definition app_new :: "'h app" where
  "app_new = \<lparr>ap_binds = [], ap_token = None, ap_state = \<lparr>as_listeners = [], as_retry = [], as_closed = []\<rparr>\<rparr>"

definition reload :: "string option \<Rightarrow> bind_addr_config list \<Rightarrow> string option \<Rightarrow> 'h serving \<Rightarrow> 'h app \<Rightarrow> 'h app" where
  "reload env_token binds token serve a =
     \<lparr>ap_binds = binds, ap_token = token, ap_state = update_listeners env_token binds token serve (ap_state a)\<rparr>"

definition retry_tick :: "int \<Rightarrow> 'h serving \<Rightarrow> 'h app \<Rightarrow> 'h app" where
  "retry_tick now serve a = a\<lparr>ap_state := retry_pending_binds_at (ap_binds a) now serve (ap_state a)\<rparr>"

inductive app_step :: "string option \<Rightarrow> 'h app \<Rightarrow> 'h app \<Rightarrow> bool" for env_token where
  Reload: "app_step env_token a (reload env_token (configured_binds interfaces listed) token serve a)"
| Tick: "app_step env_token a (retry_tick now serve a)"

inductive app_reachable :: "string option \<Rightarrow> 'h app \<Rightarrow> bool" for env_token where
  Start: "app_reachable env_token (reload env_token (configured_binds interfaces listed) token serve app_new)"
| Step: "app_reachable env_token a \<Longrightarrow> app_step env_token a b \<Longrightarrow> app_reachable env_token b"

inductive_cases app_stepE: "app_step env_token a b"

section \<open>Lemmas\<close>

abbreviation running :: "'h app_state \<Rightarrow> bind_addr_config \<Rightarrow> 'h option" where
  "running st \<equiv> map_of (as_listeners st)"

abbreviation queued :: "'h app_state \<Rightarrow> bind_addr_config \<Rightarrow> bind_retry option" where
  "queued st \<equiv> map_of (as_retry st)"

lemma running_simps [simp]:
  "running (insert_listener b h st) = (running st)(b \<mapsto> h)"
  "running (schedule_bind_retry now b err st) = running st"
  "running (close_listener st b) = (running st)(b := None)"
  "running (st\<lparr>as_retry := q\<rparr>) = running st"
  by (simp_all add: insert_listener_def schedule_bind_retry_def close_listener_def update_conv' delete_conv')

lemma queued_simps [simp]:
  "queued (insert_listener b h st) = queued st"
  "queued (schedule_bind_retry now b err st) = (queued st)(b \<mapsto>
     (case queued st b of None \<Rightarrow> bind_retry_new now (sock_addr b, err) | Some r \<Rightarrow> failed_again now (sock_addr b, err) r))"
  "queued (close_listener st b) = queued st"
  "queued (st\<lparr>as_retry := AList.delete b (as_retry st)\<rparr>) = (queued st)(b := None)"
  by (simp_all add: insert_listener_def schedule_bind_retry_def close_listener_def update_conv' delete_conv')

lemma start_running:
  "running (start_listener serve st b) =
     (case snd (serve b) of Inr h \<Rightarrow> (running st)(b \<mapsto> h) | Inl err \<Rightarrow> running st)"
  by (simp add: start_listener_def split: prod.splits sum.splits)

lemma start_queued:
  "queued (start_listener serve st b) =
     (case snd (serve b) of
        Inr h \<Rightarrow> (queued st)(b := None)
      | Inl err \<Rightarrow> (queued st)(b \<mapsto>
          (case queued st b of
             None \<Rightarrow> bind_retry_new (fst (serve b)) (sock_addr b, err)
           | Some r \<Rightarrow> failed_again (fst (serve b)) (sock_addr b, err) r)))"
  by (cases "serve b") (simp add: start_listener_def insert_listener_def delete_conv' schedule_bind_retry_def
      update_conv' split: sum.splits option.splits)

lemma foldl_close_running: "running (foldl close_listener st bs) b = (if b \<in> set bs then None else running st b)"
  by (induction bs arbitrary: st) auto

lemma foldl_close_queued: "queued (foldl close_listener st bs) = queued st"
  by (induction bs arbitrary: st) auto

text \<open>Starting a list of different addresses.\<close>

lemma foldl_start:
  assumes "distinct bs"
  shows "running (foldl (start_listener serve) st bs) b =
      (if b \<in> set bs then (case snd (serve b) of Inr h \<Rightarrow> Some h | Inl err \<Rightarrow> running st b) else running st b) \<and>
    queued (foldl (start_listener serve) st bs) b =
      (if b \<in> set bs then queued (start_listener serve st b) b else queued st b)"
  using assms
proof (induction bs arbitrary: st)
  case Nil
  show ?case by simp
next
  case (Cons c bs)
  have "queued (start_listener serve (start_listener serve st c) b) b = queued (start_listener serve st b) b" if "b \<noteq> c"
    using that by (simp add: start_queued split: sum.splits)
  then show ?case using Cons by (auto simp: start_running start_queued split: sum.splits)
qed

lemma update_listeners_running:
  assumes "distinct binds"
  shows "running (update_listeners env_token binds token serve st) b =
    (if b \<notin> set binds then None
     else case running st b of
       Some h \<Rightarrow> Some h
     | None \<Rightarrow>
         if check_exposure env_token [b] token = None
         then (case snd (serve b) of Inr h \<Rightarrow> Some h | Inl err \<Rightarrow> None) else None)"
proof -
  have "b \<in> fst ` set (as_listeners st) \<longleftrightarrow> running st b \<noteq> None"
    by (auto simp: map_of_eq_None_iff)
  then show ?thesis
    using foldl_start [of "List.filter (\<lambda>b. check_exposure env_token [b] token = None)
        (List.filter (\<lambda>l. running st l = None) binds)" serve] assms
    by (auto simp: update_listeners_def Let_def foldl_close_running split: option.splits sum.splits)
qed

lemma update_listeners_queued:
  assumes "distinct binds"
  shows "queued (update_listeners env_token binds token serve st) b =
    (if b \<in> set binds \<and> running st b = None \<and> check_exposure env_token [b] token = None
     then queued (start_listener serve st b) b else queued st b)"
proof -
  have "queued (start_listener serve (foldl close_listener st bs) b) b = queued (start_listener serve st b) b" for bs
    by (simp add: start_queued foldl_close_queued split: sum.splits)
  then show ?thesis
    using foldl_start [of "List.filter (\<lambda>b. check_exposure env_token [b] token = None)
        (List.filter (\<lambda>l. running st l = None) binds)" serve] assms
    by (simp add: update_listeners_def Let_def foldl_close_queued)
qed

lemma retry_one_running:
  "running (retry_one binds now serve st b) =
     (if b \<in> set binds then (case snd (serve b) of Inr h \<Rightarrow> (running st)(b \<mapsto> h) | Inl err \<Rightarrow> running st) else running st)"
  by (simp add: retry_one_def split: sum.splits option.splits)

lemma retry_one_queued:
  "queued (retry_one binds now serve st b) =
     (if b \<in> set binds
      then (case snd (serve b) of
         Inr h \<Rightarrow> (queued st)(b := None)
       | Inl err \<Rightarrow> (queued st)(b := map_option (failed_again now (sock_addr b, err)) (queued st b)))
      else (queued st)(b := None))"
  by (auto simp: retry_one_def insert_listener_def delete_conv' update_conv' fun_upd_idem split: sum.splits option.splits)

lemma foldl_retry:
  assumes "distinct bs"
  shows "running (foldl (retry_one binds now serve) st bs) b =
      (if b \<in> set bs then running (retry_one binds now serve st b) b else running st b) \<and>
    queued (foldl (retry_one binds now serve) st bs) b =
      (if b \<in> set bs then queued (retry_one binds now serve st b) b else queued st b)"
  using assms
proof (induction bs arbitrary: st)
  case Nil
  show ?case by simp
next
  case (Cons c bs)
  have "running (retry_one binds now serve (retry_one binds now serve st c) b) b = running (retry_one binds now serve st b) b"
    "queued (retry_one binds now serve (retry_one binds now serve st c) b) b = queued (retry_one binds now serve st b) b"
    if "b \<noteq> c"
    using that by (simp_all add: retry_one_running retry_one_queued split: sum.splits)
  then show ?case using Cons by (auto simp: retry_one_running retry_one_queued split: sum.splits)
qed

lemma in_due:
  "distinct (List.map fst q) \<Longrightarrow>
     b \<in> set (List.map fst (List.filter (\<lambda>(b, r). is_due now r) q)) \<longleftrightarrow> (\<exists>r. map_of q b = Some r \<and> is_due now r)"
  by (force simp: map_of_eq_Some_iff)

lemma retry_pending_states:
  assumes "distinct (List.map fst (as_retry st))"
  shows "running (retry_pending_binds_at binds now serve st) b =
      (case queued st b of
         Some r \<Rightarrow> if is_due now r then running (retry_one binds now serve st b) b else running st b
       | None \<Rightarrow> running st b) \<and>
    queued (retry_pending_binds_at binds now serve st) b =
      (case queued st b of
         Some r \<Rightarrow> if is_due now r then queued (retry_one binds now serve st b) b else Some r
       | None \<Rightarrow> None)"
proof -
  have "distinct (List.map fst (List.filter (\<lambda>(b, r). is_due now r) (as_retry st)))"
    using assms by (simp add: distinct_map_filter)
  then show ?thesis
    using foldl_retry [of _ binds now serve st b] in_due [OF assms, of b now]
    by (simp add: retry_pending_binds_at_def split: option.splits)
qed

text \<open>The keys of the two maps stay distinct.\<close>

definition keys_distinct :: "'h app_state \<Rightarrow> bool" where
  "keys_distinct st \<longleftrightarrow> distinct (List.map fst (as_listeners st)) \<and> distinct (List.map fst (as_retry st))"

lemma keys_distinct_ops [simp]:
  "keys_distinct st \<Longrightarrow> keys_distinct (insert_listener b h st)"
  "keys_distinct st \<Longrightarrow> keys_distinct (schedule_bind_retry now b err st)"
  "keys_distinct st \<Longrightarrow> keys_distinct (close_listener st b)"
  "keys_distinct st \<Longrightarrow> keys_distinct (st\<lparr>as_retry := AList.delete b (as_retry st)\<rparr>)"
  "keys_distinct st \<Longrightarrow> keys_distinct (st\<lparr>as_retry := AList.update b r (as_retry st)\<rparr>)"
  by (simp_all add: keys_distinct_def insert_listener_def schedule_bind_retry_def close_listener_def
      distinct_update distinct_delete)

lemma keys_distinct_start [simp]: "keys_distinct st \<Longrightarrow> keys_distinct (start_listener serve st b)"
  by (simp add: start_listener_def split: prod.splits sum.splits)

lemma keys_distinct_retry [simp]: "keys_distinct st \<Longrightarrow> keys_distinct (retry_one binds now serve st b)"
  by (simp add: retry_one_def split: sum.splits option.splits)

lemma foldl_invariant: "I a \<Longrightarrow> (\<And>a x. I a \<Longrightarrow> I (f a x)) \<Longrightarrow> I (foldl f a xs)"
  by (induction xs arbitrary: a) simp_all

lemma keys_distinct_update [simp]: "keys_distinct st \<Longrightarrow> keys_distinct (update_listeners env_token binds token serve st)"
  by (simp add: update_listeners_def Let_def foldl_invariant [where I = keys_distinct])

lemma keys_distinct_pending [simp]: "keys_distinct st \<Longrightarrow> keys_distinct (retry_pending_binds_at binds now serve st)"
  by (simp add: retry_pending_binds_at_def foldl_invariant [where I = keys_distinct])

text \<open>The configured listeners differ in transport or address.\<close>

lemma keep_first_keys:
  "distinct (List.map bind_key (keep_first seen bs)) \<and> bind_key ` set (keep_first seen bs) \<inter> set seen = {}"
proof (induction bs arbitrary: seen)
  case Nil
  show ?case by simp
next
  case (Cons b bs)
  then show ?case using Cons.IH [of seen] Cons.IH [of "bind_key b # seen"] by auto
qed

lemma configured_keys_distinct: "distinct (List.map bind_key (configured_binds interfaces listed))"
  using keep_first_keys by (simp add: configured_binds_def dedup_binds_def Let_def rev_map [symmetric])

lemma configured_distinct: "distinct (configured_binds interfaces listed)"
  using configured_keys_distinct [of interfaces listed] by (simp add: distinct_map)

definition retry_ok :: "bind_retry \<Rightarrow> bool" where
  "retry_ok r \<longleftrightarrow> 1 \<le> br_attempts r \<and> br_next_at r = br_last_failed_at r + int (retry_backoff (br_attempts r)) * second"

definition app_ok :: "string option \<Rightarrow> 'h app \<Rightarrow> bool" where
  "app_ok env_token a \<longleftrightarrow>
     distinct (List.map bind_key (ap_binds a)) \<and> keys_distinct (ap_state a) \<and>
     (\<forall>b. running (ap_state a) b \<noteq> None \<longrightarrow> b \<in> set (ap_binds a)) \<and>
     (\<forall>b. running (ap_state a) b = None \<or> queued (ap_state a) b = None) \<and>
     (\<forall>b \<in> set (ap_binds a). running (ap_state a) b = None \<longrightarrow> queued (ap_state a) b = None \<longrightarrow>
        check_exposure env_token [b] (ap_token a) \<noteq> None) \<and>
     (\<forall>b r. queued (ap_state a) b = Some r \<longrightarrow> retry_ok r)"

lemma retry_ok_new [simp]: "retry_ok (bind_retry_new now err)"
  by (simp add: retry_ok_def bind_retry_new_def)

lemma retry_ok_again [simp]: "retry_ok (failed_again now err r)"
  by (simp add: retry_ok_def failed_again_def Let_def)

lemma start_queued_cases:
  "queued (start_listener serve st b) b = Some r \<Longrightarrow> retry_ok r \<and> (\<exists>err. snd (serve b) = Inl err)"
  by (auto simp: start_queued split: sum.splits option.splits)

lemma start_queued_None:
  "queued (start_listener serve st b) b = None \<Longrightarrow> \<exists>h. snd (serve b) = Inr h"
  by (auto simp: start_queued split: sum.splits option.splits)

lemma app_ok_reload:
  assumes "keys_distinct (ap_state a)" "\<forall>b. running (ap_state a) b = None \<or> queued (ap_state a) b = None"
    "\<forall>b r. queued (ap_state a) b = Some r \<longrightarrow> retry_ok r" "distinct (List.map bind_key binds)"
  shows "app_ok env_token (reload env_token binds token serve a)"
proof -
  have d: "distinct binds" using assms(4) by (simp add: distinct_map)
  note run = update_listeners_running [OF d, of env_token token serve "ap_state a"]
  note que = update_listeners_queued [OF d, of env_token token serve "ap_state a"]
  have "running (update_listeners env_token binds token serve (ap_state a)) b = None \<or>
      queued (update_listeners env_token binds token serve (ap_state a)) b = None" for b
    using assms(2) [rule_format, of b]
    by (cases "queued (start_listener serve (ap_state a) b) b")
      (auto simp: run que dest: start_queued_cases split: option.splits)
  moreover have "check_exposure env_token [b] token \<noteq> None"
    if "b \<in> set binds" "running (update_listeners env_token binds token serve (ap_state a)) b = None"
      "queued (update_listeners env_token binds token serve (ap_state a)) b = None" for b
    using that by (auto simp: run que dest: start_queued_None split: option.splits if_splits)
  moreover have "retry_ok r" if "queued (update_listeners env_token binds token serve (ap_state a)) b = Some r" for b r
    using that assms(3) by (auto simp: que dest: start_queued_cases split: if_splits)
  ultimately show ?thesis using assms(1, 4) by (auto simp: app_ok_def reload_def run split: if_splits)
qed

lemma retry_one_cases:
  assumes "queued st b = Some r" "running st b = None"
  shows "(b \<notin> set binds \<and> running (retry_one binds now serve st b) b = None \<and> queued (retry_one binds now serve st b) b = None) \<or>
    (b \<in> set binds \<and> (\<exists>h. snd (serve b) = Inr h \<and> running (retry_one binds now serve st b) b = Some h) \<and>
       queued (retry_one binds now serve st b) b = None) \<or>
    (b \<in> set binds \<and> running (retry_one binds now serve st b) b = None \<and>
       (\<exists>err. snd (serve b) = Inl err \<and> queued (retry_one binds now serve st b) b = Some (failed_again now (sock_addr b, err) r)))"
  using assms by (auto simp: retry_one_running retry_one_queued split: sum.splits)

lemma app_ok_tick:
  assumes "app_ok env_token a"
  shows "app_ok env_token (retry_tick now serve a)"
proof -
  let ?st = "ap_state a" and ?st' = "retry_pending_binds_at (ap_binds a) now serve (ap_state a)"
  have kd: "distinct (List.map fst (as_retry ?st))" "keys_distinct ?st"
    using assms by (simp_all add: app_ok_def keys_distinct_def)
  note rp = retry_pending_states [OF kd(1), of "ap_binds a" now serve]
  have "(running ?st' b = running ?st b \<and> queued ?st' b = queued ?st b) \<or>
      (running ?st b = None \<and> (\<exists>r. queued ?st b = Some r \<and> running ?st' b = running (retry_one (ap_binds a) now serve ?st b) b \<and>
         queued ?st' b = queued (retry_one (ap_binds a) now serve ?st b) b))" for b
  proof (cases "queued ?st b")
    case None
    then show ?thesis using rp [of b] by simp
  next
    case (Some r)
    then have "running ?st b = None" using assms by (metis app_ok_def option.distinct(1))
    then show ?thesis using rp [of b] Some by simp
  qed
  then have c: "(running ?st' b = running ?st b \<and> queued ?st' b = queued ?st b) \<or>
      (b \<notin> set (ap_binds a) \<and> running ?st' b = None \<and> queued ?st' b = None) \<or>
      (b \<in> set (ap_binds a) \<and> running ?st' b \<noteq> None \<and> queued ?st' b = None) \<or>
      (b \<in> set (ap_binds a) \<and> running ?st' b = None \<and> (\<exists>r. queued ?st' b = Some r \<and> retry_ok r))" for b
    using retry_one_cases [of ?st b _ "ap_binds a" now serve] by (metis option.distinct(1) retry_ok_again)
  show ?thesis
    unfolding app_ok_def retry_tick_def
    using assms kd(2) c by (simp add: app_ok_def) (metis option.distinct(1) option.inject)
qed

lemma app_ok_reachable: "app_reachable env_token a \<Longrightarrow> app_ok env_token a"
proof (induction rule: app_reachable.induct)
  case (Start interfaces listed token serve)
  show ?case by (rule app_ok_reload) (simp_all add: app_new_def keys_distinct_def configured_keys_distinct)
next
  case (Step a b)
  from Step.hyps(2) show ?case
  proof (cases rule: app_step.cases)
    case (Reload interfaces listed token serve)
    then show ?thesis
      using Step.IH app_ok_reload [of a "configured_binds interfaces listed" env_token token serve]
      by (simp add: app_ok_def configured_keys_distinct)
  next
    case (Tick now serve)
    then show ?thesis using Step.IH by (simp add: app_ok_tick)
  qed
qed

text \<open>A handle leaves the table of listeners only by being shut down.\<close>

definition kept_or_closed :: "'h app_state \<Rightarrow> 'h app_state \<Rightarrow> bool" where
  "kept_or_closed st st' \<longleftrightarrow> set (as_closed st) \<subseteq> set (as_closed st') \<and>
     (\<forall>b h. running st b = Some h \<longrightarrow> running st' b = Some h \<or> h \<in> set (as_closed st'))"

lemma kept_or_closed_refl [simp]: "kept_or_closed st st"
  by (simp add: kept_or_closed_def)

lemma kept_or_closed_trans: "kept_or_closed st st' \<Longrightarrow> kept_or_closed st' st'' \<Longrightarrow> kept_or_closed st st''"
  unfolding kept_or_closed_def by blast

lemma kept_or_closed_ops:
  "kept_or_closed st (insert_listener b h (st\<lparr>as_retry := q\<rparr>))"
  "kept_or_closed st (close_listener st b)"
  "kept_or_closed st (schedule_bind_retry now b err st)"
  "kept_or_closed st (st\<lparr>as_retry := q\<rparr>)"
  by (auto simp: kept_or_closed_def insert_listener_def close_listener_def schedule_bind_retry_def update_conv'
      delete_conv' split: option.splits)

lemma kept_or_closed_start: "kept_or_closed st (start_listener serve st b)"
  by (simp add: start_listener_def kept_or_closed_ops split: prod.splits sum.splits)

lemma kept_or_closed_retry: "kept_or_closed st (retry_one binds now serve st b)"
  by (simp add: retry_one_def kept_or_closed_ops split: sum.splits option.splits)

lemma kept_or_closed_foldl: "(\<And>st x. kept_or_closed st (f st x)) \<Longrightarrow> kept_or_closed st (foldl f st xs)"
  by (induction xs arbitrary: st) (auto intro: kept_or_closed_trans)

lemma kept_or_closed_update: "kept_or_closed st (update_listeners env_token binds token serve st)"
  unfolding update_listeners_def Let_def
  by (rule kept_or_closed_trans [OF kept_or_closed_foldl kept_or_closed_foldl])
    (rule kept_or_closed_ops(2), rule kept_or_closed_start)

lemma kept_or_closed_pending: "kept_or_closed st (retry_pending_binds_at binds now serve st)"
  unfolding retry_pending_binds_at_def Let_def by (rule kept_or_closed_foldl) (rule kept_or_closed_retry)

lemma backoff_bounds: "1 \<le> retry_backoff n \<and> retry_backoff n \<le> 60"
  by (simp add: retry_backoff_def Let_def)

section \<open>Properties\<close>

text \<open>C21: No address is forgotten and none is served twice: in every state that reloads and ticks reach, when they do
  not overlap, only configured
  addresses are served, an address that is served is not in the retry queue, and every configured
  address is served, or waits in the queue for at most a minute after its last failure, or was refused
  because it would expose the console.\<close>

theorem listeners_follow_configuration:
  assumes "app_reachable env_token a"
  shows "(\<forall>b h. running (ap_state a) b = Some h \<longrightarrow> b \<in> set (ap_binds a) \<and> queued (ap_state a) b = None) \<and>
    (\<forall>b \<in> set (ap_binds a). (\<exists>h. running (ap_state a) b = Some h) \<or>
       (\<exists>r. queued (ap_state a) b = Some r \<and> br_next_at r \<le> br_last_failed_at r + 60 * second) \<or>
       check_exposure env_token [b] (ap_token a) \<noteq> None)"
proof -
  have ok: "app_ok env_token a" using assms by (rule app_ok_reachable)
  have "br_next_at r \<le> br_last_failed_at r + 60 * second" if "queued (ap_state a) b = Some r" for b r
  proof -
    have "br_next_at r = br_last_failed_at r + int (retry_backoff (br_attempts r)) * second"
      using ok that by (auto simp: app_ok_def retry_ok_def)
    then show ?thesis using backoff_bounds [of "br_attempts r"] by (simp add: second_def)
  qed
  then show ?thesis using ok unfolding app_ok_def by (metis option.distinct(1) option.exhaust)
qed

text \<open>No two listeners compete for one address: of two listeners that are served over the same kind of
  transport, datagrams or streams, the socket addresses differ.\<close>

theorem served_addresses_differ:
  assumes "app_reachable env_token a" "running (ap_state a) b1 = Some h1" "running (ap_state a) b2 = Some h2" "b1 \<noteq> b2"
  shows "over_datagrams b1 \<noteq> over_datagrams b2 \<or> sock_addr b1 \<noteq> sock_addr b2"
proof -
  have "inj_on bind_key (set (ap_binds a))" "b1 \<in> set (ap_binds a)" "b2 \<in> set (ap_binds a)"
    using app_ok_reachable [OF assms(1)] assms(2, 3) unfolding app_ok_def distinct_map by (metis option.distinct(1))+
  then show ?thesis using assms(4) by (auto simp: inj_on_def bind_key_def)
qed

text \<open>A busy address recovers without a restart: as soon as a retry of a queued address that is still
  configured succeeds at a tick at or after its time, the address is served, under the handle of that
  retry, and has left the queue.\<close>

theorem queued_address_recovers:
  assumes "app_reachable env_token a" "queued (ap_state a) b = Some r" "b \<in> set (ap_binds a)"
    and "br_next_at r \<le> now" "snd (serve b) = Inr h"
  shows "running (ap_state (retry_tick now serve a)) b = Some h \<and> queued (ap_state (retry_tick now serve a)) b = None"
proof -
  have "distinct (List.map fst (as_retry (ap_state a)))"
    using app_ok_reachable [OF assms(1)] by (simp add: app_ok_def keys_distinct_def)
  from retry_pending_states [OF this, of "ap_binds a" now serve b] show ?thesis
    using assms(2-5) by (simp add: retry_tick_def is_due_def retry_one_running retry_one_queued)
qed

text \<open>C32: No listener is lost and none that stays configured is interrupted: at every step a handle that
  serves an address goes on serving it or is shut down, and a reload leaves the handle of an address
  that is configured before and after alone.\<close>

theorem listener_never_lost:
  assumes "app_step env_token a a'" "running (ap_state a) b = Some h"
  shows "(running (ap_state a') b = Some h \<or> h \<in> set (as_closed (ap_state a'))) \<and>
    (b \<in> set (configured_binds interfaces listed) \<longrightarrow>
       running (ap_state (reload env_token (configured_binds interfaces listed) token serve a)) b = Some h)"
proof -
  have "kept_or_closed (ap_state a) (ap_state a')"
    using assms(1) by (cases rule: app_step.cases)
      (simp_all add: reload_def retry_tick_def kept_or_closed_update kept_or_closed_pending)
  then show ?thesis
    using assms(2) by (auto simp: kept_or_closed_def reload_def update_listeners_running [OF configured_distinct])
qed

text \<open>C27: The check that keeps the console from being exposed is skipped by the retry queue: an address that
  is waiting in the queue when a reload takes the token away is refused by that reload, stays in the
  queue all the same, and is served at the next tick that finds its port free.\<close>

theorem retry_bypasses_exposure_check:
  assumes "app_reachable env_token a" "queued (ap_state a) b = Some r" "br_next_at r \<le> now" "snd (serve' b) = Inr h"
    and "b \<in> set (configured_binds interfaces listed)" "check_exposure env_token [b] token \<noteq> None"
  shows "running (ap_state (reload env_token (configured_binds interfaces listed) token serve a)) b = None \<and>
    running (ap_state (retry_tick now serve'
       (reload env_token (configured_binds interfaces listed) token serve a))) b = Some h"
proof -
  let ?a = "reload env_token (configured_binds interfaces listed) token serve a"
  have none: "running (ap_state a) b = None"
    using app_ok_reachable [OF assms(1)] assms(2) by (metis app_ok_def option.distinct(1))
  have r: "app_reachable env_token ?a" using assms(1) by (rule app_reachable.Step) (rule app_step.Reload)
  have q: "queued (ap_state ?a) b = Some r" "running (ap_state ?a) b = None" "b \<in> set (ap_binds ?a)"
    using assms(2, 5, 6) none
    by (auto simp: reload_def update_listeners_queued [OF configured_distinct]
        update_listeners_running [OF configured_distinct])
  have "distinct (List.map fst (as_retry (ap_state ?a)))"
    using app_ok_reachable [OF r] by (simp add: app_ok_def keys_distinct_def)
  from retry_pending_states [OF this, of "ap_binds ?a" now serve' b] show ?thesis
    using q assms(3, 4) by (simp add: retry_tick_def is_due_def retry_one_running)
qed

text \<open>What is not so when a reload and a tick overlap. A tick that read its due addresses and the configuration before
  a reload took an address out goes on with what it read: the address is served although it is not configured
  any more, until the next reload. A reload that saw an address without a listener, before a tick served
  it, tries to serve it again: the attempt fails on the port that the server itself holds, and the
  address is both served and queued.\<close>

theorem overtaken_retry_serves_unconfigured:
  assumes "b \<in> set (ap_binds a)" "snd (serve' b) = Inr h" "b \<notin> set (configured_binds interfaces listed)"
  shows "let a' = reload env_token (configured_binds interfaces listed) token serve a in
    b \<notin> set (ap_binds a') \<and> running (retry_one (ap_binds a) now serve' (ap_state a') b) b = Some h"
  using assms by (simp add: reload_def retry_one_running Let_def)

theorem overtaken_reload_queues_served:
  assumes "b \<in> set binds" "snd (serve b) = Inr h" "snd (serve' b) = Inl err"
  shows "let st' = start_listener serve' (retry_one binds now serve st b) b in
    running st' b = Some h \<and> queued st' b \<noteq> None"
  using assms by (simp add: retry_one_running start_running start_queued Let_def)

section \<open>Witnesses\<close>

definition demo_fields :: "u16 \<Rightarrow> bind_fields" where
  "demo_fields port = \<lparr>bf_addr = BA_V4 0, bf_port = port, bf_device = None, bf_opts = server_opts_default, bf_enabled = None\<rparr>"

definition demo_http :: bind_addr_config where
  "demo_http = BindHttp (demo_fields 8000)"

definition demo_udp :: bind_addr_config where
  "demo_udp = BindUdp (demo_fields 53)"

text \<open>The port of the console is taken when the server starts, five seconds on its clock.\<close>

definition demo_serve :: "nat serving" where
  "demo_serve b = (5, if b = demo_http then Inl ''address in use'' else Inr 1)"

definition demo_app :: "nat app" where
  "demo_app = reload None (configured_binds None [demo_http, demo_udp]) (Some ''secret'') demo_serve app_new"

lemma demo_reachable: "app_reachable None demo_app"
  unfolding demo_app_def by (rule app_reachable.Start)

lemma demo_states:
  "running (ap_state demo_app) demo_udp = Some 1"
  "queued (ap_state demo_app) demo_http = Some (bind_retry_new 5 (sock_addr demo_http, ''address in use''))"
  "demo_http \<in> set (ap_binds demo_app)"
  "demo_http \<in> set (configured_binds None [demo_http, demo_udp])"
  "check_exposure None [demo_http] None \<noteq> None"
  "br_next_at (bind_retry_new 5 (sock_addr demo_http, ''address in use'')) \<le> 1000000005"
  by code_simp+

theorem listeners_follow_configuration_witness:
  "queued (ap_state demo_app) demo_udp = None"
  using listeners_follow_configuration [OF demo_reachable] demo_states(1) by blast

theorem served_addresses_differ_witness:
  "\<exists>h. running (ap_state (retry_tick 1000000005 (\<lambda>b. (6, Inr 2)) demo_app)) demo_http = Some h \<and>
     (over_datagrams demo_udp \<noteq> over_datagrams demo_http \<or> sock_addr demo_udp \<noteq> sock_addr demo_http)"
proof -
  let ?a = "retry_tick 1000000005 (\<lambda>b. (6, Inr 2)) demo_app"
  have r: "app_reachable None ?a" using demo_reachable by (rule app_reachable.Step) (rule app_step.Tick)
  have h: "running (ap_state ?a) demo_udp = Some 1" "running (ap_state ?a) demo_http = Some 2" "demo_udp \<noteq> demo_http"
    by code_simp+
  show ?thesis using served_addresses_differ [OF r h] h by blast
qed

theorem queued_address_recovers_witness:
  "running (ap_state (retry_tick 1000000005 (\<lambda>b. (6, Inr 2)) demo_app)) demo_http = Some 2"
  using queued_address_recovers [OF demo_reachable demo_states(2, 3, 6), of "\<lambda>b. (6, Inr 2)" 2] by simp

theorem listener_never_lost_witness:
  "running (ap_state (reload None (configured_binds None [demo_udp]) None demo_serve demo_app)) demo_udp = Some 1"
proof -
  have "app_step None demo_app (retry_tick 9 demo_serve demo_app)" by (rule app_step.Tick)
  moreover have "demo_udp \<in> set (configured_binds None [demo_udp])" by code_simp
  ultimately show ?thesis using listener_never_lost [OF _ demo_states(1)] by blast
qed

theorem retry_bypasses_exposure_check_witness:
  "running (ap_state (retry_tick 1000000005 (\<lambda>b. (6, Inr 2))
     (reload None (configured_binds None [demo_http, demo_udp]) None demo_serve demo_app))) demo_http = Some 2"
  using retry_bypasses_exposure_check [OF demo_reachable demo_states(2, 6) _ demo_states(4, 5), of "\<lambda>b. (6, Inr 2)" 2]
  by simp

theorem overtaken_retry_serves_unconfigured_witness:
  "running (retry_one (ap_binds demo_app) 1000000005 (\<lambda>b. (6, Inr 2))
     (ap_state (reload None (configured_binds None [demo_udp]) None demo_serve demo_app)) demo_http) demo_http = Some 2"
proof -
  have "demo_http \<notin> set (configured_binds None [demo_udp])" by code_simp
  then show ?thesis
    using overtaken_retry_serves_unconfigured [OF demo_states(3), of "\<lambda>b. (6, Inr 2)" 2 None "[demo_udp]"]
    by (simp add: Let_def)
qed

theorem overtaken_reload_queues_served_witness:
  "queued (start_listener demo_serve (retry_one [demo_http] 1000000005 (\<lambda>b. (6, Inr 2)) (ap_state demo_app) demo_http) demo_http)
     demo_http \<noteq> None"
  using overtaken_reload_queues_served [of demo_http "[demo_http]" "\<lambda>b. (6, Inr 2)" 2 demo_serve]
  by (simp add: demo_serve_def Let_def)

end
