(* ===== verification/App.thy ===== *)
theory App
  imports Mw_Client Message_Read
begin

text \<open>
  From the octets of a request to the octets of its reply (\<open>app.rs\<close>: \<open>process\<close>, \<open>process_inner\<close> and what
  they call; \<open>dns.rs\<close>: \<open>SerialMessage\<close> and the conversion to a request; \<open>server/mod.rs\<close>: \<open>DnsHandle::send\<close>;
  \<open>server/udp.rs\<close>: the check before a datagram is sent). The handler of a query is a record of the
  parameters of \<open>search\<close>. A panic inside \<open>process_inner\<close> is the value \<open>Panicked\<close>: the model has the
  assertion on the counts of sections that are too long.
\<close>

type_synonym sock_addr = "ip_addr \<times> u16"

section \<open>Messages on their way\<close>

datatype serial_message =
    SM_Raw message sock_addr protocol "sock_addr option"
  | SM_Bytes "u8 list" sock_addr protocol "sock_addr option"

definition sm_binary :: "u8 list \<Rightarrow> sock_addr \<Rightarrow> protocol \<Rightarrow> serial_message" where
  "sm_binary bytes a p = SM_Bytes bytes a p None"

definition sm_raw :: "message \<Rightarrow> sock_addr \<Rightarrow> protocol \<Rightarrow> serial_message" where
  "sm_raw m a p = SM_Raw m a p None"

fun with_grouping_addr :: "sock_addr \<Rightarrow> serial_message \<Rightarrow> serial_message" where
  "with_grouping_addr g (SM_Raw m a p _) = SM_Raw m a p (Some g)"
| "with_grouping_addr g (SM_Bytes bs a p _) = SM_Bytes bs a p (Some g)"

fun grouping_addr :: "serial_message \<Rightarrow> sock_addr option" where
  "grouping_addr (SM_Raw m a p g) = g"
| "grouping_addr (SM_Bytes bs a p g) = g"

fun sm_protocol :: "serial_message \<Rightarrow> protocol" where
  "sm_protocol (SM_Raw m a p g) = p"
| "sm_protocol (SM_Bytes bs a p g) = p"

fun sm_addr :: "serial_message \<Rightarrow> sock_addr" where
  "sm_addr (SM_Raw m a p g) = a"
| "sm_addr (SM_Bytes bs a p g) = a"

fun sm_octets :: "serial_message \<Rightarrow> (u8 list, iter_error) result" where
  "sm_octets (SM_Raw m a p g) = to_vec m"
| "sm_octets (SM_Bytes bs a p g) = Inr bs"

fun sm_message :: "serial_message \<Rightarrow> (message, read_error) result" where
  "sm_message (SM_Raw m a p g) = Inr m"
| "sm_message (SM_Bytes bs a p g) = from_vec bs"

definition request_try_from :: "serial_message \<Rightarrow> (request, read_error) result" where
  "request_try_from sm =
     result_bind (sm_message sm) (\<lambda>m.
       Inr (with_forwarded_client (map_option fst (grouping_addr sm)) (request_new m (sm_addr sm) (sm_protocol sm))))"

section \<open>Replies without data\<close>

text \<open>What a reply needs of a request: its header, its queries, and where to send it. The header can be
  read even if the rest of the message cannot.\<close>

fun response_material :: "serial_message \<Rightarrow> (header \<times> query list \<times> sock_addr \<times> protocol) option" where
  "response_material (SM_Raw m a p g) = Some (m_header m, m_queries m, a, p)"
| "response_material (SM_Bytes bs a p g) =
     (case from_vec bs of
        Inr m \<Rightarrow> Some (m_header m, m_queries m, a, p)
      | Inl _ \<Rightarrow>
          if 12 \<le> length bs then map_option (\<lambda>(h, rest). (h, [], a, p)) (read_header bs) else None)"

text \<open>A reply with a code, the id and the queries of the request, as \<open>servfail_stub\<close>, \<open>not_imp_response\<close> and
  \<open>DnsHandle::send\<close> build it.\<close>

definition coded_reply :: "u16 \<Rightarrow> rcode \<Rightarrow> header \<Rightarrow> query list \<Rightarrow> message" where
  "coded_reply rid rc h qs =
     fold m_add_query qs
       ((m_to_response (message_query rid))\<lparr>m_header := (response_from_request h)\<lparr>h_response_code := rc\<rparr>\<rparr>)"

definition servfail_stub :: "u16 \<Rightarrow> serial_message \<Rightarrow> serial_message option" where
  "servfail_stub rid sm =
     map_option (\<lambda>(h, qs, a, p). sm_raw (coded_reply rid RC_ServFail h qs) a p) (response_material sm)"

definition not_imp_response :: "u16 \<Rightarrow> header \<Rightarrow> query list \<Rightarrow> sock_addr \<Rightarrow> protocol \<Rightarrow> serial_message" where
  "not_imp_response rid h qs a p = sm_raw (coded_reply rid RC_NotImp h qs) a p"

section \<open>The answer to a query\<close>

text \<open>The handler of queries: the configuration and the chain, with what they read from outside.\<close>

record 'w dns_handler =
  dh_glob :: "string \<Rightarrow> string \<Rightarrow> bool"
  dh_net_contains :: "ip_net \<Rightarrow> ip_addr \<Rightarrow> bool"
  dh_arp :: "ip_addr \<Rightarrow> string option"
  dh_now_secs :: u64
  dh_host :: "'w handler"
  dh_cfg :: rt_config

definition handler_search ::
    "'w dns_handler \<Rightarrow> request \<Rightarrow> server_opts \<Rightarrow> query_limiter \<times> 'w \<Rightarrow>
     (dns_response, lookup_error) result \<times> query_limiter \<times> 'w" where
  "handler_search mw req opts st =
     search (dh_glob mw) (dh_net_contains mw) (dh_arp mw) (dh_now_secs mw) (dh_host mw) (dh_cfg mw) req opts st"

definition negative_soa_ttl :: "rt_config \<Rightarrow> string \<Rightarrow> u32" where
  "negative_soa_ttl cfg grp =
     min (unwrap_or (map_option ucast (rr_ttl_in_group cfg grp)) 60)
       (unwrap_or (map_option ucast (rr_ttl_reply_max_in_group cfg grp)) (- 1))"

text \<open>The header and the answer after a search: an error with a SOA record is an answer, an explicit code is
  the code of the reply, a name that does not exist becomes an answer without data but with a SOA record,
  and any other error is a failure of the server.\<close>

definition settle_result ::
    "env \<Rightarrow> u32 \<Rightarrow> query \<Rightarrow> header \<Rightarrow> (dns_response, lookup_error) result \<Rightarrow> header \<times> dns_response" where
  "settle_result ev soa_ttl q h res =
     (case res of
        Inr lookup \<Rightarrow> (h, lookup)
      | Inl e \<Rightarrow>
          let bare = r_add_query q (response_empty (ev_rid ev) (ev_now ev))
          in (case (explicit_response_code e, as_soa (ev_rid ev) (ev_now ev) q e) of
                (_, Some soa) \<Rightarrow> (h, soa)
              | (Some code, None) \<Rightarrow> (h\<lparr>h_response_code := code\<rparr>, bare)
              | (None, None) \<Rightarrow>
                  if is_nx_domain e then
                    (h, r_add_authority (forge_soa_record (ev_build ev) (q_name q) soa_ttl) bare)
                  else (h\<lparr>h_response_code := RC_ServFail\<rparr>, bare)))"

definition udp_limit :: "request \<Rightarrow> nat" where
  "udp_limit req =
     unat (unwrap_or (map_option (\<lambda>e. clamp 512 4096 (ed_max_payload e)) (m_edns (rq_message req))) 512)"

definition recount :: "message \<Rightarrow> message" where
  "recount m = m\<lparr>m_header := update_header_counts (m_header m) (h_truncation (m_header m)) (m_counts m)\<rparr>"

definition m_set_truncated :: "message \<Rightarrow> message" where
  "m_set_truncated m = m\<lparr>m_header := (m_header m)\<lparr>h_truncation := True\<rparr>\<rparr>"

definition too_long :: "nat \<Rightarrow> message \<Rightarrow> bool" where
  "too_long max_payload m = (case to_vec m of Inr bytes \<Rightarrow> max_payload < length bytes | Inl _ \<Rightarrow> False)"

definition fit_udp :: "nat \<Rightarrow> message \<Rightarrow> message" where
  "fit_udp max_payload m =
     (if too_long max_payload m then
        (let m1 = (m_set_truncated m)\<lparr>m_additionals := [], m_authorities := []\<rparr>
         in recount (if too_long max_payload m1 then m1\<lparr>m_answers := []\<rparr> else m1))
      else m)"

datatype outcome = Replied serial_message | Dropped | Panicked

definition process_inner ::
    "env \<Rightarrow> 'w dns_handler \<Rightarrow> serial_message \<Rightarrow> server_opts \<Rightarrow> query_limiter \<times> 'w \<Rightarrow>
     outcome \<times> query_limiter \<times> 'w" where
  "process_inner ev mw sm opts st =
     (case request_try_from sm of
        Inl _ \<Rightarrow> (Dropped, st)
      | Inr req \<Rightarrow>
          let rh = m_header (rq_message req); a = sm_addr sm; p = sm_protocol sm
          in (case h_message_type rh of
                MResponse \<Rightarrow> (Dropped, st)
              | MQuery \<Rightarrow>
                  if h_op_code rh \<noteq> OpQuery then
                    (Replied (not_imp_response (ev_rid ev) rh (m_queries (rq_message req)) a p), st)
                  else
                    let h = (response_from_request rh)\<lparr>h_recursion_available := True, h_authoritative := False\<rparr>;
                        (res, st') = handler_search mw req opts st;
                        ttl = negative_soa_ttl (dh_cfg mw) (rule_group_name (dh_net_contains mw) (dh_cfg mw) req opts);
                        (h', lookup) = settle_result ev ttl (rq_query req) h res
                    in if \<not> counts_fit (m_counts (r_message lookup)) then (Panicked, st')
                       else
                         let m = into_message (Some h') lookup
                         in (Replied (sm_raw (if p = P_Udp then fit_udp (udp_limit req) m else m) a p), st')))"

text \<open>The material of the fallback is taken before the message is consumed.\<close>

definition process ::
    "env \<Rightarrow> 'w dns_handler \<Rightarrow> serial_message \<Rightarrow> server_opts \<Rightarrow> query_limiter \<times> 'w \<Rightarrow>
     serial_message option \<times> query_limiter \<times> 'w" where
  "process ev mw sm opts st =
     (let fallback = servfail_stub (ev_rid ev) sm
      in case process_inner ev mw sm opts st of
           (Replied r, st') \<Rightarrow> (Some r, st')
         | (Dropped, st') \<Rightarrow> (None, st')
         | (Panicked, st') \<Rightarrow> (fallback, st'))"

section \<open>Sending\<close>

text \<open>What becomes of a message that a listener hands in: the queue does not take it, it is answered, or its
  task ends without a reply.\<close>

datatype delivery = Overloaded | Answered serial_message | Abandoned

definition refusal :: "u16 \<Rightarrow> sock_addr \<Rightarrow> protocol \<Rightarrow> message \<Rightarrow> serial_message" where
  "refusal rid a p m = sm_raw (m_set_response_code RC_Refused m) a p"

definition handle_send :: "u16 \<Rightarrow> serial_message \<Rightarrow> delivery \<Rightarrow> serial_message" where
  "handle_send rid sm d =
     (let a = sm_addr sm; p = sm_protocol sm;
          refusal_material = (if p = P_Udp then None else response_material sm)
      in case d of
           Overloaded \<Rightarrow>
             if p = P_Udp then sm_binary [] a p
             else refusal rid a p
               (case request_try_from sm of
                  Inr req \<Rightarrow> m_to_response (rq_message req)
                | Inl _ \<Rightarrow> m_to_response (message_query rid))
         | Answered r \<Rightarrow> r
         | Abandoned \<Rightarrow>
             if p = P_Udp then sm_binary [] a p
             else (case refusal_material of
                     Some (h, qs, _, _) \<Rightarrow> sm_raw (coded_reply rid RC_Refused h qs) a p
                   | None \<Rightarrow> refusal rid a p (m_to_response (message_query rid))))"

definition exchange ::
    "env \<Rightarrow> 'w dns_handler \<Rightarrow> serial_message \<Rightarrow> server_opts \<Rightarrow> query_limiter \<times> 'w \<Rightarrow>
     serial_message \<times> query_limiter \<times> 'w" where
  "exchange ev mw sm opts st =
     (case process ev mw sm opts st of
        (Some r, st') \<Rightarrow> (handle_send (ev_rid ev) sm (Answered r), st')
      | (None, st') \<Rightarrow> (handle_send (ev_rid ev) sm Abandoned, st'))"

text \<open>A datagram is only sent if it is a response.\<close>

definition is_dns_response :: "u8 list \<Rightarrow> bool" where
  "is_dns_response buffer \<longleftrightarrow> 12 \<le> length buffer \<and> buffer ! 2 AND 0x80 \<noteq> 0"

definition udp_datagram :: "serial_message \<Rightarrow> u8 list option" where
  "udp_datagram r =
     (case sm_octets r of
        Inr buffer \<Rightarrow> if is_dns_response buffer then Some buffer else None
      | Inl _ \<Rightarrow> None)"

section \<open>The header on the wire\<close>

lemma emit_at_front:
  assumes "emit_at 0 bs en = Inr en'"
  shows "\<exists>ys. en_buffer en' = bs @ ys"
  using assms by (auto simp: emit_at_def write_slice_def buffer_write_def Let_def split: if_splits)

lemma to_vec_front:
  assumes "to_vec m = Inr bs"
  obtains h ys where "bs = emit_header h @ ys" "h_message_type h = h_message_type (m_header m)" "h_id h = h_id (m_header m)"
proof -
  obtain h en where e: "emit_message m encoder_new = Inr (h, en)" "bs = en_buffer en"
    using assms by (auto simp: to_vec_def split: sum.splits)
  have "h_message_type h = h_message_type (m_header m) \<and> h_id h = h_id (m_header m) \<and> (\<exists>ys. bs = emit_header h @ ys)"
    by (rule emit_message_sections [OF e(1)])
      (use emit_at_front e(2) in \<open>auto simp: update_header_counts_def encoder_new_def\<close>)
  then show thesis using that by blast
qed

lemma response_octets:
  assumes "to_vec m = Inr bs" "h_message_type (m_header m) = MResponse"
  shows "is_dns_response bs"
proof -
  obtain h ys where h: "bs = emit_header h @ ys" "h_message_type h = MResponse"
    using to_vec_front [OF assms(1)] assms(2) by metis
  let ?f = "emit_flags1 MResponse (h_op_code h) (h_authoritative h) (h_truncation h) (h_recursion_desired h)"
  have "bit ?f 7" by (simp add: emit_flags1_def flag_def bit_or_iff bit_simps)
  then have "bit (?f AND 0x80) 7" by (simp add: bit_and_iff)
  then have "?f AND 0x80 \<noteq> 0" by force
  then show ?thesis using h by (simp add: is_dns_response_def emit_header_def emit_u16_def)
qed

lemma read_header_front:
  assumes "read_header bs = Some (h, rest)"
  shows "12 \<le> length bs \<and> h_message_type h = flags1_type (bs ! 2) \<and>
    h_id h = push_bit 8 (ucast (bs ! 0)) OR ucast (bs ! 1)"
  using assms by (auto simp: read_header_def split: option.splits elim!: read_u16.elims read_u8.elims)

lemma from_vec_header:
  assumes "from_vec bs = Inr m"
  obtains h rest where "read_header bs = Some (h, rest)" "h_message_type (m_header m) = h_message_type h"
    "h_id (m_header m) = h_id h"
proof -
  obtain j where "rd_message bs 0 = Inr (m, j)" using assms by (auto simp: from_vec_def result_bind_Inr_iff)
  then obtain h i where "rd_header bs 0 = Inr (h, i)" "h_message_type (m_header m) = h_message_type h"
    "h_id (m_header m) = h_id h"
    by (auto simp: rd_message_def rd_bind_Inr_iff rd_return_def merge_response_code_def split: option.splits)
  then show thesis using that by (auto simp: rd_header_def split: option.splits)
qed

lemma response_read:
  assumes "from_vec bs = Inr m" "is_dns_response bs"
  shows "h_message_type (m_header m) = MResponse"
proof -
  obtain h rest where h: "read_header bs = Some (h, rest)" "h_message_type (m_header m) = h_message_type h"
    by (rule from_vec_header [OF assms(1)])
  have "has_flag 0x80 (bs ! 2)"
    using assms(2) and_exp_eq_0_iff_not_bit [of "bs ! 2" 7] by (simp add: is_dns_response_def has_flag_bits)
  then show ?thesis using h read_header_front [OF h(1)] by (simp add: flags1_type_def)
qed

section \<open>The shape of a reply\<close>

text \<open>What a client needs to take a message as the answer to its own.\<close>

definition reply_to :: "header \<Rightarrow> message \<Rightarrow> bool" where
  "reply_to h m \<longleftrightarrow>
     h_id (m_header m) = h_id h \<and> h_message_type (m_header m) = MResponse \<and>
     h_op_code (m_header m) = h_op_code h \<and> h_recursion_desired (m_header m) = h_recursion_desired h \<and>
     h_checking_disabled (m_header m) = h_checking_disabled h \<and> \<not> h_authoritative (m_header m)"

definition without_records :: "message \<Rightarrow> bool" where
  "without_records m \<longleftrightarrow> m_answers m = [] \<and> m_authorities m = [] \<and> m_additionals m = []"

lemma fold_add_query: "fold m_add_query qs m = m\<lparr>m_queries := m_queries m @ qs\<rparr>"
  by (induction qs arbitrary: m) (simp_all add: m_add_query_def)

lemma coded_reply_eq:
  "coded_reply rid rc h qs =
     \<lparr>m_header = (response_from_request h)\<lparr>h_response_code := rc\<rparr>, m_queries = qs, m_answers = [],
      m_authorities = [], m_additionals = [], m_edns = None\<rparr>"
  by (simp add: coded_reply_def fold_add_query m_to_response_def message_query_def message_new_def)

lemma coded_reply_to: "reply_to h (coded_reply rid rc h qs)" "without_records (coded_reply rid rc h qs)"
  by (simp_all add: coded_reply_eq reply_to_def without_records_def response_from_request_def)

lemma reply_to_fit: "reply_to h m \<Longrightarrow> reply_to h (fit_udp n m)"
  by (simp add: reply_to_def fit_udp_def recount_def m_set_truncated_def update_header_counts_def Let_def)

lemma fit_udp_kept [simp]:
  "m_queries (fit_udp n m) = m_queries m" "m_edns (fit_udp n m) = m_edns m"
  "h_response_code (m_header (fit_udp n m)) = h_response_code (m_header m)"
  "h_recursion_available (m_header (fit_udp n m)) = h_recursion_available (m_header m)"
  by (simp_all add: fit_udp_def recount_def m_set_truncated_def update_header_counts_def Let_def)

lemma settle_result_header:
  "settle_result ev ttl q h res = (h', lookup) \<Longrightarrow> \<exists>rc. h' = h\<lparr>h_response_code := rc\<rparr>"
  by (cases h) (auto simp: settle_result_def Let_def split: sum.splits option.splits if_splits)




lemma reply_to_answer:
  "reply_to rh (into_message
     (Some ((response_from_request rh)\<lparr>h_recursion_available := True, h_authoritative := False, h_response_code := rc\<rparr>)) lookup)"
  by (simp add: reply_to_def into_message_def update_header_counts_def response_from_request_def Let_def)

lemma request_try_from_Inr:
  assumes "request_try_from sm = Inr req"
  shows "sm_message sm = Inr (rq_message req)"
    "response_material sm = Some (m_header (rq_message req), m_queries (rq_message req), sm_addr sm, sm_protocol sm)"
  using assms
  by (cases sm; auto simp: request_try_from_def result_bind_Inr_iff with_forwarded_client_def request_new_def)+

text \<open>Where a reply comes from: another opcode, a search, or a panic of the search's end.\<close>

lemma process_inner_Replied:
  assumes "process_inner ev mw sm opts st = (Replied r, st')"
  obtains (other) req where "request_try_from sm = Inr req" "h_op_code (m_header (rq_message req)) \<noteq> OpQuery"
      "r = not_imp_response (ev_rid ev) (m_header (rq_message req)) (m_queries (rq_message req)) (sm_addr sm) (sm_protocol sm)"
  | (answer) req m where "request_try_from sm = Inr req" "reply_to (m_header (rq_message req)) m"
      "r = sm_raw (if sm_protocol sm = P_Udp then fit_udp (udp_limit req) m else m) (sm_addr sm) (sm_protocol sm)"
proof -
  obtain req where req: "request_try_from sm = Inr req"
    using assms by (cases "request_try_from sm") (simp_all add: process_inner_def)
  show thesis
  proof (cases "h_op_code (m_header (rq_message req)) = OpQuery")
    case False
    then show ?thesis using other [OF req] assms req
      by (auto simp: process_inner_def Let_def split: message_type.splits)
  next
    case True
    let ?rh = "m_header (rq_message req)"
    let ?h = "(response_from_request ?rh)\<lparr>h_recursion_available := True, h_authoritative := False\<rparr>"
    obtain h' lookup res ttl where s: "settle_result ev ttl (rq_query req) ?h res = (h', lookup)"
      "r = sm_raw (if sm_protocol sm = P_Udp then fit_udp (udp_limit req) (into_message (Some h') lookup)
         else into_message (Some h') lookup) (sm_addr sm) (sm_protocol sm)"
      using assms True req
      by (auto simp: process_inner_def Let_def split: message_type.splits prod.splits if_splits)
    obtain rc where "h' = ?h\<lparr>h_response_code := rc\<rparr>" using settle_result_header [OF s(1)] by blast
    then show ?thesis using answer [OF req _ s(2)] reply_to_answer by simp
  qed
qed

lemma process_Some:
  assumes "process ev mw sm opts st = (Some r, st')"
  obtains (replied) "process_inner ev mw sm opts st = (Replied r, st')"
  | (panicked) h qs a p where "process_inner ev mw sm opts st = (Panicked, st')"
      "response_material sm = Some (h, qs, a, p)" "r = sm_raw (coded_reply (ev_rid ev) RC_ServFail h qs) a p"
  using assms by (auto simp: process_def servfail_stub_def Let_def split: prod.splits outcome.splits)

lemma response_material_source: "response_material sm = Some (h, qs, a, p) \<Longrightarrow> a = sm_addr sm \<and> p = sm_protocol sm"
  by (cases sm) (auto split: sum.splits if_splits)

lemma process_reply:
  assumes "process ev mw sm opts st = (Some r, st')"
  obtains m h qs where "r = sm_raw m (sm_addr sm) (sm_protocol sm)"
    "response_material sm = Some (h, qs, sm_addr sm, sm_protocol sm)" "reply_to h m"
  using assms
proof (cases rule: process_Some)
  case (panicked h qs a p)
  then show ?thesis using that response_material_source coded_reply_to(1) by blast
next
  case replied
  then show ?thesis
  proof (cases rule: process_inner_Replied)
    case (other req)
    then show ?thesis using that request_try_from_Inr(2) coded_reply_to(1) by (auto simp: not_imp_response_def)
  next
    case (answer req m)
    then show ?thesis using that request_try_from_Inr(2) reply_to_fit by (cases "sm_protocol sm = P_Udp") auto
  qed
qed

section \<open>Fitting a datagram\<close>

lemma to_vec_recount [simp]: "to_vec (recount m) = to_vec m"
proof -
  have "additional_records (recount m) = additional_records m"
    by (rule ext) (simp add: additional_records_def recount_def update_header_counts_def cong: option.case_cong)
  then have "emit_message (recount m) = emit_message m"
    by (intro ext) (simp add: emit_message_def recount_def update_header_counts_def)
  then show ?thesis by (simp add: to_vec_def)
qed

lemma fit_udp_fits:
  assumes "to_vec (fit_udp n m) = Inr bs"
  shows "length bs \<le> n \<or> without_records (fit_udp n m) \<and> h_truncation (m_header (fit_udp n m))"
proof -
  have kept: "h_truncation (m_header (recount x)) = h_truncation (m_header x)"
    "without_records (recount x) = without_records x" for x
    by (simp_all add: recount_def update_header_counts_def without_records_def)
  show ?thesis using assms
    by (auto simp: fit_udp_def too_long_def kept Let_def split: sum.splits if_splits)
      (simp_all add: m_set_truncated_def without_records_def)
qed

section \<open>Refusals\<close>

lemma malformed_material:
  assumes "from_vec bs = Inl e" "read_header bs = Some (h, rest)"
  shows "response_material (SM_Bytes bs a p g) = Some (h, [], a, p)"
  using assms read_header_front [OF assms(2)] by simp

text \<open>A request whose task ends without a reply is refused over a stream, with its own id and queries.\<close>

lemma abandoned_reply:
  assumes "sm_protocol sm \<noteq> P_Udp" "response_material sm = Some (h, qs, a, p)"
  shows "handle_send rid sm Abandoned = sm_raw (coded_reply rid RC_Refused h qs) (sm_addr sm) (sm_protocol sm)"
  using assms by (simp add: handle_send_def Let_def)

text \<open>If the queue is full, a message that cannot be read is refused under an id of the server's own choice,
  although its header could be read, and is read for the other refusal.\<close>

theorem overload_refusal_has_foreign_id:
  assumes "from_vec bs = Inl e" "read_header bs = Some (h, rest)" "p \<noteq> P_Udp"
  shows "\<exists>m m'. handle_send rid (SM_Bytes bs a p g) Overloaded = sm_raw m a p \<and> h_id (m_header m) = rid \<and>
     handle_send rid (SM_Bytes bs a p g) Abandoned = sm_raw m' a p \<and> h_id (m_header m') = h_id h"
proof -
  have "handle_send rid (SM_Bytes bs a p g) Abandoned = sm_raw (coded_reply rid RC_Refused h []) a p"
    using abandoned_reply [OF _ malformed_material [OF assms(1, 2), of a p g], of rid] assms(3) by simp
  then show ?thesis using assms(1, 3)
    by (simp add: handle_send_def request_try_from_def Let_def refusal_def m_set_response_code_def m_to_response_def
        message_query_def message_new_def header_new_def coded_reply_eq response_from_request_def sm_raw_def)
qed

text \<open>A message that is a response is dropped, whatever the socket; but over a stream the dropped message is
  refused, which is an answer to a response.\<close>

lemma response_dropped:
  assumes "sm_message sm = Inr m" "h_message_type (m_header m) = MResponse"
  shows "process ev mw sm opts st = (None, st)"
  using assms
  by (simp add: process_def process_inner_def request_try_from_def Let_def with_forwarded_client_def request_new_def)

theorem response_over_stream_is_answered:
  assumes "sm_message sm = Inr m" "h_message_type (m_header m) = MResponse" "sm_protocol sm \<noteq> P_Udp"
  shows "\<exists>r. fst (exchange ev mw sm opts st) = sm_raw r (sm_addr sm) (sm_protocol sm) \<and> reply_to (m_header m) r \<and>
     m_response_code r = RC_Refused"
proof -
  have "response_material sm = Some (m_header m, m_queries m, sm_addr sm, sm_protocol sm)"
    using assms(1) by (cases sm) auto
  from abandoned_reply [OF assms(3) this, of "ev_rid ev"] show ?thesis
    using response_dropped [OF assms(1, 2), of ev mw opts st] coded_reply_to(1) [of "m_header m"]
    by (auto simp: exchange_def coded_reply_eq m_response_code_def sm_raw_def)
qed

section \<open>Handlers for examples\<close>

text \<open>One handler answers with the message of \<open>Message_Wire\<close>, for another no name exists.\<close>

definition demo_handler :: "nat dns_handler" where
  "demo_handler = \<lparr>dh_glob = (\<lambda>_ _. False), dh_net_contains = net_eq, dh_arp = (\<lambda>_. None), dh_now_secs = 0,
     dh_host = (\<lambda>ctx req w. (Inr (response_of_message 0 example_response), ctx, w)), dh_cfg = rt_config_default\<rparr>"


definition demo_message :: message where
  "demo_message =
     example_response\<lparr>m_header := (header_new 0x1234 MQuery OpQuery)\<lparr>h_recursion_desired := True\<rparr>, m_answers := []\<rparr>"

definition demo_env :: env where
  "demo_env = \<lparr>ev_now = 0, ev_rid = 99, ev_build = 5\<rparr>"

definition demo_limiter :: query_limiter where
  "demo_limiter = \<lparr>ql_in_flight = 0, ql_last_warn = 0\<rparr>"

lemma demo_search:
  "handler_search (demo_handler\<lparr>dh_host := (\<lambda>ctx req w. (res, ctx, w))\<rparr>) req server_opts_default (demo_limiter, w) =
     (res, demo_limiter, w)"
  by (simp add: handler_search_def demo_handler_def demo_limiter_def search_def admit_def acl_refuses_def
      server_opts_default_def g_max_query_limit_def g_acl_enable_def rt_config_default_def fetch_add_one_def fetch_sub_one_def Let_def)

lemma demo_search_answered:
  "handler_search demo_handler req server_opts_default (demo_limiter, w) =
     (Inr (response_of_message 0 example_response), demo_limiter, w)"
  using demo_search [of "Inr (response_of_message 0 example_response)" req w] by (simp add: demo_handler_def)

lemma example_to_vec: "to_vec example_response = Inr example_octets"
  by (simp add: to_vec_def example_emitted)

lemma demo_processed:
  "process demo_env demo_handler (SM_Raw demo_message a p g) server_opts_default (demo_limiter, 0) =
     (Some (sm_raw (recount example_response) a p), demo_limiter, 0)"
proof -
  have m: "into_message (Some ((response_from_request (m_header demo_message))\<lparr>h_recursion_available := True, h_authoritative := False\<rparr>))
      (response_of_message 0 example_response) = recount example_response"
    by (simp add: into_message_def recount_def response_of_message_def response_from_request_def demo_message_def
        header_new_def example_response_def update_header_counts_def Let_def)
  have q: "h_message_type (m_header demo_message) = MQuery" "h_op_code (m_header demo_message) = OpQuery"
    by (simp_all add: demo_message_def header_new_def)
  have "udp_limit (with_forwarded_client f (request_new demo_message a p')) = 1232" for f p'
    by (simp add: udp_limit_def with_forwarded_client_def request_new_def demo_message_def example_response_def clamp_def)
  then have fit: "fit_udp (udp_limit (with_forwarded_client f (request_new demo_message a p'))) (recount example_response) = recount example_response" for f p'
    by (simp add: fit_udp_def too_long_def example_to_vec example_octets_def)
  have c: "counts_fit (m_counts example_response)" by (simp add: counts_fit_def m_counts_def example_response_def)
  have "rq_message (with_forwarded_client f (request_new demo_message a p)) = demo_message" for f
    by (simp add: with_forwarded_client_def request_new_def)
  then show ?thesis using q m c fit
    by (simp add: process_def process_inner_def request_try_from_def Let_def demo_search_answered settle_result_def
        response_of_message_def)
qed

section \<open>Properties\<close>

text \<open>C5: Every reply goes back where its request came from, over the same protocol, and is the reply to it: the
  id, the opcode and the client's flags are those of the header in the request, the message is a response and
  does not claim authority. The header is the one that can be read of the request's octets; so there is no reply
  to octets that have none.\<close>

theorem reply_answers_request:
  assumes "process ev mw sm opts st = (Some r, st')"
  shows "\<exists>m h qs. r = sm_raw m (sm_addr sm) (sm_protocol sm) \<and>
     response_material sm = Some (h, qs, sm_addr sm, sm_protocol sm) \<and> reply_to h m"
  by (rule process_reply [OF assms]) blast

theorem reply_answers_request_witness:
  "reply_to (m_header demo_message) (recount example_response)"
  using reply_answers_request [OF demo_processed [of "(IpV4 1, 5353)" P_Tcp None]]
  by (auto simp: sm_raw_def)

text \<open>C6: Over UDP two servers never answer each other for ever: every reply passes the test before a datagram is
  sent, and a server that receives its octets as a datagram sends nothing. Whatever the socket, no query is run
  for these octets and the state stays as it is; over a stream the peer gets a refusal without records, see
  \<open>response_over_stream_is_answered\<close>.\<close>

theorem no_reply_loops:
  assumes "process ev mw sm opts st = (Some r, st')" "sm_octets r = Inr bs"
  shows "udp_datagram r = Some bs \<and>
    (\<forall>a g. \<exists>silence. exchange ev2 mw2 (SM_Bytes bs a P_Udp g) opts2 st2 = (silence, st2) \<and> udp_datagram silence = None) \<and>
    (\<forall>a p g. \<exists>e. exchange ev2 mw2 (SM_Bytes bs a p g) opts2 st2 = (e, st2) \<and>
       (p \<noteq> P_Udp \<longrightarrow> (\<exists>m. e = sm_raw m a p \<and> m_response_code m = RC_Refused \<and> without_records m)))"
proof -
  obtain m h qs where m: "r = sm_raw m (sm_addr sm) (sm_protocol sm)" "reply_to h m"
    by (rule process_reply [OF assms(1)]) blast
  have bs: "is_dns_response bs"
    using response_octets [of m bs] assms(2) m by (simp add: sm_raw_def reply_to_def)
  have "process ev2 mw2 (SM_Bytes bs a p g) opts2 st2 = (None, st2)" for a p g
  proof (cases "from_vec bs")
    case (Inl e)
    then show ?thesis by (simp add: process_def process_inner_def request_try_from_def Let_def)
  next
    case (Inr m2)
    show ?thesis by (rule response_dropped [OF _ response_read [OF Inr bs]]) (simp add: Inr)
  qed
  then have ex: "exchange ev2 mw2 (SM_Bytes bs a p g) opts2 st2 = (handle_send (ev_rid ev2) (SM_Bytes bs a p g) Abandoned, st2)"
    for a p g by (simp add: exchange_def)
  have silent: "udp_datagram (handle_send rid (SM_Bytes bs a P_Udp g) Abandoned) = None" for rid a g
    by (simp add: handle_send_def Let_def sm_binary_def udp_datagram_def is_dns_response_def)
  have refused: "\<exists>m. handle_send rid (SM_Bytes bs a p g) Abandoned = sm_raw m a p \<and> m_response_code m = RC_Refused \<and>
      without_records m" if "p \<noteq> P_Udp" for rid a p g
    using that coded_reply_to(2)
    by (simp add: handle_send_def Let_def split: option.split)
      (auto simp: refusal_def sm_raw_def coded_reply_eq m_response_code_def m_set_response_code_def m_to_response_def
        message_query_def message_new_def without_records_def)
  have "udp_datagram r = Some bs" using bs assms(2) by (simp add: udp_datagram_def)
  then show ?thesis using ex silent refused by simp
qed

theorem no_reply_loops_witness:
  "\<exists>silence. exchange demo_env demo_handler (SM_Bytes example_octets (IpV4 2, 53) P_Udp None) server_opts_default
       (demo_limiter, 0) = (silence, demo_limiter, 0) \<and> udp_datagram silence = None"
proof -
  have "sm_octets (sm_raw (recount example_response) (IpV4 1, 5353) P_Udp) = Inr example_octets"
    by (simp add: sm_raw_def example_to_vec)
  from no_reply_loops [OF demo_processed [of "(IpV4 1, 5353)" P_Udp None] this] show ?thesis by blast
qed

text \<open>C9: A reply to a datagram has at most the size the client announced, between 512 and 4096 octets, or has no
  records at all: then it is flagged as truncated, or it is a \<open>NotImp\<close> or \<open>ServFail\<close> reply, which is made without
  records.\<close>

theorem udp_reply_fits:
  assumes "process ev mw sm opts st = (Some r, st')" "sm_octets r = Inr bs" "sm_protocol sm = P_Udp"
    "request_try_from sm = Inr req"
  shows "512 \<le> udp_limit req \<and> udp_limit req \<le> 4096 \<and>
    (length bs \<le> udp_limit req \<or>
     (\<exists>m. r = sm_raw m (sm_addr sm) P_Udp \<and> without_records m \<and>
        (h_truncation (m_header m) \<or> m_response_code m = RC_NotImp \<or> m_response_code m = RC_ServFail)))"
proof -
  have "unat (clamp 512 4096 (w :: u16)) \<ge> 512 \<and> unat (clamp 512 4096 w) \<le> 4096" for w
    using clamp_bounds [of 512 4096 w] by (simp add: word_le_nat_alt)
  then have limit: "512 \<le> udp_limit req \<and> udp_limit req \<le> 4096"
    by (cases "m_edns (rq_message req)") (simp_all add: udp_limit_def)
  from assms(1) have "length bs \<le> udp_limit req \<or>
     (\<exists>m. r = sm_raw m (sm_addr sm) P_Udp \<and> without_records m \<and>
        (h_truncation (m_header m) \<or> m_response_code m = RC_NotImp \<or> m_response_code m = RC_ServFail))"
  proof (cases rule: process_Some)
    case (panicked h qs a p)
    then show ?thesis using response_material_source [OF panicked(2)] coded_reply_to(2) assms(3)
      by (auto simp: m_response_code_def coded_reply_eq)
  next
    case replied
    then show ?thesis
    proof (cases rule: process_inner_Replied)
      case (other req2)
      then show ?thesis using coded_reply_to(2) assms(3)
        by (auto simp: m_response_code_def coded_reply_eq not_imp_response_def)
    next
      case (answer req2 m)
      then show ?thesis using fit_udp_fits [of "udp_limit req" m bs] assms(2-4) by (auto simp: sm_raw_def)
    qed
  qed
  then show ?thesis using limit by blast
qed

theorem udp_reply_fits_witness: "length example_octets \<le> 1232"
proof -
  let ?sm = "SM_Raw demo_message (IpV4 1, 5353) P_Udp None"
  have o: "sm_octets (sm_raw (recount example_response) (IpV4 1, 5353) P_Udp) = Inr example_octets"
    by (simp add: sm_raw_def example_to_vec)
  have r: "request_try_from ?sm = Inr (with_forwarded_client None (request_new demo_message (IpV4 1, 5353) P_Udp))"
    by (simp add: request_try_from_def)
  have "udp_limit (with_forwarded_client None (request_new demo_message (IpV4 1, 5353) P_Udp)) = 1232"
    by (simp add: udp_limit_def with_forwarded_client_def request_new_def demo_message_def example_response_def clamp_def)
  then show ?thesis
    using udp_reply_fits [OF demo_processed [of "(IpV4 1, 5353)" P_Udp None] o _ r]
    by (auto simp: sm_raw_def without_records_def example_response_def recount_def)
qed



end
