(* ===== verification/Serve_Loop.thy ===== *)
theory Serve_Loop
  imports App "HOL-Library.Multiset"
begin

text \<open>
  The loop that serves requests (\<open>app.rs\<close>, \<open>serve\<close>; \<open>server/mod.rs\<close>, \<open>DnsHandle\<close>): the bounded queue the
  listeners put requests into, the batches taken from it, the permits of foreground and background tasks,
  the counter of active queries that a guard keeps, and the reply each request gets. Listeners and tasks
  run at the same time: every rule of the step relation is one action of one of them. A task may run under
  any of the handlers that a reload installs, and on any state of the caches.
\<close>

record job =
  jb_id :: nat
  jb_message :: serial_message
  jb_opts :: server_opts

text \<open>A task holds its permit from the moment it is spawned until it is gone; the guard counts it while it is
  active. Its reply is sent before the guard is dropped, and the guard before the permit.\<close>

datatype phase = Spawned | Active | Answering | Uncounted

record serve =
  sv_queue :: "job list"
  sv_batch :: "job list"
  sv_tasks :: "(job \<times> phase) multiset"
  sv_active :: usize
  sv_done :: "nat \<Rightarrow> (job \<times> delivery) option"
  sv_next :: nat

definition serve_start :: serve where
  "serve_start = \<lparr>sv_queue = [], sv_batch = [], sv_tasks = {#}, sv_active = 0, sv_done = (\<lambda>_. None), sv_next = 0\<rparr>"

definition QUEUE_SIZE :: nat where "QUEUE_SIZE = 20000"
definition BATCH_SIZE :: nat where "BATCH_SIZE = 256"

definition concurrency :: "bool \<Rightarrow> nat" where
  "concurrency is_background = (if is_background then 16 else 10240)"

definition is_background :: "job \<Rightarrow> bool" where
  "is_background j = so_is_background (jb_opts j)"

definition tasks_of :: "bool \<Rightarrow> serve \<Rightarrow> (job \<times> phase) multiset" where
  "tasks_of bg s = {# t \<in># sv_tasks s. is_background (fst t) = bg #}"

definition permit_free :: "job \<Rightarrow> serve \<Rightarrow> bool" where
  "permit_free j s \<longleftrightarrow> size (tasks_of (is_background j) s) < concurrency (is_background j)"

definition new_guard :: "usize \<Rightarrow> usize" where
  "new_guard active_queries = active_queries + 1"

definition drop_active :: "usize \<Rightarrow> usize" where
  "drop_active active_queries = active_queries - 1"

definition settled_as :: "serial_message option \<Rightarrow> delivery" where
  "settled_as r = (case r of Some reply \<Rightarrow> Answered reply | None \<Rightarrow> Abandoned)"

definition move_task :: "job \<Rightarrow> phase \<Rightarrow> phase \<Rightarrow> serve \<Rightarrow> serve" where
  "move_task j from to s = s\<lparr>sv_tasks := add_mset (j, to) (sv_tasks s - {#(j, from)#})\<rparr>"

definition resolve :: "job \<Rightarrow> delivery \<Rightarrow> serve \<Rightarrow> serve" where
  "resolve j d s = s\<lparr>sv_done := (sv_done s)(jb_id j \<mapsto> (j, d))\<rparr>"

text \<open>What the server does on its own: it takes a batch from the queue, gives each request of it a task or
  drops it, and the tasks run.\<close>

inductive serve_step :: "'w dns_handler set \<Rightarrow> serve \<Rightarrow> serve \<Rightarrow> bool" for handlers where
  receive: "sv_batch s = [] \<Longrightarrow> 0 < n \<Longrightarrow> n \<le> BATCH_SIZE \<Longrightarrow> n \<le> length (sv_queue s) \<Longrightarrow>
    serve_step handlers s (s\<lparr>sv_batch := take n (sv_queue s), sv_queue := drop n (sv_queue s)\<rparr>)"
| spawn: "sv_batch s = j # rest \<Longrightarrow> permit_free j s \<Longrightarrow>
    serve_step handlers s (s\<lparr>sv_batch := rest, sv_tasks := add_mset (j, Spawned) (sv_tasks s)\<rparr>)"
| drop_request: "sv_batch s = j # rest \<Longrightarrow> \<not> permit_free j s \<Longrightarrow>
    serve_step handlers s (resolve j Abandoned (s\<lparr>sv_batch := rest\<rparr>))"
| count: "(j, Spawned) \<in># sv_tasks s \<Longrightarrow>
    serve_step handlers s ((move_task j Spawned Active s)\<lparr>sv_active := new_guard (sv_active s)\<rparr>)"
| reply: "(j, Active) \<in># sv_tasks s \<Longrightarrow> mw \<in> handlers \<Longrightarrow>
    process ev mw (jb_message j) (jb_opts j) st = (r, st') \<Longrightarrow>
    serve_step handlers s (resolve j (settled_as r) (move_task j Active Answering s))"
| uncount: "(j, Answering) \<in># sv_tasks s \<Longrightarrow>
    serve_step handlers s ((move_task j Answering Uncounted s)\<lparr>sv_active := drop_active (sv_active s)\<rparr>)"
| release: "(j, Uncounted) \<in># sv_tasks s \<Longrightarrow>
    serve_step handlers s (s\<lparr>sv_tasks := sv_tasks s - {#(j, Uncounted)#}\<rparr>)"

text \<open>What a listener does: it hands a request in, which the queue takes or does not.\<close>

definition try_send :: "serial_message \<Rightarrow> server_opts \<Rightarrow> serve \<Rightarrow> serve" where
  "try_send m opts s =
     (let j = \<lparr>jb_id = sv_next s, jb_message = m, jb_opts = opts\<rparr>; s' = s\<lparr>sv_next := Suc (sv_next s)\<rparr>
      in if length (sv_queue s) < QUEUE_SIZE then s'\<lparr>sv_queue := sv_queue s @ [j]\<rparr> else resolve j Overloaded s')"

inductive serve_reach :: "'w dns_handler set \<Rightarrow> serve \<Rightarrow> bool" for handlers where
  start: "serve_reach handlers serve_start"
| submit: "serve_reach handlers s \<Longrightarrow> serve_reach handlers (try_send m opts s)"
| work: "serve_reach handlers s \<Longrightarrow> serve_step handlers s s' \<Longrightarrow> serve_reach handlers s'"

section \<open>The invariant\<close>

definition counted_tasks :: "serve \<Rightarrow> (job \<times> phase) multiset" where
  "counted_tasks s = {# t \<in># sv_tasks s. snd t = Active \<or> snd t = Answering #}"

definition sv_pending :: "serve \<Rightarrow> nat multiset" where
  "sv_pending s = image_mset jb_id (mset (sv_queue s) + mset (sv_batch s)) +
     image_mset (\<lambda>t. jb_id (fst t)) {# t \<in># sv_tasks s. snd t = Spawned \<or> snd t = Active #}"

definition within_limits :: "serve \<Rightarrow> bool" where
  "within_limits s \<longleftrightarrow> length (sv_queue s) \<le> QUEUE_SIZE \<and> length (sv_batch s) \<le> BATCH_SIZE \<and>
     (\<forall>bg. size (tasks_of bg s) \<le> concurrency bg)"

definition accounted :: "serve \<Rightarrow> bool" where
  "accounted s \<longleftrightarrow> (\<forall>i. count (sv_pending s) i = (if i < sv_next s \<and> sv_done s i = None then 1 else 0)) \<and>
     (\<forall>i d. sv_done s i = Some d \<longrightarrow> i < sv_next s)"

text \<open>The reply to a request: it has the id and the flags of the header in it and goes where it came from.\<close>

definition reply_of :: "serial_message \<Rightarrow> serial_message \<Rightarrow> bool" where
  "reply_of sm r \<longleftrightarrow> (\<exists>m h qs. r = sm_raw m (sm_addr sm) (sm_protocol sm) \<and>
     response_material sm = Some (h, qs, sm_addr sm, sm_protocol sm) \<and> reply_to h m)"

definition answers_match :: "serve \<Rightarrow> bool" where
  "answers_match s \<longleftrightarrow>
     (\<forall>i j r. sv_done s i = Some (j, Answered r) \<longrightarrow> jb_id j = i \<and> reply_of (jb_message j) r)"

definition serve_inv :: "serve \<Rightarrow> bool" where
  "serve_inv s \<longleftrightarrow> within_limits s \<and> unat (sv_active s) = size (counted_tasks s) \<and> accounted s \<and> answers_match s"

text \<open>What is left to do, without new requests.\<close>

fun phase_work :: "phase \<Rightarrow> nat" where
  "phase_work Spawned = 4"
| "phase_work Active = 3"
| "phase_work Answering = 2"
| "phase_work Uncounted = 1"

definition work_left :: "serve \<Rightarrow> nat" where
  "work_left s = 6 * length (sv_queue s) + 5 * length (sv_batch s) + (\<Sum>t \<in># sv_tasks s. phase_work (snd t))"

section \<open>Every action keeps it\<close>

lemma resolve_simps [simp]:
  "sv_queue (resolve j d s) = sv_queue s" "sv_batch (resolve j d s) = sv_batch s" "sv_tasks (resolve j d s) = sv_tasks s"
  "sv_active (resolve j d s) = sv_active s" "sv_next (resolve j d s) = sv_next s"
  "sv_done (resolve j d s) = (sv_done s)(jb_id j \<mapsto> (j, d))"
  by (simp_all add: resolve_def)

lemma move_task_simps [simp]:
  "sv_queue (move_task j a b s) = sv_queue s" "sv_batch (move_task j a b s) = sv_batch s"
  "sv_active (move_task j a b s) = sv_active s" "sv_next (move_task j a b s) = sv_next s"
  "sv_done (move_task j a b s) = sv_done s"
  by (simp_all add: move_task_def)

lemma move_task_tasks:
  assumes "sv_tasks s = add_mset (j, a) T"
  shows "sv_tasks (move_task j a b s) = add_mset (j, b) T"
  using assms by (simp add: move_task_def)

lemma take_batch: "mset (drop n xs) + mset (take n xs) = mset xs"
  by (metis append_take_drop_id mset_append union_commute)

lemma pending_step:
  assumes "serve_step handlers s s'"
  shows "sv_pending s' = sv_pending s \<and> sv_done s' = sv_done s \<and> sv_next s' = sv_next s \<or>
    (\<exists>j d. sv_pending s = add_mset (jb_id j) (sv_pending s') \<and> sv_done s' = (sv_done s)(jb_id j \<mapsto> (j, d)) \<and> sv_next s' = sv_next s \<and>
       (\<forall>r. d = Answered r \<longrightarrow> reply_of (jb_message j) r))"
  using assms
proof cases
  case (receive n)
  then show ?thesis using take_batch [of n "sv_queue s"] by (simp add: sv_pending_def flip: image_mset_union)
next
  case (spawn j rest)
  then show ?thesis by (simp add: sv_pending_def)
next
  case (drop_request j rest)
  then have "sv_pending s = add_mset (jb_id j) (sv_pending s')" "sv_done s' = (sv_done s)(jb_id j \<mapsto> (j, Abandoned))" "sv_next s' = sv_next s"
    by (simp_all add: sv_pending_def)
  then show ?thesis by blast
next
  case (count j)
  then obtain T where "sv_tasks s = add_mset (j, Spawned) T" by (meson multi_member_split)
  then show ?thesis using count by (simp add: sv_pending_def move_task_tasks)
next
  case (reply j mw ev st r st')
  then obtain T where "sv_tasks s = add_mset (j, Active) T" by (meson multi_member_split)
  then have "sv_pending s = add_mset (jb_id j) (sv_pending s')" "sv_done s' = (sv_done s)(jb_id j \<mapsto> (j, settled_as r))" "sv_next s' = sv_next s"
    using reply by (simp_all add: sv_pending_def move_task_tasks)
  moreover have "reply_of (jb_message j) x" if "settled_as r = Answered x" for x
  proof -
    have "r = Some x" using that by (simp add: settled_as_def split: option.splits)
    from reply(4) [unfolded this] show ?thesis unfolding reply_of_def by (rule process_reply) blast
  qed
  ultimately show ?thesis by blast
next
  case (uncount j)
  then obtain T where "sv_tasks s = add_mset (j, Answering) T" by (meson multi_member_split)
  then show ?thesis using uncount by (simp add: sv_pending_def move_task_tasks)
next
  case (release j)
  then obtain T where "sv_tasks s = add_mset (j, Uncounted) T" by (meson multi_member_split)
  then show ?thesis using release by (simp add: sv_pending_def)
qed

lemma accounted_resolve:
  assumes "accounted s" "sv_pending s = add_mset (jb_id j) P" "sv_pending s' = P" "sv_done s' = (sv_done s)(jb_id j \<mapsto> (j, d))"
    "sv_next s' = sv_next s"
  shows "accounted s'"
proof -
  have c: "count (add_mset (jb_id j) P) i = (if i < sv_next s \<and> sv_done s i = None then 1 else 0)" for i
    using assms(1, 2) by (simp add: accounted_def)
  have j: "jb_id j < sv_next s \<and> sv_done s (jb_id j) = None \<and> count P (jb_id j) = 0"
    using c [of "jb_id j"] by (simp split: if_splits)
  have "count P i = (if i < sv_next s \<and> sv_done s' i = None then 1 else 0)" for i
    using c [of i] j assms(4) by (cases "i = jb_id j") auto
  then show ?thesis using assms j by (auto simp: accounted_def)
qed

lemma serve_step_effect:
  assumes "serve_step handlers s s'"
  obtains (kept) "sv_pending s' = sv_pending s" "sv_done s' = sv_done s" "sv_next s' = sv_next s"
  | (resolved) j d where "sv_pending s = add_mset (jb_id j) (sv_pending s')" "sv_done s' = (sv_done s)(jb_id j \<mapsto> (j, d))"
      "sv_next s' = sv_next s" "\<And>r. d = Answered r \<Longrightarrow> reply_of (jb_message j) r"
  using pending_step [OF assms] by blast

lemma accounted_step:
  assumes "serve_step handlers s s'" "accounted s"
  shows "accounted s'"
  using assms(1)
proof (cases rule: serve_step_effect)
  case kept
  then show ?thesis using assms(2) by (simp add: accounted_def)
next
  case (resolved j d)
  then show ?thesis using accounted_resolve [OF assms(2) resolved(1) refl] by blast
qed

lemma answers_match_step:
  assumes "serve_step handlers s s'" "answers_match s"
  shows "answers_match s'"
  using assms(1) by (cases rule: serve_step_effect) (use assms(2) in \<open>auto simp: answers_match_def\<close>)

lemma size_tasks: "size (sv_tasks s) = size (tasks_of True s) + size (tasks_of False s)"
proof -
  have "sv_tasks s = tasks_of True s + tasks_of False s"
    using multiset_partition [of "sv_tasks s" "\<lambda>t. is_background (fst t)"] by (simp add: tasks_of_def)
  then show ?thesis by (metis size_union)
qed

lemma size_tasks_moved: "(j, a) \<in># sv_tasks s \<Longrightarrow> size (tasks_of bg (move_task j a b s)) = size (tasks_of bg s)"
  using multi_member_split [of "(j, a)" "sv_tasks s"] by (auto simp: tasks_of_def move_task_tasks)

lemma within_limits_simps [simp]:
  "within_limits (s\<lparr>sv_active := n\<rparr>) = within_limits s" "within_limits (resolve j d s) = within_limits s"
  "(j, a) \<in># sv_tasks s \<Longrightarrow> within_limits (move_task j a b s) = within_limits s"
  by (simp_all add: within_limits_def size_tasks_moved) (simp_all add: tasks_of_def)

lemma within_limits_step:
  assumes "serve_step handlers s s'" "within_limits s"
  shows "within_limits s'"
  using assms(1)
proof cases
  case (spawn j rest)
  then show ?thesis using assms(2) by (auto simp: within_limits_def permit_free_def tasks_of_def)
next
  case (release j)
  have "size (tasks_of bg s') \<le> size (tasks_of bg s)" for bg
    using release by (auto simp: tasks_of_def intro!: size_mset_mono multiset_filter_mono)
  moreover have "sv_queue s' = sv_queue s" "sv_batch s' = sv_batch s" using release by simp_all
  ultimately show ?thesis using assms(2) unfolding within_limits_def by (metis le_trans)
next
  case (receive n)
  then show ?thesis using assms(2) by (auto simp: within_limits_def tasks_of_def)
qed (use assms(2) in \<open>simp_all, simp_all add: within_limits_def tasks_of_def\<close>)

lemma counted_few:
  assumes "within_limits s"
  shows "size (counted_tasks s) < 20000"
proof -
  have "size (counted_tasks s) \<le> size (sv_tasks s)"
    unfolding counted_tasks_def by (rule size_mset_mono) simp
  also have "\<dots> \<le> concurrency True + concurrency False"
    unfolding size_tasks using assms by (simp add: within_limits_def add_mono)
  finally show ?thesis by (simp add: concurrency_def)
qed

lemma counter_step:
  assumes "serve_step handlers s s'" "within_limits s" "unat (sv_active s) = size (counted_tasks s)"
  shows "unat (sv_active s') = size (counted_tasks s')"
  using assms(1)
proof cases
  case (count j)
  then obtain T where T: "sv_tasks s = add_mset (j, Spawned) T" by (meson multi_member_split)
  have "unat (sv_active s + 1) = Suc (unat (sv_active s))"
    using counted_few [OF assms(2)] assms(3) by (subst unat_word_ariths(1)) simp
  then show ?thesis using count T assms(3) by (simp add: counted_tasks_def move_task_tasks new_guard_def)
next
  case (reply j mw ev st r st')
  then obtain T where "sv_tasks s = add_mset (j, Active) T" by (meson multi_member_split)
  then show ?thesis using reply assms(3) by (simp add: counted_tasks_def move_task_tasks)
next
  case (uncount j)
  then obtain T where T: "sv_tasks s = add_mset (j, Answering) T" by (meson multi_member_split)
  then have "0 < unat (sv_active s)" using assms(3) by (simp add: counted_tasks_def)
  then have "unat (sv_active s - 1) = unat (sv_active s) - 1" by (simp add: unat_minus_one unat_gt_0)
  then show ?thesis using uncount T assms(3) by (simp add: counted_tasks_def move_task_tasks drop_active_def)
next
  case (release j)
  then obtain T where "sv_tasks s = add_mset (j, Uncounted) T" by (meson multi_member_split)
  then show ?thesis using release assms(3) by (simp add: counted_tasks_def)
qed (use assms(3) in \<open>simp_all add: counted_tasks_def\<close>)

lemma accounted_try_send:
  assumes "accounted s"
  shows "accounted (try_send m opts s)"
proof -
  let ?s = "try_send m opts s"
  have a: "count (sv_pending s) i = (if i < sv_next s \<and> sv_done s i = None then 1 else 0)" for i
    using assms by (simp add: accounted_def)
  have b: "\<forall>i d. sv_done s i = Some d \<longrightarrow> i < sv_next s" using assms by (simp add: accounted_def)
  then have n: "sv_done s (sv_next s) = None" by (metis less_irrefl not_None_eq)
  show ?thesis
  proof (cases "length (sv_queue s) < QUEUE_SIZE")
    case True
    then have e: "sv_pending ?s = add_mset (sv_next s) (sv_pending s)" "sv_done ?s = sv_done s" "sv_next ?s = Suc (sv_next s)"
      by (simp_all add: try_send_def Let_def sv_pending_def)
    then show ?thesis using a b n by (auto simp: accounted_def intro!: less_SucI)
  next
    case False
    then obtain d where e: "sv_pending ?s = sv_pending s" "sv_done ?s = (sv_done s)(sv_next s \<mapsto> d)" "sv_next ?s = Suc (sv_next s)"
      by (simp add: try_send_def Let_def sv_pending_def)
    then show ?thesis using a b n by (auto simp: accounted_def intro!: less_SucI)
  qed
qed

lemma serve_inv_try_send:
  assumes "serve_inv s"
  shows "serve_inv (try_send m opts s)"
proof -
  let ?s = "try_send m opts s"
  have t: "tasks_of bg ?s = tasks_of bg s" "counted_tasks ?s = counted_tasks s" "sv_active ?s = sv_active s" for bg
    by (simp_all add: try_send_def Let_def tasks_of_def counted_tasks_def)
  have "within_limits ?s" using assms t(1)
    by (auto simp: serve_inv_def within_limits_def try_send_def Let_def)
  moreover have "accounted ?s" using assms accounted_try_send by (simp add: serve_inv_def)
  moreover have "answers_match ?s" using assms
    by (auto simp: serve_inv_def answers_match_def try_send_def Let_def)
  ultimately show ?thesis using assms t by (simp add: serve_inv_def)
qed

lemma serve_reach_inv: "serve_reach handlers s \<Longrightarrow> serve_inv s"
proof (induction rule: serve_reach.induct)
  case start
  show ?case
    by (auto simp: serve_inv_def within_limits_def accounted_def answers_match_def serve_start_def sv_pending_def
        tasks_of_def counted_tasks_def)
next
  case (submit s m opts)
  then show ?case by (simp add: serve_inv_try_send)
next
  case (work s s')
  then show ?case
    using within_limits_step counter_step accounted_step answers_match_step by (auto simp: serve_inv_def)
qed

section \<open>Progress\<close>

lemma work_left_moved:
  assumes "(j, a) \<in># sv_tasks s"
  shows "work_left (move_task j a b s) + phase_work a = work_left s + phase_work b"
  using multi_member_split [OF assms] by (auto simp: work_left_def move_task_tasks)

lemma work_left_simps [simp]:
  "work_left (s\<lparr>sv_active := n\<rparr>) = work_left s" "work_left (resolve j d s) = work_left s"
  by (simp_all add: work_left_def)

lemma work_left_less:
  assumes "serve_step handlers s s'"
  shows "work_left s' < work_left s"
  using assms
proof cases
  case (count j)
  then show ?thesis using work_left_moved [of j Spawned s Active] by simp
next
  case (reply j mw ev st r st')
  then show ?thesis using work_left_moved [of j Active s Answering] by simp
next
  case (uncount j)
  then show ?thesis using work_left_moved [of j Answering s Uncounted] by simp
next
  case (release j)
  then obtain T where "sv_tasks s = add_mset (j, Uncounted) T" by (meson multi_member_split)
  then show ?thesis using release by (simp add: work_left_def)
qed (simp_all add: work_left_def)

lemma idle_if_no_step:
  assumes "handlers \<noteq> {}" "\<nexists>s'. serve_step handlers s s'"
  shows "sv_queue s = [] \<and> sv_batch s = [] \<and> sv_tasks s = {#}"
proof -
  have batch: "sv_batch s = []"
  proof (cases "sv_batch s")
    case (Cons j rest)
    then show ?thesis using assms(2) serve_step.spawn serve_step.drop_request by (metis (no_types, lifting))
  qed
  have "sv_queue s = []"
    using assms(2) serve_step.receive [OF batch, of 1 handlers] by (force simp: BATCH_SIZE_def not_less_eq_eq)
  moreover have "(j, ph) \<notin># sv_tasks s" for j ph
  proof
    assume t: "(j, ph) \<in># sv_tasks s"
    obtain mw where "mw \<in> handlers" using assms(1) by blast
    moreover obtain r st' where p: "process demo_env mw (jb_message j) (jb_opts j) (demo_limiter, undefined) = (r, st')"
      by (metis surj_pair)
    ultimately show False
      using assms(2) t serve_step.count [of j s handlers] serve_step.reply [of j s mw handlers, OF _ _ p]
        serve_step.uncount [of j s handlers] serve_step.release [of j s handlers]
      by (cases ph) blast+
  qed
  then have "sv_tasks s = {#}" by (metis multiset_nonemptyE prod.exhaust)
  ultimately show ?thesis using batch by blast
qed

section \<open>An example\<close>

definition demo_job :: job where
  "demo_job = \<lparr>jb_id = 0, jb_message = SM_Raw demo_message (IpV4 1, 5353) P_Udp None, jb_opts = server_opts_default\<rparr>"

text \<open>One request has been answered, and its task is about to drop its guard.\<close>

definition demo_served :: serve where
  "demo_served = \<lparr>sv_queue = [], sv_batch = [], sv_tasks = {#(demo_job, Answering)#}, sv_active = 1,
     sv_done = [0 \<mapsto> (demo_job, Answered (sm_raw (recount example_response) (IpV4 1, 5353) P_Udp))], sv_next = 1\<rparr>"

lemma demo_reach: "serve_reach {demo_handler} demo_served"
proof -
  let ?s = "\<lambda>q b t n d. \<lparr>sv_queue = q, sv_batch = b, sv_tasks = t, sv_active = n, sv_done = d, sv_next = 1\<rparr>"
  note work = serve_reach.work
  have "try_send (jb_message demo_job) (jb_opts demo_job) serve_start = ?s [demo_job] [] {#} 0 (\<lambda>_. None)"
    by (simp add: try_send_def serve_start_def QUEUE_SIZE_def demo_job_def)
  then have "serve_reach {demo_handler} (?s [demo_job] [] {#} 0 (\<lambda>_. None))"
    using serve_reach.submit [OF serve_reach.start] by metis
  from work [OF this serve_step.receive [of _ 1]] have "serve_reach {demo_handler} (?s [] [demo_job] {#} 0 (\<lambda>_. None))"
    by (simp add: BATCH_SIZE_def)
  from work [OF this serve_step.spawn [of _ demo_job "[]"]] have "serve_reach {demo_handler} (?s [] [] {#(demo_job, Spawned)#} 0 (\<lambda>_. None))"
    by (simp add: permit_free_def tasks_of_def concurrency_def)
  from work [OF this serve_step.count [of demo_job]] have "serve_reach {demo_handler} (?s [] [] {#(demo_job, Active)#} 1 (\<lambda>_. None))"
    by (simp add: move_task_def new_guard_def)
  from work [OF this serve_step.reply [of demo_job _ demo_handler _ demo_env "(demo_limiter, 0)"]] demo_processed [of "(IpV4 1, 5353)" P_Udp None]
  show ?thesis by (simp add: move_task_def resolve_def settled_as_def demo_served_def demo_job_def)
qed

section \<open>Properties\<close>

text \<open>C4: However listeners and tasks interleave, at most 20000 requests wait, at most 10240 foreground and 16
  background tasks run, and the counter of active queries is the number of tasks that hold a guard. Every
  request that was handed in is in exactly one place: it waits, or runs, or has its outcome, and gets no second
  one; an answer is the reply to the request it is given to.\<close>

theorem requests_accounted:
  assumes "serve_reach handlers s"
  shows "within_limits s \<and> unat (sv_active s) = size (counted_tasks s) \<and> accounted s \<and> answers_match s"
  using serve_reach_inv [OF assms] by (simp add: serve_inv_def)

theorem requests_accounted_witness:
  "reply_of (jb_message demo_job) (sm_raw (recount example_response) (IpV4 1, 5353) P_Udp) \<and>
   size (counted_tasks demo_served) = 1"
proof -
  have "answers_match demo_served" "unat (sv_active demo_served) = size (counted_tasks demo_served)"
    using requests_accounted [OF demo_reach] by blast+
  then show ?thesis by (simp add: answers_match_def demo_served_def)
qed

text \<open>C13: Every request is settled: without new requests the loop stops after a bounded number of actions, and when
  no action is left every request has its outcome and no query is counted as active.\<close>

theorem requests_settle:
  assumes "serve_reach handlers s" "handlers \<noteq> {}"
  shows "(\<forall>s'. serve_step handlers s s' \<longrightarrow> work_left s' < work_left s) \<and>
    ((\<nexists>s'. serve_step handlers s s') \<longrightarrow> (\<forall>i < sv_next s. sv_done s i \<noteq> None) \<and> sv_active s = 0)"
proof -
  have "(\<forall>i < sv_next s. sv_done s i \<noteq> None) \<and> sv_active s = 0" if "\<nexists>s'. serve_step handlers s s'"
  proof -
    note idle = idle_if_no_step [OF assms(2) that]
    have inv: "serve_inv s" by (rule serve_reach_inv [OF assms(1)])
    have "sv_pending s = {#}" using idle by (simp add: sv_pending_def)
    then have "\<forall>i < sv_next s. sv_done s i \<noteq> None"
      using inv by (auto simp: serve_inv_def accounted_def split: if_splits)
    moreover have "unat (sv_active s) = 0" using idle inv by (simp add: serve_inv_def counted_tasks_def)
    ultimately show ?thesis by (simp add: unat_eq_0)
  qed
  then show ?thesis using work_left_less by blast
qed

theorem requests_settle_witness:
  "work_left ((move_task demo_job Answering Uncounted demo_served)\<lparr>sv_active := 0\<rparr>) < work_left demo_served"
proof -
  have "serve_step {demo_handler} demo_served ((move_task demo_job Answering Uncounted demo_served)\<lparr>sv_active := 0\<rparr>)"
    using serve_step.uncount [of demo_job demo_served "{demo_handler}"] by (simp add: demo_served_def drop_active_def)
  then show ?thesis using requests_settle [OF demo_reach] by blast
qed

end
