(* ===== verification/Arpa.thy ===== *)
theory Arpa
  imports Config Rdata_Wire Name_Text
begin

text \<open>
  Names for the reverse lookup of addresses (\<open>Name::parse_arpa_name\<close> and \<open>impl From<IpAddr> for Name\<close> in
  \<open>hickory-dns/crates/proto/src/rr/domain/name.rs\<close>), the number parser of the standard library they use, and
  the addresses that count as private (\<open>zone/providers/local_ptr.rs\<close>). Every address is read back from its
  name.
\<close>

section \<open>Numbers\<close>

text \<open>\<open>u8::from_str_radix\<close>: a plus sign may stand in front, and there is at least one digit.\<close>

definition digit_value :: "nat \<Rightarrow> char \<Rightarrow> nat option" where
  "digit_value radix c =
     (let n = char_code c;
          d = (if 48 \<le> n \<and> n \<le> 57 then n - 48 else if 97 \<le> n \<and> n \<le> 122 then n - 87
               else if 65 \<le> n \<and> n \<le> 90 then n - 55 else radix)
      in if d < radix then Some d else None)"

fun strip_plus :: "string \<Rightarrow> string" where
  "strip_plus [] = []"
| "strip_plus (c # rest) = (if c = CHR ''+'' \<and> rest \<noteq> [] then rest else c # rest)"

definition from_str_radix :: "nat \<Rightarrow> string \<Rightarrow> u8 option" where
  "from_str_radix radix s =
     (let ds = strip_plus s
      in if ds = [] then None
         else case those (List.map (digit_value radix) ds) of
                None \<Rightarrow> None
              | Some vs \<Rightarrow>
                  let v = foldl (\<lambda>acc d. acc * radix + d) 0 vs
                  in if v \<le> 255 then Some (of_nat v) else None)"

section \<open>From a name to a network\<close>

text \<open>The loops over the labels: the four octets, of which the last may be missing, and the nibbles of an IPv6
  address with the length of the prefix so far.\<close>

fun arpa_octets :: "nat \<Rightarrow> label list \<Rightarrow> (u8 list \<times> label list) option" where
  "arpa_octets 0 ls = Some ([], ls)"
| "arpa_octets (Suc k) [] = Some ([], [])"
| "arpa_octets (Suc k) (l # ls) =
     (case from_str_radix 10 l of
        None \<Rightarrow> None
      | Some w \<Rightarrow> map_option (\<lambda>(ws, rest). (w # ws, rest)) (arpa_octets k ls))"

fun arpa_nibbles :: "nat \<Rightarrow> nat \<Rightarrow> 128 word \<Rightarrow> label list \<Rightarrow> (128 word \<times> nat \<times> label list) option" where
  "arpa_nibbles 0 prefix_len address ls = Some (address, prefix_len, ls)"
| "arpa_nibbles (Suc k) prefix_len address [] = Some (address, prefix_len, [])"
| "arpa_nibbles (Suc k) prefix_len address (l # ls) =
     (if length l = 1 then
        (case from_str_radix 16 l of
           None \<Rightarrow> None
         | Some hex \<Rightarrow> arpa_nibbles k (prefix_len + 4) (address OR push_bit (128 - (prefix_len + 4)) (ucast hex)) ls)
      else None)"

definition parse_arpa_name :: "dname \<Rightarrow> ip_net option" where
  "parse_arpa_name n =
     (if \<not> n_fqdn n then None
      else case rev (n_labels n) of
             first # second # ls \<Rightarrow>
               if lower_str first \<noteq> ''arpa'' then None
               else if lower_str second = ''in-addr'' then
                 (case arpa_octets 4 ls of
                    Some (octets, []) \<Rightarrow>
                      Some \<lparr>net_addr = IpV4 (from_be (octets @ replicate (4 - length octets) 0)),
                            net_prefix = 8 * length octets\<rparr>
                  | _ \<Rightarrow> None)
               else if lower_str second = ''ip6'' then
                 (case arpa_nibbles 32 0 0 ls of
                    Some (address, prefix_len, []) \<Rightarrow> Some \<lparr>net_addr = IpV6 address, net_prefix = prefix_len\<rparr>
                  | _ \<Rightarrow> None)
               else None
           | _ \<Rightarrow> None)"

section \<open>From an address to its name\<close>

definition nibble :: "nat \<Rightarrow> 128 word \<Rightarrow> u8" where
  "nibble i w = ucast (drop_bit (4 * i) w) AND 0x0F"

fun name_of_ip :: "ip_addr \<Rightarrow> dname" where
  "name_of_ip (IpV4 a) =
     \<lparr>n_labels = List.map (\<lambda>o8. show_dec (unat o8)) (rev (octets4 a)) @ [''in-addr'', ''arpa''], n_fqdn = True\<rparr>"
| "name_of_ip (IpV6 a) =
     \<lparr>n_labels = List.map (\<lambda>i. show_hex (unat (nibble i a))) [0..<32] @ [''ip6'', ''arpa''], n_fqdn = True\<rparr>"

section \<open>Private addresses\<close>

definition is_private_v4 :: "32 word \<Rightarrow> bool" where
  "is_private_v4 v4 \<longleftrightarrow>
     (drop_bit 24 v4 = 10 \<or> drop_bit 20 v4 = 0xAC1 \<or> drop_bit 16 v4 = 0xC0A8) \<or>
     drop_bit 24 v4 = 127 \<or> drop_bit 16 v4 = 0xA9FE \<or> v4 = 0 \<or> v4 = - 1 \<or>
     (octet 3 v4 = 100 \<and> 64 \<le> octet 2 v4 \<and> octet 2 v4 \<le> 127)"

fun is_private_ip :: "ip_addr \<Rightarrow> bool" where
  "is_private_ip (IpV4 v4) = is_private_v4 v4"
| "is_private_ip (IpV6 v6) =
     (case to_ipv4_mapped v6 of
        Some v4 \<Rightarrow> is_private_v4 v4
      | None \<Rightarrow>
          v6 = 1 \<or> drop_bit 112 v6 AND 0xffc0 = 0xfe80 \<or> drop_bit 112 v6 AND 0xfe00 = 0xfc00)"

section \<open>Reading back\<close>

lemma digit_value_char: "d < radix \<Longrightarrow> radix \<le> 16 \<Longrightarrow> digit_value radix (digit_char d) = Some d"
  by (auto simp: digit_value_def digit_char_def char_code_def Let_def)

lemma digit_char_not_plus: "d < 16 \<Longrightarrow> digit_char d \<noteq> CHR ''+''"
  using digit_value_char [of d 16] by (auto simp: digit_value_def char_code_def)

lemma digits_rev_small: "2 \<le> b \<Longrightarrow> \<exists>ds. digits_rev b n = List.map digit_char ds \<and> (\<forall>d \<in> set ds. d < b) \<and> ds \<noteq> [] \<and> read_base b ds = n"
proof (induction b n rule: digits_rev.induct)
  case (1 b n)
  show ?case
  proof (cases "n < b")
    case True
    then show ?thesis using 1(2) by (intro exI [of _ "[n]"]) (subst digits_rev.simps, simp)
  next
    case False
    then obtain ds where "digits_rev b (n div b) = List.map digit_char ds" "\<forall>d \<in> set ds. d < b" "ds \<noteq> []" "read_base b ds = n div b"
      using 1 by auto
    then show ?thesis using False 1(2)
      by (intro exI [of _ "n mod b # ds"]) (subst digits_rev.simps, simp)
  qed
qed

lemma foldl_rev_read: "foldl (\<lambda>acc d. acc * b + d) 0 (rev ds) = read_base b ds"
  by (induction ds) (simp_all add: algebra_simps)

lemma those_map_Some: "(\<forall>x \<in> set xs. f (g x) = Some x) \<Longrightarrow> those (List.map f (List.map g xs)) = Some xs"
  by (induction xs) auto

lemma from_str_show:
  assumes "2 \<le> radix" "radix \<le> 16" "n \<le> 255"
  shows "from_str_radix radix (show_base radix n) = Some (of_nat n)"
proof -
  obtain ds where ds: "digits_rev radix n = List.map digit_char ds" "\<forall>d \<in> set ds. d < radix" "ds \<noteq> []" "read_base radix ds = n"
    using digits_rev_small [OF assms(1)] by blast
  have s: "show_base radix n = List.map digit_char (rev ds)" by (simp add: show_base_def ds(1) rev_map)
  have "those (List.map (digit_value radix) (List.map digit_char (rev ds))) = Some (rev ds)"
    by (rule those_map_Some) (use ds(2) assms(2) digit_value_char in auto)
  moreover have "strip_plus (show_base radix n) = List.map digit_char (rev ds)"
  proof (cases "rev ds")
    case (Cons d ds')
    then have "d \<in> set ds" by (metis list.set_intros(1) set_rev)
    then have "digit_char d \<noteq> CHR ''+''" using ds(2) assms(2) digit_char_not_plus by force
    then show ?thesis using s Cons by simp
  qed (use s in simp)
  ultimately show ?thesis using ds(3, 4) assms(3)
    by (simp add: from_str_radix_def Let_def foldl_rev_read)
qed

lemma from_str_show_dec: "from_str_radix 10 (show_dec (unat (w :: u8))) = Some w"
  using from_str_show [of 10 "unat w"] unsigned_less [of w, where 'a = nat] by (simp add: show_dec_def)

lemma from_str_show_hex: "from_str_radix 16 (show_hex (unat (w :: u8))) = Some w"
  using from_str_show [of 16 "unat w"] unsigned_less [of w, where 'a = nat] by (simp add: show_hex_def)

lemma arpa_octets_show:
  "arpa_octets (length ws) (List.map (\<lambda>o8. show_dec (unat o8)) ws @ rest) = Some (ws, rest)"
  by (induction ws) (simp_all add: from_str_show_dec)

lemma length_show_nibble: "length (show_hex (unat (nibble i w))) = 1"
proof -
  have "unat (nibble i w) < 16"
  proof -
    have "nibble i w = take_bit 4 (ucast (drop_bit (4 * i) w))"
      by (simp add: nibble_def take_bit_eq_mask mask_eq_exp_minus_1)
    then show ?thesis using take_bit_nat_less_exp [of 4] by (simp add: unsigned_take_bit_eq)
  qed
  then show ?thesis by (simp add: show_hex_def show_base_def digits_rev.simps)
qed

lemma nibble_bit: "bit (nibble i w) n \<longleftrightarrow> n < 4 \<and> bit w (4 * i + n)"
proof -
  have m: "(0x0F :: u8) = mask 4" by (simp add: mask_eq_exp_minus_1)
  show ?thesis unfolding nibble_def m by (auto simp: bit_simps)
qed

lemma take_bit_nibble:
  assumes "k < 32"
  shows "take_bit (4 * Suc k) w = push_bit (4 * k) (ucast (nibble k w)) OR take_bit (4 * k) (w :: 128 word)"
proof (rule bit_word_eqI)
  fix n assume "n < LENGTH(128)"
  show "bit (take_bit (4 * Suc k) w) n = bit (push_bit (4 * k) (ucast (nibble k w)) OR take_bit (4 * k) w) n"
    using assms by (auto simp: bit_simps nibble_bit)
qed

lemma arpa_nibbles_show:
  "k \<le> 32 \<Longrightarrow> p + 4 * k = 128 \<Longrightarrow>
   arpa_nibbles k p address (List.map (\<lambda>i. show_hex (unat (nibble i w))) (rev [0..<k]) @ rest) =
     Some (address OR take_bit (4 * k) w, 128, rest)"
proof (induction k arbitrary: p address)
  case (Suc k)
  have e: "128 - (p + 4) = 4 * k" "k \<le> 32" "p + 4 + 4 * k = 128" "k < 32" using Suc.prems by simp_all
  have ls: "List.map (\<lambda>i. show_hex (unat (nibble i w))) (rev [0..<Suc k]) @ rest =
      show_hex (unat (nibble k w)) # (List.map (\<lambda>i. show_hex (unat (nibble i w))) (rev [0..<k]) @ rest)" by simp
  show ?case
    unfolding ls arpa_nibbles.simps length_show_nibble from_str_show_hex option.case e(1) Suc.IH [OF e(2, 3)]
      take_bit_nibble [OF e(4)] by (simp only: if_True refl or.assoc)
qed simp

text \<open>The name of an address is read back as the network of this address alone.\<close>

lemma arpa_name_back:
  "parse_arpa_name (name_of_ip a) = Some \<lparr>net_addr = a, net_prefix = (if is_v4 a then 32 else 128)\<rparr>"
proof (cases a)
  case (IpV4 v4)
  have l: "lower_str ''arpa'' = ''arpa''" "lower_str ''in-addr'' = ''in-addr''" by code_simp+
  have o: "length (octets4 v4) = 4" by (simp add: octets4_def)
  have "arpa_octets 4 (List.map (\<lambda>o8. show_dec (unat o8)) (octets4 v4)) = Some (octets4 v4, [])"
    using arpa_octets_show [of "octets4 v4" "[]"] o by simp
  then show ?thesis using IpV4 l o by (simp add: parse_arpa_name_def rev_map octets_be)
next
  case (IpV6 v6)
  have l: "lower_str ''arpa'' = ''arpa''" "lower_str ''ip6'' = ''ip6''" by code_simp+
  have "arpa_nibbles 32 0 0 (List.map (\<lambda>i. show_hex (unat (nibble i v6))) (rev [0..<32])) = Some (v6, 128, [])"
    using arpa_nibbles_show [of 32 0 0 v6 "[]"] by (simp add: take_bit_word_eq_self)
  then show ?thesis using IpV6 l by (simp add: parse_arpa_name_def rev_map del: upt_rec_numeral)
qed

end
