(* ===== verification/Zones.thy ===== *)
theory Zones
  imports Middleware Arpa
begin

text \<open>
  The zones the server answers itself (\<open>dns_mw_zone.rs\<close>, \<open>zone/manager.rs\<close>, \<open>zone/providers\<close>): reverse
  lookups of private addresses, the identity of the server and of the client as TXT records of the class CH,
  and the SRV and HTTPS records of the domain rules. The text of a name with its IDNA conversion, the JSON
  serialiser, the neighbour table and the host name of the machine are parameters.
\<close>

record zone_env =
  ze_server_name :: dname
  ze_version :: string
  ze_show_name :: "dname \<Rightarrow> string"
  ze_json :: "(string \<times> string) list \<Rightarrow> string"
  ze_arp :: "ip_addr \<Rightarrow> string option"

type_synonym provider = "request \<Rightarrow> (dns_response option, lookup_error) result"

section \<open>Reverse lookups\<close>

definition server_names :: "dname list" where
  "server_names = [fqdn [''smartdns''], fqdn [''whoami'']]"

definition private_answer :: "env \<Rightarrow> query \<Rightarrow> dns_response" where
  "private_answer ev q =
     r_add_authority (from_rdata name_root 3600 (RD_SOA (default_soa (ev_build ev))))
       (r_set_response_code RC_NXDomain (r_add_query q (response_empty (ev_rid ev) (ev_now ev))))"

definition local_ptr_lookup :: "env \<Rightarrow> zone_env \<Rightarrow> provider" where
  "local_ptr_lookup ev ze req =
     (let q = rq_query req; name = rq_lower_name req in
      if q_type q \<noteq> RT_PTR then Inr None
      else if list_ex (\<lambda>s. name_cmp s name = OEqual) server_names then
        Inr (Some (response_from_rdata (ev_rid ev) (ev_now ev) q (RD_PTR (ze_server_name ze))))
      else case parse_arpa_name name of
             Some net \<Rightarrow> if is_private_ip (net_addr net) then Inr (Some (private_answer ev q)) else Inr None
           | None \<Rightarrow> Inr None)"

section \<open>Identity\<close>

datatype identity_query =
    IQ_ServerName | IQ_ServerVersion | IQ_ClientIp | IQ_ClientMac | IQ_WhoAmIRecords | IQ_WhoAmIJson
  | IQ_ServerRecords | IQ_ServerJson

definition translate_query_name :: "string \<Rightarrow> identity_query option" where
  "translate_query_name name =
     (if name = ''server-name.'' \<or> name = ''hostname.bind.'' then Some IQ_ServerName
      else if name = ''version.'' \<or> name = ''version.bind.'' then Some IQ_ServerVersion
      else if name = ''client_ip.'' \<or> name = ''client-ip.'' then Some IQ_ClientIp
      else if name = ''client_mac.'' \<or> name = ''client-mac.'' then Some IQ_ClientMac
      else if name = ''whoami.'' then Some IQ_WhoAmIRecords
      else if name = ''whoami.json.'' then Some IQ_WhoAmIJson
      else if name = ''smartdns.'' \<or> name = ''id.server.'' then Some IQ_ServerRecords
      else if name = ''smartdns.json.'' then Some IQ_ServerJson
      else None)"

definition normalize_query_name :: "(dname \<Rightarrow> string) \<Rightarrow> dname \<Rightarrow> string" where
  "normalize_query_name show_name n = lower_str (show_name (set_fqdn True n))"

definition trim_fqdn_dot :: "string \<Rightarrow> string" where
  "trim_fqdn_dot s = rev (dropWhile (\<lambda>c. c = CHR ''.'') (rev s))"

definition identity_txt_ttl :: u32 where
  "identity_txt_ttl = 60"

definition txt_records_response :: "env \<Rightarrow> query \<Rightarrow> string list \<Rightarrow> dns_response" where
  "txt_records_response ev q texts =
     new_with_max_ttl (ev_rid ev) (ev_now ev) q
       (List.map (\<lambda>t. (from_rdata (q_name q) identity_txt_ttl (RD_TXT [t]))\<lparr>rr_class := q_class q\<rparr>) texts)"

definition txt_response :: "env \<Rightarrow> query \<Rightarrow> string \<Rightarrow> dns_response" where
  "txt_response ev q t = txt_records_response ev q [t]"

definition server_info :: "string \<Rightarrow> string \<Rightarrow> (string \<times> string) list" where
  "server_info server_name version = [(''server_name'', server_name), (''server_version'', version)]"

definition client_info :: "ip_addr \<Rightarrow> string \<Rightarrow> (string \<times> string) list" where
  "client_info ip mac = [(''client_ip'', show_ip ip), (''client_mac'', mac)]"

definition record_texts :: "(string \<times> string) list \<Rightarrow> string list" where
  "record_texts kvs = List.map (\<lambda>(k, v). k @ ''='' @ v) kvs"

definition get_client_mac :: "zone_env \<Rightarrow> ip_addr \<Rightarrow> string" where
  "get_client_mac ze ip = unwrap_or (ze_arp ze ip) ''N/A''"

definition identity_lookup :: "env \<Rightarrow> zone_env \<Rightarrow> provider" where
  "identity_lookup ev ze req =
     (let q = rq_query req in
      if q_type q \<noteq> RT_TXT then Inr None
      else if q_class q \<noteq> DC_CH then Inr None
      else case translate_query_name (normalize_query_name (ze_show_name ze) (q_name q)) of
             None \<Rightarrow> Inr None
           | Some canonical \<Rightarrow>
               let client_ip = normalize_ip (fst (rq_src req));
                   server_name = trim_fqdn_dot (ze_show_name ze (ze_server_name ze));
                   server = server_info server_name (ze_version ze);
                   client = client_info client_ip (get_client_mac ze client_ip)
               in Inr (Some
                    (case canonical of
                       IQ_ServerName \<Rightarrow> txt_response ev q server_name
                     | IQ_ServerVersion \<Rightarrow> txt_response ev q (ze_version ze)
                     | IQ_ClientIp \<Rightarrow> txt_response ev q (show_ip client_ip)
                     | IQ_ClientMac \<Rightarrow> txt_response ev q (get_client_mac ze client_ip)
                     | IQ_WhoAmIJson \<Rightarrow> txt_response ev q (ze_json ze (server @ client))
                     | IQ_WhoAmIRecords \<Rightarrow> txt_records_response ev q (record_texts (server @ client))
                     | IQ_ServerRecords \<Rightarrow> txt_records_response ev q (record_texts server)
                     | IQ_ServerJson \<Rightarrow> txt_response ev q (ze_json ze server))))"

fun manager_lookup :: "provider list \<Rightarrow> provider" where
  "manager_lookup [] req = Inr None"
| "manager_lookup (p # ps) req =
     (case p req of
        Inl e \<Rightarrow> Inl e
      | Inr (Some r) \<Rightarrow> Inr (Some r)
      | Inr None \<Rightarrow> manager_lookup ps req)"

section \<open>Records of the domain rules\<close>

definition keep_param :: "bool \<Rightarrow> bool \<Rightarrow> svc_param \<Rightarrow> bool" where
  "keep_param no_ipv4_hint no_ipv6_hint p =
     (case p of SvcIpv4Hint _ \<Rightarrow> \<not> no_ipv4_hint | SvcIpv6Hint _ \<Rightarrow> \<not> no_ipv6_hint | SvcParam _ _ \<Rightarrow> True)"

definition filter_hints :: "bool \<Rightarrow> bool \<Rightarrow> rr \<Rightarrow> rr" where
  "filter_hints no_ipv4_hint no_ipv6_hint r =
     (case rr_data r of
        RD_HTTPS s \<Rightarrow> r\<lparr>rr_data := RD_HTTPS (s\<lparr>svc_params := List.filter (keep_param no_ipv4_hint no_ipv6_hint) (svc_params s)\<rparr>)\<rparr>
      | _ \<Rightarrow> r)"

definition map_answers :: "(rr \<Rightarrow> rr) \<Rightarrow> dns_response \<Rightarrow> dns_response" where
  "map_answers f r = r\<lparr>r_message := (r_message r)\<lparr>m_answers := List.map f (m_answers (r_message r))\<rparr>\<rparr>"

definition rule_zone_lookup ::
    "env \<Rightarrow> 'w handler \<Rightarrow> dns_context \<Rightarrow> request \<Rightarrow> 'w \<Rightarrow>
     (dns_response option, lookup_error) result \<times> dns_context \<times> 'w" where
  "rule_zone_lookup ev run_next ctx req w =
     (let q = rq_query req; answer = (\<lambda>d. (Inr (Some (response_from_rdata (ev_rid ev) (ev_now ev) q d)), ctx, w)) in
      if q_type q = RT_SRV then
        (case rule_get dr_srv ctx of Some srv \<Rightarrow> answer (RD_SRV srv) | None \<Rightarrow> (Inr None, ctx, w))
      else if q_type q = RT_HTTPS then
        (case rule_get dr_https ctx of
           None \<Rightarrow> (Inr None, ctx, w)
         | Some HR_Ignore \<Rightarrow> (Inr None, ctx, w)
         | Some HR_SOA \<Rightarrow> answer (RD_SOA (default_soa (ev_build ev)))
         | Some (HR_Filter no4 no6) \<Rightarrow>
             (case run_next ctx req w of
                (Inl e, ctx', w') \<Rightarrow> (Inl e, ctx', w')
              | (Inr lookup, ctx', w') \<Rightarrow> (Inr (Some (map_answers (filter_hints no4 no6) lookup)), ctx', w'))
         | Some (HR_RecordData https) \<Rightarrow> answer (RD_HTTPS https))
      else (Inr None, ctx, w))"

section \<open>The middleware\<close>

definition zone_mw :: "env \<Rightarrow> zone_env \<Rightarrow> 'w middleware" where
  "zone_mw ev ze run_next ctx req w =
     (case manager_lookup [local_ptr_lookup ev ze, identity_lookup ev ze] req of
        Inl e \<Rightarrow> (Inl e, ctx, w)
      | Inr (Some r) \<Rightarrow> (Inr r, ctx, w)
      | Inr None \<Rightarrow>
          (case rule_zone_lookup ev run_next ctx req w of
             (Inl e, ctx', w') \<Rightarrow> (Inl e, ctx', w')
           | (Inr (Some r), ctx', w') \<Rightarrow> (Inr r, ctx', w')
           | (Inr None, ctx', w') \<Rightarrow> run_next ctx' req w'))"

section \<open>Lemmas\<close>

lemma private_answer_parts:
  "r_answers (private_answer ev q) = []" "m_response_code (r_message (private_answer ev q)) = RC_NXDomain"
  "m_queries (r_message (private_answer ev q)) = [q]" "length (m_authorities (r_message (private_answer ev q))) = 1"
  by (simp_all add: private_answer_def r_answers_def m_response_code_def r_add_authority_def m_add_authority_def
      r_sync_header_counts_def update_header_counts_def r_set_response_code_def m_set_response_code_def r_add_query_def
      m_add_query_def response_empty_def message_query_def message_new_def Let_def)

lemma name_of_ip_labels: "length (n_labels (name_of_ip a)) > 2"
  by (cases a) (simp_all add: octets4_def)

lemma not_a_server_name: "\<not> list_ex (\<lambda>s. name_cmp s (name_of_ip a) = OEqual) server_names"
proof -
  have "\<not> name_eq s (name_of_ip a)" if "s \<in> set server_names" for s
  proof
    assume "name_eq s (name_of_ip a)"
    then have "length (n_labels (to_lowercase s)) = length (n_labels (to_lowercase (name_of_ip a)))"
      by (simp add: name_eq_iff)
    then have "length (n_labels s) = length (n_labels (name_of_ip a))" by (simp add: to_lowercase_def)
    then show False using that name_of_ip_labels [of a] by (auto simp: server_names_def fqdn_def)
  qed
  moreover have "n_fqdn (name_of_ip a)" "n_fqdn s" if "s \<in> set server_names" for s
    using that by (cases a; auto simp: server_names_def fqdn_def)+
  ultimately show ?thesis by (auto simp: list_ex_iff name_eq_def)
qed

text \<open>Identity records are only given to queries of the class CH, under the name of the query, and may be kept
  for a minute.\<close>

theorem identity_records:
  assumes "identity_lookup ev ze req = Inr (Some r)"
  shows "q_type (rq_query req) = RT_TXT \<and> q_class (rq_query req) = DC_CH \<and> r_answers r \<noteq> [] \<and>
    (\<forall>x \<in> set (r_answers r). rr_name x = q_name (rq_query req) \<and> rr_class x = DC_CH \<and> rr_ttl x = 60 \<and> rr_type x = RT_TXT)"
proof -
  have t: "q_type (rq_query req) = RT_TXT" "q_class (rq_query req) = DC_CH"
    using assms by (auto simp: identity_lookup_def Let_def split: if_splits)
  obtain texts where "r = txt_records_response ev (rq_query req) texts" "texts \<noteq> []"
    using assms t by (auto simp: identity_lookup_def Let_def txt_response_def record_texts_def server_info_def
        split: option.splits identity_query.splits)
  then show ?thesis using t
    by (auto simp: txt_records_response_def new_with_max_ttl_def new_with_deadline_def r_answers_def r_sync_header_counts_def
        m_add_answers_def m_add_query_def m_to_response_def message_query_def message_new_def from_rdata_def rr_type_def
        identity_txt_ttl_def Let_def)
qed

text \<open>Filtering the hints of HTTPS records leaves every other record as it is, and no hint of the kind that
  is filtered.\<close>

theorem hints_filtered:
  "(rr_type r \<noteq> RT_HTTPS \<longrightarrow> filter_hints no4 no6 r = r) \<and>
   (rr_data (filter_hints no4 no6 r) = RD_HTTPS s \<longrightarrow>
      (\<forall>p \<in> set (svc_params s). (no4 \<longrightarrow> (\<nexists>as. p = SvcIpv4Hint as)) \<and> (no6 \<longrightarrow> (\<nexists>as. p = SvcIpv6Hint as))))"
  by (auto simp: filter_hints_def rr_type_def keep_param_def split: rdata.splits svc_param.splits)

text \<open>The addresses 0.0.0.1 to 0.255.255.255 are not private for the server, although its comment lists the
  network 0.0.0.0/8 among those that must not be forwarded.\<close>

theorem this_network_not_private: "\<not> is_private_ip (IpV4 1)" "drop_bit 24 (1 :: 32 word) = 0"
  by (simp_all add: is_private_v4_def octet_def)

section \<open>Properties\<close>

text \<open>The reverse lookup of a private address never leaves the server: whatever the rest of the chain would
  do, it is not run, the state stays as it is, and the answer is negative. This covers every private IPv4 and
  IPv6 address, mapped ones too, and every spelling of the name.\<close>

theorem private_reverse_stays_local:
  assumes "q_type (rq_query req) = RT_PTR" "to_lowercase (q_name (rq_query req)) = name_of_ip a" "is_private_ip a"
  shows "\<exists>r. zone_mw ev ze run_next ctx req w = (Inr r, ctx, w) \<and> r_answers r = [] \<and>
    m_response_code (r_message r) = RC_NXDomain \<and> m_queries (r_message r) = [rq_query req]"
proof -
  have "local_ptr_lookup ev ze req = Inr (Some (private_answer ev (rq_query req)))"
    using assms not_a_server_name [of a] by (simp add: local_ptr_lookup_def rq_lower_name_def arpa_name_back Let_def)
  then show ?thesis by (simp add: zone_mw_def private_answer_parts)
qed

definition demo_zone_env :: zone_env where
  "demo_zone_env = \<lparr>ze_server_name = fqdn [''smartdns''], ze_version = ''1'', ze_show_name = to_ascii,
     ze_json = (\<lambda>_. []), ze_arp = (\<lambda>_. None)\<rparr>"

theorem private_reverse_stays_local_witness:
  "m_response_code (r_message (projr (fst (zone_mw \<lparr>ev_now = 0, ev_rid = 1, ev_build = 5\<rparr> demo_zone_env
     (\<lambda>ctx req w. (Inl no_connections, ctx, w)) undefined
     (request_of_query 7 (query_query (fqdn [''8'', ''1'', ''168'', ''192'', ''IN-ADDR'', ''arpa'']) RT_PTR)) (0 :: nat))))) = RC_NXDomain"
proof -
  let ?req = "request_of_query 7 (query_query (fqdn [''8'', ''1'', ''168'', ''192'', ''IN-ADDR'', ''arpa'']) RT_PTR)"
  have t: "q_type (rq_query ?req) = RT_PTR" by (simp add: request_of_query_def query_query_def)
  have n: "to_lowercase (q_name (rq_query ?req)) = name_of_ip (IpV4 0xC0A80108)" by code_simp
  have p: "is_private_ip (IpV4 0xC0A80108)" by (simp add: is_private_v4_def)
  show ?thesis
    using private_reverse_stays_local [OF t n p, of "\<lparr>ev_now = 0, ev_rid = 1, ev_build = 5\<rparr>" demo_zone_env
        "\<lambda>ctx req w. (Inl no_connections, ctx, w)" undefined "0 :: nat"] by auto
qed

end
