(* ===== verification/Leases.thy ===== *)
theory Leases
  imports Middleware Trusted_Proxy Arpa
begin

text \<open>
  The leases of a DHCP server (\<open>dnsmasq.rs\<close>, \<open>dns_mw_dnsmasq.rs\<close>): a line of the lease file, the map from host
  names to clients, its cache with the time of the last look at the file, the lookup with the zone of the local
  network, and the middleware. Reading the file, parsing an address or a name and the glob of a label are
  parameters. The file is read into a hash map; which of the entries comes first does not matter, since every
  name has one entry.
\<close>

section \<open>A line of the file\<close>

record client_lease =
  ci_id :: string
  ci_ip :: ip_addr
  ci_host :: dname
  ci_mac :: string
  ci_expires_at :: int

definition is_expired :: "int \<Rightarrow> client_lease \<Rightarrow> bool" where
  "is_expired now_ts c \<longleftrightarrow> 0 < ci_expires_at c \<and> ci_expires_at c < now_ts"

text \<open>\<open>i64::from_str\<close>.\<close>

definition parse_i64 :: "string \<Rightarrow> int option" where
  "parse_i64 s =
     (let negative = (case s of c # _ \<Rightarrow> c = CHR ''-'' | [] \<Rightarrow> False);
          ds = (case s of c # rest \<Rightarrow> if (c = CHR ''-'' \<or> c = CHR ''+'') \<and> rest \<noteq> [] then rest else s | [] \<Rightarrow> [])
      in if ds = [] then None
         else case those (List.map (digit_value 10) ds) of
                None \<Rightarrow> None
              | Some vs \<Rightarrow>
                  let v = foldl (\<lambda>acc d. acc * 10 + int d) 0 vs; n = (if negative then - v else v)
                  in if - (2 ^ 63) \<le> n \<and> n < 2 ^ 63 then Some n else None)"

definition parts_of :: "string \<Rightarrow> string list" where
  "parts_of s = List.filter (\<lambda>p. p \<noteq> []) (split_on (CHR '' '') s)"

definition is_comment :: "string \<Rightarrow> bool" where
  "is_comment s \<longleftrightarrow> (case s of [] \<Rightarrow> True | c # _ \<Rightarrow> c = CHR ''#'')"

fun parse_lease ::
    "(string \<Rightarrow> ip_addr option) \<Rightarrow> (string \<Rightarrow> dname option) \<Rightarrow> string list \<Rightarrow> client_lease option" where
  "parse_lease parse_ip parse_name (timestamp # mac # ip # host # cid # _) =
     (case (parse_ip ip, parse_name host) of
        (Some a, Some n) \<Rightarrow>
          Some \<lparr>ci_id = cid, ci_ip = a, ci_host = n, ci_mac = mac, ci_expires_at = unwrap_or (parse_i64 timestamp) 0\<rparr>
      | _ \<Rightarrow> None)"
| "parse_lease parse_ip parse_name _ = None"

definition client_from_str ::
    "(string \<Rightarrow> ip_addr option) \<Rightarrow> (string \<Rightarrow> dname option) \<Rightarrow> string \<Rightarrow> client_lease option" where
  "client_from_str parse_ip parse_name s =
     (if is_comment (trim s) then None else parse_lease parse_ip parse_name (parts_of (trim s)))"

section \<open>The file\<close>

definition with_zone :: "dname option \<Rightarrow> dname \<Rightarrow> dname" where
  "with_zone zone n =
     (case zone of
        Some z \<Rightarrow> (case append_name n z of Inr m \<Rightarrow> m | Inl _ \<Rightarrow> n)
      | None \<Rightarrow> n)"

definition lease_of_line ::
    "(string \<Rightarrow> ip_addr option) \<Rightarrow> (string \<Rightarrow> dname option) \<Rightarrow> dname option \<Rightarrow> int \<Rightarrow> string option \<Rightarrow> client_lease option" where
  "lease_of_line parse_ip parse_name zone now_ts line =
     (case line of
        None \<Rightarrow> None
      | Some s \<Rightarrow>
          let s = dropWhile is_space s
          in if is_comment s then None
             else case client_from_str parse_ip parse_name s of
                    None \<Rightarrow> None
                  | Some c \<Rightarrow>
                      if is_expired now_ts c then None
                      else Some (c\<lparr>ci_host := set_fqdn True (with_zone zone (ci_host c))\<rparr>))"

fun lease_entries :: "client_lease list \<Rightarrow> (wname \<times> client_lease) list \<Rightarrow> (wname \<times> client_lease) list" where
  "lease_entries [] es = es"
| "lease_entries (c # cs) es = lease_entries cs (AList.update (w_canon (w_of_name (ci_host c))) c es)"

definition read_lease_file ::
    "(string \<Rightarrow> ip_addr option) \<Rightarrow> (string \<Rightarrow> dname option) \<Rightarrow> dname option \<Rightarrow> int \<Rightarrow> string option list \<Rightarrow> client_lease dmap" where
  "read_lease_file parse_ip parse_name zone now_ts lines =
     dm_from_iter (lease_entries (List.map_filter (lease_of_line parse_ip parse_name zone now_ts) lines) []) dm_empty"

section \<open>The cache of the file\<close>

record lease_cache =
  lc_clients :: "client_lease dmap"
  lc_modified_at :: "int option"
  lc_checked_at :: int

definition LEASE_FILE_STAT_INTERVAL :: int where
  "LEASE_FILE_STAT_INTERVAL = secs 2"

text \<open>The three moments at which the cache is locked: before the time of the file is asked for, with this time,
  and with what was read. Between them other queries may have changed the cache.\<close>

definition lease_fresh :: "int \<Rightarrow> lease_cache option \<Rightarrow> client_lease dmap option" where
  "lease_fresh now cache =
     (case cache of
        Some c \<Rightarrow> if now - lc_checked_at c < LEASE_FILE_STAT_INTERVAL then Some (lc_clients c) else None
      | None \<Rightarrow> None)"

definition lease_unchanged ::
    "int \<Rightarrow> int option \<Rightarrow> lease_cache option \<Rightarrow> client_lease dmap option \<times> lease_cache option" where
  "lease_unchanged now modified_at cache =
     (case cache of
        None \<Rightarrow> (None, None)
      | Some c \<Rightarrow>
          if now - lc_checked_at c < LEASE_FILE_STAT_INTERVAL then (Some (lc_clients c), cache)
          else if lc_modified_at c = modified_at then (Some (lc_clients c), Some (c\<lparr>lc_checked_at := now\<rparr>))
          else (None, cache))"

definition lease_refresh ::
    "int \<Rightarrow> int option \<Rightarrow> client_lease dmap option \<Rightarrow> lease_cache option \<Rightarrow>
     client_lease dmap option \<times> lease_cache option" where
  "lease_refresh now modified_at refreshed cache =
     (case refreshed of
        Some clients \<Rightarrow>
          (Some clients, Some \<lparr>lc_clients = clients, lc_modified_at = modified_at, lc_checked_at = now\<rparr>)
      | None \<Rightarrow>
          (case cache of
             Some c \<Rightarrow> (Some (lc_clients c), Some (c\<lparr>lc_checked_at := now\<rparr>))
           | None \<Rightarrow> (None, None)))"

definition cached_clients ::
    "int \<Rightarrow> int option \<Rightarrow> client_lease dmap option \<Rightarrow> lease_cache option \<Rightarrow>
     client_lease dmap option \<times> lease_cache option" where
  "cached_clients now modified_at refreshed cache =
     (case lease_fresh now cache of
        Some clients \<Rightarrow> (Some clients, cache)
      | None \<Rightarrow>
          (case lease_unchanged now modified_at cache of
             (Some clients, cache') \<Rightarrow> (Some clients, cache')
           | (None, cache') \<Rightarrow> lease_refresh now modified_at refreshed cache'))"

section \<open>Looking a client up\<close>

definition find_client ::
    "(string \<Rightarrow> string \<Rightarrow> bool) \<Rightarrow> dname option \<Rightarrow> client_lease dmap \<Rightarrow> dname \<Rightarrow> client_lease option" where
  "find_client glob zone store n =
     (let name = (if n_fqdn n then n else set_fqdn True (with_zone zone n))
      in case dm_find glob store name of
           Some c \<Rightarrow> Some c
         | None \<Rightarrow>
             (case zone of
                Some z \<Rightarrow>
                  if \<not> zone_of z name then
                    (case append_domain name z of Inr m \<Rightarrow> dm_find glob store m | Inl _ \<Rightarrow> None)
                  else None
              | None \<Rightarrow> None))"

definition lease_lookup ::
    "(string \<Rightarrow> string \<Rightarrow> bool) \<Rightarrow> dname option \<Rightarrow> client_lease dmap option \<Rightarrow> dname \<Rightarrow> rtype \<Rightarrow> rdata list option" where
  "lease_lookup glob zone clients n t =
     (if t = RT_A \<or> t = RT_AAAA then
        (case clients of
           None \<Rightarrow> None
         | Some store \<Rightarrow>
             (case find_client glob zone store n of
                None \<Rightarrow> None
              | Some c \<Rightarrow>
                  Some (case ci_ip c of
                          IpV4 v \<Rightarrow> if t = RT_A then [RD_A v] else []
                        | IpV6 v \<Rightarrow> if t = RT_AAAA then [RD_AAAA v] else [])))
      else None)"

definition dnsmasq_mw ::
    "env \<Rightarrow> (string \<Rightarrow> string \<Rightarrow> bool) \<Rightarrow> dname option \<Rightarrow> client_lease dmap option \<Rightarrow> 'w middleware" where
  "dnsmasq_mw ev glob zone clients run_next ctx req w =
     (case lease_lookup glob zone clients (rq_lower_name req) (q_type (rq_query req)) of
        None \<Rightarrow> run_next ctx req w
      | Some rdatas \<Rightarrow>
          let ttl = cx_local_ttl ctx; q = rq_query req;
              records = List.map (from_rdata (q_name q) (ucast ttl)) rdatas;
              lookup = new_with_deadline (ev_rid ev) q records (ev_now ev + secs (unat ttl));
              lookup' = (if r_answers lookup = [] then
                           r_add_authority (from_rdata name_root (ucast ttl) (RD_SOA (default_soa (ev_build ev)))) lookup
                         else lookup)
          in (Inr lookup', ctx\<lparr>cx_source := LF_Static\<rparr>, w))"

section \<open>What the map of the leases holds\<close>

lemma dm_get_from_iter_mono:
  "dm_get m k \<noteq> None \<Longrightarrow> dm_get (dm_from_iter es m) k \<noteq> None"
  by (induction es m rule: dm_from_iter.induct) (simp_all add: dm_get_def update_conv' Let_def)

lemma dm_get_from_iter:
  "k \<in> fst ` set es \<Longrightarrow> dm_get (dm_from_iter es m) k \<noteq> None"
proof (induction es m rule: dm_from_iter.induct)
  case (2 n v rest m)
  show ?case
  proof (cases "k = n")
    case True
    show ?thesis unfolding dm_from_iter.simps Let_def
      by (rule dm_get_from_iter_mono) (simp add: True dm_get_def update_conv')
  next
    case False
    with 2 show ?thesis by (auto simp: Let_def)
  qed
qed simp

lemma dm_get_from_iter_vals:
  "dm_get (dm_from_iter es m) k = Some v \<Longrightarrow> v \<in> snd ` set es \<or> dm_get m k = Some v"
proof (induction es m rule: dm_from_iter.induct)
  case (2 n u rest m)
  then show ?case by (fastforce simp: Let_def dm_get_def update_conv' split: if_splits)
qed simp

lemma dm_map_from_iter: "dm_map m \<noteq> [] \<Longrightarrow> dm_map (dm_from_iter es m) \<noteq> []"
  by (induction es m rule: dm_from_iter.induct) (simp_all add: Let_def)

lemma set_update_subset: "set (AList.update k v al) \<subseteq> insert (k, v) (set al)"
  by (induction al) auto

lemma lease_entries_vals: "v \<in> snd ` set (lease_entries cs es) \<Longrightarrow> v \<in> set cs \<or> v \<in> snd ` set es"
proof (induction cs es rule: lease_entries.induct)
  case (2 c cs es)
  then show ?case using set_update_subset [of "w_canon (w_of_name (ci_host c))" c es] by auto
qed simp

lemma lease_entries_keys:
  "fst ` set (lease_entries cs es) = (\<lambda>c. w_canon (w_of_name (ci_host c))) ` set cs \<union> fst ` set es"
  by (induction cs es rule: lease_entries.induct) (auto simp: dom_update image_iff)

lemma lease_entries_Nil: "lease_entries cs es = [] \<longleftrightarrow> cs = [] \<and> es = []"
  by (induction cs es rule: lease_entries.induct) auto

lemma find_level_vals: "find_level glob m lvl last0 name = Some v \<Longrightarrow> \<exists>k. dm_get m k = Some v"
proof -
  assume a: "find_level glob m lvl last0 name = Some v"
  have f: "find_map (\<lambda>w. if w_is_match glob w last0 then dm_get m w else None) ws = Some v \<Longrightarrow>
      \<exists>k. dm_get m k = Some v" for ws
    by (induction ws) (auto split: if_splits option.splits)
  have o: "or_else x y = Some v \<Longrightarrow> x = Some v \<or> y = Some v" for x y by (cases x) auto
  show ?thesis using a unfolding find_level_def
    by (auto dest!: o f split: if_splits)
qed

lemma find_from_vals: "find_from glob m lvl last0 name = Some v \<Longrightarrow> \<exists>k. dm_get m k = Some v"
proof (induction glob m lvl last0 name rule: find_from.induct)
  case (1 glob m lvl last0 name)
  show ?case using 1 find_level_vals [of glob m lvl last0 name v]
    by (subst (asm) (3) find_from.simps) (auto split: option.splits if_splits)
qed

lemma find_level_default: "dm_get m (WDefault name) \<noteq> None \<Longrightarrow> find_level glob m lvl last0 name \<noteq> None"
  by (auto simp: find_level_def)

lemma dm_get_default_cong:
  "n_fqdn h = n_fqdn n \<Longrightarrow> List.map lower_str (n_labels h) = List.map lower_str (n_labels n) \<Longrightarrow>
   dm_get m (WDefault h) = dm_get m (WDefault n)"
proof -
  assume "n_fqdn h = n_fqdn n" "List.map lower_str (n_labels h) = List.map lower_str (n_labels n)"
  then have "to_lowercase h = to_lowercase n" by (intro dname_eqI) (simp_all add: to_lowercase_def)
  then show ?thesis by (simp add: dm_get_def)
qed

text \<open>A name that is a key covers every name below it.\<close>

lemma find_from_below:
  assumes "dm_get m (WDefault h) \<noteq> None" "n_fqdn h" "zone_of h name"
  shows "find_from glob m lvl last0 name \<noteq> None"
  using assms
proof (induction glob m lvl last0 name rule: find_from.induct)
  case (1 glob m lvl last0 name)
  show ?case
  proof (cases "find_level glob m lvl last0 name")
    case None
    then have d: "dm_get m (WDefault name) = None" using find_level_default [of m name glob lvl last0] by blast
    show ?thesis
    proof (cases "n_fqdn name")
      case False
      have "zone_of h (set_fqdn True name)" using "1.prems" by (simp add: zone_of_iff)
      then show ?thesis using "1.IH"(1) [OF None] "1.prems" None False by (subst find_from.simps) simp
    next
      case True
      obtain p where p: "List.map lower_str (n_labels name) = p @ List.map lower_str (n_labels h)"
        using "1.prems" by (auto simp: zone_of_iff)
      have "p \<noteq> []" using d "1.prems" True p dm_get_default_cong [of h name m] by auto
      then obtain x p' where x: "p = x # p'" by (cases p) auto
      then have ne: "n_labels name \<noteq> []" using p by auto
      have "List.map lower_str (n_labels (base_name name)) = p' @ List.map lower_str (n_labels h)"
        using p x by (simp add: map_tl)
      then have "zone_of h (base_name name)" by (auto simp: zone_of_iff)
      moreover have "\<not> is_root name" using ne by (simp add: is_root_def)
      ultimately show ?thesis using "1.IH"(2) [OF None] "1.prems" None True by (subst find_from.simps) simp
    qed
  qed (subst find_from.simps, simp)
qed

lemma dm_find_below:
  assumes "dm_get m (WDefault h) \<noteq> None" "n_fqdn h" "zone_of h n" "\<not> is_wildcard n"
  shows "dm_find glob m n \<noteq> None"
proof -
  have "dm_map m \<noteq> []" using assms(1) by (auto simp: dm_get_def)
  then show ?thesis using assms find_from_below [OF assms(1,2,3), of glob 0 n] by (simp add: dm_find_def Let_def)
qed

lemma dm_find_vals: "dm_find glob m n = Some v \<Longrightarrow> \<exists>k. dm_get m k = Some v"
  by (auto simp: dm_find_def Let_def dest: find_from_vals split: if_splits)

text \<open>The leases that are read: what a line gives, and nothing else.\<close>

lemma read_lease_file_vals:
  assumes "dm_get (read_lease_file parse_ip parse_name zone now_ts lines) k = Some c"
  shows "\<exists>l \<in> set lines. lease_of_line parse_ip parse_name zone now_ts l = Some c"
proof -
  have "c \<in> snd ` set (lease_entries (List.map_filter (lease_of_line parse_ip parse_name zone now_ts) lines) [])"
    using dm_get_from_iter_vals [OF assms [unfolded read_lease_file_def]] by (simp add: dm_empty_def dm_get_def)
  then show ?thesis using lease_entries_vals by (fastforce simp: set_map_filter)
qed

lemma read_lease_file_keys:
  assumes "l \<in> set lines" "lease_of_line parse_ip parse_name zone now_ts l = Some c" "\<not> is_wildcard (ci_host c)"
  shows "dm_get (read_lease_file parse_ip parse_name zone now_ts lines) (WDefault (ci_host c)) \<noteq> None"
proof -
  let ?cs = "List.map_filter (lease_of_line parse_ip parse_name zone now_ts) lines"
  have "c \<in> set ?cs" using assms(1,2) by (auto simp: set_map_filter)
  then have "w_canon (w_of_name (ci_host c)) \<in> fst ` set (lease_entries ?cs [])"
    by (simp add: lease_entries_keys)
  then have "dm_get (dm_from_iter (lease_entries ?cs []) dm_empty) (WDefault (to_lowercase (ci_host c))) \<noteq> None"
    using assms(3) dm_get_from_iter by (simp add: w_of_name_def)
  then show ?thesis by (simp add: read_lease_file_def dm_get_def)
qed

lemma lease_of_line_host:
  "lease_of_line parse_ip parse_name zone now_ts l = Some c \<Longrightarrow> n_fqdn (ci_host c) \<and> \<not> is_expired now_ts c"
  by (auto simp: lease_of_line_def Let_def is_expired_def split: option.splits if_splits)

section \<open>Lemmas about the middleware\<close>

definition ip_rdata :: "ip_addr \<Rightarrow> rdata" where
  "ip_rdata ip = (case ip of IpV4 v \<Rightarrow> RD_A v | IpV6 v \<Rightarrow> RD_AAAA v)"

lemma lease_lookup_found:
  assumes "find_client glob zone store n = Some c" "t = RT_A \<or> t = RT_AAAA"
  shows "\<exists>ds. lease_lookup glob zone (Some store) n t = Some ds \<and> (\<forall>d \<in> set ds. d = ip_rdata (ci_ip c) \<and> rd_type d = t)"
  using assms by (auto simp: lease_lookup_def ip_rdata_def split: ip_addr.splits)

lemma find_client_vals: "find_client glob zone store n = Some c \<Longrightarrow> \<exists>k. dm_get store k = Some c"
  unfolding find_client_def Let_def
  by (auto dest: dm_find_vals split: option.splits if_splits sum.splits)

lemma find_client_below:
  assumes "dm_get store (WDefault h) \<noteq> None" "n_fqdn h" "n_fqdn n" "zone_of h n" "\<not> is_wildcard n"
  shows "\<exists>c. find_client glob zone store n = Some c"
  using dm_find_below [OF assms(1,2,4,5), of glob] assms(3) by (auto simp: find_client_def Let_def)

lemma dnsmasq_mw_found:
  assumes "lease_lookup glob zone clients (rq_lower_name req) (q_type (rq_query req)) = Some ds"
  shows "\<exists>r. dnsmasq_mw ev glob zone clients run_next ctx req w = (Inr r, ctx\<lparr>cx_source := LF_Static\<rparr>, w) \<and>
    r_answers r = List.map (from_rdata (q_name (rq_query req)) (ucast (cx_local_ttl ctx))) ds \<and>
    (ds = [] \<longrightarrow> m_authorities (r_message r) \<noteq> [])"
  using assms
  by (auto simp: dnsmasq_mw_def Let_def new_with_deadline_def r_answers_def r_sync_header_counts_def m_add_answers_def
      m_add_query_def m_to_response_def message_query_def message_new_def r_add_authority_def m_add_authority_def)

lemma zone_of_lower [simp]: "zone_of z (to_lowercase n) = zone_of z n"
  by (simp add: zone_of_def)

lemma is_wildcard_lower [simp]: "is_wildcard (to_lowercase n) = is_wildcard n"
proof -
  have "char_of (of_char a + 32 :: nat) \<noteq> CHR ''*''" if "65 \<le> (of_char a :: nat)" "(of_char a :: nat) \<le> 90" for a
  proof
    assume "char_of (of_char a + 32 :: nat) = CHR ''*''"
    then have "of_char (char_of (of_char a + 32 :: nat)) = (of_char (CHR ''*'') :: nat)" by simp
    then show False using that by simp
  qed
  then have "lower_str l = ''*'' \<longleftrightarrow> l = ''*''" for l
    by (cases l) (auto simp: lower_str_def lower_char_def split: if_splits)
  then show ?thesis by (simp add: is_wildcard_def to_lowercase_def split: list.splits)
qed

section \<open>Properties\<close>

text \<open>The name of a client with a lease that has not expired, and every name below it, is answered from the
  lease file alone: the rest of the chain, and with it every upstream server, is not run and no state changes. Each
  record of the answer holds the address of a lease of the file that has not expired, in the family that was
  asked for; without such an address the answer is empty and carries the start of authority by which clients
  may keep it.\<close>

theorem leases_stay_local:
  assumes "line \<in> set lines" "lease_of_line parse_ip parse_name zone now_ts line = Some c" "\<not> is_wildcard (ci_host c)"
    and "n_fqdn (q_name (rq_query req))" "zone_of (ci_host c) (q_name (rq_query req))"
    and "\<not> is_wildcard (q_name (rq_query req))" "q_type (rq_query req) = RT_A \<or> q_type (rq_query req) = RT_AAAA"
  shows "\<exists>r. dnsmasq_mw ev glob zone (Some (read_lease_file parse_ip parse_name zone now_ts lines)) run_next ctx req w =
      (Inr r, ctx\<lparr>cx_source := LF_Static\<rparr>, w) \<and>
    (\<forall>x \<in> set (r_answers r). rr_type x = q_type (rq_query req) \<and>
       (\<exists>l \<in> set lines. \<exists>c'. lease_of_line parse_ip parse_name zone now_ts l = Some c' \<and> \<not> is_expired now_ts c' \<and>
          rr_data x = ip_rdata (ci_ip c'))) \<and>
    (r_answers r = [] \<longrightarrow> m_authorities (r_message r) \<noteq> [])"
proof -
  let ?store = "read_lease_file parse_ip parse_name zone now_ts lines"
  obtain c' where c': "find_client glob zone ?store (rq_lower_name req) = Some c'"
    using find_client_below [OF read_lease_file_keys [OF assms(1-3)], of "rq_lower_name req" glob zone] assms(4-6)
      lease_of_line_host [OF assms(2)] by (auto simp: rq_lower_name_def)
  obtain l where l: "l \<in> set lines" "lease_of_line parse_ip parse_name zone now_ts l = Some c'"
    using find_client_vals [OF c'] read_lease_file_vals by blast
  obtain ds where ds: "lease_lookup glob zone (Some ?store) (rq_lower_name req) (q_type (rq_query req)) = Some ds"
    "\<forall>d \<in> set ds. d = ip_rdata (ci_ip c') \<and> rd_type d = q_type (rq_query req)"
    using lease_lookup_found [OF c' assms(7)] by blast
  show ?thesis using dnsmasq_mw_found [OF ds(1), of ev run_next ctx w] ds(2) l lease_of_line_host [OF l(2)]
    by (fastforce simp: from_rdata_def rr_type_def)
qed

definition demo_leases :: "string option list" where
  "demo_leases = [Some ''4102444800 c5:65 192.168.1.16 Andy-PC 01:c5'', None, Some ''# 1 a 192.168.1.66 x y'']"

definition demo_parse_ip :: "string \<Rightarrow> ip_addr option" where
  "demo_parse_ip s =
     (if s = ''192.168.1.16'' then Some (IpV4 0xC0A80110)
      else if s = ''192.168.1.66'' then Some (IpV4 0xC0A80142) else None)"

definition demo_parse_name :: "string \<Rightarrow> dname option" where
  "demo_parse_name s = (case from_ascii s of Inr n \<Rightarrow> Some n | Inl _ \<Rightarrow> None)"

definition demo_lease :: client_lease where
  "demo_lease = \<lparr>ci_id = ''01:c5'', ci_ip = IpV4 0xC0A80110, ci_host = fqdn [''Andy-PC'', ''lan''], ci_mac = ''c5:65'',
     ci_expires_at = 4102444800\<rparr>"

theorem leases_stay_local_witness:
  "\<exists>r. dnsmasq_mw \<lparr>ev_now = 0, ev_rid = 1, ev_build = 5\<rparr> (\<lambda>_ _. True) (Some (fqdn [''lan'']))
     (Some (read_lease_file demo_parse_ip demo_parse_name (Some (fqdn [''lan''])) 1700000000 demo_leases))
     (\<lambda>ctx req w. (Inl no_connections, ctx, w)) undefined
     (request_of_query 7 (query_query (fqdn [''andy-pc'', ''LAN'']) RT_A)) (0 :: nat) =
       (Inr r, undefined\<lparr>cx_source := LF_Static\<rparr>, 0)"
proof -
  let ?req = "request_of_query 7 (query_query (fqdn [''andy-pc'', ''LAN'']) RT_A)"
  have l: "Some ''4102444800 c5:65 192.168.1.16 Andy-PC 01:c5'' \<in> set demo_leases" by (simp add: demo_leases_def)
  have c: "lease_of_line demo_parse_ip demo_parse_name (Some (fqdn [''lan''])) 1700000000
      (Some ''4102444800 c5:65 192.168.1.16 Andy-PC 01:c5'') = Some demo_lease"
    by code_simp
  have h: "\<not> is_wildcard (ci_host demo_lease)" by code_simp
  have q: "n_fqdn (q_name (rq_query ?req))" "zone_of (ci_host demo_lease) (q_name (rq_query ?req))"
    "\<not> is_wildcard (q_name (rq_query ?req))" by code_simp+
  have t: "q_type (rq_query ?req) = RT_A \<or> q_type (rq_query ?req) = RT_AAAA"
    by (simp add: request_of_query_def query_query_def)
  show ?thesis by (rule ex_forward [OF leases_stay_local [OF l c h q t]]) blast
qed

section \<open>Where the lookup says more than the leases\<close>

text \<open>The names of the leases are keys of a map of domain rules, where a name stands for everything below it: a
  client that calls itself \<open>com\<close> answers for every name under \<open>com\<close>, and with a local zone too, since a
  name outside the zone is looked up again with the zone appended.\<close>

theorem client_takes_names_below:
  "lease_lookup (\<lambda>_ _. False) None
     (Some (read_lease_file demo_parse_ip demo_parse_name None 0 [Some ''0 aa 192.168.1.66 com *'']))
     (fqdn [''www'', ''example'', ''com'']) RT_A = Some [RD_A 0xC0A80142]"
  "lease_lookup (\<lambda>_ _. False) (Some (fqdn [''lan'']))
     (Some (read_lease_file demo_parse_ip demo_parse_name (Some (fqdn [''lan''])) 0 [Some ''0 aa 192.168.1.66 com *'']))
     (fqdn [''www'', ''example'', ''com'']) RT_A = Some [RD_A 0xC0A80142]"
  by code_simp+

text \<open>The lease file writes \<open>*\<close> for a client without a name. The entry is read as a pattern: every unknown name
  of the zone gets the address of such a client.\<close>

theorem nameless_client_takes_all_names:
  "lease_lookup (\<lambda>_ _. False) (Some (fqdn [''lan'']))
     (Some (read_lease_file demo_parse_ip demo_parse_name (Some (fqdn [''lan''])) 0 [Some ''0 aa 192.168.1.66 * *'']))
     (fqdn [''printer'', ''lan'']) RT_A = Some [RD_A 0xC0A80142]"
  by code_simp

section \<open>The cache follows the file\<close>

text \<open>Lookups one after the other, at the times of the list, over a file whose time stamp and lines are functions
  of time. \<open>clock\<close> is the wall clock by which the expiry of a lease is judged.\<close>

fun lease_run ::
    "(int \<Rightarrow> int option) \<Rightarrow> (int \<Rightarrow> client_lease dmap) \<Rightarrow> int list \<Rightarrow> lease_cache option \<Rightarrow>
     (int \<times> client_lease dmap option) list" where
  "lease_run stamp content [] cache = []"
| "lease_run stamp content (now # later) cache =
     (case cached_clients now (stamp now) (Some (content now)) cache of
        (res, cache') \<Rightarrow> (now, res) # lease_run stamp content later cache')"

definition lease_cache_ok ::
    "(int \<Rightarrow> int option) \<Rightarrow> (int \<Rightarrow> client_lease dmap) \<Rightarrow> lease_cache option \<Rightarrow> bool" where
  "lease_cache_ok stamp content cache \<longleftrightarrow>
     (\<forall>c. cache = Some c \<longrightarrow> lc_modified_at c = stamp (lc_checked_at c) \<and>
        (\<exists>s0 \<le> lc_checked_at c. stamp s0 = stamp (lc_checked_at c) \<and> lc_clients c = content s0))"

lemma cached_clients_step:
  assumes "cached_clients now (stamp now) (Some (content now)) cache = (res, cache')"
    "lease_cache_ok stamp content cache" "\<forall>c. cache = Some c \<longrightarrow> lc_checked_at c \<le> now"
  shows "\<exists>c. cache' = Some c \<and> res = Some (lc_clients c) \<and> lc_checked_at c \<le> now \<and>
    now - lc_checked_at c < LEASE_FILE_STAT_INTERVAL \<and> lease_cache_ok stamp content cache'"
proof -
  have i: "0 < LEASE_FILE_STAT_INTERVAL" by (simp add: LEASE_FILE_STAT_INTERVAL_def secs_def)
  show ?thesis
  proof (cases cache)
    case None
    then show ?thesis using assms i
      by (auto simp: cached_clients_def lease_fresh_def lease_unchanged_def lease_refresh_def lease_cache_ok_def)
  next
    case (Some c)
    consider "now - lc_checked_at c < LEASE_FILE_STAT_INTERVAL"
      | "\<not> now - lc_checked_at c < LEASE_FILE_STAT_INTERVAL" "lc_modified_at c = stamp now"
      | "\<not> now - lc_checked_at c < LEASE_FILE_STAT_INTERVAL" "lc_modified_at c \<noteq> stamp now" by blast
    then show ?thesis
    proof cases
      case 2
      obtain s0 where "s0 \<le> lc_checked_at c" "stamp s0 = stamp (lc_checked_at c)" "lc_clients c = content s0"
        "lc_modified_at c = stamp (lc_checked_at c)"
        using assms(2) Some by (auto simp: lease_cache_ok_def)
      moreover have "lc_checked_at c \<le> now" using assms(3) Some by simp
      moreover have "cache' = Some (c\<lparr>lc_checked_at := now\<rparr>) \<and> res = Some (lc_clients c)"
        using assms(1) Some 2 by (simp add: cached_clients_def lease_fresh_def lease_unchanged_def)
      ultimately show ?thesis using 2 i by (auto simp: lease_cache_ok_def intro!: exI [of _ s0])
    qed (use assms Some i in \<open>auto simp: cached_clients_def lease_fresh_def lease_unchanged_def lease_refresh_def
        lease_cache_ok_def\<close>)
  qed
qed

lemma lease_run_follows:
  assumes "sorted moments" "lease_cache_ok stamp content cache"
    "\<forall>c. cache = Some c \<longrightarrow> (\<forall>t \<in> set moments. lc_checked_at c \<le> t)" "(now, res) \<in> set (lease_run stamp content moments cache)"
  shows "\<exists>s s0. now - LEASE_FILE_STAT_INTERVAL < s \<and> s \<le> now \<and> s0 \<le> s \<and> stamp s0 = stamp s \<and> res = Some (content s0)"
  using assms
proof (induction stamp content moments cache rule: lease_run.induct)
  case (2 stamp content t later cache)
  obtain r cache' where st: "cached_clients t (stamp t) (Some (content t)) cache = (r, cache')" by fastforce
  obtain c where c: "cache' = Some c" "r = Some (lc_clients c)" "lc_checked_at c \<le> t"
      "t - lc_checked_at c < LEASE_FILE_STAT_INTERVAL" "lease_cache_ok stamp content cache'"
    using cached_clients_step [OF st "2.prems"(2)] "2.prems"(3) by auto
  obtain s0 where s0: "s0 \<le> lc_checked_at c" "stamp s0 = stamp (lc_checked_at c)" "lc_clients c = content s0"
    using c(1,5) by (auto simp: lease_cache_ok_def)
  show ?case
  proof (cases "(now, res) = (t, r)")
    case True
    then show ?thesis using c s0 by (intro exI [of _ "lc_checked_at c"] exI [of _ s0]) auto
  next
    case False
    then have "(now, res) \<in> set (lease_run stamp content later cache')" using "2.prems"(4) st by auto
    then show ?thesis using "2.IH" [OF st [symmetric]] "2.prems"(1) c by fastforce
  qed
qed simp

text \<open>While the file can be read and a change of its lines changes its time stamp, every lookup sees the
  lines that the file held at some moment of the last two seconds. The moment at which the expiry of the leases was
  judged may lie further back: it is the last time the file was read, not the time of the lookup.\<close>

theorem leases_follow_file:
  assumes "\<forall>s t. stamp s = stamp t \<longrightarrow> lines s = lines t" "sorted moments"
    and "(now, res) \<in> set (lease_run stamp (\<lambda>t. read_lease_file parse_ip parse_name zone (clock t) (lines t)) moments None)"
  shows "\<exists>s s0. now - LEASE_FILE_STAT_INTERVAL < s \<and> s \<le> now \<and> s0 \<le> s \<and>
    res = Some (read_lease_file parse_ip parse_name zone (clock s0) (lines s))"
proof -
  obtain s s0 where "now - LEASE_FILE_STAT_INTERVAL < s" "s \<le> now" "s0 \<le> s" "stamp s0 = stamp s"
      "res = Some (read_lease_file parse_ip parse_name zone (clock s0) (lines s0))"
    using lease_run_follows [OF assms(2) _ _ assms(3)] by (auto simp: lease_cache_ok_def)
  then show ?thesis using assms(1) by metis
qed

theorem leases_follow_file_witness:
  "\<exists>s s0. secs 1 - LEASE_FILE_STAT_INTERVAL < s \<and> s \<le> secs 1 \<and> s0 \<le> s \<and>
    snd (last (lease_run (\<lambda>_. Some 7) (\<lambda>t. read_lease_file demo_parse_ip demo_parse_name None (t div secs 1) demo_leases)
      [0, secs 1] None)) = Some (read_lease_file demo_parse_ip demo_parse_name None (s0 div secs 1) demo_leases)"
proof -
  let ?content = "\<lambda>t. read_lease_file demo_parse_ip demo_parse_name None (t div secs 1) demo_leases"
  have run: "lease_run (\<lambda>_. Some 7) ?content [0, secs 1] None = [(0, Some (?content 0)), (secs 1, Some (?content 0))]"
    by (simp add: cached_clients_def lease_fresh_def lease_unchanged_def lease_refresh_def LEASE_FILE_STAT_INTERVAL_def
        secs_def)
  have sorted: "sorted [0, secs 1]" by (simp add: secs_def)
  have "(secs 1, Some (?content 0)) \<in> set (lease_run (\<lambda>_. Some 7) ?content [0, secs 1] None)" unfolding run by simp
  from leases_follow_file [where lines = "\<lambda>_. demo_leases" and clock = "\<lambda>t. t div secs 1", OF _ sorted this]
  show ?thesis unfolding run by simp
qed

text \<open>A lease that has expired is not read, but one that expires after the file was read is served for as long as
  the time stamp of the file stays.\<close>

theorem expired_lease_is_served:
  "lease_of_line demo_parse_ip demo_parse_name None 10 (Some ''5 aa 192.168.1.16 pc *'') = None"
  "Option.bind (snd (last (lease_run (\<lambda>_. Some 0)
       (\<lambda>t. read_lease_file demo_parse_ip demo_parse_name None (t div secs 1) [Some ''5 aa 192.168.1.16 pc *''])
       [0, secs 10] None)))
     (\<lambda>store. find_client (\<lambda>_ _. False) None store (fqdn [''pc''])) \<noteq> None"
  by code_simp+

end
