(* ===== verification/Spec2Isabelle.thy ===== *)
theory Spec2Isabelle
  imports Trusted_Proxy Limits Mw_Address Mw_Dns64 Mw_Cname Mw_Client Single_Flight Cache_Wire Upstream Mw_Nameserver Mw_Dualstack Listeners Serve_Loop Zones Leases
begin

text \<open>
  A verification development of smartdns-edge, a DNS server that forwards queries to groups of upstream
  servers and answers from rules and from a cache (\<open>src/src\<close>), together with the part of the vendored
  DNS library it stands on (\<open>src/hickory-dns/crates/proto\<close>, written \<open>hickory\<close> below).

  \<^bold>\<open>The path of a query.\<close> A listener takes octets from a socket, limits the connections
  (\<open>Limits\<close>), finds the client behind trusted proxies (\<open>Trusted_Proxy\<close>) and hands the octets on; the
  octets become a message (\<open>Message_Wire\<close> over \<open>Rdata_Wire\<close>, \<open>Name_Wire\<close> and \<open>Dns_Types\<close>) and the message
  a request. The search
  (\<open>Mw_Client\<close>) admits it under the limit on queries and the access control, builds its context from the
  configuration (\<open>Config\<close>, \<open>Domain_Map\<close>, \<open>Domain_Rules\<close>, \<open>Runtime_Config\<close>) and runs the chain of
  middlewares (\<open>Middleware\<close>): the CNAME and force-no-CNAME rules and bogus answers (\<open>Mw_Cname\<close>), DNS64
  (\<open>Mw_Dns64\<close>), addresses and forced SOA (\<open>Mw_Address\<close>), the cache (\<open>Cache_Mw\<close> over \<open>Cache_Store\<close>,
  with \<open>Single_Flight\<close> and the file of \<open>Cache_File\<close>), the local zones and leases (\<open>Zones\<close>, \<open>Leases\<close>), the dual-stack selection (\<open>Mw_Dualstack\<close>) and last
  the name servers (\<open>Mw_Nameserver\<close>), which look addresses up at several servers (\<open>Lookup_Ip\<close>), probe
  them (\<open>Ping_Race\<close>) and talk to the upstream client (\<open>Upstream\<close>, \<open>Bootstrap\<close>). What the search gives becomes the reply, in
  octets again (\<open>App\<close>), inside of the loop that gives every request a task (\<open>Serve_Loop\<close>). The listeners themselves, opened, closed and retried, are \<open>Listeners\<close>.

  \<^bold>\<open>Theories and sources.\<close>
  \<^item> \<open>Prelude\<close>, \<open>Net_Addr\<close>, \<open>Fmt\<close>: the standard library's part: results as sums, orderings, ASCII case,
    least and greatest elements, IP addresses, the printing of numbers and addresses; the collections of
    simplification rules the components share.
  \<^item> \<open>Dns_Types\<close> (\<open>hickory/src/rr/record_type.rs\<close>, \<open>op/header.rs\<close>, \<open>op/response_code.rs\<close>, \<open>op/op_code.rs\<close>):
    record types, codes and the header with its octets. \<open>Domain_Name\<close>, \<open>Name_Text\<close>, \<open>Name_Wire\<close>
    (\<open>rr/domain/name.rs\<close>, \<open>rr/domain/label.rs\<close>, \<open>serialize/binary\<close>): names, their text with escapes, and
    their wire format with compression pointers. \<open>Dns_Message\<close> (\<open>rr/resource.rs\<close>, \<open>op/message.rs\<close>,
    \<open>op/edns.rs\<close>, \<open>src/src/dns.rs\<close>, \<open>src/src/dns_error.rs\<close>): records, messages, the response type of the
    server and its errors.
  \<^item> \<open>Wire\<close>, \<open>Rdata_Wire\<close>, \<open>Message_Wire\<close>, \<open>Message_Read\<close> (\<open>hickory/src/serialize/binary/decoder.rs\<close>,
    \<open>encoder.rs\<close>, \<open>rr/record_data.rs\<close>, \<open>rr/rdata\<close>, \<open>rr/record_type_set.rs\<close>, \<open>rr/resource.rs\<close>, \<open>op/query.rs\<close>,
    \<open>op/edns.rs\<close>, \<open>op/message.rs\<close>): the codec of messages. A reader takes all octets and its index, an emitter
    the encoder; an error of the encoder comes with the encoder, so that a record that does not fit is rolled
    back as the code does it. There is a reader and an emitter for the data of every type the build knows.
  \<^item> \<open>Config\<close>, \<open>Domain_Map\<close>, \<open>Domain_Rules\<close>, \<open>Runtime_Config\<close> (\<open>config/*.rs\<close>, \<open>collections.rs\<close>,
    \<open>dns_rule.rs\<close>, \<open>dns_conf.rs\<close>): the configuration as data, the map from domain patterns, the table of
    rules with its links to enclosing rules, and every getter a query uses with its cascade of rule,
    group and global setting.
  \<^item> \<open>Trusted_Proxy\<close> (\<open>trusted_proxy.rs\<close>), \<open>Limits\<close> (\<open>server/limit.rs\<close>), \<open>Listeners\<close> (\<open>app.rs\<close>,
    \<open>config/bind_addr.rs\<close>), \<open>App\<close> (\<open>app.rs\<close>: \<open>process\<close>; \<open>dns.rs\<close>: \<open>SerialMessage\<close>; \<open>server/mod.rs\<close>:
    \<open>DnsHandle\<close>; \<open>server/udp.rs\<close>) and \<open>Serve_Loop\<close> (\<open>app.rs\<close>: the loop of \<open>serve\<close>).
  \<^item> \<open>Middleware\<close> (\<open>infra/middleware.rs\<close>, \<open>dns.rs\<close>), \<open>Mw_Client\<close> (\<open>dns_mw.rs\<close>), \<open>Mw_Cname\<close>
    (\<open>dns_mw_cname.rs\<close>, \<open>dns_mw_force_no_cname.rs\<close>, \<open>dns_mw_bogus.rs\<close>), \<open>Mw_Dns64\<close> (\<open>dns_mw_dns64.rs\<close>),
    \<open>Mw_Address\<close> (\<open>dns_mw_addr.rs\<close>), \<open>Mw_Dualstack\<close> (\<open>dns_mw_dualstack.rs\<close>), \<open>Mw_Nameserver\<close>, \<open>Lookup_Ip\<close>
    and \<open>Ping_Race\<close> (\<open>dns_mw_ns.rs\<close>).
  \<^item> \<open>Cache_Store\<close>, \<open>Cache_Mw\<close>, \<open>Single_Flight\<close>, \<open>Cache_File\<close> and \<open>Cache_Wire\<close> (\<open>dns_mw_cache.rs\<close>: the last
    writes the entries of the file with the codec of messages), \<open>Upstream\<close> and
    \<open>Bootstrap\<close> (\<open>dns_client.rs\<close>).
  \<^item> \<open>Arpa\<close> (\<open>hickory/src/rr/domain/name.rs\<close>: the names of reverse lookups), \<open>Zones\<close> (\<open>zone\<close>,
    \<open>dns_mw_zone.rs\<close>: private reverse names, the identity of the server, SRV and HTTPS rules) and \<open>Leases\<close>
    (\<open>dnsmasq.rs\<close>, \<open>dns_mw_dnsmasq.rs\<close>: the lease file, its cache and its lookup).

  \<^bold>\<open>How code becomes definitions.\<close> A struct is a record, an enum a datatype, an integer of \<open>w\<close> bits a
  \<open>w word\<close>; \<open>Result\<close> is a sum with the error on the left; a method that changes its receiver returns the
  changed value. An async operation that awaits is a function of what it waits for: the order in which
  answers and probes arrive is an argument (\<open>Upstream\<close>, \<open>Lookup_Ip\<close>, \<open>Ping_Race\<close>), and every theorem
  holds for every order. Operations of several threads on shared state (the limiters, the folding of
  queries, the listeners) are step relations; the theorems hold in every reachable state. Instants are
  integers of nanoseconds; the reading of a clock is an argument.

  \<^bold>\<open>What the groups of lemmas show.\<close>
  Names: the printer and the parser of text, and the writer and the reader of octets with compression,
  are inverse; reading ends on every input and yields a well-formed name. Messages: what is written without
  the truncation flag is read back, and the flag is set exactly if something is missing; reading ends on every
  input; what was read can be written, and a message that is read and written says the same. The proofs go
  through two notions of \<open>Wire\<close>, \<open>emits f r v\<close> (the reader \<open>r\<close> gets \<open>v\<close> from what \<open>f\<close> writes) and \<open>blind f\<close> (\<open>f\<close>
  does not look back, so a length or header may be filled in later), and \<open>reads k r Q\<close> of \<open>Message_Read\<close>
  (\<open>r\<close> never hangs, takes at least \<open>k\<close> octets and returns what satisfies \<open>Q\<close>), each closed under the ways the
  codecs are put together. Configuration: the lookup
  returns the best matching pattern, and the table of rules does not depend on the order of a hash map.
  Admission: no interleaving exceeds a limit, and counters are exact; a forged prefix of a forwarding
  header decides only if the genuine part names trusted addresses alone. Cache: it never outgrows its size, never holds a truncated answer, answers a
  second client, and its file is read back completely; one request leads the lookup of a key and every
  follower is answered. Upstream: the race refines a specification over the set of answers that arrived
  (\<open>may_return\<close>), which leaves open only which of several equally trusted answers it is and whether a truncated answer
  that arrived last was waited for; only
  addresses that pass the filters are returned, no server's answer is lost, and the TTL of a record
  lies in the limits. Listeners: no configured address is forgotten and none is served twice.
  Replies: every reply is the reply to its request, fits its datagram and, if it is sent back, gets no reply over UDP and only a refusal without records over a
  stream; every
  request gets one outcome, whatever the interleaving. Zones and leases: the reverse lookup of a private
  address and the name of a client with a lease stay local, and the leases in use stood in the file within the last
  two seconds, if every change of the file changes its time stamp. The
  findings of \<open>PROJECT.json\<close> name the theorems that show where the code departs from its comments.

  \<^bold>\<open>Parameters.\<close> Code outside \<open>src/\<close> and effects are arguments of the definitions that use them: the
  LRU cache of a shard (\<open>lru_ops\<close>, with a locale of its laws and an executable instance), hash functions,
  the membership of an address in a network, the glob of a pattern's label, the ARP table, the result and
  time of probes, message ids, random numbers, the opening of a socket (\<open>serve\<close> in \<open>Listeners\<close>), the
  transport of a query to a server, the order of arrivals.

  \<^bold>\<open>Bounds and termination.\<close> Every definition is total. The reader of names is a loop with fuel: a
  pointer must lead before the start of the name that is read and a name is at most 255 octets long, so
  \<open>index + 129\<close> iterations are enough (\<open>read_name_terminates\<close>). The loops of the other readers stop with
  \<open>RE_Stuck\<close> when a step takes no octet, where the code would go on for ever; this never happens
  (\<open>from_vec_not_stuck\<close>), and neither does a name that spends its fuel, which the readers report as
  \<open>RE_Stuck\<close> too. The rule table and the races are structural recursions.

  \<^bold>\<open>Not modelled.\<close> Sockets, tasks, timers and TLS; files and the parser of the configuration; the kernel
  sets of addresses; sending probes; the management interface over HTTP; the hosts files;
  IDNA conversion of names; DNSSEC signatures and keys, a feature the build has removed; the text forms of
  records. They are input and output, or the work of libraries, or code around the path of a query;
  \<open>PROJECT.json\<close> lists each part with its reason. One detail differs: when the data of a record is
  malformed, the model reports what is wrong with the data, while the code reports a wrong length if it had
  not taken all octets of the data by then. Both are errors, and no caller tells them apart.
\<close>

end
